(* ===== verification/Prelude.thy ===== *)
theory Prelude
  imports Main "HOL-Library.Word" "HOL-Library.Multiset" "HOL-Library.Sublist"
begin

text \<open>
  Shared vocabulary of the development: the machine types of the crate (Rust integers, the
  alloy primitives), Rust's checked and saturating operations on them, panics as values,
  an ordered map (\<open>BTreeMap\<close>) as a strictly sorted association list, \<open>HashMap\<close>
  entries that hold vectors, the wire codec interface, and the invariant rule for state
  machines. Every other theory imports this one.
\<close>

named_theorems wire_simps "unfolding rules of conversions between wire and domain types"
named_theorems upd_simps "effect of one operation on one field of a state"

section \<open>Machine types\<close>

type_synonym u8 = "8 word"
type_synonym u32 = "32 word"
type_synonym u64 = "64 word"
type_synonym u128 = "128 word"
type_synonym u256 = "256 word"    \<comment> \<open>alloy \<open>U256\<close>\<close>
type_synonym i256 = "256 word"    \<comment> \<open>alloy \<open>I256\<close>, read with \<^const>\<open>sint\<close>\<close>
type_synonym b256 = "256 word"    \<comment> \<open>alloy \<open>B256\<close>: a 32-byte hash\<close>
type_synonym address = "160 word" \<comment> \<open>alloy \<open>Address\<close>\<close>
type_synonym bytes = "u8 list"

text \<open>
  \<open>usize\<close> is 64 bits wide on the supported targets. Lengths and indices of vectors are
  \<open>nat\<close> in the model, since a Rust vector never exceeds \<open>isize::MAX\<close> bytes.
\<close>

definition u64_max :: nat where
  "u64_max = 2 ^ 64 - 1"

definition saturating_sub :: "'a::len word \<Rightarrow> 'a word \<Rightarrow> 'a word" where
  "saturating_sub a b = (if b \<le> a then a - b else 0)"

definition saturating_add :: "'a::len word \<Rightarrow> 'a word \<Rightarrow> 'a word" where
  "saturating_add a b = (if unat a + unat b < 2 ^ LENGTH('a) then a + b else - 1)"

definition checked_add :: "'a::len word \<Rightarrow> 'a word \<Rightarrow> 'a word option" where
  "checked_add a b = (if unat a + unat b < 2 ^ LENGTH('a) then Some (a + b) else None)"

definition checked_mul :: "'a::len word \<Rightarrow> 'a word \<Rightarrow> 'a word option" where
  "checked_mul a b = (if unat a * unat b < 2 ^ LENGTH('a) then Some (a * b) else None)"

lemma unat_saturating_sub: "unat (saturating_sub a b) = unat a - unat b"
  by (auto simp: saturating_sub_def unat_sub word_le_nat_alt)

lemma unat_saturating_add:
  fixes a b :: "'a::len word"
  shows "unat (saturating_add a b) = min (unat a + unat b) (2 ^ LENGTH('a) - 1)"
proof (cases "unat a + unat b < 2 ^ LENGTH('a)")
  case True
  then show ?thesis by (simp add: saturating_add_def unat_word_ariths)
next
  case False
  have "unat (- 1 :: 'a word) = 2 ^ LENGTH('a) - 1"
    by (simp add: unsigned_minus_1_eq_mask mask_eq_exp_minus_1)
  with False show ?thesis by (simp add: saturating_add_def)
qed

lemma checked_add_SomeD: "checked_add a b = Some c \<Longrightarrow> unat c = unat a + unat b"
  by (auto simp: checked_add_def unat_word_ariths split: if_splits)

lemma checked_mul_SomeD: "checked_mul a b = Some c \<Longrightarrow> unat c = unat a * unat b"
  by (auto simp: checked_mul_def unat_word_ariths split: if_splits)

lemma saturating_sub_0 [simp]: "saturating_sub 0 b = 0"
  by (auto simp: saturating_sub_def)

lemma saturating_sub_le: "saturating_sub a b \<le> a"
  by (simp add: word_le_nat_alt unat_saturating_sub)

lemma unat_u64_lt: "unat (w :: u64) < 2 ^ 64"
  using unsigned_less [of w] by simp

lemma unat_of_nat_u64: "k < 2 ^ 64 \<Longrightarrow> unat (of_nat k :: u64) = k"
  by (simp add: unat_of_nat)

lemma unat_add_one:
  fixes n :: "'a::len word"
  assumes "n \<noteq> - 1"
  shows "unat (n + 1) = Suc (unat n)"
proof -
  have "n + 1 \<noteq> 0" using assms by (metis eq_neg_iff_add_eq_0)
  then show ?thesis by (simp add: unatSuc add.commute)
qed

section \<open>Panics\<close>

text \<open>
  A Rust operation that may panic returns \<open>Inl\<close> of the panic. A \<open>Result::Err\<close> is a value
  of the component's own error datatype.
\<close>

datatype panic =
    IndexOutOfBounds
  | SliceOutOfRange
  | ArithmeticOverflow
  | AssertionFailed
  | UnwrapOnNone

text \<open>Slices \<open>&xs[a..b]\<close>: Rust panics when \<open>a > b\<close> or \<open>b > len\<close>.\<close>

definition slice_range :: "'a list \<Rightarrow> nat \<Rightarrow> nat \<Rightarrow> panic + 'a list" where
  "slice_range xs a b =
     (if a \<le> b \<and> b \<le> length xs then Inr (take (b - a) (drop a xs)) else Inl SliceOutOfRange)"

lemma slice_range_ok [simp]:
  "a \<le> b \<Longrightarrow> b \<le> length xs \<Longrightarrow> slice_range xs a b = Inr (take (b - a) (drop a xs))"
  by (simp add: slice_range_def)

lemma length_slice_range: "slice_range xs a b = Inr ys \<Longrightarrow> length ys = b - a"
  by (auto simp: slice_range_def split: if_splits)

section \<open>Ordered maps\<close>

text \<open>
  A \<open>BTreeMap\<close> is the list of its entries in strictly increasing key order, which is also
  the order of \<open>iter\<close> and \<open>iter_mut\<close>.
\<close>

definition bt_ok :: "('k::linorder \<times> 'v) list \<Rightarrow> bool" where
  "bt_ok xs = sorted_wrt (<) (map fst xs)"

fun bt_insert :: "'k::linorder \<Rightarrow> 'v \<Rightarrow> ('k \<times> 'v) list \<Rightarrow> ('k \<times> 'v) list" where
  "bt_insert k v [] = [(k, v)]"
| "bt_insert k v ((k', v') # xs) =
     (if k < k' then (k, v) # (k', v') # xs
      else if k = k' then (k, v) # xs
      else (k', v') # bt_insert k v xs)"

definition bt_modify :: "'k \<Rightarrow> ('v \<Rightarrow> 'v) \<Rightarrow> ('k \<times> 'v) list \<Rightarrow> ('k \<times> 'v) list" where
  "bt_modify k f xs = map (\<lambda>(k', v). if k' = k then (k', f v) else (k', v)) xs"

definition bt_remove :: "'k \<Rightarrow> ('k \<times> 'v) list \<Rightarrow> ('k \<times> 'v) list" where
  "bt_remove k xs = filter (\<lambda>(k', _). k' \<noteq> k) xs"

lemma bt_ok_Nil [simp]: "bt_ok []"
  by (simp add: bt_ok_def)

lemma bt_ok_distinct: "bt_ok xs \<Longrightarrow> distinct (map fst xs)"
  by (simp add: bt_ok_def strict_sorted_iff)

lemma map_of_bt_insert [simp]: "map_of (bt_insert k v xs) = (map_of xs)(k \<mapsto> v)"
  by (induction k v xs rule: bt_insert.induct) (auto simp: fun_eq_iff)

lemma set_keys_bt_insert [simp]: "fst ` set (bt_insert k v xs) = insert k (fst ` set xs)"
  by (induction k v xs rule: bt_insert.induct) auto

lemma bt_ok_insert: "bt_ok xs \<Longrightarrow> bt_ok (bt_insert k v xs)"
proof (induction k v xs rule: bt_insert.induct)
  case (2 k v k' v' xs)
  have keys: "set (map fst (bt_insert k v xs)) = insert k (set (map fst xs))"
    by simp
  from 2 show ?case
    by (auto simp: bt_ok_def keys simp del: set_map)
qed (simp add: bt_ok_def)

lemma keys_bt_modify [simp]: "map fst (bt_modify k f xs) = map fst xs"
  by (induction xs) (auto simp: bt_modify_def)

lemma bt_ok_modify [simp]: "bt_ok (bt_modify k f xs) = bt_ok xs"
  by (simp add: bt_ok_def)

lemma map_of_bt_modify [simp]:
  "map_of (bt_modify k f xs) k' = (if k' = k then map_option f (map_of xs k) else map_of xs k')"
  by (induction xs) (auto simp: bt_modify_def)

lemma map_of_bt_remove [simp]:
  "map_of (bt_remove k xs) k' = (if k' = k then None else map_of xs k')"
  by (induction xs) (auto simp: bt_remove_def)

lemma keys_bt_remove [simp]: "fst ` set (bt_remove k xs) = fst ` set xs - {k}"
  by (auto simp: bt_remove_def image_iff)

lemma bt_ok_remove: "bt_ok xs \<Longrightarrow> bt_ok (bt_remove k xs)"
  by (induction xs) (auto simp: bt_ok_def bt_remove_def)

section \<open>Hash maps of vectors\<close>

text \<open>
  \<open>map.entry(key(x)).or_default().push(x)\<close> over a sequence: each key holds the elements
  with that key, in order of occurrence.
\<close>

definition push_at :: "'k \<Rightarrow> 'v \<Rightarrow> ('k \<rightharpoonup> 'v list) \<Rightarrow> ('k \<rightharpoonup> 'v list)" where
  "push_at k v m = m(k \<mapsto> (case m k of None \<Rightarrow> [] | Some vs \<Rightarrow> vs) @ [v])"

definition group_by :: "('v \<Rightarrow> 'k) \<Rightarrow> 'v list \<Rightarrow> ('k \<rightharpoonup> 'v list)" where
  "group_by key xs = fold (\<lambda>x. push_at (key x) x) xs Map.empty"

lemma fold_push_at:
  "fold (\<lambda>x. push_at (key x) x) xs m k =
     (case m k of
        None \<Rightarrow> (if filter (\<lambda>x. key x = k) xs = [] then None else Some (filter (\<lambda>x. key x = k) xs))
      | Some vs \<Rightarrow> Some (vs @ filter (\<lambda>x. key x = k) xs))"
  by (induction xs arbitrary: m) (auto simp: push_at_def split: option.splits)

lemma group_by_lookup:
  "group_by key xs k =
     (if filter (\<lambda>x. key x = k) xs = [] then None else Some (filter (\<lambda>x. key x = k) xs))"
  by (simp add: group_by_def fold_push_at)

text \<open>\<open>map.get(k).and_then(|vs| vs.get(i))\<close>.\<close>

definition nth_opt :: "'a list \<Rightarrow> nat \<Rightarrow> 'a option" where
  "nth_opt xs i = (if i < length xs then Some (xs ! i) else None)"

lemma nth_opt_simps [simp]:
  "nth_opt [] i = None" "nth_opt (x # xs) 0 = Some x" "nth_opt (x # xs) (Suc i) = nth_opt xs i"
  by (simp_all add: nth_opt_def)

lemma nth_opt_eq_None [simp]: "nth_opt xs i = None \<longleftrightarrow> length xs \<le> i"
  by (simp add: nth_opt_def)

lemma nth_opt_SomeD: "nth_opt xs i = Some x \<Longrightarrow> i < length xs \<and> x = xs ! i \<and> x \<in> set xs"
  by (auto simp: nth_opt_def split: if_splits)

lemma group_by_nth:
  "Option.bind (group_by key xs k) (\<lambda>vs. nth_opt vs i) = nth_opt (filter (\<lambda>x. key x = k) xs) i"
  by (simp add: group_by_lookup)

text \<open>\<open>iter().position(..)\<close>.\<close>

fun position :: "('a \<Rightarrow> bool) \<Rightarrow> 'a list \<Rightarrow> nat option" where
  "position P [] = None"
| "position P (x # xs) = (if P x then Some 0 else map_option Suc (position P xs))"

lemma position_SomeD: "position P xs = Some i \<Longrightarrow> i < length xs \<and> P (xs ! i) \<and> (\<forall>j<i. \<not> P (xs ! j))"
  by (induction xs arbitrary: i) (auto split: if_splits simp: less_Suc_eq_0_disj nth_Cons')

lemma position_NoneD: "position P xs = None \<Longrightarrow> x \<in> set xs \<Longrightarrow> \<not> P x"
  by (induction xs) (auto split: if_splits)

section \<open>Invariants of state machines\<close>

text \<open>
  A property that every step keeps holds in every state reached from one where it holds;
  a reflexive and transitive relation that every step respects holds between the start and
  the end of every run.
\<close>

locale step_invariant =
  fixes step :: "'s \<Rightarrow> 's \<Rightarrow> bool"
    and inv :: "'s \<Rightarrow> bool"
  assumes preserved: "step s t \<Longrightarrow> inv s \<Longrightarrow> inv t"
begin

lemma reachable_inv: "rtranclp step s t \<Longrightarrow> inv s \<Longrightarrow> inv t"
  by (induction rule: rtranclp_induct) (auto intro: preserved)

end

locale step_progress = step_invariant +
  fixes rel :: "'s \<Rightarrow> 's \<Rightarrow> bool"
  assumes rel_refl: "rel s s"
    and rel_trans: "rel s t \<Longrightarrow> rel t u \<Longrightarrow> rel s u"
    and rel_step: "step s t \<Longrightarrow> inv s \<Longrightarrow> rel s t"
begin

lemma reachable_rel: "rtranclp step s t \<Longrightarrow> inv s \<Longrightarrow> rel s t"
proof (induction rule: rtranclp_induct)
  case base
  show ?case by (rule rel_refl)
next
  case (step t u)
  then have "inv t" by (blast intro: reachable_inv)
  with step show ?case by (blast intro: rel_step rel_trans)
qed

end

section \<open>Wire codecs\<close>

text \<open>
  A conversion between a domain type and a wire type: decoding what was encoded gives the
  value back. An exact codec also re-encodes every decodable wire value to itself.
  \<open>collect\<close> on an iterator of results is \<^const>\<open>those\<close>; \<open>filter_map(.. .ok())\<close> is
  \<^const>\<open>List.map_filter\<close>.
\<close>

locale wire_codec =
  fixes enc :: "'a \<Rightarrow> 'w"
    and dec :: "'w \<Rightarrow> 'a option"
  assumes dec_enc: "dec (enc x) = Some x"
begin

lemma enc_eq_iff: "enc x = enc y \<longleftrightarrow> x = y"
  by (metis dec_enc option.inject)

lemma enc_inj: "inj enc"
  by (rule injI) (simp add: enc_eq_iff)

lemma collect_enc: "those (map dec (map enc xs)) = Some xs"
  by (induction xs) (simp_all add: dec_enc)

lemma filter_map_enc: "List.map_filter dec (map enc xs) = xs"
  by (induction xs) (simp_all add: dec_enc List.map_filter_simps)

end

locale exact_codec = wire_codec +
  assumes enc_dec: "dec w = Some x \<Longrightarrow> enc x = w"
begin

lemma dec_eq_iff: "dec w = Some x \<longleftrightarrow> w = enc x"
  using dec_enc enc_dec by blast

lemma collect_dec: "those (map dec ws) = Some xs \<Longrightarrow> map enc xs = ws"
proof (induction ws arbitrary: xs)
  case (Cons w ws)
  then show ?case by (auto split: option.splits dest: enc_dec)
qed simp

end

end
