(* ===== verification/Entry_Queue.thy ===== *)
theory Entry_Queue
  imports Prelude
begin

text \<open>
  \<open>entry_queue.rs\<close>: the receipt queue of the hold-then-forward pattern. Every method takes
  the mutex for its whole body, so each is one atomic function on \<^typ>\<open>nat\<close>-free state;
  \<open>wait_confirmation\<close> is a loop of atomic checks with a park between them, modelled as a
  waiter process at the end of the theory. \<open>next_id\<close> is a \<open>u64\<close> that wraps in release
  builds, so pushing is only fresh while the counter has not reached its maximum.
\<close>

section \<open>State and operations\<close>

datatype queue_receipt = QueueReceipt u64

instantiation queue_receipt :: linorder
begin

fun less_eq_queue_receipt :: "queue_receipt \<Rightarrow> queue_receipt \<Rightarrow> bool" where
  "QueueReceipt a \<le> QueueReceipt b \<longleftrightarrow> a \<le> b"

fun less_queue_receipt :: "queue_receipt \<Rightarrow> queue_receipt \<Rightarrow> bool" where
  "QueueReceipt a < QueueReceipt b \<longleftrightarrow> a < b"

instance
proof
  fix x y z :: queue_receipt
  show "x < y \<longleftrightarrow> x \<le> y \<and> \<not> y \<le> x"
    by (cases x; cases y) auto
  show "x \<le> x"
    by (cases x) simp
  show "x \<le> y \<Longrightarrow> y \<le> z \<Longrightarrow> x \<le> z"
    by (cases x; cases y; cases z) simp
  show "x \<le> y \<Longrightarrow> y \<le> x \<Longrightarrow> x = y"
    by (cases x; cases y) simp
  show "x \<le> y \<or> y \<le> x"
    by (cases x; cases y) auto
qed

end

datatype receipt_state = Pending | Reserved | Confirmed

record queue_state =
  next_id :: u64
  items :: "(queue_receipt \<times> receipt_state) list"

definition new_queue :: queue_state where
  "new_queue = \<lparr>next_id = 0, items = []\<rparr>"

definition push :: "queue_state \<Rightarrow> queue_receipt \<times> queue_state" where
  "push q =
     (let id = next_id q; receipt = QueueReceipt id
      in (receipt, q\<lparr>next_id := id + 1, items := bt_insert receipt Pending (items q)\<rparr>))"

fun drain_items :: "nat \<Rightarrow> queue_receipt list \<Rightarrow> (queue_receipt \<times> receipt_state) list
    \<Rightarrow> queue_receipt list \<times> (queue_receipt \<times> receipt_state) list" where
  "drain_items max_n drained [] = (drained, [])"
| "drain_items max_n drained ((receipt, rs) # rest) =
     (if length drained \<ge> max_n then (drained, (receipt, rs) # rest)
      else if rs = Pending then
        (let (d, rest') = drain_items max_n (drained @ [receipt]) rest
         in (d, (receipt, Reserved) # rest'))
      else
        (let (d, rest') = drain_items max_n drained rest in (d, (receipt, rs) # rest')))"

definition drain_pending :: "nat \<Rightarrow> queue_state \<Rightarrow> queue_receipt list \<times> queue_state" where
  "drain_pending max_n q =
     (let (drained, its) = drain_items max_n [] (items q) in (drained, q\<lparr>items := its\<rparr>))"

definition confirm :: "queue_receipt list \<Rightarrow> queue_state \<Rightarrow> queue_state" where
  "confirm receipts q = q\<lparr>items :=
     fold (\<lambda>r. bt_modify r (\<lambda>rs. if rs = Reserved then Confirmed else rs)) receipts (items q)\<rparr>"

definition rollback :: "queue_receipt list \<Rightarrow> queue_state \<Rightarrow> queue_state" where
  "rollback receipts q = q\<lparr>items :=
     fold (\<lambda>r. bt_modify r (\<lambda>rs. if rs = Reserved then Pending else rs)) receipts (items q)\<rparr>"

definition remove :: "queue_receipt \<Rightarrow> queue_state \<Rightarrow> queue_state" where
  "remove receipt q = q\<lparr>items := bt_remove receipt (items q)\<rparr>"

definition queue_len :: "queue_state \<Rightarrow> nat" where
  "queue_len q = length (items q)"

definition queue_is_empty :: "queue_state \<Rightarrow> bool" where
  "queue_is_empty q = (items q = [])"

text \<open>One check of the \<open>wait_confirmation\<close> loop, under the lock.\<close>

datatype wait_result = Forward_Permit | Keep_Waiting | Evicted

definition wait_check :: "queue_receipt \<Rightarrow> queue_state \<Rightarrow> wait_result" where
  "wait_check receipt q =
     (case map_of (items q) receipt of
        Some Confirmed \<Rightarrow> Forward_Permit
      | Some _ \<Rightarrow> Keep_Waiting
      | None \<Rightarrow> Evicted)"

definition state_of :: "queue_state \<Rightarrow> queue_receipt \<Rightarrow> receipt_state option" where
  "state_of q r = map_of (items q) r"

text \<open>Well-formedness: keys strictly increasing and all below the counter.\<close>

definition queue_ok :: "queue_state \<Rightarrow> bool" where
  "queue_ok q \<longleftrightarrow> bt_ok (items q) \<and> (\<forall>r \<in> fst ` set (items q). r < QueueReceipt (next_id q))"

definition has_room :: "queue_state \<Rightarrow> bool" where
  "has_room q \<longleftrightarrow> next_id q \<noteq> - 1"

section \<open>The effect of each operation\<close>

definition pending_keys :: "(queue_receipt \<times> receipt_state) list \<Rightarrow> queue_receipt list" where
  "pending_keys its = map fst (filter (\<lambda>(_, rs). rs = Pending) its)"

lemma pending_keys_simps [simp]:
  "pending_keys [] = []"
  "pending_keys ((r, rs) # its) = (if rs = Pending then r # pending_keys its else pending_keys its)"
  by (simp_all add: pending_keys_def)

lemma drain_items_result:
  "drain_items m d its = (d', its') \<Longrightarrow> d' = d @ take (m - length d) (pending_keys its)"
  by (induction m d its arbitrary: d' its' rule: drain_items.induct)
    (auto split: if_splits prod.splits simp: take_Cons')

lemma drain_items_keys:
  "drain_items m d its = (d', its') \<Longrightarrow> map fst its' = map fst its"
  by (induction m d its arbitrary: d' its' rule: drain_items.induct)
    (auto split: if_splits prod.splits)

lemma set_pending_keys: "set (pending_keys its) \<subseteq> fst ` set its"
  by (auto simp: pending_keys_def)

lemma drain_items_map_of:
  assumes "drain_items m d its = (d', its')" and "distinct (map fst its)"
  shows "map_of its' r =
    (if r \<in> set (take (m - length d) (pending_keys its)) then Some Reserved else map_of its r)"
  using assms
proof (induction m d its arbitrary: d' its' rule: drain_items.induct)
  case (1 m d)
  then show ?case by simp
next
  case (2 m d receipt rs rest)
  note dist = \<open>distinct (map fst ((receipt, rs) # rest))\<close>
  have notin: "receipt \<notin> set (take n (pending_keys rest))" for n
    using dist set_pending_keys [of rest] by (auto dest: in_set_takeD)
  consider (full) "length d \<ge> m" | (pend) "length d < m" "rs = Pending"
    | (other) "length d < m" "rs \<noteq> Pending"
    by linarith
  then show ?case
  proof cases
    case full
    with 2 show ?thesis by simp
  next
    case pend
    obtain d1 its1 where rec: "drain_items m (d @ [receipt]) rest = (d1, its1)"
      by (meson surj_pair)
    with 2 pend have "its' = (receipt, Reserved) # its1" by simp
    moreover have "m - length d = Suc (m - Suc (length d))" using pend by simp
    ultimately show ?thesis
      using "2.IH"(1) [OF _ _ rec] pend dist notin by auto
  next
    case other
    obtain d1 its1 where rec: "drain_items m d rest = (d1, its1)"
      by (meson surj_pair)
    with 2 other have "its' = (receipt, rs) # its1" by simp
    then show ?thesis
      using "2.IH"(2) [OF _ _ rec] other dist notin by auto
  qed
qed

lemma fold_modify_keys [simp]:
  "map fst (fold (\<lambda>r. bt_modify r f) rs its) = map fst its"
  by (induction rs arbitrary: its) auto

lemma fold_modify_bt_ok [simp]: "bt_ok (fold (\<lambda>r. bt_modify r f) rs its) = bt_ok its"
  by (simp add: bt_ok_def)

lemma fold_modify_map_of:
  assumes "\<And>x. f (f x) = f x"
  shows "map_of (fold (\<lambda>r. bt_modify r f) rs its) r =
    (if r \<in> set rs then map_option f (map_of its r) else map_of its r)"
  by (induction rs arbitrary: its) (auto simp: option.map_comp o_def assms)

lemma confirm_idem: "(\<lambda>rs. if rs = Reserved then Confirmed else rs)
    ((\<lambda>rs. if rs = Reserved then Confirmed else rs) x) = (if x = Reserved then Confirmed else x)"
  by simp

lemma state_of_new [simp]: "state_of new_queue r = None"
  by (simp add: state_of_def new_queue_def)

lemma state_of_push [upd_simps]:
  "push q = (r, q') \<Longrightarrow> state_of q' = (state_of q)(r \<mapsto> Pending)"
  by (auto simp: push_def state_of_def Let_def)

lemma state_of_drain [upd_simps]:
  assumes "queue_ok q" and "drain_pending m q = (d, q')"
  shows "state_of q' r = (if r \<in> set d then Some Reserved else state_of q r)"
proof -
  obtain its' where its': "drain_items m [] (items q) = (d, its')" "q' = q\<lparr>items := its'\<rparr>"
    using assms(2) by (auto simp: drain_pending_def split: prod.splits)
  have "distinct (map fst (items q))"
    using assms(1) by (simp add: queue_ok_def bt_ok_distinct)
  from drain_items_map_of [OF its'(1) this] drain_items_result [OF its'(1)] its'(2)
  show ?thesis by (simp add: state_of_def)
qed

lemma state_of_confirm [upd_simps]:
  "state_of (confirm rs q) r =
     (if r \<in> set rs \<and> state_of q r = Some Reserved then Some Confirmed else state_of q r)"
proof -
  have "state_of (confirm rs q) r =
    (if r \<in> set rs then map_option (\<lambda>rs. if rs = Reserved then Confirmed else rs) (state_of q r)
     else state_of q r)"
    by (simp add: state_of_def confirm_def fold_modify_map_of)
  then show ?thesis by (cases "state_of q r") auto
qed

lemma state_of_rollback [upd_simps]:
  "state_of (rollback rs q) r =
     (if r \<in> set rs \<and> state_of q r = Some Reserved then Some Pending else state_of q r)"
proof -
  have "state_of (rollback rs q) r =
    (if r \<in> set rs then map_option (\<lambda>rs. if rs = Reserved then Pending else rs) (state_of q r)
     else state_of q r)"
    by (simp add: state_of_def rollback_def fold_modify_map_of)
  then show ?thesis by (cases "state_of q r") auto
qed

lemma state_of_remove [upd_simps]:
  "state_of (remove r q) r' = (if r' = r then None else state_of q r')"
  by (simp add: state_of_def remove_def)

lemma queue_ok_new [simp]: "queue_ok new_queue"
  by (simp add: queue_ok_def new_queue_def)

lemma queue_ok_push:
  assumes ok: "queue_ok q" and room: "has_room q" and p: "push q = (r, q')"
  shows "queue_ok q'" and "state_of q r = None"
proof -
  have q': "r = QueueReceipt (next_id q)"
    "q' = q\<lparr>next_id := next_id q + 1, items := bt_insert r Pending (items q)\<rparr>"
    using p by (auto simp: push_def Let_def)
  have lt: "next_id q < next_id q + 1"
    using room by (simp add: has_room_def word_less_nat_alt unat_add_one)
  then have "x < QueueReceipt (next_id q + 1)" if "x < QueueReceipt (next_id q)" for x
    using that by (cases x) auto
  with ok lt show "queue_ok q'"
    unfolding q' queue_ok_def by (auto simp: bt_ok_insert)
  have "r \<notin> fst ` set (items q)"
    using ok unfolding q' queue_ok_def by blast
  then show "state_of q r = None"
    by (simp add: state_of_def map_of_eq_None_iff)
qed

lemma queue_ok_drain: "queue_ok q \<Longrightarrow> drain_pending m q = (d, q') \<Longrightarrow> queue_ok q'"
  by (auto simp: drain_pending_def queue_ok_def bt_ok_def split: prod.splits
      dest!: drain_items_keys simp flip: set_map)

lemma queue_ok_confirm [simp]: "queue_ok (confirm rs q) = queue_ok q"
  by (simp add: queue_ok_def confirm_def flip: set_map)

lemma queue_ok_rollback [simp]: "queue_ok (rollback rs q) = queue_ok q"
  by (simp add: queue_ok_def rollback_def flip: set_map)

lemma queue_ok_remove: "queue_ok q \<Longrightarrow> queue_ok (remove r q)"
  by (auto simp: queue_ok_def remove_def bt_ok_remove)

lemma next_id_ops [upd_simps]:
  "drain_pending m q = (d, q') \<Longrightarrow> next_id q' = next_id q"
  "next_id (confirm rs q) = next_id q"
  "next_id (rollback rs q) = next_id q"
  "next_id (remove r q) = next_id q"
  by (auto simp: drain_pending_def confirm_def rollback_def remove_def split: prod.splits)

lemma drain_pending_result:
  "drain_pending m q = (d, q') \<Longrightarrow> d = take m (pending_keys (items q))"
  by (auto simp: drain_pending_def split: prod.splits dest!: drain_items_result)

lemma mem_pending_keys:
  "queue_ok q \<Longrightarrow> r \<in> set (pending_keys (items q)) \<longleftrightarrow> state_of q r = Some Pending"
  by (auto simp: pending_keys_def state_of_def queue_ok_def image_iff dest: bt_ok_distinct map_of_SomeD)

lemma sorted_pending_keys: "queue_ok q \<Longrightarrow> sorted_wrt (<) (pending_keys (items q))"
proof -
  have "sorted_wrt (<) (map fst its) \<Longrightarrow> sorted_wrt (<) (pending_keys its)"
    for its :: "(queue_receipt \<times> receipt_state) list"
    by (induction its) (use set_pending_keys in fastforce)+
  then show "queue_ok q \<Longrightarrow> ?thesis" by (simp add: queue_ok_def bt_ok_def)
qed

text \<open>FIFO: whatever is left pending was pushed after everything that was drained.\<close>

lemma drain_fifo:
  assumes ok: "queue_ok q" and d: "drain_pending m q = (d, q')"
    and r: "r \<in> set d" and r': "state_of q r' = Some Pending" "r' \<notin> set d"
  shows "r < r'"
proof -
  let ?ks = "pending_keys (items q)"
  have d_eq: "d = take m ?ks" by (rule drain_pending_result [OF d])
  have "r' \<in> set ?ks" using ok r' by (simp add: mem_pending_keys)
  with r'(2) have "r' \<in> set (drop m ?ks)"
    using d_eq by (metis append_take_drop_id Un_iff set_append)
  moreover have "sorted_wrt (<) (take m ?ks @ drop m ?ks)"
    using sorted_pending_keys [OF ok] by simp
  ultimately show ?thesis using r d_eq by (metis sorted_wrt_append)
qed

section \<open>The interface of the hold-then-forward queue\<close>

text \<open>
  What the composer and the driver rely on, stated over any implementation of the queue.
  The client facts below are the documented life cycle.
\<close>

locale hold_forward_queue =
  fixes ok :: "'q \<Rightarrow> bool"
    and room :: "'q \<Rightarrow> bool"
    and st :: "'q \<Rightarrow> 'r::linorder \<Rightarrow> receipt_state option"
    and add :: "'q \<Rightarrow> 'r \<times> 'q"
    and drain :: "nat \<Rightarrow> 'q \<Rightarrow> 'r list \<times> 'q"
    and commit :: "'r list \<Rightarrow> 'q \<Rightarrow> 'q"
    and abort :: "'r list \<Rightarrow> 'q \<Rightarrow> 'q"
    and evict :: "'r \<Rightarrow> 'q \<Rightarrow> 'q"
  assumes add_fresh: "ok q \<Longrightarrow> room q \<Longrightarrow> add q = (r, q') \<Longrightarrow> st q r = None"
    and add_ok: "ok q \<Longrightarrow> room q \<Longrightarrow> add q = (r, q') \<Longrightarrow> ok q'"
    and add_st: "add q = (r, q') \<Longrightarrow> st q' = (st q)(r \<mapsto> Pending)"
    and drain_ok: "ok q \<Longrightarrow> drain m q = (d, q') \<Longrightarrow> ok q'"
    and drain_st: "ok q \<Longrightarrow> drain m q = (d, q') \<Longrightarrow>
        st q' x = (if x \<in> set d then Some Reserved else st q x)"
    and drain_length: "drain m q = (d, q') \<Longrightarrow> length d \<le> m"
    and drain_only_pending: "ok q \<Longrightarrow> drain m q = (d, q') \<Longrightarrow> x \<in> set d \<Longrightarrow> st q x = Some Pending"
    and drain_all: "ok q \<Longrightarrow> drain m q = (d, q') \<Longrightarrow> length d < m \<Longrightarrow> st q x = Some Pending \<Longrightarrow> x \<in> set d"
    and commit_st: "st (commit rs q) x =
        (if x \<in> set rs \<and> st q x = Some Reserved then Some Confirmed else st q x)"
    and abort_st: "st (abort rs q) x =
        (if x \<in> set rs \<and> st q x = Some Reserved then Some Pending else st q x)"
    and evict_st: "st (evict y q) x = (if x = y then None else st q x)"
    and commit_ok: "ok q \<Longrightarrow> ok (commit rs q)"
    and abort_ok: "ok q \<Longrightarrow> ok (abort rs q)"
    and evict_ok: "ok q \<Longrightarrow> ok (evict x q)"
begin

lemma drained_then_committed:
  "ok q \<Longrightarrow> drain m q = (d, q') \<Longrightarrow> x \<in> set d \<Longrightarrow> st (commit d q') x = Some Confirmed"
  by (simp add: commit_st drain_st)

lemma drained_then_aborted:
  "ok q \<Longrightarrow> drain m q = (d, q') \<Longrightarrow> st (abort d q') = st q"
  if "\<forall>x. st q x \<noteq> Some Reserved"
  using that by (auto simp: abort_st drain_st fun_eq_iff dest: drain_only_pending)

lemma aborted_is_drained_again:
  assumes ok: "ok q" and d: "drain m q = (d, q')" and m': "drain m' (abort d q') = (d', q'')"
    and big: "length d' < m'" and x: "x \<in> set d"
  shows "x \<in> set d'"
proof (rule drain_all [OF _ m' big])
  show "ok (abort d q')" using ok d by (blast intro: abort_ok drain_ok)
  show "st (abort d q') x = Some Pending" using x by (simp add: abort_st drain_st [OF ok d])
qed

lemma committed_is_stable:
  "ok q \<Longrightarrow> st q x = Some Confirmed \<Longrightarrow>
     st (abort rs q) x = Some Confirmed \<and> st (commit rs q) x = Some Confirmed \<and>
     (drain m q = (d, q') \<longrightarrow> st q' x = Some Confirmed)"
  by (auto simp: abort_st commit_st drain_st dest: drain_only_pending)

end

interpretation eq: hold_forward_queue queue_ok has_room state_of push drain_pending confirm rollback remove
proof unfold_locales
  fix m q d q' x
  assume ok: "queue_ok q" and d: "drain_pending m q = (d, q')"
  have d_eq: "d = take m (pending_keys (items q))" by (rule drain_pending_result [OF d])
  show "x \<in> set d \<Longrightarrow> state_of q x = Some Pending"
    using d_eq by (auto simp flip: mem_pending_keys [OF ok] dest: in_set_takeD)
  assume "length d < m" and "state_of q x = Some Pending"
  with ok d_eq show "x \<in> set d" by (simp flip: mem_pending_keys)
next
  fix m q d q'
  assume "drain_pending m q = (d, q')"
  from drain_pending_result [OF this] show "length d \<le> m" by simp
qed (auto simp: upd_simps intro: queue_ok_push queue_ok_drain queue_ok_remove)

section \<open>Waiters and notifications\<close>

text \<open>
  A call of \<open>wait_confirmation\<close> is a process: it checks under the lock (\<open>Checking\<close>),
  releases the lock when it has to keep waiting (\<open>Unlocked\<close>), then calls
  \<open>notified().await\<close> (\<open>Parked\<close>). \<open>confirm\<close> and \<open>remove\<close> release the lock before they
  call \<open>notify_waiters()\<close>, so the notification is a step of its own; \<open>notify_due\<close> counts
  the calls still to come. \<open>Notify\<close> is tokio's: which waiters a call wakes is the parameter
  \<open>wakes\<close>. Its documentation says that \<open>notify_waiters\<close> wakes the futures that exist and
  stores no permit for later ones, i.e. \<open>wakes Parked\<close> and \<open>\<not> wakes Unlocked\<close>.
\<close>

datatype waiter_pc = Idle | Checking | Unlocked | Parked | Permitted | Failed

record system =
  queue :: queue_state
  pc :: "nat \<Rightarrow> waiter_pc"
  waits_for :: "nat \<Rightarrow> queue_receipt"
  notify_due :: nat

definition initial_system :: system where
  "initial_system = \<lparr>queue = new_queue, pc = (\<lambda>_. Idle),
     waits_for = (\<lambda>_. QueueReceipt 0), notify_due = 0\<rparr>"

definition wake_all :: "(waiter_pc \<Rightarrow> bool) \<Rightarrow> (nat \<Rightarrow> waiter_pc) \<Rightarrow> nat \<Rightarrow> waiter_pc" where
  "wake_all wakes pcs i =
     (if pcs i \<in> {Unlocked, Parked} \<and> wakes (pcs i) then Checking else pcs i)"

inductive sys_step :: "(waiter_pc \<Rightarrow> bool) \<Rightarrow> system \<Rightarrow> system \<Rightarrow> bool"
  for wakes :: "waiter_pc \<Rightarrow> bool" where
  Push: "has_room (queue s) \<Longrightarrow> push (queue s) = (r, q') \<Longrightarrow> sys_step wakes s (s\<lparr>queue := q'\<rparr>)"
| Wait: "pc s i = Idle \<Longrightarrow>
    sys_step wakes s (s\<lparr>pc := (pc s)(i := Checking), waits_for := (waits_for s)(i := r)\<rparr>)"
| Check_permit: "pc s i = Checking \<Longrightarrow> wait_check (waits_for s i) (queue s) = Forward_Permit \<Longrightarrow>
    sys_step wakes s (s\<lparr>pc := (pc s)(i := Permitted)\<rparr>)"
| Check_evicted: "pc s i = Checking \<Longrightarrow> wait_check (waits_for s i) (queue s) = Evicted \<Longrightarrow>
    sys_step wakes s (s\<lparr>pc := (pc s)(i := Failed)\<rparr>)"
| Check_keep: "pc s i = Checking \<Longrightarrow> wait_check (waits_for s i) (queue s) = Keep_Waiting \<Longrightarrow>
    sys_step wakes s (s\<lparr>pc := (pc s)(i := Unlocked)\<rparr>)"
| Park: "pc s i = Unlocked \<Longrightarrow> sys_step wakes s (s\<lparr>pc := (pc s)(i := Parked)\<rparr>)"
| Drain: "drain_pending m (queue s) = (d, q') \<Longrightarrow> sys_step wakes s (s\<lparr>queue := q'\<rparr>)"
| Confirm: "sys_step wakes s
    (s\<lparr>queue := confirm rs (queue s), notify_due := Suc (notify_due s)\<rparr>)"
| Rollback: "sys_step wakes s (s\<lparr>queue := rollback rs (queue s)\<rparr>)"
| Remove: "sys_step wakes s
    (s\<lparr>queue := remove r (queue s), notify_due := Suc (notify_due s)\<rparr>)"
| Notify: "notify_due s = Suc n \<Longrightarrow>
    sys_step wakes s (s\<lparr>pc := wake_all wakes (pc s), notify_due := n\<rparr>)"

inductive_cases sys_stepE: "sys_step wakes s t"

lemma sys_step_queue_ok: "sys_step wakes s t \<Longrightarrow> queue_ok (queue s) \<Longrightarrow> queue_ok (queue t)"
  by (induction rule: sys_step.induct) (auto intro: queue_ok_push queue_ok_drain queue_ok_remove)

text \<open>
  How one step may move a receipt: along the documented edges only, and a receipt that was
  issued and is gone never comes back.
\<close>

definition issued :: "queue_state \<Rightarrow> queue_receipt \<Rightarrow> bool" where
  "issued q r \<longleftrightarrow> r < QueueReceipt (next_id q)"

definition stays_evicted :: "system \<Rightarrow> system \<Rightarrow> bool" where
  "stays_evicted s t \<longleftrightarrow>
     (\<forall>r. issued (queue s) r \<longrightarrow> issued (queue t) r \<and>
        (state_of (queue s) r = None \<longrightarrow> state_of (queue t) r = None))"

lemma issued_push:
  assumes "has_room q" and "push q = (r, q')"
  shows "issued q x \<Longrightarrow> issued q' x" and "\<not> issued q r" and "issued q' r"
proof -
  have nid: "next_id q' = next_id q + 1" "r = QueueReceipt (next_id q)"
    using assms(2) by (auto simp: push_def Let_def)
  have lt: "next_id q < next_id q + 1"
    using assms(1) by (simp add: has_room_def word_less_nat_alt unat_add_one)
  show "issued q x \<Longrightarrow> issued q' x" using lt nid by (cases x) (auto simp: issued_def)
  show "\<not> issued q r" and "issued q' r" using lt nid by (auto simp: issued_def)
qed

lemma sys_step_stays_evicted:
  "sys_step wakes s t \<Longrightarrow> queue_ok (queue s) \<Longrightarrow> stays_evicted s t"
proof (induction rule: sys_step.induct)
  case (Push s r q')
  then show ?case
    using issued_push [OF Push(1,2)] by (auto simp: stays_evicted_def state_of_push [OF Push(2)])
next
  case (Drain m s d q')
  then show ?case
    by (auto simp: stays_evicted_def issued_def upd_simps dest: eq.drain_only_pending)
qed (auto simp: stays_evicted_def issued_def upd_simps)

interpretation qs: step_progress "sys_step wakes" "\<lambda>s. queue_ok (queue s)" stays_evicted for wakes
proof unfold_locales
  fix s t u :: system
  show "stays_evicted s s" by (simp add: stays_evicted_def)
  show "stays_evicted s t \<Longrightarrow> stays_evicted t u \<Longrightarrow> stays_evicted s u"
    by (simp add: stays_evicted_def)
qed (auto intro: sys_step_queue_ok sys_step_stays_evicted)

lemma initial_queue_ok [simp]: "queue_ok (queue initial_system)"
  by (simp add: initial_system_def)

lemma wait_check_state:
  "wait_check r q = (case state_of q r of Some Confirmed \<Rightarrow> Forward_Permit
     | Some _ \<Rightarrow> Keep_Waiting | None \<Rightarrow> Evicted)"
  by (simp add: wait_check_def state_of_def)

lemma wait_check_cases [simp]:
  "wait_check r q = Forward_Permit \<longleftrightarrow> state_of q r = Some Confirmed"
  "wait_check r q = Evicted \<longleftrightarrow> state_of q r = None"
  "wait_check r q = Keep_Waiting \<longleftrightarrow> state_of q r \<in> {Some Pending, Some Reserved}"
  by (auto simp: wait_check_state split: option.splits receipt_state.splits)

text \<open>
  Every change a step makes to a receipt is an edge of the documented life cycle.
\<close>

definition lifecycle_edge :: "receipt_state option \<Rightarrow> receipt_state option \<Rightarrow> bool" where
  "lifecycle_edge a b \<longleftrightarrow> a = b \<or> b = None \<or>
     (a, b) \<in> {(None, Some Pending), (Some Pending, Some Reserved),
               (Some Reserved, Some Confirmed), (Some Reserved, Some Pending)}"

lemma sys_step_lifecycle:
  "sys_step wakes s t \<Longrightarrow> queue_ok (queue s) \<Longrightarrow>
     lifecycle_edge (state_of (queue s) r) (state_of (queue t) r)"
proof (induction rule: sys_step.induct)
  case (Push s r' q')
  with queue_ok_push(2) [OF Push(3,1,2)] show ?case
    by (auto simp: lifecycle_edge_def state_of_push [OF Push(2)])
next
  case (Drain m s d q')
  then show ?case
    by (auto simp: lifecycle_edge_def upd_simps dest: eq.drain_only_pending)
qed (auto simp: lifecycle_edge_def upd_simps)

text \<open>
  The waiter invariant that would exclude a lost wake-up: a waiter past its check whose
  receipt has been decided still has a notification coming. It needs the waiter to be
  registered before its check, i.e. \<open>wakes Unlocked\<close>.
\<close>

definition no_lost_wakeup :: "system \<Rightarrow> bool" where
  "no_lost_wakeup s \<longleftrightarrow>
     (\<forall>i. pc s i \<in> {Unlocked, Parked} \<longrightarrow>
        state_of (queue s) (waits_for s i) \<in> {Some Pending, Some Reserved} \<or> notify_due s > 0)"

lemma sys_step_no_lost_wakeup:
  assumes "wakes Parked" and "wakes Unlocked"
  shows "sys_step wakes s t \<Longrightarrow> queue_ok (queue s) \<Longrightarrow> no_lost_wakeup s \<Longrightarrow> no_lost_wakeup t"
proof (induction rule: sys_step.induct)
  case (Push s r q')
  then show ?case by (auto simp: no_lost_wakeup_def state_of_push [OF Push(2)])
next
  case (Notify s n)
  then show ?case using assms by (auto simp: no_lost_wakeup_def wake_all_def)
next
  case (Drain m s d q')
  then show ?case
    unfolding no_lost_wakeup_def by (auto simp: state_of_drain)
qed (auto simp: no_lost_wakeup_def upd_simps)

text \<open>A concrete run with one waiter, used by the witnesses.\<close>

definition one_waiter :: "queue_state \<Rightarrow> waiter_pc \<Rightarrow> nat \<Rightarrow> system" where
  "one_waiter q p n = \<lparr>queue = q, pc = (\<lambda>_. Idle)(0 := p), waits_for = (\<lambda>_. QueueReceipt 0),
     notify_due = n\<rparr>"

definition pushed_queue :: queue_state where
  "pushed_queue = \<lparr>next_id = 1, items = [(QueueReceipt 0, Pending)]\<rparr>"

definition drained_queue :: queue_state where
  "drained_queue = \<lparr>next_id = 1, items = [(QueueReceipt 0, Reserved)]\<rparr>"

definition confirmed_queue :: queue_state where
  "confirmed_queue = \<lparr>next_id = 1, items = [(QueueReceipt 0, Confirmed)]\<rparr>"

lemmas run_defs = one_waiter_def initial_system_def pushed_queue_def drained_queue_def
  confirmed_queue_def new_queue_def push_def drain_pending_def confirm_def bt_modify_def Let_def

lemma one_waiter_steps:
  "sys_step wakes initial_system (one_waiter pushed_queue Idle 0)"
  "sys_step wakes (one_waiter pushed_queue Idle 0) (one_waiter drained_queue Idle 0)"
  "sys_step wakes (one_waiter drained_queue Idle 0) (one_waiter drained_queue Checking 0)"
  "sys_step wakes (one_waiter drained_queue Checking 0) (one_waiter drained_queue Unlocked 0)"
  "sys_step wakes (one_waiter drained_queue Unlocked 0) (one_waiter confirmed_queue Unlocked 1)"
  "\<not> wakes Unlocked \<Longrightarrow>
     sys_step wakes (one_waiter confirmed_queue Unlocked 1) (one_waiter confirmed_queue Unlocked 0)"
  "sys_step wakes (one_waiter confirmed_queue Unlocked 0) (one_waiter confirmed_queue Parked 0)"
proof -
  show "sys_step wakes initial_system (one_waiter pushed_queue Idle 0)"
    using sys_step.Push [of initial_system "QueueReceipt 0" pushed_queue wakes]
    by (simp add: run_defs has_room_def fun_upd_idem)
  show "sys_step wakes (one_waiter pushed_queue Idle 0) (one_waiter drained_queue Idle 0)"
    using sys_step.Drain [of 1 "one_waiter pushed_queue Idle 0" "[QueueReceipt 0]" drained_queue]
    by (simp add: run_defs)
  show "sys_step wakes (one_waiter drained_queue Idle 0) (one_waiter drained_queue Checking 0)"
    using sys_step.Wait [of "one_waiter drained_queue Idle 0" 0 wakes "QueueReceipt 0"]
    by (simp add: one_waiter_def fun_upd_idem)
  show "sys_step wakes (one_waiter drained_queue Checking 0) (one_waiter drained_queue Unlocked 0)"
    using sys_step.Check_keep [of "one_waiter drained_queue Checking 0" 0 wakes]
    by (simp add: one_waiter_def drained_queue_def state_of_def)
  show "sys_step wakes (one_waiter drained_queue Unlocked 0) (one_waiter confirmed_queue Unlocked 1)"
    using sys_step.Confirm [of wakes "one_waiter drained_queue Unlocked 0" "[QueueReceipt 0]"]
    by (simp add: run_defs)
  show "sys_step wakes (one_waiter confirmed_queue Unlocked 1) (one_waiter confirmed_queue Unlocked 0)"
    if "\<not> wakes Unlocked"
  proof -
    have "wake_all wakes ((\<lambda>_. Idle)(0 := Unlocked)) = (\<lambda>_. Idle)(0 := Unlocked)"
      using that by (auto simp: wake_all_def fun_eq_iff)
    then show ?thesis
      using sys_step.Notify [of "one_waiter confirmed_queue Unlocked 1" 0 wakes]
      by (simp add: one_waiter_def)
  qed
  show "sys_step wakes (one_waiter confirmed_queue Unlocked 0) (one_waiter confirmed_queue Parked 0)"
    using sys_step.Park [of "one_waiter confirmed_queue Unlocked 0" 0 wakes]
    by (simp add: one_waiter_def)
qed

lemma run_pushed: "rtranclp (sys_step wakes) initial_system (one_waiter pushed_queue Idle 0)"
  by (rule r_into_rtranclp) (rule one_waiter_steps)

definition stuck_waiter :: "system \<Rightarrow> nat \<Rightarrow> bool" where
  "stuck_waiter s i \<longleftrightarrow> pc s i = Parked \<and> notify_due s = 0 \<and>
     wait_check (waits_for s i) (queue s) = Forward_Permit"

section \<open>Properties\<close>

text \<open>
  C39: every reachable state of the queue and its waiters, from an empty queue, keeps the
  map ordered with all keys below the counter, and the next step moves each receipt along an
  edge of the documented life cycle only (pending, reserved, confirmed, with rollback from
  reserved to pending, and eviction), whichever waiters a notification wakes.
\<close>

theorem queue_lifecycle:
  assumes "rtranclp (sys_step wakes) initial_system s" and "sys_step wakes s t"
  shows "queue_ok (queue t) \<and> lifecycle_edge (state_of (queue s) r) (state_of (queue t) r)"
proof -
  have "queue_ok (queue s)"
    by (rule qs.reachable_inv [OF assms(1)]) simp
  with assms(2) show ?thesis
    by (blast intro: sys_step_queue_ok sys_step_lifecycle)
qed

theorem queue_lifecycle_witness:
  "queue_ok (queue (one_waiter drained_queue Idle 0)) \<and>
   lifecycle_edge (state_of pushed_queue (QueueReceipt 0)) (state_of drained_queue (QueueReceipt 0))"
  using queue_lifecycle [where wakes = "\<lambda>_. True" and r = "QueueReceipt 0", OF run_pushed one_waiter_steps(2)]
  by (simp add: one_waiter_def)

text \<open>
  No resurrection. Along any run, a receipt that was issued and is no longer in the queue
  stays out of it, so a waiter on an evicted receipt can only fail.
\<close>

theorem evicted_receipt_never_returns:
  assumes "rtranclp (sys_step wakes) initial_system s" and "rtranclp (sys_step wakes) s t"
    and "issued (queue s) r" and "state_of (queue s) r = None"
  shows "wait_check r (queue t) = Evicted"
proof -
  have "queue_ok (queue s)"
    by (rule qs.reachable_inv [OF assms(1)]) simp
  then have "stays_evicted s t"
    by (rule qs.reachable_rel [OF assms(2)])
  with assms(3,4) show ?thesis by (simp add: stays_evicted_def)
qed

theorem evicted_receipt_never_returns_witness:
  "wait_check (QueueReceipt 0) (remove (QueueReceipt 0) pushed_queue) = Evicted"
proof -
  let ?p = "one_waiter pushed_queue Idle 0"
  let ?s = "?p\<lparr>queue := remove (QueueReceipt 0) (queue ?p), notify_due := Suc (notify_due ?p)\<rparr>"
  have run: "rtranclp (sys_step (\<lambda>_. True)) initial_system ?s"
    by (rule rtranclp.rtrancl_into_rtrancl [OF run_pushed sys_step.Remove])
  have "issued (queue ?s) (QueueReceipt 0)" and "state_of (queue ?s) (QueueReceipt 0) = None"
    by (simp_all add: issued_def one_waiter_def pushed_queue_def remove_def state_of_def bt_remove_def)
  then have "wait_check (QueueReceipt 0) (queue ?s) = Evicted"
    by (rule evicted_receipt_never_returns [OF run rtranclp.rtrancl_refl])
  then show ?thesis by (simp add: one_waiter_def)
qed

text \<open>
  Draining is FIFO and exact. The drained receipts are the first \<open>max_n\<close> pending ones in
  push order, they become reserved and no other receipt changes; everything left pending is
  younger; rolling the drained ones back undoes the drain when nothing else was reserved.
\<close>

theorem drain_pending_fifo:
  assumes "queue_ok q" and "drain_pending max_n q = (d, q')"
  shows "d = take max_n (pending_keys (items q)) \<and> sorted_wrt (<) d \<and>
    (\<forall>r. state_of q' r = (if r \<in> set d then Some Reserved else state_of q r)) \<and>
    (\<forall>r r'. r \<in> set d \<longrightarrow> state_of q' r' = Some Pending \<longrightarrow> r < r') \<and>
    ((\<forall>r. state_of q r \<noteq> Some Reserved) \<longrightarrow> state_of (rollback d q') = state_of q)"
proof (intro conjI)
  show d: "d = take max_n (pending_keys (items q))"
    by (rule drain_pending_result [OF assms(2)])
  show "sorted_wrt (<) d"
    unfolding d by (rule sorted_wrt_take) (rule sorted_pending_keys [OF assms(1)])
  show "\<forall>r. state_of q' r = (if r \<in> set d then Some Reserved else state_of q r)"
    using state_of_drain [OF assms] by simp
  show "\<forall>r r'. r \<in> set d \<longrightarrow> state_of q' r' = Some Pending \<longrightarrow> r < r'"
    using state_of_drain [OF assms] by (auto split: if_splits intro: drain_fifo [OF assms])
  show "(\<forall>r. state_of q r \<noteq> Some Reserved) \<longrightarrow> state_of (rollback d q') = state_of q"
    using eq.drained_then_aborted [OF _ assms] by blast
qed

theorem drain_pending_fifo_witness:
  "let q = snd (push (snd (push new_queue))); (d, q') = drain_pending 1 q
   in queue_ok q \<and> d = [QueueReceipt 0] \<and>
      (\<forall>r r'. r \<in> set d \<longrightarrow> state_of q' r' = Some Pending \<longrightarrow> r < r')"
proof -
  let ?q = "snd (push (snd (push new_queue)))"
  have ok: "queue_ok ?q"
    by (simp add: push_def new_queue_def queue_ok_def bt_ok_def Let_def)
  obtain d q' where d: "drain_pending 1 ?q = (d, q')" by (meson surj_pair)
  have "d = take 1 (pending_keys (items ?q))" and "\<forall>r r'. r \<in> set d \<longrightarrow> state_of q' r' = Some Pending \<longrightarrow> r < r'"
    using drain_pending_fifo [OF ok d] by blast+
  moreover have "take 1 (pending_keys (items ?q)) = [QueueReceipt 0]"
    by (simp add: push_def new_queue_def Let_def)
  ultimately show ?thesis using ok d by (simp add: Let_def)
qed

text \<open>
  C40: a wake-up can be lost. With tokio's documented \<open>notify_waiters\<close> (it wakes the futures
  that exist and stores no permit), there is a run in which the receipt is confirmed, the
  notification has been delivered, and the waiter is parked for good: until somebody calls
  \<open>confirm\<close>, \<open>remove\<close> or \<open>push\<close>/\<open>drain\<close>/\<open>rollback\<close> again, no step of the system can move it.
\<close>

theorem wakeup_can_be_lost:
  assumes "\<not> wakes Unlocked"
  shows "\<exists>s. rtranclp (sys_step wakes) initial_system s \<and> stuck_waiter s 0"
proof (intro exI conjI)
  let ?run = "rtranclp (sys_step wakes) initial_system"
  have "?run (one_waiter drained_queue Idle 0)"
    by (rule rtranclp.rtrancl_into_rtrancl [OF run_pushed one_waiter_steps(2)])
  then have "?run (one_waiter drained_queue Checking 0)"
    by (rule rtranclp.rtrancl_into_rtrancl) (rule one_waiter_steps)
  then have "?run (one_waiter drained_queue Unlocked 0)"
    by (rule rtranclp.rtrancl_into_rtrancl) (rule one_waiter_steps)
  then have "?run (one_waiter confirmed_queue Unlocked 1)"
    by (rule rtranclp.rtrancl_into_rtrancl) (rule one_waiter_steps)
  then have "?run (one_waiter confirmed_queue Unlocked 0)"
    by (rule rtranclp.rtrancl_into_rtrancl) (rule one_waiter_steps, rule assms)
  then show "?run (one_waiter confirmed_queue Parked 0)"
    by (rule rtranclp.rtrancl_into_rtrancl) (rule one_waiter_steps)
  show "stuck_waiter (one_waiter confirmed_queue Parked 0) 0"
    by (simp add: stuck_waiter_def one_waiter_def confirmed_queue_def state_of_def)
qed

theorem wakeup_can_be_lost_witness:
  "\<exists>s. rtranclp (sys_step (\<lambda>p. p = Parked)) initial_system s \<and> stuck_waiter s 0"
  by (rule wakeup_can_be_lost) simp

end
