(* ===== verification/Cross_Chain_Types.thy ===== *)
theory Cross_Chain_Types
  imports Prelude
begin

text \<open>
  The data model of \<open>cross_chain.rs\<close>: the newtypes (rollup ids, scope paths, hashes), the
  small enums that replaced booleans, the \<open>Action\<close> / \<open>StateDelta\<close> / \<open>ExecutionEntry\<close>
  structs with their ABI twins generated by \<open>sol!\<close>, and the conversions between the two.
  The enum \<open>ActionType\<close> that \<open>sol!\<close> generates has a catch-all variant for invalid values,
  the one \<open>from_sol\<close> rejects.
\<close>

section \<open>Newtypes\<close>

datatype rollup_id = RollupId u256

definition MAINNET :: rollup_id where
  "MAINNET = RollupId 0"

fun as_u256 :: "rollup_id \<Rightarrow> u256" where
  "as_u256 (RollupId v) = v"

definition from_abi_boundary :: "u256 \<Rightarrow> rollup_id" where
  "from_abi_boundary v = RollupId v"

text \<open>Big-endian reading of bytes; the arithmetic of \<open>'a word\<close> drops what does not fit.\<close>

definition be_word :: "bytes \<Rightarrow> 'a::len word" where
  "be_word bs = foldl (\<lambda>acc b. acc * 256 + ucast b) 0 bs"

definition from_bytes_at_boundary :: "bytes \<Rightarrow> rollup_id" where
  "from_bytes_at_boundary bs =
     (let len = min (length bs) 32;
          buf = replicate (32 - len) 0 @ drop (length bs - len) bs
      in RollupId (be_word buf))"

definition to_u64 :: "rollup_id \<Rightarrow> u64 option" where
  "to_u64 r = (if as_u256 r \<le> ucast (- 1 :: u64) then Some (ucast (as_u256 r)) else None)"

definition is_mainnet :: "rollup_id \<Rightarrow> bool" where
  "is_mainnet r \<longleftrightarrow> as_u256 r = 0"

datatype scope_path = ScopePath "u256 list"

definition scope_root :: scope_path where
  "scope_root = ScopePath []"

definition from_index :: "u256 \<Rightarrow> scope_path" where
  "from_index idx = ScopePath [idx]"

definition from_parts :: "u256 list \<Rightarrow> scope_path" where
  "from_parts parts = ScopePath parts"

fun as_slice :: "scope_path \<Rightarrow> u256 list" where
  "as_slice (ScopePath xs) = xs"

definition scope_enter :: "u256 \<Rightarrow> scope_path \<Rightarrow> scope_path" where
  "scope_enter idx p = ScopePath (as_slice p @ [idx])"

definition scope_exit :: "scope_path \<Rightarrow> u256 option \<times> scope_path" where
  "scope_exit p = (case as_slice p of
       [] \<Rightarrow> (None, p)
     | xs \<Rightarrow> (Some (last xs), ScopePath (butlast xs)))"

datatype clean_state_root = CleanStateRoot b256

fun clean_as_b256 :: "clean_state_root \<Rightarrow> b256" where
  "clean_as_b256 (CleanStateRoot h) = h"

datatype action_hash = ActionHash b256

fun hash_as_b256 :: "action_hash \<Rightarrow> b256" where
  "hash_as_b256 (ActionHash h) = h"

definition ZERO_HASH :: action_hash where
  "ZERO_HASH = ActionHash 0"

datatype consumed_prefix = ConsumedPrefix nat

fun prefix_as_usize :: "consumed_prefix \<Rightarrow> nat" where
  "prefix_as_usize (ConsumedPrefix n) = n"

definition prefix_is_zero :: "consumed_prefix \<Rightarrow> bool" where
  "prefix_is_zero p \<longleftrightarrow> prefix_as_usize p = 0"

section \<open>Enums that replaced options and booleans\<close>

datatype absolute_call_index = AbsoluteCallIndex nat

fun index_as_usize :: "absolute_call_index \<Rightarrow> nat" where
  "index_as_usize (AbsoluteCallIndex n) = n"

datatype parent_link = Root | Child absolute_call_index

fun parent_from_option :: "nat option \<Rightarrow> parent_link" where
  "parent_from_option None = Root"
| "parent_from_option (Some i) = Child (AbsoluteCallIndex i)"

fun parent_to_option :: "parent_link \<Rightarrow> nat option" where
  "parent_to_option Root = None"
| "parent_to_option (Child idx) = Some (index_as_usize idx)"

fun child_index :: "parent_link \<Rightarrow> absolute_call_index option" where
  "child_index Root = None"
| "child_index (Child idx) = Some idx"

definition set_child :: "absolute_call_index \<Rightarrow> parent_link \<Rightarrow> parent_link" where
  "set_child idx p = Child idx"

datatype tx_outcome = Outcome_Success | Outcome_Revert

definition outcome_from_bool :: "bool \<Rightarrow> tx_outcome" where
  "outcome_from_bool reverts = (if reverts then Outcome_Revert else Outcome_Success)"

fun outcome_as_bool :: "tx_outcome \<Rightarrow> bool" where
  "outcome_as_bool Outcome_Revert = True"
| "outcome_as_bool Outcome_Success = False"

datatype entry_group_mode = Chained | Independent

definition mode_from_bool :: "bool \<Rightarrow> entry_group_mode" where
  "mode_from_bool independent = (if independent then Independent else Chained)"

fun mode_as_bool :: "entry_group_mode \<Rightarrow> bool" where
  "mode_as_bool Independent = True"
| "mode_as_bool Chained = False"

datatype call_orientation = Forward | Return

definition orientation_from_child :: "rollup_id \<Rightarrow> rollup_id \<Rightarrow> call_orientation" where
  "orientation_from_child child_rollup_id our_rollup_id =
     (if child_rollup_id = our_rollup_id then Return else Forward)"

fun address_pair_for :: "call_orientation \<Rightarrow> address \<Rightarrow> address \<Rightarrow> address \<times> address" where
  "address_pair_for Return call_destination call_source_address =
     (call_destination, call_source_address)"
| "address_pair_for Forward call_destination call_source_address =
     (call_source_address, call_destination)"

datatype return_data = Void | NonVoid bytes

definition return_from_bytes :: "bytes \<Rightarrow> return_data" where
  "return_from_bytes bs = (if bs = [] then Void else NonVoid bs)"

fun return_is_void :: "return_data \<Rightarrow> bool" where
  "return_is_void Void = True"
| "return_is_void (NonVoid _) = False"

fun return_into_bytes :: "return_data \<Rightarrow> bytes" where
  "return_into_bytes Void = []"
| "return_into_bytes (NonVoid bs) = bs"

section \<open>Actions, deltas, entries\<close>

datatype cross_chain_action_type = Call | Result | L2Tx | Revert | RevertContinue

record cross_chain_action =
  action_type :: cross_chain_action_type
  rollup_id :: rollup_id
  destination :: address
  call_value :: u256
  call_data :: bytes
  failed :: bool
  source_address :: address
  source_rollup :: rollup_id
  scope :: scope_path

record cross_chain_state_delta =
  delta_rollup_id :: rollup_id
  current_state :: b256
  new_state :: b256
  ether_delta :: i256

record cross_chain_execution_entry =
  state_deltas :: "cross_chain_state_delta list"
  action_hash :: action_hash
  next_action :: cross_chain_action

text \<open>The ABI structs of \<open>ICrossChainManagerL2\<close>.\<close>

datatype sol_action_type = CALL | RESULT | L2TX | REVERT | REVERT_CONTINUE | INVALID

record sol_action =
  sol_actionType :: sol_action_type
  sol_rollupId :: u256
  sol_destination :: address
  sol_value :: u256
  sol_data :: bytes
  sol_failed :: bool
  sol_sourceAddress :: address
  sol_sourceRollup :: u256
  sol_scope :: "u256 list"

record sol_state_delta =
  sol_delta_rollupId :: u256
  sol_currentState :: b256
  sol_newState :: b256
  sol_etherDelta :: i256

record sol_execution_entry =
  sol_stateDeltas :: "sol_state_delta list"
  sol_actionHash :: b256
  sol_nextAction :: sol_action

section \<open>Conversions to and from the ABI structs\<close>

fun action_type_to_sol :: "cross_chain_action_type \<Rightarrow> sol_action_type" where
  "action_type_to_sol Call = CALL"
| "action_type_to_sol Result = RESULT"
| "action_type_to_sol L2Tx = L2TX"
| "action_type_to_sol Revert = REVERT"
| "action_type_to_sol RevertContinue = REVERT_CONTINUE"

fun action_type_from_sol :: "sol_action_type \<Rightarrow> cross_chain_action_type option" where
  "action_type_from_sol CALL = Some Call"
| "action_type_from_sol RESULT = Some Result"
| "action_type_from_sol L2TX = Some L2Tx"
| "action_type_from_sol REVERT = Some Revert"
| "action_type_from_sol REVERT_CONTINUE = Some RevertContinue"
| "action_type_from_sol INVALID = None"

definition to_sol_action :: "cross_chain_action \<Rightarrow> sol_action" where
  "to_sol_action a =
     \<lparr>sol_actionType = action_type_to_sol (action_type a),
      sol_rollupId = as_u256 (rollup_id a),
      sol_destination = destination a,
      sol_value = call_value a,
      sol_data = call_data a,
      sol_failed = failed a,
      sol_sourceAddress = source_address a,
      sol_sourceRollup = as_u256 (source_rollup a),
      sol_scope = as_slice (scope a)\<rparr>"

definition action_from_sol :: "sol_action \<Rightarrow> cross_chain_action option" where
  "action_from_sol sol =
     (case action_type_from_sol (sol_actionType sol) of
        None \<Rightarrow> None
      | Some ty \<Rightarrow> Some
          \<lparr>action_type = ty,
           rollup_id = from_abi_boundary (sol_rollupId sol),
           destination = sol_destination sol,
           call_value = sol_value sol,
           call_data = sol_data sol,
           failed = sol_failed sol,
           source_address = sol_sourceAddress sol,
           source_rollup = from_abi_boundary (sol_sourceRollup sol),
           scope = from_parts (sol_scope sol)\<rparr>)"

definition delta_to_sol :: "cross_chain_state_delta \<Rightarrow> sol_state_delta" where
  "delta_to_sol d =
     \<lparr>sol_delta_rollupId = as_u256 (delta_rollup_id d),
      sol_currentState = current_state d,
      sol_newState = new_state d,
      sol_etherDelta = ether_delta d\<rparr>"

definition delta_from_sol :: "sol_state_delta \<Rightarrow> cross_chain_state_delta" where
  "delta_from_sol sol =
     \<lparr>delta_rollup_id = from_abi_boundary (sol_delta_rollupId sol),
      current_state = sol_currentState sol,
      new_state = sol_newState sol,
      ether_delta = sol_etherDelta sol\<rparr>"

definition entry_to_sol :: "cross_chain_execution_entry \<Rightarrow> sol_execution_entry" where
  "entry_to_sol e =
     \<lparr>sol_stateDeltas = map delta_to_sol (state_deltas e),
      sol_actionHash = hash_as_b256 (action_hash e),
      sol_nextAction = to_sol_action (next_action e)\<rparr>"

definition entry_from_sol :: "sol_execution_entry \<Rightarrow> cross_chain_execution_entry option" where
  "entry_from_sol sol =
     (case action_from_sol (sol_nextAction sol) of
        None \<Rightarrow> None
      | Some a \<Rightarrow> Some
          \<lparr>state_deltas = map delta_from_sol (sol_stateDeltas sol),
           action_hash = ActionHash (sol_actionHash sol),
           next_action = a\<rparr>)"

section \<open>The conversions are exact codecs\<close>

lemma rollup_id_boundary [simp, wire_simps]:
  "from_abi_boundary (as_u256 r) = r" "as_u256 (from_abi_boundary v) = v"
  by (cases r, simp_all add: from_abi_boundary_def)

lemma scope_boundary [simp, wire_simps]:
  "from_parts (as_slice p) = p" "as_slice (from_parts xs) = xs"
  by (cases p, simp_all add: from_parts_def)

lemma action_hash_boundary [simp, wire_simps]: "ActionHash (hash_as_b256 h) = h"
  by (cases h) simp

lemma as_u256_eq_iff [simp]: "as_u256 r = as_u256 r' \<longleftrightarrow> r = r'"
  by (cases r; cases r') simp

interpretation at: exact_codec action_type_to_sol action_type_from_sol
proof unfold_locales
  show "action_type_from_sol (action_type_to_sol x) = Some x" for x
    by (cases x) simp_all
  show "action_type_from_sol w = Some x \<Longrightarrow> action_type_to_sol x = w" for w x
    by (cases w) auto
qed

interpretation ac: exact_codec to_sol_action action_from_sol
proof unfold_locales
  show "action_from_sol (to_sol_action x) = Some x" for x
    by (simp add: action_from_sol_def to_sol_action_def at.dec_enc)
  show "action_from_sol w = Some x \<Longrightarrow> to_sol_action x = w" for w x
    by (auto simp: action_from_sol_def to_sol_action_def split: option.splits dest: at.enc_dec)
qed

lemma delta_conversions [simp, wire_simps]:
  "delta_from_sol (delta_to_sol d) = d" "delta_to_sol (delta_from_sol sd) = sd"
  by (simp_all add: delta_from_sol_def delta_to_sol_def)

lemma delta_conversions_comp [simp]:
  "delta_from_sol \<circ> delta_to_sol = id" "delta_to_sol \<circ> delta_from_sol = id"
  by (simp_all add: fun_eq_iff)

interpretation en: exact_codec entry_to_sol entry_from_sol
proof unfold_locales
  show "entry_from_sol (entry_to_sol x) = Some x" for x
    by (simp add: entry_from_sol_def entry_to_sol_def ac.dec_enc)
  show "entry_from_sol w = Some x \<Longrightarrow> entry_to_sol x = w" for w x
    by (auto simp: entry_from_sol_def entry_to_sol_def split: option.splits dest: ac.enc_dec)
qed

interpretation pl: exact_codec parent_to_option "Some \<circ> parent_from_option"
proof unfold_locales
  show "(Some \<circ> parent_from_option) (parent_to_option x) = Some x" for x
    by (cases x rule: parent_to_option.cases) (auto, metis absolute_call_index.exhaust index_as_usize.simps)
  show "(Some \<circ> parent_from_option) w = Some x \<Longrightarrow> parent_to_option x = w" for w x
    by (cases w) auto
qed

interpretation ou: exact_codec outcome_as_bool "Some \<circ> outcome_from_bool"
proof unfold_locales
  show "(Some \<circ> outcome_from_bool) (outcome_as_bool x) = Some x" for x
    by (cases x) (simp_all add: outcome_from_bool_def)
  show "(Some \<circ> outcome_from_bool) w = Some x \<Longrightarrow> outcome_as_bool x = w" for w x
    by (cases w) (auto simp: outcome_from_bool_def)
qed

interpretation gm: exact_codec mode_as_bool "Some \<circ> mode_from_bool"
proof unfold_locales
  show "(Some \<circ> mode_from_bool) (mode_as_bool x) = Some x" for x
    by (cases x) (simp_all add: mode_from_bool_def)
  show "(Some \<circ> mode_from_bool) w = Some x \<Longrightarrow> mode_as_bool x = w" for w x
    by (cases w) (auto simp: mode_from_bool_def)
qed


section \<open>Big-endian readings\<close>

lemma be_word_Nil [simp]: "be_word [] = 0"
  by (simp add: be_word_def)

lemma be_word_snoc: "be_word (bs @ [b]) = (be_word bs * 256 + ucast b :: 'a::len word)"
  by (simp add: be_word_def)

lemma be_word_append:
  "(be_word (as @ bs) :: 'a::len word) = be_word as * 256 ^ length bs + be_word bs"
proof (induction bs rule: rev_induct)
  case (snoc b bs)
  then show ?case by (simp add: be_word_snoc algebra_simps flip: append_assoc)
qed simp

lemma be_word_zeros [simp]: "be_word (replicate n 0) = 0"
  by (induction n) (simp_all add: be_word_snoc flip: replicate_append_same)

lemma u256_power: "(256 :: u256) ^ 32 = 0"
  by simp

section \<open>Properties\<close>

text \<open>
  The ABI boundary is lossless in both directions. Converting a list of entries to the
  ABI structs and back with \<open>collect::<Result<..>>\<close> gives the same list; whatever list of ABI
  structs decodes, re-encodes to itself; and an entry is rejected exactly when the type of its
  next action is not one of the five known variants.
\<close>

theorem abi_entries_roundtrip:
  "those (map entry_from_sol (map entry_to_sol es)) = Some es \<and>
   (those (map entry_from_sol ws) = Some es \<longrightarrow> ws = map entry_to_sol es) \<and>
   (entry_from_sol w = None \<longleftrightarrow> sol_actionType (sol_nextAction w) = INVALID)"
proof -
  have "entry_from_sol w = None \<longleftrightarrow> sol_actionType (sol_nextAction w) = INVALID"
    by (cases "sol_actionType (sol_nextAction w)")
      (simp_all add: entry_from_sol_def action_from_sol_def)
  then show ?thesis
    by (auto simp: en.collect_enc simp del: map_map dest: en.collect_dec)
qed

definition sample_entry :: cross_chain_execution_entry where
  "sample_entry =
     \<lparr>state_deltas = [\<lparr>delta_rollup_id = RollupId 1, current_state = 5, new_state = 6, ether_delta = - 2\<rparr>],
      action_hash = ActionHash 7,
      next_action = \<lparr>action_type = Call, rollup_id = RollupId 1, destination = 3, call_value = 2,
        call_data = [1, 2], failed = False, source_address = 4, source_rollup = MAINNET,
        scope = from_index 0\<rparr>\<rparr>"

theorem abi_entries_roundtrip_witness:
  "those (map entry_from_sol [entry_to_sol sample_entry]) = Some [sample_entry] \<and>
   [entry_to_sol sample_entry] = map entry_to_sol [sample_entry]"
  using abi_entries_roundtrip [of "[sample_entry]" "[entry_to_sol sample_entry]"] by simp

text \<open>
  \<open>RollupId::from_bytes_at_boundary\<close> reads any byte string as the big-endian number it
  denotes modulo \<open>2 ^ 256\<close>: shorter inputs are padded on the left, longer ones keep their
  low-order 32 bytes.
\<close>

theorem from_bytes_at_boundary_be:
  "from_bytes_at_boundary bs = RollupId (be_word bs)"
proof (cases "length bs \<le> 32")
  case True
  then show ?thesis by (simp add: from_bytes_at_boundary_def be_word_append)
next
  case False
  let ?n = "length bs - 32"
  have "(be_word bs :: u256) = be_word (take ?n bs @ drop ?n bs)" by simp
  also have "\<dots> = be_word (take ?n bs) * 256 ^ length (drop ?n bs) + be_word (drop ?n bs)"
    by (rule be_word_append)
  also have "length (drop ?n bs) = 32" using False by simp
  finally have "(be_word bs :: u256) = be_word (drop ?n bs)"
    by (simp only: u256_power mult_zero_right add_0)
  with False show ?thesis by (simp add: from_bytes_at_boundary_def)
qed

end
