(* ===== verification/Sim_Artifact.thy ===== *)
theory Sim_Artifact
  imports Cross_Chain_Types
begin

text \<open>
  \<open>is_simulation_artifact\<close> of \<open>cross_chain.rs\<close>: is revert data an artifact of simulating a
  delivery whose entries are not loaded yet? The four selectors are generated by \<open>sol!\<close> and
  are a parameter. The length word of the wrapped bytes is attacker-controlled, so the
  additions on \<open>usize\<close> keep their width: \<open>oc\<close> says whether the build has overflow checks
  (\<open>dev\<close>) or wraps (\<open>release\<close>; the workspace sets no profile).
\<close>

definition usize_add :: "bool \<Rightarrow> nat \<Rightarrow> nat \<Rightarrow> panic + nat" where
  "usize_add oc a b =
     (if a + b < 2 ^ 64 then Inr (a + b)
      else if oc then Inl ArithmeticOverflow else Inr ((a + b) mod 2 ^ 64))"

function is_simulation_artifact :: "bool \<Rightarrow> bytes list \<Rightarrow> bytes \<Rightarrow> panic + bool" where
  "is_simulation_artifact oc sels data =
     (if length data \<le> 4 then Inr True
      else if take 4 data \<in> set sels then Inr True
      else if length data > 68 then
        (let params = drop 4 data;
             inner_len = min (unat (be_word (take 32 (drop 32 params)) :: u256)) u64_max
         in if inner_len > 0 then
              (case usize_add oc 64 inner_len of
                 Inl p \<Rightarrow> Inl p
               | Inr end_pos \<Rightarrow>
                   if length params \<ge> end_pos then
                     (case slice_range params 64 end_pos of
                        Inl p \<Rightarrow> Inl p
                      | Inr inner \<Rightarrow> is_simulation_artifact oc sels inner)
                   else Inr False)
            else Inr False)
      else Inr False)"
  by pat_completeness auto
termination
  by (relation "measure (\<lambda>(oc, sels, data). length data)")
    (auto dest!: length_slice_range simp: min_def)

declare is_simulation_artifact.simps [simp del]

text \<open>An ABI-encoded error with one \<open>bytes\<close> parameter: selector, offset, length, content.\<close>

definition wrapped_error :: "bytes \<Rightarrow> bytes \<Rightarrow> bytes \<Rightarrow> bytes \<Rightarrow> bytes \<Rightarrow> bytes" where
  "wrapped_error sel off len inner pad = sel @ off @ len @ inner @ pad"

definition wrapper_parts :: "bytes \<Rightarrow> bytes \<Rightarrow> bytes \<Rightarrow> bool" where
  "wrapper_parts sel off len \<longleftrightarrow> length sel = 4 \<and> length off = 32 \<and> length len = 32"

lemma wrapped_error_parts:
  assumes "wrapper_parts sel off len"
  shows "take 4 (wrapped_error sel off len inner pad) = sel"
    and "drop 4 (wrapped_error sel off len inner pad) = off @ len @ inner @ pad"
    and "take 32 (drop 32 (off @ len @ inner @ pad)) = len"
    and "length (wrapped_error sel off len inner pad) = 68 + length inner + length pad"
  using assms by (simp_all add: wrapper_parts_def wrapped_error_def)

lemma artifact_wrapped:
  assumes parts: "wrapper_parts sel off len" and sel: "sel \<notin> set sels"
    and rest: "inner @ pad \<noteq> []" and len: "unat (be_word len :: u256) > 0"
  shows "is_simulation_artifact oc sels (wrapped_error sel off len inner pad) =
    (let params = off @ len @ inner @ pad in
      case usize_add oc 64 (min (unat (be_word len :: u256)) u64_max) of
        Inl p \<Rightarrow> Inl p
      | Inr end_pos \<Rightarrow>
          if length params \<ge> end_pos then
            (case slice_range params 64 end_pos of
               Inl p \<Rightarrow> Inl p
             | Inr inner \<Rightarrow> is_simulation_artifact oc sels inner)
          else Inr False)"
proof -
  have more: "68 < length (wrapped_error sel off len inner pad)"
    using rest wrapped_error_parts(4) [OF parts, of inner pad] by (cases inner; cases pad) auto
  have pos: "min (unat (be_word len :: u256)) u64_max > 0"
    using len by (simp add: u64_max_def)
  show ?thesis
    by (subst is_simulation_artifact.simps)
      (use more pos sel in \<open>simp only: wrapped_error_parts(1-3) [OF parts] Let_def if_True if_False
        simp_thms not_le [symmetric]\<close>, simp add: not_le)
qed

lemma artifact_unwrap:
  assumes parts: "wrapper_parts sel off len" and sel: "sel \<notin> set sels"
    and len: "unat (be_word len :: u256) = length inner"
    and inner: "inner \<noteq> []" "length inner < 2 ^ 64 - 64"
  shows "is_simulation_artifact oc sels (wrapped_error sel off len inner pad) =
    is_simulation_artifact oc sels inner"
proof -
  have add: "usize_add oc 64 (length inner) = Inr (64 + length inner)"
    using inner by (simp add: usize_add_def)
  have mn: "min (length inner) u64_max = length inner"
    using inner by (simp add: u64_max_def)
  have sl: "slice_range (off @ len @ inner @ pad) 64 (64 + length inner) = Inr inner"
    using parts by (simp add: slice_range_def wrapper_parts_def)
  show ?thesis
    using parts inner by (simp add: artifact_wrapped [OF parts sel] len mn add sl Let_def wrapper_parts_def)
qed

lemma artifact_huge_length:
  assumes parts: "wrapper_parts sel off len" and sel: "sel \<notin> set sels"
    and len: "2 ^ 64 - 64 \<le> unat (be_word len :: u256)" and rest: "inner @ pad \<noteq> []"
  shows "is_simulation_artifact oc sels (wrapped_error sel off len inner pad) =
    Inl (if oc then ArithmeticOverflow else SliceOutOfRange)"
proof -
  define n where "n = min (unat (be_word len :: u256)) u64_max"
  have n: "2 ^ 64 - 64 \<le> n" "n < 2 ^ 64" using len by (simp_all add: u64_max_def n_def)
  then have ov: "\<not> 64 + n < 2 ^ 64" and wrap: "(64 + n) mod 2 ^ 64 < 64"
    by (auto simp: mod_if)
  have pos: "unat (be_word len :: u256) > 0" using len by simp
  have fits: "(64 + n) mod 2 ^ 64 \<le> length (off @ len @ inner @ pad)"
    using wrap parts by (simp add: wrapper_parts_def)
  have "slice_range (off @ len @ inner @ pad) 64 ((64 + n) mod 2 ^ 64) = Inl SliceOutOfRange"
    using wrap by (simp add: slice_range_def)
  moreover have "usize_add oc 64 n =
      (if oc then Inl ArithmeticOverflow else Inr ((64 + n) mod 2 ^ 64))"
    unfolding usize_add_def using ov by (simp only: if_False)
  ultimately show ?thesis
    unfolding artifact_wrapped [OF parts sel rest pos] Let_def n_def [symmetric]
    using fits by (cases oc) (simp_all only: if_True if_False sum.case)
qed

text \<open>Wrappers around wrappers, outermost first: \<open>(selector, offset, length, padding)\<close>.\<close>

type_synonym layer = "bytes \<times> bytes \<times> bytes \<times> bytes"

fun wrap_layers :: "layer list \<Rightarrow> bytes \<Rightarrow> bytes" where
  "wrap_layers [] data = data"
| "wrap_layers ((sel, off, len, pad) # ls) data = wrapped_error sel off len (wrap_layers ls data) pad"

fun layers_ok :: "bytes list \<Rightarrow> layer list \<Rightarrow> bytes \<Rightarrow> bool" where
  "layers_ok sels [] data \<longleftrightarrow> True"
| "layers_ok sels ((sel, off, len, pad) # ls) data \<longleftrightarrow>
     wrapper_parts sel off len \<and> sel \<notin> set sels \<and>
     unat (be_word len :: u256) = length (wrap_layers ls data) \<and>
     wrap_layers ls data \<noteq> [] \<and> length (wrap_layers ls data) < 2 ^ 64 - 64 \<and>
     layers_ok sels ls data"

definition be_bytes32 :: "u8 \<Rightarrow> bytes" where
  "be_bytes32 b = replicate 31 0 @ [b]"

lemma be_word_bytes32 [simp]: "(be_word (be_bytes32 b) :: u256) = ucast b"
  by (simp add: be_bytes32_def be_word_append) (simp add: be_word_def)

lemma length_be_bytes32 [simp]: "length (be_bytes32 b) = 32"
  by (simp add: be_bytes32_def)

section \<open>Properties\<close>

text \<open>
  Wrapping is transparent. For revert data wrapped any number of times in ABI-encoded
  errors with a \<open>bytes\<close> parameter and unknown selectors, the classification is that of the
  innermost data, and the recursion reaches it.
\<close>

theorem simulation_artifact_unwraps:
  assumes "layers_ok sels layers data"
  shows "is_simulation_artifact oc sels (wrap_layers layers data) =
    is_simulation_artifact oc sels data"
  using assms
  by (induction layers) (auto simp: artifact_unwrap)

theorem simulation_artifact_unwraps_witness:
  "is_simulation_artifact False [[1, 2, 3, 4]]
     (wrap_layers [([9, 9, 9, 9], be_bytes32 32, be_bytes32 5, replicate 27 0)] [1, 2, 3, 4, 5]) = Inr True"
proof -
  have ok: "layers_ok [[1, 2, 3, 4]]
      [([9, 9, 9, 9], be_bytes32 32, be_bytes32 5, replicate 27 0)] [1, 2, 3, 4, 5]"
    by (simp add: wrapper_parts_def)
  show ?thesis
    unfolding simulation_artifact_unwraps [OF ok]
    by (simp add: is_simulation_artifact.simps)
qed

text \<open>
  A length word of at least \<open>2 ^ 64 - 64\<close> in the wrapped position makes the function
  panic in every build: the addition overflows in a checked build, and in a release build it
  wraps to an end before the start of the slice. The revert data comes from the traced
  contract.
\<close>

theorem simulation_artifact_panics:
  assumes "wrapper_parts sel off len" and "sel \<notin> set sels"
    and "2 ^ 64 - 64 \<le> unat (be_word len :: u256)" and "content \<noteq> []"
  shows "\<exists>p. is_simulation_artifact oc sels (sel @ off @ len @ content) = Inl p"
  using artifact_huge_length [OF assms(1-3), of content "[]" oc] assms(4)
  by (simp add: wrapped_error_def)

lemma be_word_big: "(be_word (replicate 20 0 @ [1] @ replicate 11 0) :: u256) = 2 ^ 88"
  by (simp only: be_word_append be_word_zeros) (simp add: be_word_def)

theorem simulation_artifact_panics_witness:
  "\<exists>p. is_simulation_artifact True []
     ([1, 2, 3, 4] @ be_bytes32 32 @ (replicate 20 0 @ [1] @ replicate 11 0) @ [0]) = Inl p"
proof (rule simulation_artifact_panics)
  show "2 ^ 64 - 64 \<le> unat (be_word (replicate 20 0 @ [1] @ replicate 11 0) :: u256)"
    unfolding be_word_big by simp
qed (simp_all add: wrapper_parts_def)

text \<open>
  An ABI-encoded error with one dynamic parameter of one to four bytes counts as an
  artifact, whatever its selector. \<open>Error(string)\<close> has this shape, so a \<open>require\<close> with a reason
  of at most four characters is taken for a simulation artifact although it is a terminal
  failure of at least 100 bytes.
\<close>

theorem short_reason_is_artifact:
  assumes "wrapper_parts sel off len" and "unat (be_word len :: u256) = length reason"
    and "reason \<noteq> []" and "length reason \<le> 4"
  shows "is_simulation_artifact oc sels (wrapped_error sel off len reason pad) = Inr True"
proof (cases "sel \<in> set sels")
  case True
  then show ?thesis using assms
    by (subst is_simulation_artifact.simps) (simp add: wrapped_error_parts)
next
  case False
  have "is_simulation_artifact oc sels (wrapped_error sel off len reason pad) =
      is_simulation_artifact oc sels reason"
    using assms False by (intro artifact_unwrap) auto
  also have "\<dots> = Inr True" using assms by (simp add: is_simulation_artifact.simps)
  finally show ?thesis .
qed

theorem short_reason_is_artifact_witness:
  "is_simulation_artifact False []
     (wrapped_error [0x08, 0xc3, 0x79, 0xa0] (be_bytes32 32) (be_bytes32 3) [0x45, 0x52, 0x52]
       (replicate 29 0)) = Inr True"
  by (rule short_reason_is_artifact) (simp_all add: wrapper_parts_def)

end
