(* ===== verification/Call_Discovery.thy ===== *)
theory Call_Discovery
  imports Cross_Chain_Types
begin

text \<open>
  Duplicate handling during the iterative discovery of cross-chain calls (\<open>cross_chain.rs\<close>):
  \<open>has_duplicate_calls\<close> and the count-based filter \<open>filter_new_by_count\<close>.
\<close>

section \<open>Definitions\<close>

type_synonym call_key = "address \<times> bytes \<times> u256 \<times> address"

fun duplicate_loop :: "('k \<rightharpoonup> nat) \<Rightarrow> 'k list \<Rightarrow> bool" where
  "duplicate_loop seen [] = False"
| "duplicate_loop seen (c # cs) =
     (let count = (case seen c of None \<Rightarrow> 0 | Some n \<Rightarrow> n) + 1
      in if count > 1 then True else duplicate_loop (seen(c \<mapsto> count)) cs)"

definition has_duplicate_calls :: "call_key list \<Rightarrow> bool" where
  "has_duplicate_calls calls = duplicate_loop Map.empty calls"

fun filter_new_loop :: "('a \<Rightarrow> 'a \<Rightarrow> bool) \<Rightarrow> 'a list \<Rightarrow> bool list \<Rightarrow> 'a list \<Rightarrow> 'a list \<Rightarrow> 'a list" where
  "filter_new_loop eqv existing used result [] = result"
| "filter_new_loop eqv existing used result (item # new_items) =
     (case position (\<lambda>(i, ex). \<not> used ! i \<and> eqv item ex) (enumerate 0 existing) of
        Some idx \<Rightarrow> filter_new_loop eqv existing (used[idx := True]) result new_items
      | None \<Rightarrow> filter_new_loop eqv existing used (result @ [item]) new_items)"

definition filter_new_by_count :: "'a list \<Rightarrow> 'a list \<Rightarrow> ('a \<Rightarrow> 'a \<Rightarrow> bool) \<Rightarrow> 'a list" where
  "filter_new_by_count new_items existing eqv =
     filter_new_loop eqv existing (replicate (length existing) False) [] new_items"

section \<open>Lemmas\<close>

lemma duplicate_loop_iff:
  "ran seen \<subseteq> {1} \<Longrightarrow> duplicate_loop seen cs \<longleftrightarrow> \<not> distinct cs \<or> set cs \<inter> dom seen \<noteq> {}"
proof (induction cs arbitrary: seen)
  case (Cons c cs)
  show ?case
  proof (cases "seen c")
    case None
    with Cons.prems have "ran (seen(c \<mapsto> 1)) \<subseteq> {1}" by simp
    with None Cons.IH [of "seen(c \<mapsto> 1)"] show ?thesis
      by (auto simp: Let_def simp del: fun_upd_apply)
  next
    case (Some n)
    with Cons.prems have "n = 1" by (auto simp: ran_def)
    with Some show ?thesis by (auto simp: Let_def)
  qed
qed simp

definition unused :: "'a list \<Rightarrow> bool list \<Rightarrow> 'a list" where
  "unused existing used = map fst (filter (\<lambda>(x, u). \<not> u) (zip existing used))"

lemma unused_replicate [simp]: "unused xs (replicate (length xs) False) = xs"
  unfolding unused_def by (induction xs) simp_all

lemma mset_unused_update:
  "length used = length xs \<Longrightarrow> i < length xs \<Longrightarrow> \<not> used ! i \<Longrightarrow>
     mset (unused xs used) = add_mset (xs ! i) (mset (unused xs (used[i := True])))"
proof (induction xs arbitrary: used i)
  case (Cons x xs)
  then obtain u us where "used = u # us" "length us = length xs" by (cases used) auto
  with Cons show ?case
    by (cases i) (auto simp: unused_def)
qed simp

lemma in_unused: "length used = length xs \<Longrightarrow>
    x \<in> set (unused xs used) \<longleftrightarrow> (\<exists>i < length xs. xs ! i = x \<and> \<not> used ! i)"
  by (auto simp: unused_def set_zip image_iff)

lemma filter_new_loop_result:
  assumes "length used = length existing"
  shows "\<exists>rest. filter_new_loop (\<lambda>x y. key x = key y) existing used result items = result @ rest \<and>
    image_mset key (mset rest) =
      image_mset key (mset items) - image_mset key (mset (unused existing used)) \<and>
    subseq rest items"
  using assms
proof (induction items arbitrary: used result)
  case Nil
  then show ?case by simp
next
  case (Cons item items)
  let ?P = "\<lambda>(i, ex). \<not> used ! i \<and> key item = key ex"
  show ?case
  proof (cases "position ?P (enumerate 0 existing)")
    case None
    have "key item \<notin># image_mset key (mset (unused existing used))"
    proof
      assume "key item \<in># image_mset key (mset (unused existing used))"
      then obtain i where "i < length existing" "key (existing ! i) = key item" "\<not> used ! i"
        using in_unused [OF Cons.prems] by auto
      then have "(i, existing ! i) \<in> set (enumerate 0 existing)"
        by (simp add: in_set_enumerate_eq)
      from position_NoneD [OF None this] \<open>key _ = key item\<close> \<open>\<not> used ! i\<close> show False by simp
    qed
    moreover obtain rest where "filter_new_loop (\<lambda>x y. key x = key y) existing used (result @ [item]) items
        = (result @ [item]) @ rest"
      "image_mset key (mset rest) =
        image_mset key (mset items) - image_mset key (mset (unused existing used))"
      "subseq rest items"
      using Cons.IH [OF Cons.prems, of "result @ [item]"] by blast
    ultimately show ?thesis using None
      by (intro exI [of _ "item # rest"]) (simp add: diff_add_mset_swap)
  next
    case (Some idx)
    from position_SomeD [OF this]
    have idx: "idx < length existing" "\<not> used ! idx" "key (existing ! idx) = key item"
      by (auto simp: nth_enumerate_eq)
    have len: "length (used[idx := True]) = length existing" using Cons.prems by simp
    obtain rest where "filter_new_loop (\<lambda>x y. key x = key y) existing (used[idx := True]) result items
        = result @ rest"
      "image_mset key (mset rest) = image_mset key (mset items) -
        image_mset key (mset (unused existing (used[idx := True])))" "subseq rest items"
      using Cons.IH [OF len, of result] by blast
    with Some idx mset_unused_update [OF Cons.prems idx(1,2)] show ?thesis
      by (intro exI [of _ rest]) auto
  qed
qed

section \<open>Properties\<close>

text \<open>
  \<open>has_duplicate_calls\<close> decides whether two of the calls have the same identity, the
  4-tuple (destination, calldata, value, source address).
\<close>

theorem has_duplicate_calls_iff: "has_duplicate_calls calls \<longleftrightarrow> \<not> distinct calls"
  by (simp add: has_duplicate_calls_def duplicate_loop_iff)

text \<open>
  \<open>filter_new_by_count\<close> computes a multiset difference. When two items match iff their
  keys are equal, the kept items are, counted by key, the new items minus the existing ones,
  so duplicates beyond the existing count survive, and they keep their order.
\<close>

theorem filter_new_by_count_mset:
  "image_mset key (mset (filter_new_by_count new_items existing (\<lambda>x y. key x = key y))) =
     image_mset key (mset new_items) - image_mset key (mset existing) \<and>
   subseq (filter_new_by_count new_items existing (\<lambda>x y. key x = key y)) new_items"
proof -
  have "length (replicate (length existing) False) = length existing" by simp
  from filter_new_loop_result [OF this, of key "[]" new_items]
  show ?thesis by (auto simp: filter_new_by_count_def)
qed

end
