(* ===== verification/Call_Entries.thy ===== *)
theory Call_Entries
  imports Cross_Chain_Types
begin

text \<open>
  Building execution entries (\<open>cross_chain.rs\<close>): REVERT helpers, the CALL/RESULT pairs of
  an L1-to-L2 call, the table and deferred entries of an L2-to-L1 call, immediate entries of a
  block batch, the split into table and trigger entries, and the pair conversion for L1.
  \<open>keccak256\<close> and the ABI encoders belong to alloy and are the fields of the parameter
  \<open>abi\<close>; hash equality is used as an identity of actions only under an explicit hypothesis
  that the hash is injective on the actions at hand.
\<close>

record abi =
  keccak :: "bytes \<Rightarrow> b256"
  enc_action :: "sol_action \<Rightarrow> bytes"
  enc_deltas :: "sol_state_delta list \<Rightarrow> bytes"
  enc_words :: "b256 list \<Rightarrow> bytes"

text \<open>\<open>ActionHash::new(keccak256(Action::abi_encode(&a.to_sol_action())))\<close>.\<close>

definition hash_of :: "abi \<Rightarrow> cross_chain_action \<Rightarrow> action_hash" where
  "hash_of A a = ActionHash (keccak A (enc_action A (to_sol_action a)))"

section \<open>REVERT helpers\<close>

definition revert_action :: "rollup_id \<Rightarrow> scope_path \<Rightarrow> cross_chain_action" where
  "revert_action rid sc =
     \<lparr>action_type = Revert, rollup_id = rid, destination = 0, call_value = 0, call_data = [],
      failed = False, source_address = 0, source_rollup = MAINNET, scope = sc\<rparr>"

definition revert_continue_action :: "rollup_id \<Rightarrow> cross_chain_action" where
  "revert_continue_action rid =
     \<lparr>action_type = RevertContinue, rollup_id = rid, destination = 0, call_value = 0,
      call_data = [], failed = True, source_address = 0, source_rollup = MAINNET,
      scope = scope_root\<rparr>"

definition compute_revert_continue_hash :: "abi \<Rightarrow> rollup_id \<Rightarrow> action_hash" where
  "compute_revert_continue_hash A rid = hash_of A (revert_continue_action rid)"

text \<open>The RESULT literal the builders repeat.\<close>

definition result_action :: "rollup_id \<Rightarrow> bytes \<Rightarrow> bool \<Rightarrow> cross_chain_action" where
  "result_action rid data flag =
     \<lparr>action_type = Result, rollup_id = rid, destination = 0, call_value = 0, call_data = data,
      failed = flag, source_address = 0, source_rollup = MAINNET, scope = scope_root\<rparr>"

section \<open>L1-to-L2 calls\<close>

definition build_cross_chain_call_entries ::
    "abi \<Rightarrow> rollup_id \<Rightarrow> address \<Rightarrow> bytes \<Rightarrow> u256 \<Rightarrow> address \<Rightarrow> rollup_id \<Rightarrow> bool \<Rightarrow> bytes
     \<Rightarrow> cross_chain_execution_entry \<times> cross_chain_execution_entry" where
  "build_cross_chain_call_entries A rid dest data val src_addr src_rollup call_success ret =
     (let call = \<lparr>action_type = Call, rollup_id = rid, destination = dest, call_value = val,
            call_data = data, failed = False, source_address = src_addr,
            source_rollup = src_rollup, scope = scope_root\<rparr>;
          result = result_action rid ret (\<not> call_success)
      in (\<lparr>state_deltas = [], action_hash = hash_of A call, next_action = call\<rparr>,
          \<lparr>state_deltas = [], action_hash = hash_of A result, next_action = result\<rparr>))"

section \<open>L2-to-L1 calls\<close>

record withdrawal_entries =
  l2_table_entries :: "cross_chain_execution_entry list"
  l1_deferred_entries :: "cross_chain_execution_entry list"
  w_user :: address
  w_amount :: u256

text \<open>\<open>-I256::try_from(value).unwrap_or(I256::ZERO)\<close>: the conversion fails from \<open>2 ^ 255\<close> on.\<close>

definition i256_from_u256 :: "u256 \<Rightarrow> i256" where
  "i256_from_u256 v = (if unat v < 2 ^ 255 then v else 0)"

definition delivery_ether_delta :: "u256 \<Rightarrow> i256" where
  "delivery_ether_delta v = (if v = 0 then 0 else - i256_from_u256 v)"

definition zero_delta :: "rollup_id \<Rightarrow> i256 \<Rightarrow> cross_chain_state_delta" where
  "zero_delta rid d = \<lparr>delta_rollup_id = rid, current_state = 0, new_state = 0, ether_delta = d\<rparr>"

definition build_l2_to_l1_call_entries ::
    "abi \<Rightarrow> address \<Rightarrow> bytes \<Rightarrow> u256 \<Rightarrow> address \<Rightarrow> u64 \<Rightarrow> bytes \<Rightarrow> bytes \<Rightarrow> bool \<Rightarrow> u256 list
     \<Rightarrow> tx_outcome \<Rightarrow> withdrawal_entries" where
  "build_l2_to_l1_call_entries A dest data val src_addr rollup rlp_tx delivery_ret
      delivery_failed l1_delivery_scope outcome =
     (let rid = RollupId (ucast rollup);
          l2_call = \<lparr>action_type = Call, rollup_id = MAINNET, destination = dest,
            call_value = val, call_data = data, failed = False, source_address = src_addr,
            source_rollup = rid, scope = scope_root\<rparr>;
          l2_result = result_action MAINNET delivery_ret delivery_failed;
          table = [\<lparr>state_deltas = [], action_hash = hash_of A l2_call, next_action = l2_result\<rparr>,
                   \<lparr>state_deltas = [], action_hash = hash_of A l2_result, next_action = l2_result\<rparr>];
          l1_trigger = \<lparr>action_type = L2Tx, rollup_id = rid, destination = 0, call_value = 0,
            call_data = rlp_tx, failed = False, source_address = 0, source_rollup = MAINNET,
            scope = scope_root\<rparr>;
          effective_scope = (if outcome = Outcome_Revert \<and> l1_delivery_scope = [] then [0]
                             else l1_delivery_scope);
          l1_delivery = \<lparr>action_type = Call, rollup_id = MAINNET, destination = dest,
            call_value = val, call_data = data, failed = False, source_address = src_addr,
            source_rollup = rid, scope = from_parts effective_scope\<rparr>;
          l1_delivery_result = result_action MAINNET delivery_ret delivery_failed;
          l2tx_terminal = result_action rid [] False;
          delta = delivery_ether_delta val;
          deferred =
            (if outcome = Outcome_Revert then
               [\<lparr>state_deltas = [zero_delta rid 0], action_hash = hash_of A l1_trigger,
                 next_action = l1_delivery\<rparr>,
                \<lparr>state_deltas = [zero_delta rid delta], action_hash = hash_of A l1_delivery_result,
                 next_action = revert_action rid (from_index 0)\<rparr>,
                \<lparr>state_deltas = [zero_delta rid 0], action_hash = compute_revert_continue_hash A rid,
                 next_action = l2tx_terminal\<rparr>]
             else
               [\<lparr>state_deltas = [zero_delta rid 0], action_hash = hash_of A l1_trigger,
                 next_action = l1_delivery\<rparr>,
                \<lparr>state_deltas = [zero_delta rid delta], action_hash = hash_of A l1_delivery_result,
                 next_action = l2tx_terminal\<rparr>])
      in \<lparr>l2_table_entries = table, l1_deferred_entries = deferred, w_user = src_addr,
          w_amount = val\<rparr>)"

section \<open>Immediate entries\<close>

definition build_aggregate_block_entry :: "b256 \<Rightarrow> b256 \<Rightarrow> u64 \<Rightarrow> cross_chain_execution_entry" where
  "build_aggregate_block_entry pre_root post_root rollup =
     \<lparr>state_deltas = [\<lparr>delta_rollup_id = RollupId (ucast rollup), current_state = pre_root,
        new_state = post_root, ether_delta = 0\<rparr>],
      action_hash = ZERO_HASH,
      next_action = \<lparr>action_type = L2Tx, rollup_id = MAINNET, destination = 0, call_value = 0,
        call_data = [], failed = False, source_address = 0, source_rollup = MAINNET,
        scope = scope_root\<rparr>\<rparr>"

definition build_block_entries ::
    "(u64 \<times> b256 \<times> b256 \<times> bytes) list \<Rightarrow> u64 \<Rightarrow> cross_chain_execution_entry list" where
  "build_block_entries blocks rollup =
     map (\<lambda>(_, pre_root, post_root, _). build_aggregate_block_entry pre_root post_root rollup) blocks"

section \<open>Pairs, triggers, table entries\<close>

fun convert_pairs_to_l1_entries ::
    "cross_chain_execution_entry list \<Rightarrow> cross_chain_execution_entry list" where
  "convert_pairs_to_l1_entries (c # r # rest) =
     \<lparr>state_deltas = state_deltas c, action_hash = action_hash c, next_action = next_action r\<rparr>
     # convert_pairs_to_l1_entries rest"
| "convert_pairs_to_l1_entries _ = []"

definition is_trigger :: "abi \<Rightarrow> rollup_id \<Rightarrow> cross_chain_execution_entry \<Rightarrow> bool" where
  "is_trigger A our e \<longleftrightarrow>
     (action_type (next_action e) = Call \<and> rollup_id (next_action e) = our) \<and>
     hash_of A (next_action e) = action_hash e"

fun partition_loop :: "abi \<Rightarrow> rollup_id \<Rightarrow> cross_chain_execution_entry list
    \<Rightarrow> cross_chain_execution_entry list \<Rightarrow> cross_chain_execution_entry list
    \<Rightarrow> cross_chain_execution_entry list \<times> cross_chain_execution_entry list" where
  "partition_loop A our [] table triggers = (table, triggers)"
| "partition_loop A our (e # es) table triggers =
     (if is_trigger A our e then partition_loop A our es table (triggers @ [e])
      else partition_loop A our es (table @ [e]) triggers)"

definition partition_entries :: "abi \<Rightarrow> cross_chain_execution_entry list \<Rightarrow> rollup_id
    \<Rightarrow> cross_chain_execution_entry list \<times> cross_chain_execution_entry list" where
  "partition_entries A entries our = partition_loop A our entries [] []"

section \<open>Entry hashes and the public inputs hash\<close>

definition b256_bytes :: "b256 \<Rightarrow> bytes" where
  "b256_bytes h = map (\<lambda>i. ucast (drop_bit (8 * (31 - i)) h)) [0..<32]"

definition compute_entry_hashes ::
    "abi \<Rightarrow> cross_chain_execution_entry list \<Rightarrow> b256 \<Rightarrow> b256 list" where
  "compute_entry_hashes A entries verification_key =
     map (\<lambda>e. let sol = entry_to_sol e;
                   vks = map (\<lambda>_. verification_key) (sol_stateDeltas sol)
               in keccak A (enc_deltas A (sol_stateDeltas sol) @ enc_words A vks
                    @ b256_bytes (sol_actionHash sol) @ enc_action A (sol_nextAction sol)))
       entries"

definition compute_public_inputs_hash ::
    "abi \<Rightarrow> b256 list \<Rightarrow> bytes \<Rightarrow> b256 \<Rightarrow> u64 \<Rightarrow> b256" where
  "compute_public_inputs_hash A entry_hashes cd parent_block_hash block_timestamp =
     keccak A (b256_bytes parent_block_hash @ b256_bytes (ucast block_timestamp)
       @ enc_words A entry_hashes @ enc_words A [] @ b256_bytes (keccak A cd))"

end
