(* ===== verification/Entry_Reconstruction.thy ===== *)
theory Entry_Reconstruction
  imports Call_Entries
begin

text \<open>
  What a fullnode rebuilds from L1 (\<open>cross_chain.rs\<close>): \<open>convert_l1_entries_to_l2_pairs\<close>
  and \<open>reconstruct_continuation_l2_entries\<close>. Lookups are by action hash and occurrence:
  the hash map of vectors is \<^const>\<open>group_by\<close>, the counter of consumed occurrences a
  function that starts at zero (\<open>entry(..).or_insert(0)\<close>).
\<close>

section \<open>Standard pairs\<close>

type_synonym occ = "action_hash \<Rightarrow> nat"

definition is_call :: "cross_chain_execution_entry \<Rightarrow> bool" where
  "is_call e \<longleftrightarrow> action_type (next_action e) = Call"

fun pairs_loop :: "abi \<Rightarrow> bool \<Rightarrow> (action_hash \<rightharpoonup> cross_chain_action list) \<Rightarrow> occ
    \<Rightarrow> cross_chain_execution_entry list \<Rightarrow> cross_chain_execution_entry list" where
  "pairs_loop A has_continuations action_map consumed_idx [] = []"
| "pairs_loop A has_continuations action_map consumed_idx (entry # rest) =
     (let skip = pairs_loop A has_continuations action_map consumed_idx rest in
      if action_type (next_action entry) = Call then skip
      else if action_type (next_action entry) = Revert
           \<or> action_type (next_action entry) = RevertContinue then skip
      else
        (case Option.bind (action_map (action_hash entry))
                (\<lambda>actions. nth_opt actions (consumed_idx (action_hash entry))) of
           Some call_action \<Rightarrow>
             (let idx' = consumed_idx(action_hash entry := Suc (consumed_idx (action_hash entry)));
                  continue = pairs_loop A has_continuations action_map idx' rest;
                  call_entry = \<lparr>state_deltas = state_deltas entry, action_hash = action_hash entry,
                    next_action = call_action\<rparr>;
                  result_entry = \<lparr>state_deltas = [], action_hash = hash_of A (next_action entry),
                    next_action = next_action entry\<rparr>
              in if has_continuations \<and> action_type call_action \<noteq> Call then continue
                 else if \<not> has_continuations then call_entry # result_entry # continue
                 else call_entry # continue)
         | None \<Rightarrow> entry # skip))"

definition convert_l1_entries_to_l2_pairs ::
    "abi \<Rightarrow> cross_chain_execution_entry list \<Rightarrow> cross_chain_action list
     \<Rightarrow> cross_chain_execution_entry list" where
  "convert_l1_entries_to_l2_pairs A l1_entries call_actions =
     pairs_loop A (\<exists>e \<in> set l1_entries. is_call e) (group_by (hash_of A) call_actions) (\<lambda>_. 0) l1_entries"

section \<open>Continuations\<close>

text \<open>The lookup of a RESULT entry by hash and occurrence, with its update of the counter.\<close>

definition take_result :: "(action_hash \<rightharpoonup> cross_chain_execution_entry list) \<Rightarrow> occ \<Rightarrow> action_hash
    \<Rightarrow> (bytes \<times> bool) \<times> occ" where
  "take_result l1_entry_map consumed_idx h =
     (case Option.bind (l1_entry_map h)
             (\<lambda>es. nth_opt (filter (\<lambda>e. action_type (next_action e) = Result) es) (consumed_idx h)) of
        Some e \<Rightarrow> ((call_data (next_action e), failed (next_action e)), consumed_idx(h := Suc (consumed_idx h)))
      | None \<Rightarrow> (([], False), consumed_idx))"

definition unscoped :: "cross_chain_action \<Rightarrow> cross_chain_action" where
  "unscoped a = a\<lparr>scope := scope_root\<rparr>"

fun continuation_loop :: "abi \<Rightarrow> rollup_id \<Rightarrow> (action_hash \<rightharpoonup> cross_chain_action)
    \<Rightarrow> (action_hash \<rightharpoonup> cross_chain_execution_entry list) \<Rightarrow> occ
    \<Rightarrow> cross_chain_execution_entry list \<Rightarrow> cross_chain_execution_entry list" where
  "continuation_loop A our action_map l1_entry_map consumed_idx [] = []"
| "continuation_loop A our action_map l1_entry_map consumed_idx (entry # rest) =
     (if action_type (next_action entry) \<noteq> Call
      then continuation_loop A our action_map l1_entry_map consumed_idx rest
      else
        (case action_map (action_hash entry) of
           None \<Rightarrow> continuation_loop A our action_map l1_entry_map consumed_idx rest
         | Some call_b \<Rightarrow>
             (let call_c_scoped = next_action entry;
                  call_c_unscoped = unscoped call_c_scoped;
                  call_c_unscoped_hash = hash_of A call_c_unscoped;
                  ((inner_data, inner_failed), idx1) =
                    take_result l1_entry_map consumed_idx call_c_unscoped_hash;
                  scope_result_hash =
                    hash_of A (result_action (rollup_id call_c_scoped) inner_data inner_failed);
                  ((delivery_data, delivery_failed), idx2) =
                    take_result l1_entry_map idx1 scope_result_hash;
                  result_our_hash = hash_of A (result_action our inner_data inner_failed)
              in [\<lparr>state_deltas = [], action_hash = result_our_hash, next_action = call_b\<rparr>,
                  \<lparr>state_deltas = [], action_hash = call_c_unscoped_hash,
                   next_action = result_action (rollup_id call_c_scoped) inner_data inner_failed\<rparr>,
                  \<lparr>state_deltas = [], action_hash = result_our_hash,
                   next_action = result_action our delivery_data delivery_failed\<rparr>]
                 @ continuation_loop A our action_map l1_entry_map idx2 rest)))"

definition find_our_rollup_id :: "cross_chain_execution_entry list \<Rightarrow> rollup_id" where
  "find_our_rollup_id l1_entries =
     (case find (\<lambda>rid. \<not> is_mainnet rid) (map delta_rollup_id (concat (map state_deltas l1_entries))) of
        Some rid \<Rightarrow> rid | None \<Rightarrow> RollupId 1)"

definition reconstruct_continuation_l2_entries ::
    "abi \<Rightarrow> cross_chain_execution_entry list \<Rightarrow> cross_chain_action list
     \<Rightarrow> cross_chain_execution_entry list" where
  "reconstruct_continuation_l2_entries A l1_entries call_actions =
     (let action_map = map_of (rev (map (\<lambda>a. (hash_of A a, a)) call_actions));
          our_rollup_id = find_our_rollup_id l1_entries;
          l1_entry_map = group_by action_hash l1_entries
      in if \<exists>e \<in> set l1_entries. action_type (next_action e) = Revert then []
         else continuation_loop A our_rollup_id action_map l1_entry_map (\<lambda>_. 0) l1_entries)"

section \<open>Both look the actions up by hash and occurrence only\<close>

text \<open>
  The consumed actions reach these functions in the iteration order of a \<open>HashMap\<close>. Two
  orders are equivalent when every hash sees the same actions in the same order.
\<close>

definition same_by_hash :: "abi \<Rightarrow> cross_chain_action list \<Rightarrow> cross_chain_action list \<Rightarrow> bool" where
  "same_by_hash A as bs \<longleftrightarrow>
     (\<forall>h. filter (\<lambda>a. hash_of A a = h) as = filter (\<lambda>a. hash_of A a = h) bs)"

lemma group_by_same: "same_by_hash A as bs \<Longrightarrow> group_by (hash_of A) as = group_by (hash_of A) bs"
  by (simp add: fun_eq_iff group_by_lookup same_by_hash_def)

lemma map_of_rev_key:
  "map_of (rev (map (\<lambda>a. (key a, a)) xs)) k =
     (if filter (\<lambda>a. key a = k) xs = [] then None else Some (last (filter (\<lambda>a. key a = k) xs)))"
  by (induction xs rule: rev_induct) auto

lemma map_of_rev_same: "same_by_hash A as bs \<Longrightarrow>
    map_of (rev (map (\<lambda>a. (hash_of A a, a)) as)) = map_of (rev (map (\<lambda>a. (hash_of A a, a)) bs))"
  by (simp add: fun_eq_iff map_of_rev_key same_by_hash_def)

lemma same_by_hash_mset:
  assumes "mset as = mset bs" and "inj_on (hash_of A) (set as)"
  shows "same_by_hash A as bs"
  unfolding same_by_hash_def
proof
  fix h
  have set_eq: "set bs = set as" using assms(1) by (metis set_mset_mset)
  have const: "\<exists>x. \<forall>a \<in> set as. hash_of A a = h \<longrightarrow> a = x"
    using assms(2) by (metis inj_onD)
  then obtain x where x: "\<And>a. a \<in> set as \<Longrightarrow> hash_of A a = h \<Longrightarrow> a = x" by blast
  have rep: "filter (\<lambda>a. hash_of A a = h) cs = replicate (length (filter (\<lambda>a. hash_of A a = h) cs)) x"
    if "set cs = set as" for cs
    by (rule replicate_eqI) (use that x in auto)
  have "length (filter (\<lambda>a. hash_of A a = h) as) = length (filter (\<lambda>a. hash_of A a = h) bs)"
    using assms(1) by (metis mset_filter size_mset)
  with rep [of as] rep [OF set_eq] show
    "filter (\<lambda>a. hash_of A a = h) as = filter (\<lambda>a. hash_of A a = h) bs"
    by metis
qed

section \<open>Pairs survive the trip through L1\<close>

text \<open>
  A simple call as the builder keeps it: the state deltas attached to its CALL entry, the
  CALL action and the RESULT action. Its pair is what \<open>build_cross_chain_call_entries\<close> makes.
\<close>

type_synonym simple_call = "cross_chain_state_delta list \<times> cross_chain_action \<times> cross_chain_action"

definition call_entry :: "abi \<Rightarrow> simple_call \<Rightarrow> cross_chain_execution_entry" where
  "call_entry A sc = (case sc of (ds, c, r) \<Rightarrow>
     \<lparr>state_deltas = ds, action_hash = hash_of A c, next_action = c\<rparr>)"

definition result_entry :: "abi \<Rightarrow> simple_call \<Rightarrow> cross_chain_execution_entry" where
  "result_entry A sc = (case sc of (ds, c, r) \<Rightarrow>
     \<lparr>state_deltas = [], action_hash = hash_of A r, next_action = r\<rparr>)"

definition l2_pairs :: "abi \<Rightarrow> simple_call list \<Rightarrow> cross_chain_execution_entry list" where
  "l2_pairs A scs = concat (map (\<lambda>sc. [call_entry A sc, result_entry A sc]) scs)"

definition call_of :: "simple_call \<Rightarrow> cross_chain_action" where
  "call_of sc = fst (snd sc)"

definition well_typed_call :: "simple_call \<Rightarrow> bool" where
  "well_typed_call sc \<longleftrightarrow> action_type (fst (snd sc)) = Call \<and> action_type (snd (snd sc)) = Result"

lemma l2_pairs_simps [simp]:
  "l2_pairs A [] = []"
  "l2_pairs A (sc # scs) = call_entry A sc # result_entry A sc # l2_pairs A scs"
  by (simp_all add: l2_pairs_def)

lemma build_cross_chain_call_entries_pair:
  "(case build_cross_chain_call_entries A rid dest data val src srcr ok ret of (c, r) \<Rightarrow> [c, r]) =
     l2_pairs A [([], next_action (fst (build_cross_chain_call_entries A rid dest data val src srcr ok ret)),
                  result_action rid ret (\<not> ok))] \<and>
   well_typed_call ([], next_action (fst (build_cross_chain_call_entries A rid dest data val src srcr ok ret)),
                  result_action rid ret (\<not> ok))"
  by (simp add: build_cross_chain_call_entries_def Let_def call_entry_def result_entry_def
      well_typed_call_def result_action_def)

definition l1_entry :: "abi \<Rightarrow> simple_call \<Rightarrow> cross_chain_execution_entry" where
  "l1_entry A sc = (case sc of (ds, c, r) \<Rightarrow>
     \<lparr>state_deltas = ds, action_hash = hash_of A c, next_action = r\<rparr>)"

lemma convert_pairs_l2_pairs: "convert_pairs_to_l1_entries (l2_pairs A scs) = map (l1_entry A) scs"
  by (induction scs) (auto simp: call_entry_def result_entry_def l1_entry_def)

lemma pairs_loop_l1_entries:
  assumes "\<forall>sc \<in> set scs. well_typed_call sc"
    and "\<And>h. drop (idx h) (filter (\<lambda>a. hash_of A a = h) acts) = filter (\<lambda>a. hash_of A a = h) (map call_of scs)"
  shows "pairs_loop A False (group_by (hash_of A) acts) idx (map (l1_entry A) scs) = l2_pairs A scs"
  using assms
proof (induction scs arbitrary: idx)
  case Nil
  then show ?case by simp
next
  case (Cons sc scs)
  obtain ds c r where sc: "sc = (ds, c, r)" by (cases sc)
  then have c: "call_of sc = c" by (simp add: call_of_def)
  let ?h = "hash_of A c"
  let ?fs = "filter (\<lambda>a. hash_of A a = ?h) acts"
  have drop: "drop (idx ?h) ?fs = c # filter (\<lambda>a. hash_of A a = ?h) (map call_of scs)"
    using Cons.prems(2) [of ?h] by (simp add: c)
  then have lt: "idx ?h < length ?fs" by (metis drop_eq_Nil leI list.discI)
  with drop have nth: "?fs ! idx ?h = c" by (metis Cons_nth_drop_Suc list.inject)
  let ?idx = "idx(?h := Suc (idx ?h))"
  have "drop (?idx h) (filter (\<lambda>a. hash_of A a = h) acts) = filter (\<lambda>a. hash_of A a = h) (map call_of scs)" for h
    using Cons.prems(2) [of h] drop lt
    by (cases "h = ?h") (auto simp: c drop_Suc simp flip: tl_drop)
  then have "pairs_loop A False (group_by (hash_of A) acts) ?idx (map (l1_entry A) scs) = l2_pairs A scs"
    using Cons.prems(1) by (intro Cons.IH) auto
  moreover have "Option.bind (group_by (hash_of A) acts ?h) (\<lambda>actions. nth_opt actions (idx ?h)) = Some c"
    unfolding group_by_nth using lt nth by (simp add: nth_opt_def)
  ultimately show ?case using Cons.prems(1)
    by (simp add: sc [symmetric] Let_def)
      (simp add: sc l1_entry_def [of A "(ds, c, r)"] call_entry_def result_entry_def well_typed_call_def)
qed

lemma no_continuations: "\<forall>sc \<in> set scs. well_typed_call sc \<Longrightarrow> \<not> (\<exists>e \<in> set (map (l1_entry A) scs). is_call e)"
  by (auto simp: is_call_def l1_entry_def well_typed_call_def)

lemma convert_same_by_hash:
  "same_by_hash A as bs \<Longrightarrow> convert_l1_entries_to_l2_pairs A es as = convert_l1_entries_to_l2_pairs A es bs"
  by (simp add: convert_l1_entries_to_l2_pairs_def group_by_same)

lemma reconstruct_same_by_hash:
  "same_by_hash A as bs \<Longrightarrow>
     reconstruct_continuation_l2_entries A es as = reconstruct_continuation_l2_entries A es bs"
  by (simp add: reconstruct_continuation_l2_entries_def map_of_rev_same)

lemma partition_loop_eq:
  "partition_loop A our es table triggers =
     (table @ filter (\<lambda>e. \<not> is_trigger A our e) es, triggers @ filter (is_trigger A our) es)"
  by (induction es arbitrary: table triggers) auto

lemma partition_entries_eq:
  "partition_entries A es our = (filter (\<lambda>e. \<not> is_trigger A our e) es, filter (is_trigger A our) es)"
  by (simp add: partition_entries_def partition_loop_eq)

section \<open>Properties\<close>

text \<open>
  C4: what the builder posts is what a fullnode rebuilds. For simple calls the pairs built for
  L2, converted to L1 entries and reconstructed from the consumed CALL actions, in whatever
  order these arrive and with duplicated calls among them, are the builder's pairs, state
  deltas included; no continuation entries appear, and the pairs split into the builder's
  RESULT table entries and CALL triggers.
\<close>

theorem l1_roundtrip_of_pairs:
  assumes "\<forall>sc \<in> set scs. well_typed_call sc \<and> rollup_id (call_of sc) = our"
    and "mset acts = mset (map call_of scs)"
    and "inj_on (hash_of A) (set (map call_of scs))"
  shows "convert_l1_entries_to_l2_pairs A (convert_pairs_to_l1_entries (l2_pairs A scs)) acts = l2_pairs A scs \<and>
    reconstruct_continuation_l2_entries A (convert_pairs_to_l1_entries (l2_pairs A scs)) acts = [] \<and>
    partition_entries A (l2_pairs A scs) our = (map (result_entry A) scs, map (call_entry A) scs)"
proof (intro conjI)
  have wt: "\<forall>sc \<in> set scs. well_typed_call sc" using assms(1) by blast
  have "same_by_hash A (map call_of scs) acts"
    using assms(2,3) by (intro same_by_hash_mset) auto
  then have "convert_l1_entries_to_l2_pairs A (map (l1_entry A) scs) acts =
      convert_l1_entries_to_l2_pairs A (map (l1_entry A) scs) (map call_of scs)"
    by (rule convert_same_by_hash [symmetric])
  also have "\<dots> = l2_pairs A scs"
    unfolding convert_l1_entries_to_l2_pairs_def
    using no_continuations [OF wt] wt by (simp add: pairs_loop_l1_entries del: bex_simps)
  finally show "convert_l1_entries_to_l2_pairs A (convert_pairs_to_l1_entries (l2_pairs A scs)) acts = l2_pairs A scs"
    by (simp add: convert_pairs_l2_pairs)
  have "continuation_loop A o' m1 m2 idx (map (l1_entry A) scs) = []" for o' m1 m2 idx
    using wt by (induction scs) (auto simp: l1_entry_def well_typed_call_def)
  then show "reconstruct_continuation_l2_entries A (convert_pairs_to_l1_entries (l2_pairs A scs)) acts = []"
    by (simp add: convert_pairs_l2_pairs reconstruct_continuation_l2_entries_def Let_def)
  show "partition_entries A (l2_pairs A scs) our = (map (result_entry A) scs, map (call_entry A) scs)"
    unfolding partition_entries_eq using assms(1)
    by (induction scs) (auto simp: is_trigger_def call_entry_def result_entry_def well_typed_call_def call_of_def)
qed

definition toy_abi :: abi where
  "toy_abi = \<lparr>keccak = be_word, enc_action = sol_data, enc_deltas = (\<lambda>_. []), enc_words = (\<lambda>_. [])\<rparr>"

definition toy_call :: "u8 \<Rightarrow> simple_call" where
  "toy_call b = ([], (next_action sample_entry)\<lparr>call_data := [b]\<rparr>, result_action (RollupId 1) [b] False)"

theorem l1_roundtrip_of_pairs_witness:
  "let scs = [toy_call 1, toy_call 2, toy_call 1];
       acts = map call_of [toy_call 2, toy_call 1, toy_call 1]
   in convert_l1_entries_to_l2_pairs toy_abi (convert_pairs_to_l1_entries (l2_pairs toy_abi scs)) acts
      = l2_pairs toy_abi scs"
proof -
  let ?scs = "[toy_call 1, toy_call 2, toy_call 1]"
  have "\<forall>sc \<in> set ?scs. well_typed_call sc \<and> rollup_id (call_of sc) = RollupId 1"
    by (simp add: toy_call_def well_typed_call_def call_of_def sample_entry_def result_action_def)
  moreover have "mset (map call_of [toy_call 2, toy_call 1, toy_call 1]) = mset (map call_of ?scs)"
    by simp
  moreover have "inj_on (hash_of toy_abi) (set (map call_of ?scs))"
    by (auto simp: inj_on_def toy_call_def call_of_def hash_of_def toy_abi_def to_sol_action_def be_word_def)
  ultimately show ?thesis
    using l1_roundtrip_of_pairs [of ?scs "RollupId 1" "map call_of [toy_call 2, toy_call 1, toy_call 1]" toy_abi]
    unfolding Let_def by blast
qed

text \<open>
  The reconstruction is deterministic across nodes. It depends on the consumed actions
  only through the sequence each action hash sees, so two nodes that iterate their hash maps
  in different orders rebuild the same entries.
\<close>

theorem reconstruction_ignores_map_order:
  assumes "\<forall>h. filter (\<lambda>a. hash_of A a = h) as = filter (\<lambda>a. hash_of A a = h) bs"
  shows "convert_l1_entries_to_l2_pairs A es as = convert_l1_entries_to_l2_pairs A es bs \<and>
    reconstruct_continuation_l2_entries A es as = reconstruct_continuation_l2_entries A es bs"
proof -
  have "same_by_hash A as bs" using assms by (simp add: same_by_hash_def)
  then show ?thesis by (simp add: convert_same_by_hash reconstruct_same_by_hash)
qed

theorem reconstruction_ignores_map_order_witness:
  "reconstruct_continuation_l2_entries toy_abi [] (map call_of [toy_call 1, toy_call 2]) =
   reconstruct_continuation_l2_entries toy_abi [] (map call_of [toy_call 2, toy_call 1])"
proof -
  have h: "hash_of toy_abi (call_of (toy_call 1)) \<noteq> hash_of toy_abi (call_of (toy_call 2))"
    by (simp add: toy_call_def call_of_def hash_of_def toy_abi_def to_sol_action_def be_word_def)
  have "\<forall>h. filter (\<lambda>a. hash_of toy_abi a = h) (map call_of [toy_call 1, toy_call 2]) =
      filter (\<lambda>a. hash_of toy_abi a = h) (map call_of [toy_call 2, toy_call 1])"
    using h by auto
  from reconstruction_ignores_map_order [OF this, of "[]"] show ?thesis by blast
qed

end
