(* ===== verification/Fork_Choice.thy ===== *)
theory Fork_Choice
  imports Prelude
begin

text \<open>
  The engine API layer: fork choice state and gas limit (\<open>driver/types.rs\<close>), the retry loop
  on SYNCING, block insertion (\<open>driver/build.rs\<close>), the unwind and the sibling rebuild
  (\<open>driver/rewind.rs\<close>) and the recovery of the chain state (\<open>driver/mod.rs\<close>). The
  execution engine is a pair of state-passing functions, the L2 database a function from block
  numbers to hashes, and the block builder a function from the parent to a block.
\<close>

section \<open>Gas limit\<close>

definition clamp :: "'a::linorder \<Rightarrow> 'a \<Rightarrow> 'a \<Rightarrow> panic + 'a" where
  "clamp x lo hi = (if lo \<le> hi then Inr (if x < lo then lo else if hi < x then hi else x) else Inl AssertionFailed)"

definition calc_gas_limit :: "u64 \<Rightarrow> u64 \<Rightarrow> panic + u64" where
  "calc_gas_limit parent_gas_limit desired_gas_limit =
     (let delta = saturating_sub (parent_gas_limit div 1024) 1;
          min_limit = saturating_sub parent_gas_limit delta;
          max_limit = saturating_add parent_gas_limit delta
      in clamp desired_gas_limit min_limit max_limit)"

section \<open>Fork choice state\<close>

definition FORK_CHOICE_DEPTH :: nat where
  "FORK_CHOICE_DEPTH = 64"

definition FCU_SYNCING_MAX_RETRIES :: nat where
  "FCU_SYNCING_MAX_RETRIES = 6"

definition FCU_SYNCING_INITIAL_BACKOFF_MS :: nat where
  "FCU_SYNCING_INITIAL_BACKOFF_MS = 100"

record forkchoice_state =
  head_block_hash :: b256
  safe_block_hash :: b256
  finalized_block_hash :: b256

definition compute_forkchoice_state :: "b256 \<Rightarrow> b256 list \<Rightarrow> forkchoice_state" where
  "compute_forkchoice_state head_hash block_hashes =
     \<lparr>head_block_hash = head_hash,
      safe_block_hash = (case nth_opt block_hashes (length block_hashes - 32) of None \<Rightarrow> head_hash | Some h \<Rightarrow> h),
      finalized_block_hash = (case block_hashes of [] \<Rightarrow> head_hash | h # _ \<Rightarrow> h)\<rparr>"

section \<open>The engine\<close>

datatype payload_status = Valid | Invalid | Syncing | Accepted

datatype engine_error =
    Call_Failed
  | Payload_Rejected
  | Fork_Choice_Rejected
  | Stuck_Syncing
  | Not_Sequential u64 u64
  | Build_Failed
  | Wrong_State_Root
  | Genesis_Sibling
  | Missing_Block_Hash

text \<open>\<open>None\<close> is a failed call.\<close>

record ('e, 'pl) engine_client =
  new_payload :: "'pl \<Rightarrow> 'e \<Rightarrow> payload_status option \<times> 'e"
  fork_choice_updated :: "forkchoice_state \<Rightarrow> 'e \<Rightarrow> payload_status option \<times> 'e"

text \<open>The retry loop, with the sleeps in milliseconds as part of the result.\<close>

fun fcu_loop :: "('e, 'pl) engine_client \<Rightarrow> nat \<Rightarrow> nat \<Rightarrow> forkchoice_state \<Rightarrow> 'e
    \<Rightarrow> (engine_error + payload_status) \<times> nat list \<times> 'e" where
  "fcu_loop E 0 backoff_ms s e = (Inl Stuck_Syncing, [], e)"
| "fcu_loop E (Suc remaining) backoff_ms s e =
     (case fork_choice_updated E s e of
        (None, e') \<Rightarrow> (Inl Call_Failed, [], e')
      | (Some st, e') \<Rightarrow>
          if st = Valid \<or> st = Invalid then (Inr st, [], e')
          else if remaining > 0 then
            (case fcu_loop E remaining (backoff_ms * 2) s e' of (r, ws, e'') \<Rightarrow> (r, backoff_ms # ws, e''))
          else fcu_loop E remaining backoff_ms s e')"

definition submit_fork_choice_with_retry :: "('e, 'pl) engine_client \<Rightarrow> forkchoice_state \<Rightarrow> 'e
    \<Rightarrow> (engine_error + payload_status) \<times> nat list \<times> 'e" where
  "submit_fork_choice_with_retry E s e = fcu_loop E FCU_SYNCING_MAX_RETRIES FCU_SYNCING_INITIAL_BACKOFF_MS s e"

definition fork_choice_updated_with_retry :: "('e, 'pl) engine_client \<Rightarrow> forkchoice_state \<Rightarrow> 'e
    \<Rightarrow> (engine_error + payload_status) \<times> nat list \<times> 'e" where
  "fork_choice_updated_with_retry E s e = fcu_loop E FCU_SYNCING_MAX_RETRIES FCU_SYNCING_INITIAL_BACKOFF_MS s e"

section \<open>The chain head of the driver\<close>

record chain_head =
  l2_head_number :: u64
  head_hash :: b256
  block_hashes :: "b256 list"
  immutable_block_ceiling :: u64

record built_block =
  built_hash :: b256
  pre_state_root :: b256
  built_state_root :: b256
  tx_count :: nat
  encoded_transactions :: bytes

definition push_hash :: "b256 \<Rightarrow> b256 list \<Rightarrow> b256 list" where
  "push_hash h hs = (let t = hs @ [h] in if length t > FORK_CHOICE_DEPTH then tl t else t)"

definition update_fork_choice :: "('e, 'pl) engine_client \<Rightarrow> b256 \<Rightarrow> chain_head \<Rightarrow> 'e
    \<Rightarrow> (engine_error + unit) \<times> chain_head \<times> 'e" where
  "update_fork_choice E block_hash d e =
     (let tentative = push_hash block_hash (block_hashes d) in
      case fork_choice_updated_with_retry E (compute_forkchoice_state block_hash tentative) e of
        (Inl err, _, e') \<Rightarrow> (Inl err, d, e')
      | (Inr st, _, e') \<Rightarrow>
          if st = Invalid then (Inl Fork_Choice_Rejected, d, e')
          else (Inr (), d\<lparr>block_hashes := tentative, head_hash := block_hash,
                   l2_head_number := saturating_add (l2_head_number d) 1\<rparr>, e'))"

text \<open>\<open>build\<close> is \<open>build_derived_block\<close>: the block on the given parent, or a failure.\<close>

definition build_and_insert_block :: "('e, 'pl) engine_client \<Rightarrow> (u64 \<Rightarrow> (built_block \<times> 'pl) option) \<Rightarrow> u64
    \<Rightarrow> chain_head \<Rightarrow> 'e \<Rightarrow> (engine_error + built_block) \<times> chain_head \<times> 'e" where
  "build_and_insert_block E build l2_block_number d e =
     (let expected = saturating_add (l2_head_number d) 1 in
      if l2_block_number \<noteq> expected then (Inl (Not_Sequential expected l2_block_number), d, e)
      else case build (l2_head_number d) of
          None \<Rightarrow> (Inl Build_Failed, d, e)
        | Some (built, payload) \<Rightarrow>
            (case new_payload E payload e of
               (None, e') \<Rightarrow> (Inl Call_Failed, d, e')
             | (Some st, e') \<Rightarrow>
                 if st \<noteq> Valid then (Inl Payload_Rejected, d, e')
                 else (case update_fork_choice E (built_hash built) d e' of
                     (Inl err, d', e'') \<Rightarrow> (Inl err, d', e'')
                   | (Inr _, d', e'') \<Rightarrow> (Inr built, d', e''))))"

section \<open>Unwinding and sibling blocks\<close>

text \<open>A read of the L2 database fails or returns the hash, if the block is there.\<close>

type_synonym block_db = "u64 \<Rightarrow> engine_error + b256 option"

definition found_hash :: "block_db \<Rightarrow> u64 \<Rightarrow> b256 option" where
  "found_hash db n = (case db n of Inr r \<Rightarrow> r | Inl _ \<Rightarrow> None)"

definition u64_upto :: "u64 \<Rightarrow> u64 \<Rightarrow> u64 list" where
  "u64_upto a b = map of_nat [unat a..<Suc (unat b)]"

definition hashes_from :: "block_db \<Rightarrow> u64 \<Rightarrow> b256 list" where
  "hashes_from db target =
     List.map_filter (found_hash db) (u64_upto (saturating_sub target (of_nat FORK_CHOICE_DEPTH)) target)"

definition required_hash :: "block_db \<Rightarrow> u64 \<Rightarrow> engine_error + b256" where
  "required_hash db n = (case db n of Inl err \<Rightarrow> Inl err | Inr None \<Rightarrow> Inl Missing_Block_Hash | Inr (Some h) \<Rightarrow> Inr h)"

fun recover_hashes :: "block_db \<Rightarrow> u64 list \<Rightarrow> chain_head \<Rightarrow> (engine_error + unit) \<times> chain_head" where
  "recover_hashes db [] d = (Inr (), d)"
| "recover_hashes db (n # ns) d =
     (case db n of
        Inl err \<Rightarrow> (Inl err, d)
      | Inr None \<Rightarrow> recover_hashes db ns d
      | Inr (Some h) \<Rightarrow> recover_hashes db ns (d\<lparr>block_hashes := block_hashes d @ [h]\<rparr>))"

definition recover_chain_state :: "block_db \<Rightarrow> u64 \<Rightarrow> chain_head \<Rightarrow> (engine_error + unit) \<times> chain_head" where
  "recover_chain_state db tip d =
     (if tip = 0 then (Inr (), d)
      else case required_hash db tip of
          Inl err \<Rightarrow> (Inl err, d)
        | Inr h \<Rightarrow> recover_hashes db (u64_upto (saturating_sub tip (of_nat FORK_CHOICE_DEPTH)) tip)
            (d\<lparr>head_hash := h, l2_head_number := tip, block_hashes := []\<rparr>))"

text \<open>\<open>tip\<close> is what the database reports as its last block after the fork choice update.\<close>

definition rewind_l2_chain :: "('e, 'pl) engine_client \<Rightarrow> block_db \<Rightarrow> u64 \<Rightarrow> u64 \<Rightarrow> chain_head \<Rightarrow> 'e
    \<Rightarrow> (engine_error + unit) \<times> chain_head \<times> 'e" where
  "rewind_l2_chain E db tip target d e =
     (case required_hash db target of
        Inl err \<Rightarrow> (Inl err, d, e)
      | Inr target_hash \<Rightarrow>
          let new_hashes = hashes_from db target in
          case fork_choice_updated_with_retry E (compute_forkchoice_state target_hash new_hashes) e of
            (Inl err, _, e') \<Rightarrow> (Inl err, d, e')
          | (Inr st, _, e') \<Rightarrow>
              if st = Invalid then (Inl Fork_Choice_Rejected, d, e')
              else if tip > target then
                (case recover_chain_state db tip (d\<lparr>immutable_block_ceiling := tip\<rparr>) of (r, d') \<Rightarrow> (r, d', e'))
              else (Inr (), d\<lparr>block_hashes := new_hashes, head_hash := target_hash, l2_head_number := target\<rparr>, e'))"

definition submit_sibling_payload :: "('e, 'pl) engine_client \<Rightarrow> 'pl \<Rightarrow> b256 \<Rightarrow> b256 list \<Rightarrow> 'e
    \<Rightarrow> (engine_error + b256 list) \<times> 'e" where
  "submit_sibling_payload E payload sibling_hash parent_hashes e =
     (case new_payload E payload e of
        (None, e') \<Rightarrow> (Inl Call_Failed, e')
      | (Some st, e') \<Rightarrow>
          if st \<noteq> Valid then (Inl Payload_Rejected, e')
          else
            let new_hashes = push_hash sibling_hash parent_hashes in
            case submit_fork_choice_with_retry E (compute_forkchoice_state sibling_hash new_hashes) e' of
              (Inl err, _, e'') \<Rightarrow> (Inl err, e'')
            | (Inr st, _, e'') \<Rightarrow> if st = Invalid then (Inl Fork_Choice_Rejected, e'') else (Inr new_hashes, e''))"

definition check_sibling_state_root_matches :: "b256 \<Rightarrow> b256 \<Rightarrow> engine_error + unit" where
  "check_sibling_state_root_matches built_root expected_root =
     (if built_root \<noteq> expected_root then Inl Wrong_State_Root else Inr ())"

definition rebuild_block_as_sibling :: "('e, 'pl) engine_client \<Rightarrow> block_db
    \<Rightarrow> (u64 \<Rightarrow> (built_block \<times> 'pl) option) \<Rightarrow> u64 \<Rightarrow> b256 \<Rightarrow> chain_head \<Rightarrow> 'e
    \<Rightarrow> (engine_error + built_block) \<times> chain_head \<times> 'e" where
  "rebuild_block_as_sibling E db build target expected_root d e =
     (if target = 0 then (Inl Genesis_Sibling, d, e)
      else case build (target - 1) of
          None \<Rightarrow> (Inl Build_Failed, d, e)
        | Some (built, payload) \<Rightarrow>
            (case check_sibling_state_root_matches (built_state_root built) expected_root of
               Inl err \<Rightarrow> (Inl err, d, e)
             | Inr _ \<Rightarrow>
                 if built_hash built = head_hash d \<and> target = l2_head_number d then (Inr built, d, e)
                 else (case submit_sibling_payload E payload (built_hash built) (hashes_from db (target - 1)) e of
                     (Inl err, e') \<Rightarrow> (Inl err, d, e')
                   | (Inr new_hashes, e') \<Rightarrow>
                       (Inr built, d\<lparr>block_hashes := new_hashes, head_hash := built_hash built,
                          l2_head_number := target\<rparr>, e'))))"

section \<open>Lemmas\<close>

lemma fcu_loop_waits:
  "fcu_loop E n b s e = (r, ws, e') \<Longrightarrow> length ws < max n 1 \<and> ws = map (\<lambda>i. b * 2 ^ i) [0..<length ws]"
proof (induction n arbitrary: b e ws)
  case (Suc n)
  obtain st e1 where c: "fork_choice_updated E s e = (st, e1)" by (cases "fork_choice_updated E s e")
  show ?case
  proof (cases "st \<noteq> None \<and> st \<noteq> Some Valid \<and> st \<noteq> Some Invalid \<and> n > 0")
    case True
    then obtain ws' where ws': "fcu_loop E n (b * 2) s e1 = (r, ws', e')" "ws = b # ws'"
      using Suc.prems c by (auto split: prod.splits)
    with Suc.IH [OF ws'(1)] True have "length ws' < n" and eq: "ws' = map (\<lambda>i. b * 2 * 2 ^ i) [0..<length ws']" by auto
    have "b # map (\<lambda>i. b * 2 * 2 ^ i) [0..<k] = map (\<lambda>i. b * 2 ^ i) [0..<Suc k]" for k
      by (simp add: upt_conv_Cons map_Suc_upt [symmetric] comp_def ac_simps del: upt_Suc map_Suc_upt)
    with eq ws'(2) \<open>length ws' < n\<close> show ?thesis by (metis (no_types, lifting) Suc_less_eq length_Cons less_max_iff_disj)
  next
    case False
    with Suc.prems c show ?thesis by (auto split: option.splits if_splits)
  qed
qed simp

lemma fcu_loop_final: "fcu_loop E n b s e = (Inr st, ws, e') \<Longrightarrow> st = Valid \<or> st = Invalid"
  by (induction n arbitrary: b e ws) (auto split: prod.splits option.splits if_splits)

lemma sum_powers: "(\<Sum>i\<leftarrow>[0..<k]. b * 2 ^ i) = b * (2 ^ k - 1 :: nat)"
proof (induction k)
  case (Suc k)
  have "(1 :: nat) \<le> 2 ^ k" by simp
  with Suc show ?case by (simp add: algebra_simps)
qed simp

lemma sum_waits_bound: "k \<le> 5 \<Longrightarrow> (\<Sum>i\<leftarrow>[0..<k]. 100 * 2 ^ i) \<le> (3100 :: nat)"
  unfolding sum_powers using power_increasing [of k 5 "2 :: nat"] by simp

section \<open>The tracked hashes\<close>

text \<open>The head is the newest tracked hash and the window stays bounded.\<close>

definition head_ok :: "chain_head \<Rightarrow> bool" where
  "head_ok d \<longleftrightarrow> (block_hashes d \<noteq> [] \<longrightarrow> last (block_hashes d) = head_hash d) \<and>
     length (block_hashes d) \<le> FORK_CHOICE_DEPTH + 1"

lemma push_hash_last [simp]: "last (push_hash h hs) = h" "push_hash h hs \<noteq> []"
  by (cases hs; simp add: push_hash_def Let_def last_tl FORK_CHOICE_DEPTH_def)+

lemma length_push_hash: "length hs \<le> Suc FORK_CHOICE_DEPTH \<Longrightarrow> length (push_hash h hs) \<le> Suc FORK_CHOICE_DEPTH"
  by (simp add: push_hash_def Let_def)

lemma u64_upto_window:
  "length (u64_upto (saturating_sub t (of_nat FORK_CHOICE_DEPTH)) t) \<le> FORK_CHOICE_DEPTH + 1"
  "\<exists>ns. u64_upto (saturating_sub t (of_nat FORK_CHOICE_DEPTH)) t = ns @ [t]"
proof -
  let ?a = "saturating_sub t (of_nat FORK_CHOICE_DEPTH)"
  have "unat (of_nat FORK_CHOICE_DEPTH :: u64) = 64" by (simp add: FORK_CHOICE_DEPTH_def)
  then have a: "unat ?a = unat t - 64" by (simp add: unat_saturating_sub)
  then show "length (u64_upto ?a t) \<le> FORK_CHOICE_DEPTH + 1"
    by (simp add: u64_upto_def FORK_CHOICE_DEPTH_def)
  show "\<exists>ns. u64_upto ?a t = ns @ [t]" using a by (simp add: u64_upto_def)
qed

lemma length_hashes_from: "length (hashes_from db t) \<le> Suc FORK_CHOICE_DEPTH"
  using u64_upto_window(1) [of t] unfolding hashes_from_def List.map_filter_def length_map Suc_eq_plus1
  by (rule order_trans [OF length_filter_le])

lemma last_hashes_from: "required_hash db t = Inr h \<Longrightarrow> last (hashes_from db t) = h \<and> hashes_from db t \<noteq> []"
  using u64_upto_window(2) [of t]
  by (auto simp: hashes_from_def List.map_filter_def required_hash_def found_hash_def split: sum.splits option.splits)

lemma recover_hashes_ok:
  "recover_hashes db ns d = (Inr (), d') \<Longrightarrow>
     d' = d\<lparr>block_hashes := block_hashes d @ List.map_filter (found_hash db) ns\<rparr>"
proof (induction ns arbitrary: d)
  case (Cons n ns)
  show ?case
  proof (cases "db n")
    case (Inr r)
    show ?thesis
    proof (cases r)
      case (Some h)
      with Inr Cons.prems Cons.IH [of "d\<lparr>block_hashes := block_hashes d @ [h]\<rparr>"]
      show ?thesis by (simp add: List.map_filter_simps found_hash_def)
    qed (use Inr Cons in \<open>simp add: List.map_filter_simps found_hash_def\<close>)
  qed (use Cons.prems in simp)
qed (simp add: List.map_filter_simps)

lemma update_fork_choice_cases:
  "update_fork_choice E h d e = (r, d', e') \<Longrightarrow>
     (case r of Inl _ \<Rightarrow> d' = d
      | Inr _ \<Rightarrow> d' = d\<lparr>block_hashes := push_hash h (block_hashes d), head_hash := h,
          l2_head_number := saturating_add (l2_head_number d) 1\<rparr>)"
  by (auto simp: update_fork_choice_def Let_def split: prod.splits sum.splits if_splits)

lemma build_and_insert_cases:
  "build_and_insert_block E build n d e = (r, d', e') \<Longrightarrow>
     (case r of Inl _ \<Rightarrow> d' = d
      | Inr b \<Rightarrow> n = saturating_add (l2_head_number d) 1 \<and> (\<exists>pl. build (l2_head_number d) = Some (b, pl)) \<and>
          d' = d\<lparr>block_hashes := push_hash (built_hash b) (block_hashes d), head_hash := built_hash b,
            l2_head_number := n\<rparr>)"
  by (auto simp: build_and_insert_block_def Let_def split: prod.splits sum.splits if_splits option.splits
      dest!: update_fork_choice_cases)

lemma rebuild_sibling_cases:
  "rebuild_block_as_sibling E db build t root d e = (r, d', e') \<Longrightarrow>
     (case r of Inl _ \<Rightarrow> d' = d
      | Inr b \<Rightarrow> t \<noteq> 0 \<and> built_state_root b = root \<and> (\<exists>pl. build (t - 1) = Some (b, pl)) \<and>
          head_hash d' = built_hash b \<and> l2_head_number d' = t \<and>
          (d' = d \<or> block_hashes d' = push_hash (built_hash b) (hashes_from db (t - 1))))"
  by (auto simp: rebuild_block_as_sibling_def submit_sibling_payload_def check_sibling_state_root_matches_def Let_def
      split: prod.splits sum.splits if_splits option.splits)

inductive head_step :: "('e, 'pl) engine_client \<Rightarrow> chain_head \<Rightarrow> chain_head \<Rightarrow> bool"
  for E :: "('e, 'pl) engine_client" where
  step_insert: "build_and_insert_block E build n d e = (r, d', e') \<Longrightarrow> head_step E d d'"
| step_sibling: "rebuild_block_as_sibling E db build t root d e = (r, d', e') \<Longrightarrow> head_step E d d'"
| step_rewind: "rewind_l2_chain E db tip t d e = (Inr (), d', e') \<Longrightarrow> head_step E d d'"
| step_recover: "recover_chain_state db tip d = (Inr (), d') \<Longrightarrow> head_step E d d'"

lemma head_ok_sibling:
  assumes "rebuild_block_as_sibling E db build t root d e = (r, d', e')" and "head_ok d"
  shows "head_ok d'"
  using rebuild_sibling_cases [OF assms(1)] assms(2)
  by (cases r) (auto simp: head_ok_def length_push_hash length_hashes_from)

lemma head_ok_insert:
  assumes "build_and_insert_block E build n d e = (r, d', e')" and "head_ok d"
  shows "head_ok d'"
  using build_and_insert_cases [OF assms(1)] assms(2) by (cases r) (auto simp: head_ok_def length_push_hash)

lemma head_ok_db: "required_hash db (l2_head_number d) = Inr (head_hash d) \<Longrightarrow>
    block_hashes d = hashes_from db (l2_head_number d) \<Longrightarrow> head_ok d"
  using last_hashes_from length_hashes_from by (simp add: head_ok_def)

lemma head_ok_recover:
  assumes "recover_chain_state db tip d = (Inr (), d')" and "head_ok d"
  shows "head_ok d'"
proof (cases "tip = 0")
  case False
  with assms(1) obtain h where h: "required_hash db tip = Inr h"
    "recover_hashes db (u64_upto (saturating_sub tip (of_nat FORK_CHOICE_DEPTH)) tip)
       (d\<lparr>head_hash := h, l2_head_number := tip, block_hashes := []\<rparr>) = (Inr (), d')"
    by (auto simp: recover_chain_state_def split: sum.splits)
  show ?thesis by (rule head_ok_db [of db]) (use recover_hashes_ok [OF h(2)] h(1) in \<open>simp_all add: hashes_from_def\<close>)
qed (use assms in \<open>simp add: recover_chain_state_def\<close>)

lemma head_ok_rewind:
  assumes "rewind_l2_chain E db tip t d e = (Inr (), d', e')" and "head_ok d"
  shows "head_ok d'"
proof -
  have "head_ok (d\<lparr>immutable_block_ceiling := tip\<rparr>)" using assms(2) by (simp add: head_ok_def)
  with assms head_ok_recover show ?thesis
    by (auto simp: rewind_l2_chain_def Let_def split: prod.splits sum.splits if_splits intro: head_ok_db [of db])
qed

interpretation head: step_invariant "head_step E" head_ok for E
proof
  fix d d'
  assume "head_step E d d'" and "head_ok d"
  then show "head_ok d'"
    by cases (auto intro: head_ok_insert head_ok_sibling head_ok_rewind head_ok_recover)
qed

section \<open>Properties\<close>

text \<open>
  The retry on SYNCING is bounded and decisive. Whatever the engine answers, at most five
  sleeps of 100, 200, 400, ... milliseconds happen, 3.1 seconds in total, and a result that is
  no error is VALID or INVALID.
\<close>

theorem fork_choice_retry_bounded:
  assumes "submit_fork_choice_with_retry E s e = (r, ws, e')"
  shows "length ws \<le> 5 \<and> ws = map (\<lambda>i. 100 * 2 ^ i) [0..<length ws] \<and> sum_list ws \<le> 3100 \<and>
    (\<forall>st. r = Inr st \<longrightarrow> st = Valid \<or> st = Invalid)"
proof -
  have f: "fcu_loop E 6 100 s e = (r, ws, e')"
    using assms by (simp add: submit_fork_choice_with_retry_def FCU_SYNCING_MAX_RETRIES_def FCU_SYNCING_INITIAL_BACKOFF_MS_def)
  from fcu_loop_waits [OF f] have ws: "length ws \<le> 5" "ws = map (\<lambda>i. 100 * 2 ^ i) [0..<length ws]" by auto
  then have "sum_list ws \<le> 3100" using sum_waits_bound [OF ws(1)] by metis
  with ws fcu_loop_final [of E 6 100 s e] f show ?thesis by blast
qed

definition stuck_engine :: "(unit, unit) engine_client" where
  "stuck_engine = \<lparr>new_payload = (\<lambda>_ e. (Some Valid, e)), fork_choice_updated = (\<lambda>_ e. (Some Syncing, e))\<rparr>"

theorem fork_choice_retry_bounded_witness:
  "\<exists>r ws e'. submit_fork_choice_with_retry stuck_engine (compute_forkchoice_state 1 [1]) () = (r, ws, e') \<and> ws = [100, 200, 400, 800, 1600] \<and>
     sum_list ws \<le> 3100"
proof -
  obtain r ws e' where f: "submit_fork_choice_with_retry stuck_engine (compute_forkchoice_state 1 [1]) () = (r, ws, e')" by (metis prod_cases3)
  moreover have "ws = [100, 200, 400, 800, 1600]"
    using f by (simp add: submit_fork_choice_with_retry_def FCU_SYNCING_MAX_RETRIES_def FCU_SYNCING_INITIAL_BACKOFF_MS_def
        stuck_engine_def eval_nat_numeral)
  ultimately show ?thesis using fork_choice_retry_bounded [OF f] by blast
qed

text \<open>
  The driver's head moves only after the engine agreed. A failed insertion leaves the head
  as it was; a successful one extends it by exactly the next block, built on the old head. A
  failed sibling rebuild leaves the head as it was; a successful one has the expected state
  root and makes the block the head.
\<close>

theorem head_moves_after_engine:
  "(build_and_insert_block E build n d e = (r, d', e') \<longrightarrow>
     (case r of Inl _ \<Rightarrow> d' = d
      | Inr b \<Rightarrow> n = saturating_add (l2_head_number d) 1 \<and> (\<exists>pl. build (l2_head_number d) = Some (b, pl)) \<and>
          l2_head_number d' = n \<and> head_hash d' = built_hash b)) \<and>
   (rebuild_block_as_sibling E db build t root d e = (r', d'', e'') \<longrightarrow>
     (case r' of Inl _ \<Rightarrow> d'' = d
      | Inr b \<Rightarrow> t \<noteq> 0 \<and> built_state_root b = root \<and> (\<exists>pl. build (t - 1) = Some (b, pl)) \<and>
          l2_head_number d'' = t \<and> head_hash d'' = built_hash b))"
  using build_and_insert_cases [of E build n d e r d' e'] rebuild_sibling_cases [of E db build t root d e r' d'' e'']
  by (auto split: sum.splits)

definition toy_head :: chain_head where
  "toy_head = \<lparr>l2_head_number = 5, head_hash = 50, block_hashes = [40, 50], immutable_block_ceiling = 0\<rparr>"

definition toy_block :: built_block where
  "toy_block = \<lparr>built_hash = 60, pre_state_root = 1, built_state_root = 2, tx_count = 0, encoded_transactions = []\<rparr>"

theorem head_moves_after_engine_witness:
  "\<exists>r d' e'. build_and_insert_block stuck_engine (\<lambda>_. Some (toy_block, ())) 6 toy_head () = (r, d', e') \<and>
     (case r of Inl _ \<Rightarrow> d' = toy_head | Inr b \<Rightarrow> l2_head_number d' = 6 \<and> head_hash d' = built_hash b)"
proof -
  obtain r d' e' where f: "build_and_insert_block stuck_engine (\<lambda>_. Some (toy_block, ())) 6 toy_head () = (r, d', e')"
    by (metis prod_cases3)
  then show ?thesis
    using head_moves_after_engine [of stuck_engine "\<lambda>_. Some (toy_block, ())" 6 toy_head "()" r d' e'
        "\<lambda>_. Inr None" 0 0 "Inl Build_Failed" toy_head "()"] by (auto split: sum.splits)
qed

text \<open>
  The tracked hashes follow the head. Through insertions, sibling rebuilds, successful
  rewinds and recoveries in any order, the newest tracked hash is the head's and at most 65
  hashes are tracked.
\<close>

theorem tracked_hashes_follow_head:
  assumes "(head_step E)\<^sup>*\<^sup>* d d'" and "block_hashes d = []"
  shows "(block_hashes d' \<noteq> [] \<longrightarrow> last (block_hashes d') = head_hash d') \<and> length (block_hashes d') \<le> 65"
proof -
  have "head_ok d" using assms(2) by (simp add: head_ok_def)
  from head.reachable_inv [OF assms(1) this] show ?thesis by (simp add: head_ok_def FORK_CHOICE_DEPTH_def)
qed

theorem tracked_hashes_follow_head_witness:
  "last (block_hashes (snd (recover_chain_state (\<lambda>n. Inr (Some (ucast n))) 3 (toy_head\<lparr>block_hashes := []\<rparr>)))) = 3"
proof -
  let ?d = "toy_head\<lparr>block_hashes := []\<rparr>" and ?db = "\<lambda>n. Inr (Some (ucast n))"
  have r: "recover_chain_state ?db 3 ?d =
      (Inr (), toy_head\<lparr>l2_head_number := 3, head_hash := 3, block_hashes := [0, 1, 2, 3]\<rparr>)"
    by (simp add: recover_chain_state_def required_hash_def u64_upto_def saturating_sub_def FORK_CHOICE_DEPTH_def
        upt_conv_Cons word_le_nat_alt toy_head_def)
  have "(head_step stuck_engine)\<^sup>*\<^sup>* ?d (toy_head\<lparr>l2_head_number := 3, head_hash := 3, block_hashes := [0, 1, 2, 3]\<rparr>)"
    by (rule r_into_rtranclp, rule step_recover [OF r])
  from tracked_hashes_follow_head [OF this] show ?thesis by (simp add: r)
qed

text \<open>
  The gas limit moves by less than a 1024th of the parent's. It never panics, lands
  between the parent's limit and the desired one without overshooting, equals the desired limit
  when that is close enough, and differs from the parent's by at most parent / 1024 - 1.
\<close>

theorem gas_limit_step:
  "\<exists>g. calc_gas_limit parent desired = Inr g \<and>
     unat g \<le> unat parent + (unat parent div 1024 - 1) \<and> unat parent \<le> unat g + (unat parent div 1024 - 1) \<and>
     ((parent \<le> g \<and> g \<le> desired) \<or> (desired \<le> g \<and> g \<le> parent)) \<and>
     (unat desired \<le> unat parent + (unat parent div 1024 - 1) \<and> unat parent \<le> unat desired + (unat parent div 1024 - 1)
        \<longrightarrow> g = desired)"
proof -
  define delta where "delta = saturating_sub (parent div 1024) 1"
  have delta: "unat delta = unat parent div 1024 - 1"
    by (simp add: delta_def unat_saturating_sub unat_div)
  have lo: "unat (saturating_sub parent delta) = unat parent - (unat parent div 1024 - 1)"
    by (simp add: unat_saturating_sub delta)
  have hi: "unat (saturating_add parent delta) = min (unat parent + (unat parent div 1024 - 1)) (2 ^ 64 - 1)"
    by (simp add: unat_saturating_add delta)
  define k where "k = unat parent div 1024 - 1"
  have small: "k \<le> unat parent" unfolding k_def by linarith
  have le: "saturating_sub parent delta \<le> saturating_add parent delta"
    unfolding word_le_nat_alt lo hi using unat_u64_lt [of parent] by linarith
  define g where "g = (if desired < saturating_sub parent delta then saturating_sub parent delta
    else if saturating_add parent delta < desired then saturating_add parent delta else desired)"
  have "calc_gas_limit parent desired = Inr g"
    using le by (simp add: calc_gas_limit_def clamp_def g_def delta_def Let_def)
  moreover have g: "unat g = (if unat desired < unat parent - k then unat parent - k
      else if min (unat parent + k) (2 ^ 64 - 1) < unat desired then min (unat parent + k) (2 ^ 64 - 1) else unat desired)"
    unfolding g_def word_less_nat_alt k_def by (simp only: lo hi if_distrib [of unat])
  moreover have "unat g \<le> unat parent + k" "unat parent \<le> unat g + k"
    "(unat parent \<le> unat g \<and> unat g \<le> unat desired) \<or> (unat desired \<le> unat g \<and> unat g \<le> unat parent)"
    "unat desired \<le> unat parent + k \<and> unat parent \<le> unat desired + k \<longrightarrow> unat g = unat desired"
    using small unat_u64_lt [of parent] unat_u64_lt [of desired] unfolding g min_def by (auto split: if_splits)
  ultimately show ?thesis unfolding word_le_nat_alt word_unat_eq_iff k_def by blast
qed

theorem gas_limit_step_witness:
  "\<exists>g. calc_gas_limit 30000000 60000000 = Inr g \<and>
     (unat (60000000 :: u64) \<le> unat (30000000 :: u64) + (unat (30000000 :: u64) div 1024 - 1) \<and>
      unat (30000000 :: u64) \<le> unat (60000000 :: u64) + (unat (30000000 :: u64) div 1024 - 1) \<longrightarrow> g = 60000000)"
  using gas_limit_step [of 30000000 60000000] by blast

text \<open>
  What the engine is told. With the tracked hashes of the consecutive blocks s to t, the
  head being t, the finalized hash is that of block s, and the safe hash is that of block
  t - 31 when at least 32 hashes are tracked, and of s otherwise.
\<close>

theorem fork_choice_positions:
  assumes "s \<le> t" and "hs = map h [s..<Suc t]"
  shows "compute_forkchoice_state (h t) hs =
    \<lparr>head_block_hash = h t, safe_block_hash = h (if t - s \<ge> 31 then t - 31 else s), finalized_block_hash = h s\<rparr>"
proof -
  have len: "length hs = Suc t - s" using assms by (simp del: upt_Suc)
  have nth: "i < Suc t - s \<Longrightarrow> hs ! i = h (s + i)" for i
    using assms by (simp add: nth_upt del: upt_Suc)
  have "nth_opt hs (length hs - 32) = Some (h (if t - s \<ge> 31 then t - 31 else s))"
    using assms(1) nth [of "length hs - 32"] unfolding nth_opt_def len by (auto simp: Suc_diff_le)
  moreover have "hs \<noteq> [] \<and> hd hs = h s" using assms by (simp add: hd_map hd_upt del: upt_Suc)
  ultimately show ?thesis by (cases hs) (simp_all add: compute_forkchoice_state_def)
qed

theorem fork_choice_positions_witness:
  "compute_forkchoice_state (of_nat 100) (map of_nat [37..<Suc 100]) =
    \<lparr>head_block_hash = of_nat 100, safe_block_hash = of_nat (if 100 - 37 \<ge> (31 :: nat) then 100 - 31 else 37),
     finalized_block_hash = of_nat 37\<rparr>"
  by (rule fork_choice_positions) simp_all

end
