(* ===== verification/Trigger_Filter.thy ===== *)
theory Trigger_Filter
  imports Cross_Chain_Types
begin

text \<open>
  The generic filtering of section 4f (\<open>cross_chain.rs\<close>): which transactions of a block are
  triggers, how many of them L1 consumed, which transactions survive; and the parsing of
  \<open>ExecutionConsumed\<close> and \<open>BatchPosted\<close> logs. The event decoders of alloy, the RLP codec and
  the event signature are parameters. A \<open>HashMap\<close> that is only looked up is a partial
  function; the one whose values are iterated later keeps its entries as a list.
\<close>

section \<open>Receipts and logs\<close>

record event_log =
  log_address :: address
  topics :: "b256 list"
  log_data :: bytes

type_synonym receipt = "event_log list"

definition emits_consumed :: "b256 \<Rightarrow> address \<Rightarrow> receipt \<Rightarrow> bool" where
  "emits_consumed sig ccm r \<longleftrightarrow>
     (\<exists>l \<in> set r. log_address l = ccm \<and> topics l \<noteq> [] \<and> topics l ! 0 = sig)"

definition identify_trigger_tx_indices :: "b256 \<Rightarrow> receipt list \<Rightarrow> address \<Rightarrow> nat list" where
  "identify_trigger_tx_indices sig receipts ccm =
     map fst (filter (\<lambda>(_, r). emits_consumed sig ccm r) (enumerate 0 receipts))"

text \<open>
  \<open>filter_block_by_trigger_prefix\<close>: \<open>None\<close> is the error of a payload that does not decode.
\<close>

definition filter_txs :: "'tx list \<Rightarrow> nat list \<Rightarrow> nat \<Rightarrow> 'tx list" where
  "filter_txs txs trigger_tx_indices keep_count =
     map snd (filter (\<lambda>(i, _). i \<notin> set (drop keep_count trigger_tx_indices)) (enumerate 0 txs))"

definition filter_block_by_trigger_prefix ::
    "(bytes \<Rightarrow> 'tx list option) \<Rightarrow> ('tx list \<Rightarrow> bytes) \<Rightarrow> bytes \<Rightarrow> nat list \<Rightarrow> nat \<Rightarrow> bytes option" where
  "filter_block_by_trigger_prefix decode encode_list encoded trigger_tx_indices keep_count =
     (if encoded = [] then Some []
      else map_option (\<lambda>txs. encode_list (filter_txs txs trigger_tx_indices keep_count)) (decode encoded))"

section \<open>The consumed prefix\<close>

type_synonym remaining_map = "action_hash \<rightharpoonup> nat"

definition consumed_hashes :: "b256 \<Rightarrow> address \<Rightarrow> receipt \<Rightarrow> action_hash list" where
  "consumed_hashes sig ccm r =
     map (\<lambda>l. ActionHash (topics l ! 1))
       (filter (\<lambda>l. log_address l = ccm \<and> length (topics l) \<ge> 2 \<and> topics l ! 0 = sig) r)"

definition available :: "remaining_map \<Rightarrow> action_hash \<Rightarrow> nat" where
  "available m h = (case m h of None \<Rightarrow> 0 | Some n \<Rightarrow> n)"

definition decrement :: "action_hash \<Rightarrow> remaining_map \<Rightarrow> remaining_map" where
  "decrement h m = (case m h of None \<Rightarrow> m | Some n \<Rightarrow> m(h \<mapsto> n - 1))"

fun prefix_loop :: "b256 \<Rightarrow> receipt list \<Rightarrow> address \<Rightarrow> nat \<Rightarrow> remaining_map \<Rightarrow> nat list
    \<Rightarrow> consumed_prefix \<times> remaining_map" where
  "prefix_loop sig receipts ccm consumed_count m [] = (ConsumedPrefix consumed_count, m)"
| "prefix_loop sig receipts ccm consumed_count m (tx_idx # rest) =
     (case nth_opt receipts tx_idx of
        None \<Rightarrow> (ConsumedPrefix consumed_count, m)
      | Some r \<Rightarrow>
          (let action_hashes = consumed_hashes sig ccm r in
           if action_hashes = [] then (ConsumedPrefix consumed_count, m)
           else if \<forall>h \<in> set action_hashes. available m h > 0
           then prefix_loop sig receipts ccm (consumed_count + 1) (fold decrement action_hashes m) rest
           else (ConsumedPrefix consumed_count, m)))"

definition compute_consumed_trigger_prefix ::
    "b256 \<Rightarrow> receipt list \<Rightarrow> address \<Rightarrow> remaining_map \<Rightarrow> nat list \<Rightarrow> consumed_prefix \<times> remaining_map" where
  "compute_consumed_trigger_prefix sig receipts ccm l1_consumed_remaining trigger_tx_indices =
     prefix_loop sig receipts ccm 0 l1_consumed_remaining trigger_tx_indices"

section \<open>Log parsing\<close>

text \<open>The consumed map as its list of entries, in the order of first insertion.\<close>

type_synonym consumed_map = "(action_hash \<times> cross_chain_action list) list"

fun consumed_push :: "(cross_chain_action list \<Rightarrow> cross_chain_action list) \<Rightarrow> action_hash \<Rightarrow> consumed_map \<Rightarrow> consumed_map" where
  "consumed_push f h [] = [(h, f [])]"
| "consumed_push f h ((h', as) # m) = (if h' = h then (h', f as) # m else (h', as) # consumed_push f h m)"

definition placeholder_action :: cross_chain_action where
  "placeholder_action = \<lparr>action_type = Call, rollup_id = MAINNET, destination = 0, call_value = 0,
     call_data = [], failed = False, source_address = 0, source_rollup = MAINNET, scope = scope_root\<rparr>"

definition push_placeholder :: "cross_chain_action list \<Rightarrow> cross_chain_action list" where
  "push_placeholder as = (if as = [] then [placeholder_action] else as)"

fun parse_consumed_loop :: "(bytes \<Rightarrow> sol_action option) \<Rightarrow> consumed_map \<Rightarrow> event_log list \<Rightarrow> consumed_map" where
  "parse_consumed_loop decode m [] = m"
| "parse_consumed_loop decode m (l # ls) =
     (if length (topics l) < 2 then parse_consumed_loop decode m ls
      else let h = ActionHash (topics l ! 1) in
        case decode (log_data l) of
          Some sol \<Rightarrow>
            (case action_from_sol sol of
               Some a \<Rightarrow> parse_consumed_loop decode (consumed_push (\<lambda>as. as @ [a]) h m) ls
             | None \<Rightarrow> parse_consumed_loop decode (consumed_push push_placeholder h m) ls)
        | None \<Rightarrow> parse_consumed_loop decode (consumed_push push_placeholder h m) ls)"

definition parse_execution_consumed_logs :: "(bytes \<Rightarrow> sol_action option) \<Rightarrow> event_log list \<Rightarrow> consumed_map" where
  "parse_execution_consumed_logs decode logs = parse_consumed_loop decode [] logs"

record derived_execution_entry =
  d_entry :: cross_chain_execution_entry
  d_l1_block_number :: u64

definition relevant_entry :: "u256 \<Rightarrow> sol_execution_entry \<Rightarrow> bool" where
  "relevant_entry rid e \<longleftrightarrow>
     (\<exists>d \<in> set (sol_stateDeltas e). sol_delta_rollupId d = rid) \<or> sol_rollupId (sol_nextAction e) = rid"

definition parse_batch_posted_logs ::
    "(bytes \<Rightarrow> sol_execution_entry list option) \<Rightarrow> (u64 option \<times> event_log) list \<Rightarrow> u256
     \<Rightarrow> derived_execution_entry list" where
  "parse_batch_posted_logs decode logs rid =
     concat (map (\<lambda>(block_number, l).
       case block_number of
         None \<Rightarrow> []
       | Some l1_block \<Rightarrow>
           (case decode (log_data l) of
              None \<Rightarrow> []
            | Some es \<Rightarrow>
                List.map_filter (\<lambda>e. map_option (\<lambda>x. \<lparr>d_entry = x, d_l1_block_number = l1_block\<rparr>)
                  (entry_from_sol e)) (filter (relevant_entry rid) es))) logs)"

section \<open>Lemmas\<close>

lemma available_decrement: "available (decrement h m) h' = (if h' = h then available m h' - 1 else available m h')"
  by (auto simp: available_def decrement_def split: option.splits)

lemma available_fold_decrement:
  "available (fold decrement hs m) h = available m h - count_list hs h"
  by (induction hs arbitrary: m) (auto simp: available_decrement)

lemma prefix_loop_ge: "c \<le> prefix_as_usize (fst (prefix_loop sig receipts ccm c m is))"
proof (induction "is" arbitrary: c m)
  case (Cons i "is")
  have "c \<le> prefix_as_usize (fst (prefix_loop sig receipts ccm (c + 1) m' is))" for m'
    using Cons.IH [of "c + 1" m'] by simp
  then show ?case by (auto split: option.splits simp: Let_def)
qed simp

lemma prefix_loop_mono:
  assumes "\<And>h. available m h \<le> available m' h"
  shows "prefix_as_usize (fst (prefix_loop sig receipts ccm c m is)) \<le>
    prefix_as_usize (fst (prefix_loop sig receipts ccm c m' is))"
  using assms
proof (induction "is" arbitrary: c m m')
  case (Cons i "is")
  show ?case
  proof (cases "nth_opt receipts i")
    case (Some r)
    let ?hs = "consumed_hashes sig ccm r"
    have step: "available (fold decrement ?hs m) h \<le> available (fold decrement ?hs m') h" for h
      using Cons.prems [of h] by (simp add: available_fold_decrement diff_le_mono)
    have av: "available m' h > 0" if "available m h > 0" for h
      using Cons.prems [of h] that by simp
    have "c \<le> prefix_as_usize (fst (prefix_loop sig receipts ccm (c + 1) m'' is))" for m''
      using prefix_loop_ge [of "c + 1" sig receipts ccm m'' "is"] by simp
    moreover have "\<forall>h \<in> set ?hs. available m' h > 0" if "\<forall>h \<in> set ?hs. available m h > 0"
      using that av by blast
    ultimately show ?thesis
      using Some Cons.IH [OF step, of "c + 1"] by (cases "\<forall>h \<in> set ?hs. available m h > 0") (auto simp: Let_def)
  qed (simp add: nth_opt_def)
qed simp

definition claimed :: "b256 \<Rightarrow> receipt list \<Rightarrow> address \<Rightarrow> nat list \<Rightarrow> action_hash list" where
  "claimed sig receipts ccm is =
     concat (map (\<lambda>i. case nth_opt receipts i of None \<Rightarrow> [] | Some r \<Rightarrow> consumed_hashes sig ccm r) is)"

text \<open>
  What the prefix is meant to be: every trigger of it exists and consumed something, and L1
  recorded at least as many consumptions of each hash as the triggers together claim.
\<close>

definition covered :: "b256 \<Rightarrow> receipt list \<Rightarrow> address \<Rightarrow> remaining_map \<Rightarrow> nat list \<Rightarrow> bool" where
  "covered sig receipts ccm m is \<longleftrightarrow>
     (\<forall>i \<in> set is. \<exists>r. nth_opt receipts i = Some r \<and> consumed_hashes sig ccm r \<noteq> []) \<and>
     (\<forall>h. count_list (claimed sig receipts ccm is) h \<le> available m h)"

definition distinct_events :: "b256 \<Rightarrow> receipt list \<Rightarrow> address \<Rightarrow> nat list \<Rightarrow> bool" where
  "distinct_events sig receipts ccm is \<longleftrightarrow>
     (\<forall>i \<in> set is. \<forall>r. nth_opt receipts i = Some r \<longrightarrow> distinct (consumed_hashes sig ccm r))"

lemma count_list_distinct: "distinct xs \<Longrightarrow> count_list xs x = (if x \<in> set xs then 1 else 0)"
  by (induction xs) auto

lemma covered_Cons:
  assumes "nth_opt receipts i = Some r" and "distinct (consumed_hashes sig ccm r)"
  shows "covered sig receipts ccm m (i # is) \<longleftrightarrow>
    consumed_hashes sig ccm r \<noteq> [] \<and> (\<forall>h \<in> set (consumed_hashes sig ccm r). available m h > 0) \<and>
    covered sig receipts ccm (fold decrement (consumed_hashes sig ccm r) m) is"
    (is "_ \<longleftrightarrow> ?ne \<and> ?av \<and> _")
proof -
  let ?hs = "consumed_hashes sig ccm r"
  have "(\<forall>h. count_list ?hs h + count_list (claimed sig receipts ccm is) h \<le> available m h) \<longleftrightarrow>
      ?av \<and> (\<forall>h. count_list (claimed sig receipts ccm is) h \<le> available m h - count_list ?hs h)"
    (is "?L \<longleftrightarrow> ?R")
  proof
    assume L: ?L
    have "available m h > 0" if "h \<in> set ?hs" for h
      using L [rule_format, of h] that assms(2) by (simp add: count_list_distinct)
    with L show ?R by (auto simp: le_diff_conv2 intro: add_leE)
        (metis add.commute add_leD2 le_diff_conv2 add_leD1)
  next
    assume R: ?R
    show ?L
    proof
      fix h
      have "count_list ?hs h \<le> available m h"
        using R assms(2) by (auto simp: count_list_distinct Suc_le_eq)
      moreover have "count_list (claimed sig receipts ccm is) h \<le> available m h - count_list ?hs h"
        using R by blast
      ultimately show "count_list ?hs h + count_list (claimed sig receipts ccm is) h \<le> available m h"
        by simp
    qed
  qed
  then show ?thesis
    using assms(1) by (auto simp: covered_def claimed_def available_fold_decrement)
qed

lemma prefix_loop_covered:
  assumes "distinct_events sig receipts ccm is" and "k \<le> length is"
  shows "c + k \<le> prefix_as_usize (fst (prefix_loop sig receipts ccm c m is)) \<longleftrightarrow>
    covered sig receipts ccm m (take k is)"
  using assms
proof (induction "is" arbitrary: c m k)
  case Nil
  then show ?case by (simp add: covered_def claimed_def)
next
  case (Cons i "is")
  show ?case
  proof (cases k)
    case 0
    then show ?thesis
      using prefix_loop_ge [of c sig receipts ccm m "i # is"]
      by (simp add: covered_def claimed_def del: prefix_loop.simps)
  next
    case (Suc k')
    show ?thesis
    proof (cases "nth_opt receipts i")
      case None
      with Suc show ?thesis by (simp add: covered_def nth_opt_def)
    next
      case (Some r)
      have d: "distinct (consumed_hashes sig ccm r)" "distinct_events sig receipts ccm is"
        using Cons.prems(1) Some by (auto simp: distinct_events_def)
      show ?thesis
        using Cons.IH [OF d(2), of k' "c + 1" "fold decrement (consumed_hashes sig ccm r) m"]
          covered_Cons [OF Some d(1)] Cons.prems(2) Some Suc
        by (auto simp: Let_def)
    qed
  qed
qed

lemma prefix_loop_le: "prefix_as_usize (fst (prefix_loop sig receipts ccm c m is)) \<le> c + length is"
  by (induction "is" arbitrary: c m) (auto split: option.splits simp: Let_def intro: le_SucI,
      metis add_Suc add_Suc_right)

lemma filter_enumerate_nths:
  "map snd (filter (\<lambda>(i, _). P i) (enumerate n xs)) = nths xs {i. P (n + i)}"
  by (induction xs arbitrary: n) (auto simp: nths_Cons)

lemma filter_txs_nths: "filter_txs txs idx keep = nths txs {i. i \<notin> set (drop keep idx)}"
  unfolding filter_txs_def using filter_enumerate_nths [of "\<lambda>i. i \<notin> set (drop keep idx)" 0 txs] by simp

lemma identify_sorted: "sorted_wrt (<) (identify_trigger_tx_indices sig receipts ccm)"
proof -
  have "sorted_wrt (<) (map fst (filter P (enumerate n rs)))" for P n and rs :: "receipt list"
  proof (induction rs arbitrary: n)
    case (Cons r rs)
    have "n < fst x" if "x \<in> set (enumerate (Suc n) rs)" for x
      using that by (simp add: in_set_enumerate_eq)
    with Cons show ?case by fastforce
  qed simp
  then show ?thesis by (simp add: identify_trigger_tx_indices_def)
qed

lemma mem_identify: "i \<in> set (identify_trigger_tx_indices sig receipts ccm) \<longleftrightarrow>
    i < length receipts \<and> emits_consumed sig ccm (receipts ! i)"
  by (force simp: identify_trigger_tx_indices_def in_set_enumerate_eq image_iff)

text \<open>
  Filtering by the positions of the triggers, seen on the list of transactions paired with
  their receipts: the survivors are a stable selection.
\<close>

lemma keepers_partition:
  fixes P :: "'a \<Rightarrow> bool"
  defines "idx \<equiv> \<lambda>n (ys :: 'a list). map fst (filter (\<lambda>(_, z). P z) (enumerate n ys))"
  defines "keepers \<equiv> \<lambda>n k ys. map snd (filter (\<lambda>(i, _). i \<notin> set (drop k (idx n ys))) (enumerate n ys))"
  shows "filter P (keepers n k zs) = take k (filter P zs) \<and>
    filter (\<lambda>z. \<not> P z) (keepers n k zs) = filter (\<lambda>z. \<not> P z) zs"
proof (induction zs arbitrary: n k)
  case (Cons z zs)
  have later: "n \<notin> set (drop j (idx (Suc n) zs))" for j
  proof
    assume "n \<in> set (drop j (idx (Suc n) zs))"
    then have "n \<in> set (idx (Suc n) zs)" by (rule in_set_dropD)
    then show False by (auto simp: idx_def in_set_enumerate_eq)
  qed
  have other: "filter (\<lambda>(i, _). i \<notin> insert n S) (enumerate (Suc n) zs) =
      filter (\<lambda>(i, _). i \<notin> S) (enumerate (Suc n) zs)" for S
    by (rule filter_cong) (auto simp: in_set_enumerate_eq)
  have step: "idx n (z # zs) = (if P z then n # idx (Suc n) zs else idx (Suc n) zs)"
    by (simp add: idx_def)
  have "keepers n k (z # zs) =
      (if P z then (case k of 0 \<Rightarrow> keepers (Suc n) 0 zs | Suc k' \<Rightarrow> z # keepers (Suc n) k' zs)
       else z # keepers (Suc n) k zs)"
    using later by (simp add: keepers_def step other [simplified] split: nat.split)
  with Cons.IH [of "Suc n"] show ?case by (simp split: nat.split)
qed (simp add: idx_def keepers_def)

lemma subseq_keepers: "subseq (map snd (filter Q (enumerate n zs))) zs"
  by (induction zs arbitrary: n) auto

lemma enumerate_zip_fst:
  "length ys = length xs \<Longrightarrow>
    map snd (filter (\<lambda>(i, _). Q i) (enumerate n xs)) =
    map fst (map snd (filter (\<lambda>(i, _). Q i) (enumerate n (zip xs ys))))"
  by (induction xs ys arbitrary: n rule: list_induct2') auto

lemma enumerate_zip_snd:
  "length ys = length xs \<Longrightarrow>
    map fst (filter (\<lambda>(_, y). P y) (enumerate n ys)) =
    map fst (filter (\<lambda>(_, z). P (snd z)) (enumerate n (zip xs ys)))"
  by (induction xs ys arbitrary: n rule: list_induct2') auto

text \<open>The occurrences that the log parser records for one hash.\<close>

definition occurrences :: "(bytes \<Rightarrow> sol_action option) \<Rightarrow> event_log list \<Rightarrow> action_hash \<Rightarrow> cross_chain_action option list" where
  "occurrences decode logs h =
     map (\<lambda>l. Option.bind (decode (log_data l)) action_from_sol)
       (filter (\<lambda>l. length (topics l) \<ge> 2 \<and> ActionHash (topics l ! 1) = h) logs)"

lemma consumed_push_lookup:
  "map_of (consumed_push f h m) h' =
    (if h' = h then Some (f (case map_of m h of None \<Rightarrow> [] | Some as \<Rightarrow> as)) else map_of m h')"
  by (induction f h m rule: consumed_push.induct) auto

lemma consumed_push_keys: "set (map fst (consumed_push f h m)) = insert h (set (map fst m))"
  by (induction f h m rule: consumed_push.induct) auto

lemma consumed_push_distinct: "distinct (map fst m) \<Longrightarrow> distinct (map fst (consumed_push f h m))"
  by (induction f h m rule: consumed_push.induct) (auto simp: consumed_push_keys simp del: set_map)

lemma parse_consumed_distinct: "distinct (map fst m) \<Longrightarrow> distinct (map fst (parse_consumed_loop decode m ls))"
  by (induction decode m ls rule: parse_consumed_loop.induct)
    (auto simp: Let_def consumed_push_distinct split: option.splits)

fun record_occurrence :: "cross_chain_action list \<Rightarrow> cross_chain_action option \<Rightarrow> cross_chain_action list" where
  "record_occurrence as (Some a) = as @ [a]"
| "record_occurrence as None = push_placeholder as"

definition recorded :: "consumed_map \<Rightarrow> action_hash \<Rightarrow> cross_chain_action list" where
  "recorded m h = (case map_of m h of None \<Rightarrow> [] | Some as \<Rightarrow> as)"

lemma recorded_push: "recorded (consumed_push f h m) h' = (if h' = h then f (recorded m h) else recorded m h')"
  by (simp add: recorded_def consumed_push_lookup)

lemma occurrences_Cons:
  "occurrences decode (l # ls) h =
    (if length (topics l) \<ge> 2 \<and> ActionHash (topics l ! 1) = h
     then Option.bind (decode (log_data l)) action_from_sol # occurrences decode ls h
     else occurrences decode ls h)"
  by (simp add: occurrences_def)

lemma parse_consumed_lookup:
  "recorded (parse_consumed_loop decode m ls) h =
     fold (\<lambda>oc as. record_occurrence as oc) (occurrences decode ls h) (recorded m h)"
proof (induction ls arbitrary: m)
  case (Cons l ls)
  let ?oc = "Option.bind (decode (log_data l)) action_from_sol"
  have rec: "record_occurrence as ?oc = (case ?oc of None \<Rightarrow> push_placeholder as | Some a \<Rightarrow> as @ [a])" for as
    by (cases ?oc) simp_all
  show ?case
  proof (cases "length (topics l) < 2")
    case False
    have "parse_consumed_loop decode m (l # ls) =
        parse_consumed_loop decode (consumed_push (\<lambda>as. record_occurrence as ?oc) (ActionHash (topics l ! 1)) m) ls"
      using False by (cases "decode (log_data l)") (simp_all add: Let_def rec split: option.split)
    with False Cons show ?thesis
      by (simp add: occurrences_Cons recorded_push del: parse_consumed_loop.simps)
  qed (simp add: Cons occurrences_Cons)
qed (simp add: occurrences_def)

lemma fold_record_occurrence:
  "as \<noteq> [] \<Longrightarrow> fold (\<lambda>oc as. record_occurrence as oc) ocs as = as @ List.map_filter id ocs"
proof (induction ocs arbitrary: as)
  case (Cons oc ocs)
  then show ?case by (cases oc) (simp_all add: push_placeholder_def List.map_filter_simps)
qed (simp add: List.map_filter_simps)

section \<open>Properties\<close>

text \<open>
  The prefix returned for a block is the longest one that L1 covers. When no trigger
  emits the same hash twice, a prefix of length k fits in the result exactly when each of its
  triggers exists and consumed something, and L1 still holds, for every hash, as many
  consumptions as these triggers claim; and the result is never longer than the trigger list.
\<close>

theorem consumed_prefix_is_longest_covered:
  assumes "distinct_events sig receipts ccm idx" and "k \<le> length idx"
  shows "(k \<le> prefix_as_usize (fst (compute_consumed_trigger_prefix sig receipts ccm m idx)) \<longleftrightarrow>
      covered sig receipts ccm m (take k idx)) \<and>
    prefix_as_usize (fst (compute_consumed_trigger_prefix sig receipts ccm m idx)) \<le> length idx"
  using prefix_loop_covered [OF assms, of 0 m] prefix_loop_le [of sig receipts ccm 0 m idx]
  by (simp add: compute_consumed_trigger_prefix_def)

theorem consumed_prefix_is_longest_covered_witness:
  "(2 \<le> prefix_as_usize (fst (compute_consumed_trigger_prefix 1
        [[\<lparr>log_address = 2, topics = [1, 7], log_data = []\<rparr>], [\<lparr>log_address = 2, topics = [1, 7], log_data = []\<rparr>]] 2
        [ActionHash 7 \<mapsto> 1] [0, 1])) \<longleftrightarrow>
      covered 1 [[\<lparr>log_address = 2, topics = [1, 7], log_data = []\<rparr>], [\<lparr>log_address = 2, topics = [1, 7], log_data = []\<rparr>]] 2
        [ActionHash 7 \<mapsto> 1] (take 2 [0, 1])) \<and>
    prefix_as_usize (fst (compute_consumed_trigger_prefix 1
        [[\<lparr>log_address = 2, topics = [1, 7], log_data = []\<rparr>], [\<lparr>log_address = 2, topics = [1, 7], log_data = []\<rparr>]] 2
        [ActionHash 7 \<mapsto> 1] [0, 1])) \<le> length [0, 1 :: nat]"
  by (rule consumed_prefix_is_longest_covered) (simp_all add: distinct_events_def consumed_hashes_def)

text \<open>
  The prefix is monotone in what L1 consumed: with at least as many consumptions of every
  hash available, at least as many triggers are kept.
\<close>

theorem consumed_prefix_monotone:
  assumes "\<And>h. available m h \<le> available m' h"
  shows "prefix_as_usize (fst (compute_consumed_trigger_prefix sig receipts ccm m idx)) \<le>
    prefix_as_usize (fst (compute_consumed_trigger_prefix sig receipts ccm m' idx))"
  unfolding compute_consumed_trigger_prefix_def using assms by (rule prefix_loop_mono)

theorem consumed_prefix_monotone_witness:
  "prefix_as_usize (fst (compute_consumed_trigger_prefix 1
      [[\<lparr>log_address = 2, topics = [1, 7], log_data = []\<rparr>]] 2 (Map.empty) [0])) \<le>
   prefix_as_usize (fst (compute_consumed_trigger_prefix 1
      [[\<lparr>log_address = 2, topics = [1, 7], log_data = []\<rparr>]] 2 [ActionHash 7 \<mapsto> 1] [0]))"
  by (rule consumed_prefix_monotone) (simp add: available_def)

text \<open>
  The check of one trigger does not count repetitions. A trigger that emitted one hash
  twice while L1 consumed it once is reported as consumed, although L1 does not cover it.
\<close>

theorem repeated_hash_is_overcounted:
  assumes "nth_opt receipts i = Some r" and "consumed_hashes sig ccm r = [h, h]" and "m h = Some 1"
  shows "fst (compute_consumed_trigger_prefix sig receipts ccm m [i]) = ConsumedPrefix 1 \<and>
    \<not> covered sig receipts ccm m [i]"
proof
  show "fst (compute_consumed_trigger_prefix sig receipts ccm m [i]) = ConsumedPrefix 1"
    using assms by (simp add: compute_consumed_trigger_prefix_def available_def Let_def)
  have "count_list (claimed sig receipts ccm [i]) h = 2"
    using assms by (simp add: claimed_def)
  moreover have "available m h = 1" using assms by (simp add: available_def)
  ultimately show "\<not> covered sig receipts ccm m [i]"
    by (metis covered_def numeral_le_one_iff semiring_norm(69))
qed

theorem repeated_hash_is_overcounted_witness:
  "fst (compute_consumed_trigger_prefix 1
      [[\<lparr>log_address = 2, topics = [1, 7], log_data = []\<rparr>, \<lparr>log_address = 2, topics = [1, 7], log_data = []\<rparr>]]
      2 [ActionHash 7 \<mapsto> 1] [0]) = ConsumedPrefix 1 \<and>
   \<not> covered 1
      [[\<lparr>log_address = 2, topics = [1, 7], log_data = []\<rparr>, \<lparr>log_address = 2, topics = [1, 7], log_data = []\<rparr>]]
      2 [ActionHash 7 \<mapsto> 1] [0]"
  by (rule repeated_hash_is_overcounted [where h = "ActionHash 7" and
        r = "[\<lparr>log_address = 2, topics = [1, 7], log_data = []\<rparr>, \<lparr>log_address = 2, topics = [1, 7], log_data = []\<rparr>]"])
    (simp_all add: consumed_hashes_def)

text \<open>
  C5: the filter of a block keeps every transaction that is no trigger and exactly the first k
  triggers, all in their order. The transactions are seen with their receipts, which decide
  what a trigger is.
\<close>

theorem filter_keeps_consumed_triggers:
  assumes "encoded \<noteq> []" and "decode encoded = Some txs" and "length receipts = length txs"
  shows "\<exists>kept. filter_block_by_trigger_prefix decode encode_list encoded
        (identify_trigger_tx_indices sig receipts ccm) k = Some (encode_list (map fst kept)) \<and>
      subseq kept (zip txs receipts) \<and>
      filter (\<lambda>z. emits_consumed sig ccm (snd z)) kept =
        take k (filter (\<lambda>z. emits_consumed sig ccm (snd z)) (zip txs receipts)) \<and>
      filter (\<lambda>z. \<not> emits_consumed sig ccm (snd z)) kept =
        filter (\<lambda>z. \<not> emits_consumed sig ccm (snd z)) (zip txs receipts)"
    (is "\<exists>kept. ?A kept \<and> ?B kept \<and> ?C kept \<and> ?D kept")
proof -
  let ?P = "\<lambda>z. emits_consumed sig ccm (snd z)"
  let ?idx = "map fst (filter (\<lambda>(_, z). ?P z) (enumerate 0 (zip txs receipts)))"
  let ?kept = "map snd (filter (\<lambda>(i, _). i \<notin> set (drop k ?idx)) (enumerate 0 (zip txs receipts)))"
  have idx: "identify_trigger_tx_indices sig receipts ccm = ?idx"
    unfolding identify_trigger_tx_indices_def by (rule enumerate_zip_snd [OF assms(3)])
  have "filter_txs txs ?idx k = map fst ?kept"
    unfolding filter_txs_def by (rule enumerate_zip_fst [OF assms(3)])
  then have "?A ?kept"
    using assms(1,2) unfolding idx by (simp add: filter_block_by_trigger_prefix_def)
  moreover have "?B ?kept" by (rule subseq_keepers)
  moreover have "?C ?kept \<and> ?D ?kept" by (rule keepers_partition)
  ultimately show ?thesis by blast
qed

definition toy_receipts :: "receipt list" where
  "toy_receipts = [[\<lparr>log_address = 2, topics = [1, 7], log_data = []\<rparr>], [], [\<lparr>log_address = 2, topics = [1, 8], log_data = []\<rparr>]]"

theorem filter_keeps_consumed_triggers_witness:
  "\<exists>kept. filter_block_by_trigger_prefix Some id [10, 20, 30]
        (identify_trigger_tx_indices 1 toy_receipts 2) 1 = Some (id (map fst kept)) \<and>
      subseq kept (zip [10, 20, 30] toy_receipts) \<and>
      filter (\<lambda>z. emits_consumed 1 2 (snd z)) kept =
        take 1 (filter (\<lambda>z. emits_consumed 1 2 (snd z)) (zip [10, 20, 30] toy_receipts)) \<and>
      filter (\<lambda>z. \<not> emits_consumed 1 2 (snd z)) kept =
        filter (\<lambda>z. \<not> emits_consumed 1 2 (snd z)) (zip [10, 20, 30] toy_receipts)"
  by (rule filter_keeps_consumed_triggers) (simp_all add: toy_receipts_def)

text \<open>
  What the log parser records for a hash. Every hash has one entry; its actions are those
  of the decodable events in log order, with one placeholder in front exactly when the first
  event of the hash does not decode. Later events that do not decode leave no trace, so the
  length of the entry is smaller than the number of events then.
\<close>

theorem consumed_log_record:
  "distinct (map fst (parse_execution_consumed_logs decode logs)) \<and>
   recorded (parse_execution_consumed_logs decode logs) h =
     (case occurrences decode logs h of
        [] \<Rightarrow> []
      | oc # ocs \<Rightarrow> (case oc of None \<Rightarrow> placeholder_action | Some a \<Rightarrow> a) # List.map_filter id ocs)"
proof
  show "distinct (map fst (parse_execution_consumed_logs decode logs))"
    by (simp add: parse_execution_consumed_logs_def parse_consumed_distinct)
  show "recorded (parse_execution_consumed_logs decode logs) h =
     (case occurrences decode logs h of
        [] \<Rightarrow> []
      | oc # ocs \<Rightarrow> (case oc of None \<Rightarrow> placeholder_action | Some a \<Rightarrow> a) # List.map_filter id ocs)"
    by (simp add: parse_execution_consumed_logs_def parse_consumed_lookup push_placeholder_def
        fold_record_occurrence recorded_def [of "[]"] split: list.split option.split)
qed

end
