(* ===== verification/State_Deltas.thy ===== *)
theory State_Deltas
  imports Call_Entries
begin

text \<open>
  Attaching state deltas (\<open>cross_chain.rs\<close>): \<open>attach_chained_state_deltas\<close> for L2 pairs
  and \<open>attach_generic_state_deltas\<close> for the trigger groups of L1 deferred entries. Slices and
  indexing that can panic return the panic.
\<close>

section \<open>Chained pairs\<close>

fun attach_pairs :: "cross_chain_execution_entry list \<Rightarrow> b256 list \<Rightarrow> rollup_id
    \<Rightarrow> cross_chain_execution_entry list" where
  "attach_pairs (c # r # rest) (x # y # roots) rid =
     (let v = call_value (next_action c);
          ed = (if v = 0 then 0 else i256_from_u256 v)
      in c\<lparr>state_deltas := [\<lparr>delta_rollup_id = rid, current_state = x, new_state = y,
           ether_delta = ed\<rparr>]\<rparr> # r # attach_pairs rest (y # roots) rid)"
| "attach_pairs entries roots rid = entries"

definition attach_chained_state_deltas ::
    "cross_chain_execution_entry list \<Rightarrow> b256 list \<Rightarrow> u64
     \<Rightarrow> panic + cross_chain_execution_entry list" where
  "attach_chained_state_deltas entries intermediate_roots rollup =
     (if length intermediate_roots = length entries div 2 + 1
      then Inr (attach_pairs entries intermediate_roots (RollupId (ucast rollup)))
      else Inl AssertionFailed)"

section \<open>Trigger groups\<close>

definition u64_be_bytes :: "u64 \<Rightarrow> bytes" where
  "u64_be_bytes w = map (\<lambda>i. ucast (drop_bit (8 * (7 - i)) w)) [0..<8]"

definition entry_root :: "abi \<Rightarrow> b256 \<Rightarrow> b256 \<Rightarrow> u64 \<Rightarrow> nat \<Rightarrow> bool \<Rightarrow> nat \<Rightarrow> b256" where
  "entry_root A pre_root post_root rollup group_size is_revert_group j =
     (if j = 0 then pre_root
      else if is_revert_group \<and> j \<ge> group_size - 1 then post_root
      else if j = group_size then post_root
      else keccak A (b256_bytes pre_root @ b256_bytes post_root @ u64_be_bytes rollup
             @ u64_be_bytes (of_nat j)))"

definition existing_ether_delta :: "cross_chain_execution_entry \<Rightarrow> i256" where
  "existing_ether_delta e = (case state_deltas e of [] \<Rightarrow> 0 | d # _ \<Rightarrow> ether_delta d)"

definition with_delta :: "rollup_id \<Rightarrow> b256 \<Rightarrow> b256 \<Rightarrow> cross_chain_execution_entry
    \<Rightarrow> cross_chain_execution_entry" where
  "with_delta rid x y e = e\<lparr>state_deltas := [\<lparr>delta_rollup_id = rid, current_state = x,
     new_state = y, ether_delta = existing_ether_delta e\<rparr>]\<rparr>"

text \<open>The inner loop over \<open>start..end\<close>, with its early exit at the end of the vector.\<close>

definition attach_group :: "rollup_id \<Rightarrow> (nat \<Rightarrow> b256) \<Rightarrow> nat \<Rightarrow> nat
    \<Rightarrow> cross_chain_execution_entry list \<Rightarrow> cross_chain_execution_entry list" where
  "attach_group rid root start end_pos entries =
     map (\<lambda>(i, e). if start \<le> i \<and> i < end_pos
                    then with_delta rid (root (i - start)) (root (Suc (i - start))) e else e)
       (enumerate 0 entries)"

definition is_revert_slice :: "cross_chain_execution_entry list \<Rightarrow> bool" where
  "is_revert_slice es \<longleftrightarrow> (\<exists>e \<in> set es. action_type (next_action e) = Revert)"

fun attach_groups :: "abi \<Rightarrow> u64 \<Rightarrow> b256 list \<Rightarrow> nat list \<Rightarrow> cross_chain_execution_entry list
    \<Rightarrow> panic + cross_chain_execution_entry list" where
  "attach_groups A rollup roots [] entries = Inr entries"
| "attach_groups A rollup roots (start # starts) entries =
     (let end_pos = (case starts of [] \<Rightarrow> length entries | next # _ \<Rightarrow> next) in
      case roots of
        pre_root # post_root # _ \<Rightarrow>
          (case slice_range entries start end_pos of
             Inl p \<Rightarrow> Inl p
           | Inr grp \<Rightarrow>
               attach_groups A rollup (tl roots) starts
                 (attach_group (RollupId (ucast rollup))
                   (entry_root A pre_root post_root rollup (end_pos - start) (is_revert_slice grp))
                   start end_pos entries))
      | _ \<Rightarrow> Inr entries)"

definition attach_generic_state_deltas ::
    "abi \<Rightarrow> cross_chain_execution_entry list \<Rightarrow> b256 list \<Rightarrow> u64 \<Rightarrow> nat list
     \<Rightarrow> panic + cross_chain_execution_entry list" where
  "attach_generic_state_deltas A entries roots rollup group_starts =
     attach_groups A rollup roots group_starts entries"

section \<open>Chains\<close>

text \<open>Entries whose single deltas lead from one root to another.\<close>

fun chained :: "b256 \<Rightarrow> cross_chain_execution_entry list \<Rightarrow> b256 \<Rightarrow> bool" where
  "chained x [] y \<longleftrightarrow> x = y"
| "chained x (e # es) y \<longleftrightarrow>
     (case state_deltas e of [d] \<Rightarrow> current_state d = x \<and> chained (new_state d) es y | _ \<Rightarrow> False)"

lemma chained_append: "chained x es y \<Longrightarrow> chained y fs z \<Longrightarrow> chained x (es @ fs) z"
  by (induction x es y rule: chained.induct) (auto split: list.splits)

definition without_deltas :: "cross_chain_execution_entry \<Rightarrow> cross_chain_execution_entry \<times> i256" where
  "without_deltas e = (e\<lparr>state_deltas := []\<rparr>, existing_ether_delta e)"

lemma with_delta_simps [simp]:
  "action_hash (with_delta rid x y e) = action_hash e"
  "next_action (with_delta rid x y e) = next_action e"
  "existing_ether_delta (with_delta rid x y e) = existing_ether_delta e"
  "without_deltas (with_delta rid x y e) = without_deltas e"
  "state_deltas (with_delta rid x y e) = [\<lparr>delta_rollup_id = rid, current_state = x,
     new_state = y, ether_delta = existing_ether_delta e\<rparr>]"
  by (simp_all add: with_delta_def without_deltas_def existing_ether_delta_def)

fun group_result :: "rollup_id \<Rightarrow> (nat \<Rightarrow> b256) \<Rightarrow> nat \<Rightarrow> cross_chain_execution_entry list
    \<Rightarrow> cross_chain_execution_entry list" where
  "group_result rid root n [] = []"
| "group_result rid root n (e # es) = with_delta rid (root n) (root (Suc n)) e # group_result rid root (Suc n) es"

lemma length_group_result [simp]: "length (group_result rid root n es) = length es"
  by (induction es arbitrary: n) simp_all

lemma chained_group_result: "chained (root n) (group_result rid root n es) (root (n + length es))"
  by (induction es arbitrary: n) (simp_all, metis add_Suc_right add_Suc)

lemma without_deltas_group_result [simp]:
  "map without_deltas (group_result rid root n es) = map without_deltas es"
  by (induction es arbitrary: n) simp_all

lemma attach_group_inside:
  "map (\<lambda>(i, e). if a \<le> i \<and> i < a + k then with_delta rid (root (i - a)) (root (Suc (i - a))) e else e)
     (enumerate (a + n) es) =
   (group_result rid root n (take (k - n) es) @ drop (k - n) es)"
  if "n \<le> k"
  using that
proof (induction es arbitrary: n)
  case (Cons e es)
  show ?case
  proof (cases "n < k")
    case True
    then have "k - n = Suc (k - Suc n)" by simp
    with True Cons.IH [of "Suc n"] show ?thesis by simp
  next
    case False
    with Cons.prems have "n = k" by simp
    moreover have "map (\<lambda>(i, e). if a \<le> i \<and> i < a + k then with_delta rid (root (i - a)) (root (Suc (i - a))) e else e)
       (enumerate m es) = es" if "a + k \<le> m" for m
      using that by (induction es arbitrary: m) auto
    ultimately show ?thesis by simp
  qed
qed simp

lemma attach_group_before:
  "n + length pre \<le> a \<Longrightarrow>
     map (\<lambda>(i, e). if a \<le> i \<and> i < b then f i e else e) (enumerate n pre) = pre"
  by (induction pre arbitrary: n) auto

lemma attach_group_append:
  "attach_group rid root (length pre) (length pre + length g) (pre @ g @ rest) =
     pre @ group_result rid root 0 g @ rest"
  using attach_group_inside [of 0 "length g" "length pre" rid root "g @ rest"]
    attach_group_before [of 0 pre "length pre" "length pre + length g"
      "\<lambda>i e. with_delta rid (root (i - length pre)) (root (Suc (i - length pre))) e"]
  by (simp add: attach_group_def enumerate_append_eq)

fun starts_of :: "nat \<Rightarrow> 'a list list \<Rightarrow> nat list" where
  "starts_of n [] = []"
| "starts_of n (g # gs) = n # starts_of (n + length g) gs"

lemma entry_root_ends:
  "entry_root A x y rollup n rv 0 = x"
  "n > 0 \<Longrightarrow> entry_root A x y rollup n rv n = y"
  by (auto simp: entry_root_def)

fun groups_result :: "abi \<Rightarrow> u64 \<Rightarrow> b256 list \<Rightarrow> cross_chain_execution_entry list list
    \<Rightarrow> cross_chain_execution_entry list" where
  "groups_result A rollup (x # y # roots) (g # gs) =
     group_result (RollupId (ucast rollup)) (entry_root A x y rollup (length g) (is_revert_slice g)) 0 g
     @ groups_result A rollup (y # roots) gs"
| "groups_result A rollup roots gs = concat gs"

lemma end_pos_starts_of:
  "(case starts_of n gs of [] \<Rightarrow> n + length (concat gs) | next # _ \<Rightarrow> next) = n"
  by (cases gs) simp_all

lemma attach_groups_result:
  "length roots = length gs + 1 \<Longrightarrow>
     attach_groups A rollup roots (starts_of (length pre) gs) (pre @ concat gs) =
     Inr (pre @ groups_result A rollup roots gs)"
proof (induction gs arbitrary: roots pre)
  case Nil
  then show ?case by (cases roots) auto
next
  case (Cons g gs)
  then obtain x y roots' where roots: "roots = x # y # roots'" "length (y # roots') = length gs + 1"
    by (cases roots; cases "tl roots") auto
  let ?n = "length pre + length g"
  let ?gr = "group_result (RollupId (ucast rollup))
    (entry_root A x y rollup (length g) (is_revert_slice g)) 0 g"
  have e: "(case starts_of ?n gs of [] \<Rightarrow> length (pre @ g @ concat gs) | next # _ \<Rightarrow> next) = ?n"
    using end_pos_starts_of [of ?n gs] by (cases gs) simp_all
  have sl: "slice_range (pre @ g @ concat gs) (length pre) ?n = Inr g"
    by (simp add: slice_range_def)
  have "attach_groups A rollup roots (starts_of (length pre) (g # gs)) (pre @ concat (g # gs)) =
    attach_groups A rollup (y # roots') (starts_of ?n gs) (pre @ ?gr @ concat gs)"
    using attach_group_append [of "RollupId (ucast rollup)" _ pre g "concat gs"]
    by (simp add: roots e sl Let_def del: length_append)
  also have "\<dots> = Inr ((pre @ ?gr) @ groups_result A rollup (y # roots') gs)"
    using Cons.IH [OF roots(2), of "pre @ ?gr"] by simp
  finally show ?case by (simp add: roots)
qed

lemma chained_groups_result:
  "length roots = length gs + 1 \<Longrightarrow> \<forall>g \<in> set gs. g \<noteq> [] \<Longrightarrow>
     chained (hd roots) (groups_result A rollup roots gs) (last roots)"
proof (induction A rollup roots gs rule: groups_result.induct)
  case (1 A rollup x y roots g gs)
  then have "chained x (group_result (RollupId (ucast rollup))
      (entry_root A x y rollup (length g) (is_revert_slice g)) 0 g) y"
    using chained_group_result [of "entry_root A x y rollup (length g) (is_revert_slice g)" 0 _ g]
      entry_root_ends(2) [of "length g" A x y rollup]
    by (simp add: entry_root_ends(1))
  with 1 show ?case by (auto intro: chained_append)
qed (auto simp: length_Suc_conv)

lemma without_deltas_groups_result:
  "map without_deltas (groups_result A rollup roots gs) = map without_deltas (concat gs)"
  by (induction A rollup roots gs rule: groups_result.induct) (simp_all add: map_concat)

section \<open>L2 pairs\<close>

lemma chained_attach_pairs:
  "even (length entries) \<Longrightarrow> length roots = length entries div 2 + 1 \<Longrightarrow>
     chained (hd roots) (convert_pairs_to_l1_entries (attach_pairs entries roots rid)) (last roots)"
  by (induction entries roots rid rule: attach_pairs.induct) (auto simp: Let_def length_Suc_conv)

section \<open>Properties\<close>

text \<open>
  C6: one chain through all trigger groups. When the group starts describe a partition of the
  entries into non-empty groups and there is one root per group boundary,
  \<open>attach_generic_state_deltas\<close> does not panic, gives every entry exactly one delta, and the
  deltas lead without a gap from the first root to the last, REVERT groups included; it changes
  neither hashes, actions nor ether deltas.
\<close>

theorem generic_deltas_form_one_chain:
  assumes "entries = concat gs" and "group_starts = starts_of 0 gs"
    and "\<forall>g \<in> set gs. g \<noteq> []" and "length roots = length gs + 1"
  shows "\<exists>es'. attach_generic_state_deltas A entries roots rollup group_starts = Inr es' \<and>
    chained (hd roots) es' (last roots) \<and> map without_deltas es' = map without_deltas entries"
proof (intro exI conjI)
  show "attach_generic_state_deltas A entries roots rollup group_starts = Inr (groups_result A rollup roots gs)"
    using attach_groups_result [OF assms(4), of A rollup "[]"] assms(1,2)
    by (simp add: attach_generic_state_deltas_def)
  show "chained (hd roots) (groups_result A rollup roots gs) (last roots)"
    by (rule chained_groups_result [OF assms(4,3)])
  show "map without_deltas (groups_result A rollup roots gs) = map without_deltas entries"
    by (simp add: without_deltas_groups_result assms(1))
qed

theorem generic_deltas_form_one_chain_witness:
  "\<exists>es'. attach_generic_state_deltas \<lparr>keccak = be_word, enc_action = sol_data,
        enc_deltas = (\<lambda>_. []), enc_words = (\<lambda>_. [])\<rparr>
      [sample_entry, sample_entry, sample_entry] [10, 20, 30] 1 [0, 2] = Inr es' \<and>
    chained 10 es' 30 \<and> map without_deltas es' = map without_deltas [sample_entry, sample_entry, sample_entry]"
  using generic_deltas_form_one_chain [of "[sample_entry, sample_entry, sample_entry]"
      "[[sample_entry, sample_entry], [sample_entry]]" "[0, 2]" "[10, 20, 30]"] by simp

text \<open>
  \<open>attach_chained_state_deltas\<close> panics exactly when the number of roots is not one more
  than the number of pairs; otherwise, for whole pairs, the entries submitted to L1 chain the
  given roots from the first to the last.
\<close>

theorem chained_deltas_of_pairs:
  "(attach_chained_state_deltas entries roots rollup = Inl AssertionFailed \<longleftrightarrow>
      length roots \<noteq> length entries div 2 + 1) \<and>
   (attach_chained_state_deltas entries roots rollup = Inr es' \<longrightarrow> even (length entries) \<longrightarrow>
      chained (hd roots) (convert_pairs_to_l1_entries es') (last roots))"
  using chained_attach_pairs [of entries roots "RollupId (ucast rollup)"]
  by (auto simp: attach_chained_state_deltas_def)

theorem chained_deltas_of_pairs_witness:
  "chained 10 (convert_pairs_to_l1_entries (attach_pairs [sample_entry, sample_entry] [10, 20] (RollupId 1))) 20"
  using chained_deltas_of_pairs [of "[sample_entry, sample_entry]" "[10, 20]" 1
      "attach_pairs [sample_entry, sample_entry] [10, 20] (RollupId 1)"]
  by (simp add: attach_chained_state_deltas_def)

end
