(* ===== verification/Derivation.thy ===== *)
theory Derivation
  imports Trigger_Filter Entry_Reconstruction State_Deltas
begin

text \<open>
  Deriving L2 blocks from L1 (\<open>derivation.rs\<close>): \<open>derive_next_batch\<close> with its entry
  classification, effective state root, gap filling, sorting and deduplication, and the
  timestamps of \<open>config.rs\<close>. The L1 node (logs, transactions, block headers), the ABI and RLP
  decoders and the event signatures are the fields of a parameter; everything the function
  computes from their answers is modelled. It returns a batch and leaves the pipeline as it is.
\<close>

section \<open>Data\<close>

record rollup_config =
  rollups_address :: address
  deployment_l1_block :: u64
  deployment_timestamp :: u64
  block_time :: u64
  cfg_rollup_id :: u64

definition l2_timestamp_checked :: "rollup_config \<Rightarrow> u64 \<Rightarrow> u64 option" where
  "l2_timestamp_checked c n =
     Option.bind (Option.bind (checked_add n 1) (\<lambda>n1. checked_mul n1 (block_time c)))
       (\<lambda>p. checked_add (deployment_timestamp c) p)"

record l1_block_info =
  info_number :: u64
  info_hash :: b256

record derived_block_meta =
  meta_l2 :: u64
  meta_l1 :: u64
  meta_hash :: b256

record deferred_filtering =
  l1_consumed_remaining :: remaining_map
  all_l2_entries :: "cross_chain_execution_entry list"

record derived_block =
  l2_block_number :: u64
  l2_timestamp :: u64
  l1_info :: l1_block_info
  db_state_root :: b256
  db_transactions :: bytes
  db_is_empty :: bool
  execution_entries :: "cross_chain_execution_entry list"
  filtering :: "deferred_filtering option"

record cursor_update =
  cu_processed_l1 :: u64
  cu_execution_l1 :: u64
  cu_derived_l2 :: u64
  cu_l1_info :: "l1_block_info option"
  cu_entries :: "derived_block_meta list"

record derived_batch =
  batch_blocks :: "derived_block list"
  batch_update :: cursor_update

record pipeline =
  config :: rollup_config
  last_processed_l1_block :: u64
  cursor :: "derived_block_meta list"
  last_derived_l2_block :: u64
  last_l1_info :: "l1_block_info option"
  deployment_l1_block_hash :: b256
  last_execution_l1_block :: u64
  builder_execution_l1_block :: u64

definition new_pipeline :: "rollup_config \<Rightarrow> pipeline" where
  "new_pipeline c = \<lparr>config = c, last_processed_l1_block = deployment_l1_block c, cursor = [],
     last_derived_l2_block = 0, last_l1_info = None, deployment_l1_block_hash = 0,
     last_execution_l1_block = deployment_l1_block c, builder_execution_l1_block = 0\<rparr>"

definition set_deployment_l1_block_hash :: "b256 \<Rightarrow> pipeline \<Rightarrow> pipeline" where
  "set_deployment_l1_block_hash h p = p\<lparr>deployment_l1_block_hash := h\<rparr>"

definition resume_from :: "u64 \<Rightarrow> pipeline \<Rightarrow> pipeline" where
  "resume_from l1_block p = p\<lparr>last_processed_l1_block := l1_block, last_execution_l1_block := l1_block\<rparr>"

definition set_last_derived_l2_block :: "u64 \<Rightarrow> pipeline \<Rightarrow> pipeline" where
  "set_last_derived_l2_block l2_block p = p\<lparr>last_derived_l2_block := l2_block\<rparr>"

definition MAX_LOG_RANGE :: u64 where
  "MAX_LOG_RANGE = 2000"

definition MAX_BLOCK_GAP :: u64 where
  "MAX_BLOCK_GAP = 1000"

text \<open>What the L1 node returns and how failures reach the caller.\<close>

datatype derive_error =
    Rpc_Error
  | L1_Block_Not_Found u64
  | Gap_Too_Large u64 u64
  | Panicked panic

record posted_log =
  pl_block_number :: "u64 option"
  pl_transaction_hash :: "b256 option"

record l1_header =
  hdr_hash :: b256
  hdr_parent_hash :: b256

record l1_node =
  get_batch_logs :: "u64 \<Rightarrow> u64 \<Rightarrow> derive_error + posted_log list"
  get_consumed_logs :: "u64 \<Rightarrow> u64 \<Rightarrow> derive_error + event_log list"
  get_tx_input :: "b256 \<Rightarrow> derive_error + bytes option"
  get_header :: "u64 \<Rightarrow> derive_error + l1_header option"

record decoders =
  dec_consumed :: "bytes \<Rightarrow> sol_action option"
  dec_post_batch :: "bytes \<Rightarrow> (sol_execution_entry list \<times> bytes) option"
  dec_block_data :: "bytes \<Rightarrow> (u256 list \<times> bytes list) option"
  dec_tx_inputs :: "bytes \<Rightarrow> bytes list option"
  dec_load_table :: "bytes \<Rightarrow> sol_execution_entry list option"
  values_order :: "consumed_map \<Rightarrow> consumed_map"

section \<open>Decoding the batch\<close>

definition decode_post_batch_calldata :: "decoders \<Rightarrow> bytes \<Rightarrow> (cross_chain_execution_entry list \<times> bytes) option" where
  "decode_post_batch_calldata D data =
     Option.bind (dec_post_batch D data) (\<lambda>(sols, cd).
       map_option (\<lambda>es. (es, cd)) (those (map entry_from_sol sols)))"

text \<open>\<open>n.to::<u64>()\<close> panics when the number does not fit.\<close>

definition fits_u64 :: "u256 \<Rightarrow> bool" where
  "fits_u64 n \<longleftrightarrow> unat n < 2 ^ 64"

definition decode_block_calldata :: "decoders \<Rightarrow> bytes \<Rightarrow> panic + (u64 list \<times> bytes list) option" where
  "decode_block_calldata D data =
     (case dec_block_data D data of
        None \<Rightarrow> Inr None
      | Some (ns, txs) \<Rightarrow>
          if \<forall>n \<in> set ns. fits_u64 n then Inr (Some (map ucast ns, txs)) else Inl UnwrapOnNone)"

definition try_decode_load_execution_table :: "decoders \<Rightarrow> bytes \<Rightarrow> cross_chain_execution_entry list option" where
  "try_decode_load_execution_table D data =
     map_option (List.map_filter entry_from_sol) (dec_load_table D data)"

section \<open>Entries of a batch\<close>

record entry_scan =
  scan_root :: b256
  scan_deferred :: "cross_chain_execution_entry list"
  scan_unconsumed :: bool
  scan_remaining :: remaining_map

fun scan_entries :: "cross_chain_execution_entry list \<Rightarrow> entry_scan \<Rightarrow> entry_scan" where
  "scan_entries [] s = s"
| "scan_entries (e # es) s =
     (if action_hash e = ZERO_HASH then
        scan_entries es (case state_deltas e of [] \<Rightarrow> s | d # _ \<Rightarrow> s\<lparr>scan_root := new_state d\<rparr>)
      else case scan_remaining s (action_hash e) of
          Some n \<Rightarrow>
            if n > 0 then
              scan_entries es (s\<lparr>scan_remaining := (scan_remaining s)(action_hash e \<mapsto> n - 1),
                scan_deferred := scan_deferred s @ [e]\<rparr>)
            else scan_entries es (s\<lparr>scan_unconsumed := True\<rparr>)
        | None \<Rightarrow> scan_entries es (s\<lparr>scan_unconsumed := True\<rparr>))"

definition reverts :: "cross_chain_execution_entry \<Rightarrow> bool" where
  "reverts e \<longleftrightarrow> action_type (next_action e) = Revert \<or> action_type (next_action e) = RevertContinue"

definition l1_has_revert :: "cross_chain_execution_entry list \<Rightarrow> bool" where
  "l1_has_revert es \<longleftrightarrow> (\<exists>e \<in> set es. reverts e)"

definition tx_bytes_revert :: "decoders \<Rightarrow> bytes \<Rightarrow> bool" where
  "tx_bytes_revert D tx_bytes =
     (if tx_bytes = [] \<or> tx_bytes = [0xc0] then False
      else case dec_tx_inputs D tx_bytes of
          None \<Rightarrow> False
        | Some inputs \<Rightarrow>
            (\<exists>i \<in> set inputs. case try_decode_load_execution_table D i of
               None \<Rightarrow> False | Some es \<Rightarrow> (\<exists>e \<in> set es. reverts e)))"

definition batch_has_revert :: "decoders \<Rightarrow> cross_chain_execution_entry list \<Rightarrow> bytes list \<Rightarrow> bool" where
  "batch_has_revert D es block_txs \<longleftrightarrow> l1_has_revert es \<or> (\<exists>t \<in> set block_txs. tx_bytes_revert D t)"

definition revert_action_hashes :: "bool \<Rightarrow> cross_chain_execution_entry list \<Rightarrow> action_hash set" where
  "revert_action_hashes has_revert es =
     (if has_revert then action_hash ` set (filter (\<lambda>e. action_hash e \<noteq> ZERO_HASH) es) else {})"

text \<open>The chain of deltas of the consumed entries, walked from the immediate root.\<close>

definition apply_delta :: "rollup_id \<Rightarrow> cross_chain_state_delta \<Rightarrow> b256 \<Rightarrow> b256" where
  "apply_delta our d root = (if current_state d = root \<and> delta_rollup_id d = our then new_state d else root)"

definition effective_state_root :: "rollup_id \<Rightarrow> action_hash set \<Rightarrow> b256 \<Rightarrow> cross_chain_execution_entry list \<Rightarrow> b256" where
  "effective_state_root our skip root deferred =
     fold (\<lambda>e r. if action_hash e \<in> skip then r else fold (apply_delta our) (state_deltas e) r) deferred root"

definition l2_entries :: "abi \<Rightarrow> bool \<Rightarrow> cross_chain_execution_entry list \<Rightarrow> cross_chain_action list
    \<Rightarrow> cross_chain_execution_entry list" where
  "l2_entries A has_revert deferred call_actions =
     (if has_revert then deferred
      else if call_actions \<noteq> [] then
        convert_l1_entries_to_l2_pairs A deferred call_actions
        @ reconstruct_continuation_l2_entries A deferred call_actions
      else deferred)"

section \<open>Blocks of a batch\<close>

record derive_state =
  st_blocks :: "derived_block list"
  st_cursor :: "derived_block_meta list"
  st_execution :: u64
  st_derived :: u64
  st_info :: "l1_block_info option"
  st_remaining :: remaining_map

definition gap_block :: "l1_block_info \<Rightarrow> u64 \<Rightarrow> u64 \<Rightarrow> derived_block" where
  "gap_block info n ts = \<lparr>l2_block_number = n, l2_timestamp = ts, l1_info = info, db_state_root = 0,
     db_transactions = [], db_is_empty = True, execution_entries = [], filtering = None\<rparr>"

fun gap_blocks :: "rollup_config \<Rightarrow> l1_block_info \<Rightarrow> u64 list \<Rightarrow> derived_block list" where
  "gap_blocks c info [] = []"
| "gap_blocks c info (n # ns) =
     (case l2_timestamp_checked c n of None \<Rightarrow> [] | Some ts \<Rightarrow> gap_block info n ts # gap_blocks c info ns)"

definition u64_range :: "u64 \<Rightarrow> u64 \<Rightarrow> u64 list" where
  "u64_range a b = map of_nat [unat a..<unat b]"

text \<open>What is fixed for all blocks of one batch.\<close>

record batch_context =
  bc_l1_block :: u64
  bc_header :: l1_header
  bc_count :: nat
  bc_root :: b256
  bc_entries :: "cross_chain_execution_entry list"
  bc_filter :: bool
  bc_snapshot :: remaining_map

definition batch_block :: "batch_context \<Rightarrow> nat \<Rightarrow> u64 \<Rightarrow> u64 \<Rightarrow> bytes \<Rightarrow> derived_block" where
  "batch_block B i n ts txs =
     (let is_last = (i = bc_count B - 1);
          entries = (if i = 0 \<or> is_last then bc_entries B else [])
      in \<lparr>l2_block_number = n, l2_timestamp = ts,
          l1_info = \<lparr>info_number = saturating_sub (bc_l1_block B) 1, info_hash = hdr_parent_hash (bc_header B)\<rparr>,
          db_state_root = (if is_last then bc_root B else 0), db_transactions = txs,
          db_is_empty = (txs = [] \<or> txs = [0xc0]), execution_entries = entries,
          filtering = (if bc_filter B \<and> (i = 0 \<or> is_last)
            then Some \<lparr>l1_consumed_remaining = bc_snapshot B, all_l2_entries = entries\<rparr> else None)\<rparr>)"

definition push_block :: "pipeline \<Rightarrow> batch_context \<Rightarrow> nat \<Rightarrow> u64 \<Rightarrow> bytes \<Rightarrow> derive_state \<Rightarrow> derive_error + derive_state" where
  "push_block p B i n txs s =
     (if n \<le> last_derived_l2_block p \<and> n \<le> st_derived s then Inr s
      else case l2_timestamp_checked (config p) n of
          None \<Rightarrow> Inr s
        | Some ts \<Rightarrow>
            let expected = saturating_add (st_derived s) 1;
                b = batch_block B i n ts txs
            in if n > expected \<and> n - expected > MAX_BLOCK_GAP then Inl (Gap_Too_Large n expected)
               else let info = (case st_info s of Some x \<Rightarrow> x
                          | None \<Rightarrow> \<lparr>info_number = deployment_l1_block (config p), info_hash = deployment_l1_block_hash p\<rparr>);
                        gaps = (if n > expected then gap_blocks (config p) info (u64_range expected n) else [])
                    in Inr (s\<lparr>st_blocks := st_blocks s @ gaps @ [b], st_derived := n,
                         st_info := Some (l1_info b),
                         st_cursor := st_cursor s @ [\<lparr>meta_l2 = n, meta_l1 = bc_l1_block B,
                           meta_hash = hdr_hash (bc_header B)\<rparr>]\<rparr>))"

fun push_blocks :: "pipeline \<Rightarrow> batch_context \<Rightarrow> nat \<Rightarrow> (u64 \<times> bytes) list \<Rightarrow> derive_state
    \<Rightarrow> derive_error + derive_state" where
  "push_blocks p B i [] s = Inr s"
| "push_blocks p B i ((n, txs) # rest) s =
     (case push_block p B i n txs s of Inl e \<Rightarrow> Inl e | Inr s' \<Rightarrow> push_blocks p B (Suc i) rest s')"

section \<open>Logs\<close>

definition process_batch :: "abi \<Rightarrow> decoders \<Rightarrow> l1_node \<Rightarrow> pipeline \<Rightarrow> consumed_map \<Rightarrow> u64
    \<Rightarrow> cross_chain_execution_entry list \<Rightarrow> u64 list \<Rightarrow> bytes list \<Rightarrow> derive_state \<Rightarrow> derive_error + derive_state" where
  "process_batch A D node p consumed l1_block entries block_numbers block_txs s =
     (let snapshot = st_remaining s;
          scan = scan_entries entries \<lparr>scan_root = 0, scan_deferred = [], scan_unconsumed = False, scan_remaining = snapshot\<rparr>;
          has_revert = batch_has_revert D entries block_txs;
          root = effective_state_root (RollupId (ucast (cfg_rollup_id (config p))))
                   (revert_action_hashes has_revert entries) (scan_root scan) (scan_deferred scan);
          deferred = l2_entries A has_revert (scan_deferred scan) (concat (map snd (values_order D consumed)))
      in case get_header node l1_block of
           Inl e \<Rightarrow> Inl e
         | Inr None \<Rightarrow> Inl (L1_Block_Not_Found l1_block)
         | Inr (Some hdr) \<Rightarrow>
             (case push_blocks p \<lparr>bc_l1_block = l1_block, bc_header = hdr, bc_count = length block_numbers,
                  bc_root = root, bc_entries = deferred,
                  bc_filter = (scan_unconsumed scan \<and> \<not> has_revert), bc_snapshot = snapshot\<rparr>
                0 (zip block_numbers block_txs) (s\<lparr>st_remaining := scan_remaining scan\<rparr>) of
                Inl e \<Rightarrow> Inl e
              | Inr s' \<Rightarrow> Inr (if l1_block > st_execution s' then s'\<lparr>st_execution := l1_block\<rparr> else s')))"

definition process_log :: "abi \<Rightarrow> decoders \<Rightarrow> l1_node \<Rightarrow> pipeline \<Rightarrow> consumed_map \<Rightarrow> posted_log \<Rightarrow> derive_state
    \<Rightarrow> derive_error + derive_state" where
  "process_log A D node p consumed l s =
     (case (pl_block_number l, pl_transaction_hash l) of
        (Some l1_block, Some tx_hash) \<Rightarrow>
          (case get_tx_input node tx_hash of
             Inl e \<Rightarrow> Inl e
           | Inr None \<Rightarrow> Inr s
           | Inr (Some input) \<Rightarrow>
               (case decode_post_batch_calldata D input of
                  None \<Rightarrow> Inr s
                | Some (entries, cd) \<Rightarrow>
                    if cd = [] then process_batch A D node p consumed l1_block entries [] [] s
                    else (case decode_block_calldata D cd of
                        Inl pn \<Rightarrow> Inl (Panicked pn)
                      | Inr None \<Rightarrow> Inr s
                      | Inr (Some (ns, txs)) \<Rightarrow> process_batch A D node p consumed l1_block entries ns txs s)))
      | _ \<Rightarrow> Inr s)"

fun process_logs :: "abi \<Rightarrow> decoders \<Rightarrow> l1_node \<Rightarrow> pipeline \<Rightarrow> consumed_map \<Rightarrow> posted_log list \<Rightarrow> derive_state
    \<Rightarrow> derive_error + derive_state" where
  "process_logs A D node p consumed [] s = Inr s"
| "process_logs A D node p consumed (l # ls) s =
     (case process_log A D node p consumed l s of
        Inl e \<Rightarrow> Inl e | Inr s' \<Rightarrow> process_logs A D node p consumed ls s')"

text \<open>\<open>dedup_by_key\<close> keeps the first of consecutive equal keys.\<close>

fun dedup_by_key :: "('a \<Rightarrow> 'k) \<Rightarrow> 'a list \<Rightarrow> 'a list" where
  "dedup_by_key f (x # y # xs) =
     (if f x = f y then dedup_by_key f (x # xs) else x # dedup_by_key f (y # xs))"
| "dedup_by_key f xs = xs"

definition finish_batch :: "u64 \<Rightarrow> derive_state \<Rightarrow> derived_batch" where
  "finish_batch to_block s =
     (let blocks = dedup_by_key l2_block_number (sort_key l2_block_number (st_blocks s))
      in \<lparr>batch_blocks = blocks,
          batch_update = \<lparr>cu_processed_l1 = to_block, cu_execution_l1 = st_execution s,
            cu_derived_l2 = (if blocks = [] then st_derived s else l2_block_number (last blocks)),
            cu_l1_info = st_info s,
            cu_entries = dedup_by_key meta_l2 (sort_key meta_l2 (st_cursor s))\<rparr>\<rparr>)"

definition start_state :: "pipeline \<Rightarrow> consumed_map \<Rightarrow> derive_state" where
  "start_state p consumed = \<lparr>st_blocks = [], st_cursor = [], st_execution = last_execution_l1_block p,
     st_derived = last_derived_l2_block p, st_info = last_l1_info p,
     st_remaining = map_of (map (\<lambda>(h, as). (h, length as)) consumed)\<rparr>"

definition window :: "pipeline \<Rightarrow> u64 \<Rightarrow> u64 \<times> u64" where
  "window p latest_l1_block =
     (let from_block = saturating_add (last_processed_l1_block p) 1
      in (from_block, min latest_l1_block (saturating_add from_block (MAX_LOG_RANGE - 1))))"

definition fetch_consumed :: "decoders \<Rightarrow> l1_node \<Rightarrow> pipeline \<Rightarrow> u64 \<Rightarrow> u64 \<Rightarrow> derive_error + consumed_map" where
  "fetch_consumed D node p from_block to_block =
     (if rollups_address (config p) \<noteq> 0
      then (case get_consumed_logs node from_block to_block of
              Inl e \<Rightarrow> Inl e
            | Inr logs \<Rightarrow> Inr (parse_execution_consumed_logs (dec_consumed D) logs))
      else Inr [])"

definition derive_next_batch :: "abi \<Rightarrow> decoders \<Rightarrow> l1_node \<Rightarrow> u64 \<Rightarrow> pipeline \<Rightarrow> derive_error + derived_batch" where
  "derive_next_batch A D node latest_l1_block p =
     (if latest_l1_block \<le> last_processed_l1_block p then
        Inr \<lparr>batch_blocks = [], batch_update = \<lparr>cu_processed_l1 = last_processed_l1_block p,
          cu_execution_l1 = last_execution_l1_block p, cu_derived_l2 = last_derived_l2_block p,
          cu_l1_info = last_l1_info p, cu_entries = []\<rparr>\<rparr>
      else
        let (from_block, to_block) = window p latest_l1_block in
        case get_batch_logs node from_block to_block of
          Inl e \<Rightarrow> Inl e
        | Inr logs \<Rightarrow>
            (case fetch_consumed D node p from_block to_block of
               Inl e \<Rightarrow> Inl e
             | Inr consumed \<Rightarrow>
                 (case process_logs A D node p consumed logs (start_state p consumed) of
                    Inl e \<Rightarrow> Inl e
                  | Inr s \<Rightarrow> Inr (finish_batch to_block s))))"

section \<open>Timestamps\<close>

definition timestamp_fits :: "rollup_config \<Rightarrow> nat \<Rightarrow> bool" where
  "timestamp_fits c n \<longleftrightarrow> n + 1 < 2 ^ 64 \<and> (n + 1) * unat (block_time c) < 2 ^ 64 \<and>
     unat (deployment_timestamp c) + (n + 1) * unat (block_time c) < 2 ^ 64"

lemma unat_checked:
  fixes a b :: "'a::len word"
  shows "unat a + unat b < 2 ^ LENGTH('a) \<Longrightarrow> unat (a + b) = unat a + unat b"
    and "unat a * unat b < 2 ^ LENGTH('a) \<Longrightarrow> unat (a * b) = unat a * unat b"
  by (simp_all add: unat_word_ariths)

lemma l2_timestamp_checked_iff:
  "l2_timestamp_checked c n = Some ts \<longleftrightarrow>
     timestamp_fits c (unat n) \<and> unat ts = unat (deployment_timestamp c) + (unat n + 1) * unat (block_time c)"
proof (cases "timestamp_fits c (unat n)")
  case True
  then have 1: "unat (n + 1) = unat n + 1"
    using unat_checked(1) [of n 1] by (simp add: timestamp_fits_def)
  define x where "x = (n + 1) * block_time c"
  have fits: "(unat n + 1) * unat (block_time c) < 2 ^ 64"
      "unat (deployment_timestamp c) + (unat n + 1) * unat (block_time c) < 2 ^ 64"
    using True by (simp_all only: timestamp_fits_def)
  have 2: "unat x = (unat n + 1) * unat (block_time c)"
    using fits(1) unat_checked(2) [of "n + 1" "block_time c"] unfolding 1 x_def by simp
  have 3: "unat (deployment_timestamp c + x) = unat (deployment_timestamp c) + (unat n + 1) * unat (block_time c)"
    using fits(2) unat_checked(1) [of "deployment_timestamp c" x] unfolding 2 by simp
  have "checked_add n 1 = Some (n + 1)" using True by (simp add: checked_add_def timestamp_fits_def)
  moreover have "checked_mul (n + 1) (block_time c) = Some x"
    using fits(1) unfolding checked_mul_def 1 x_def by simp
  moreover have "checked_add (deployment_timestamp c) x = Some (deployment_timestamp c + x)"
    using fits(2) unfolding checked_add_def 2 by simp
  ultimately have "l2_timestamp_checked c n = Some (deployment_timestamp c + x)"
    by (simp add: l2_timestamp_checked_def)
  then show ?thesis using True 3 by (metis option.inject word_unat_eq_iff)
next
  case False
  have "l2_timestamp_checked c n = None"
  proof (rule ccontr)
    assume "l2_timestamp_checked c n \<noteq> None"
    then obtain a b where ab: "checked_add n 1 = Some a" "checked_mul a (block_time c) = Some b"
      "checked_add (deployment_timestamp c) b \<noteq> None"
      by (auto simp: l2_timestamp_checked_def bind_eq_Some_conv)
    have "unat n + 1 < 2 ^ 64" using ab(1) by (simp add: checked_add_def split: if_splits)
    moreover have a: "unat a = unat n + 1" using checked_add_SomeD [OF ab(1)] by simp
    moreover have "unat a * unat (block_time c) < 2 ^ 64" using ab(2) by (simp add: checked_mul_def split: if_splits)
    moreover have "unat b = unat a * unat (block_time c)" using checked_mul_SomeD [OF ab(2)] by simp
    moreover have "unat (deployment_timestamp c) + unat b < 2 ^ 64"
      using ab(3) by (simp add: checked_add_def split: if_splits)
    ultimately show False using False by (simp add: timestamp_fits_def)
  qed
  with False show ?thesis by simp
qed

lemma timestamp_fits_mono: "timestamp_fits c n \<Longrightarrow> m \<le> n \<Longrightarrow> timestamp_fits c m"
  unfolding timestamp_fits_def
  by (meson add_le_mono1 le_less_trans mult_le_mono1 add_left_mono)

lemma l2_timestamp_checked_exists: "(\<exists>ts. l2_timestamp_checked c n = Some ts) \<longleftrightarrow> timestamp_fits c (unat n)"
proof
  assume fits: "timestamp_fits c (unat n)"
  let ?t = "unat (deployment_timestamp c) + (unat n + 1) * unat (block_time c)"
  have "?t < 2 ^ 64" using fits by (simp only: timestamp_fits_def)
  then have "unat (of_nat ?t :: u64) = ?t" by (rule unat_of_nat_u64)
  with fits have "l2_timestamp_checked c n = Some (of_nat ?t)"
    unfolding l2_timestamp_checked_iff by blast
  then show "\<exists>ts. l2_timestamp_checked c n = Some ts" ..
qed (auto simp: l2_timestamp_checked_iff)

section \<open>Block numbers stay contiguous\<close>

definition numbers :: "derived_block list \<Rightarrow> nat list" where
  "numbers bs = map (unat \<circ> l2_block_number) bs"

lemma numbers_simps [simp]:
  "numbers [] = []" "numbers (b # bs) = unat (l2_block_number b) # numbers bs"
  "numbers (bs @ cs) = numbers bs @ numbers cs"
  by (simp_all add: numbers_def)

lemma set_numbers: "set (numbers bs) = unat ` set (map l2_block_number bs)"
  by (simp add: numbers_def image_image)

lemma unat_u64_range: "map unat (u64_range a b) = [unat a..<unat b]"
proof -
  have "unat (of_nat n :: u64) = n" if "n < unat b" for n
    using that unat_u64_lt [of b] by (simp add: unat_of_nat)
  then show ?thesis unfolding u64_range_def map_map by (intro map_idI) simp
qed

lemma gap_blocks_numbers:
  "\<forall>n \<in> set ns. timestamp_fits c (unat n) \<Longrightarrow> numbers (gap_blocks c info ns) = map unat ns"
proof (induction ns)
  case (Cons n ns)
  then obtain ts where "l2_timestamp_checked c n = Some ts"
    by (metis l2_timestamp_checked_exists list.set_intros(1))
  with Cons show ?case by (simp add: gap_block_def)
qed simp

lemma gap_blocks_timestamps:
  "b \<in> set (gap_blocks c info ns) \<Longrightarrow> l2_timestamp_checked c (l2_block_number b) = Some (l2_timestamp b)"
  by (induction ns) (auto split: option.splits simp: gap_block_def)

definition contiguous :: "pipeline \<Rightarrow> derive_state \<Rightarrow> nat \<Rightarrow> bool" where
  "contiguous p s m \<longleftrightarrow>
     unat (last_derived_l2_block p) \<le> unat (st_derived s) \<and> unat (st_derived s) \<le> m \<and>
     set (numbers (st_blocks s)) = {unat (last_derived_l2_block p)<..m} \<and>
     (\<forall>b \<in> set (st_blocks s). l2_timestamp_checked (config p) (l2_block_number b) = Some (l2_timestamp b)) \<and>
     (\<forall>e \<in> set (st_cursor s). unat (meta_l2 e) \<in> set (numbers (st_blocks s)))"

lemma push_block_contiguous:
  assumes "contiguous p s m" and "push_block p B i n txs s = Inr s'"
  shows "\<exists>m'. contiguous p s' m'"
proof (cases "s' = s")
  case False
  let ?d = "unat (last_derived_l2_block p)" and ?x = "saturating_add (st_derived s) 1"
  have skip: "\<not> (n \<le> last_derived_l2_block p \<and> n \<le> st_derived s)"
    using assms(2) False by (auto simp: push_block_def split: if_splits)
  obtain ts where ts: "l2_timestamp_checked (config p) n = Some ts"
    using assms(2) False by (cases "l2_timestamp_checked (config p) n")
      (simp_all add: push_block_def split: if_splits)
  obtain info where s': "s' = s\<lparr>st_blocks := st_blocks s @
        (if n > ?x then gap_blocks (config p) info (u64_range ?x n) else []) @ [batch_block B i n ts txs],
      st_derived := n, st_info := Some (l1_info (batch_block B i n ts txs)),
      st_cursor := st_cursor s @ [\<lparr>meta_l2 = n, meta_l1 = bc_l1_block B, meta_hash = hdr_hash (bc_header B)\<rparr>]\<rparr>"
    using assms(2) skip ts by (auto simp: push_block_def Let_def split: if_splits)
  have fits: "timestamp_fits (config p) (unat n)" using ts by (simp add: l2_timestamp_checked_iff)
  have n: "?d < unat n"
    using skip assms(1) by (auto simp: contiguous_def word_le_nat_alt)
  have x: "unat ?x = min (unat (st_derived s) + 1) (2 ^ 64 - 1)"
    by (simp add: unat_saturating_add)
  have gaps: "numbers (if n > ?x then gap_blocks (config p) info (u64_range ?x n) else []) = [unat ?x..<unat n]"
  proof (cases "n > ?x")
    case True
    have "\<forall>k \<in> set (u64_range ?x n). timestamp_fits (config p) (unat k)"
    proof
      fix k assume "k \<in> set (u64_range ?x n)"
      then have "unat k \<in> set (map unat (u64_range ?x n))" by simp
      then have "unat k \<le> unat n" unfolding unat_u64_range by simp
      with fits show "timestamp_fits (config p) (unat k)" by (rule timestamp_fits_mono)
    qed
    with True show ?thesis by (simp add: gap_blocks_numbers unat_u64_range)
  qed (simp add: word_less_nat_alt)
  have lt: "unat n < 2 ^ 64" using unat_u64_lt [of n] by simp
  have upto: "{unat ?x..<unat n} = {unat (st_derived s)<..<unat n}"
    using lt unfolding x by auto
  have set': "set (numbers (st_blocks s')) = {?d<..max m (unat n)}"
    using assms(1) n by (auto simp: s' gaps upto contiguous_def batch_block_def Let_def)
  have "contiguous p s' (max m (unat n))"
    unfolding contiguous_def set'
    using assms(1) n ts by (auto simp: s' contiguous_def batch_block_def Let_def max_def
        dest: gap_blocks_timestamps split: if_splits)
  then show ?thesis ..
qed (use assms in auto)

lemma push_blocks_contiguous:
  "contiguous p s m \<Longrightarrow> push_blocks p B i bs s = Inr s' \<Longrightarrow> \<exists>m'. contiguous p s' m'"
proof (induction bs arbitrary: i s m)
  case (Cons b bs)
  obtain n txs where b: "b = (n, txs)" by (cases b)
  from Cons.prems(2) obtain t where t: "push_block p B i n txs s = Inr t" "push_blocks p B (Suc i) bs t = Inr s'"
    by (auto simp: b split: sum.splits)
  from push_block_contiguous [OF Cons.prems(1) t(1)] obtain k where "contiguous p t k" ..
  from Cons.IH [OF this t(2)] show ?case .
qed auto

lemma contiguous_upd [simp]:
  "contiguous p (s\<lparr>st_remaining := r\<rparr>) m = contiguous p s m"
  "contiguous p (s\<lparr>st_execution := e\<rparr>) m = contiguous p s m"
  by (simp_all add: contiguous_def)

lemma process_batch_contiguous:
  assumes "contiguous p s m" and "process_batch A D node p consumed l1 es ns txs s = Inr s'"
  shows "\<exists>m'. contiguous p s' m'"
  using assms push_blocks_contiguous [of p "s\<lparr>st_remaining := _\<rparr>" m]
  by (fastforce simp: process_batch_def Let_def split: sum.splits option.splits if_splits)

lemma process_log_contiguous:
  "contiguous p s m \<Longrightarrow> process_log A D node p consumed l s = Inr s' \<Longrightarrow> \<exists>m'. contiguous p s' m'"
  by (auto simp: process_log_def split: option.splits sum.splits if_splits dest: process_batch_contiguous)

lemma process_logs_contiguous:
  "contiguous p s m \<Longrightarrow> process_logs A D node p consumed ls s = Inr s' \<Longrightarrow> \<exists>m'. contiguous p s' m'"
proof (induction ls arbitrary: s m)
  case (Cons l ls)
  from Cons.prems(2) obtain t where t: "process_log A D node p consumed l s = Inr t"
      "process_logs A D node p consumed ls t = Inr s'"
    by (auto split: sum.splits)
  from process_log_contiguous [OF Cons.prems(1) t(1)] obtain k where "contiguous p t k" ..
  from Cons.IH [OF this t(2)] show ?case .
qed auto

lemma start_contiguous: "contiguous p (start_state p consumed) (unat (last_derived_l2_block p))"
  by (simp add: contiguous_def start_state_def)

section \<open>Sorting and deduplicating\<close>

lemma map_dedup_by_key: "map f (dedup_by_key f xs) = remdups_adj (map f xs)"
  by (induction f xs rule: dedup_by_key.induct) simp_all

lemma dedup_by_key_eq_Nil [simp]: "dedup_by_key f xs = [] \<longleftrightarrow> xs = []"
  by (induction f xs rule: dedup_by_key.induct) simp_all

lemma set_dedup_by_key: "set (dedup_by_key f xs) \<subseteq> set xs"
  by (induction f xs rule: dedup_by_key.induct) auto

lemma dedup_find:
  "sorted (map f xs) \<Longrightarrow> find (\<lambda>x. f x = k) (dedup_by_key f xs) = find (\<lambda>x. f x = k) xs"
  by (induction f xs rule: dedup_by_key.induct) auto

lemma find_filter: "find P xs = (case filter P xs of [] \<Rightarrow> None | x # _ \<Rightarrow> Some x)"
  by (induction xs) auto

lemma strict_sorted_remdups_adj: "sorted xs \<Longrightarrow> sorted_wrt (<) (remdups_adj xs)"
  by (induction xs rule: remdups_adj.induct) (auto simp: order.order_iff_strict)

lemma dedup_sorted:
  fixes f :: "'a \<Rightarrow> 'k::linorder"
  shows "sorted_wrt (<) (map f (dedup_by_key f (sort_key f xs)))"
    and "set (map f (dedup_by_key f (sort_key f xs))) = f ` set xs"
    and "find (\<lambda>x. f x = k) (dedup_by_key f (sort_key f xs)) = find (\<lambda>x. f x = k) xs"
proof -
  show "sorted_wrt (<) (map f (dedup_by_key f (sort_key f xs)))"
    by (simp add: map_dedup_by_key strict_sorted_remdups_adj)
  show "set (map f (dedup_by_key f (sort_key f xs))) = f ` set xs"
    by (simp only: map_dedup_by_key remdups_adj_set) simp
  have "find (\<lambda>x. f x = k) (dedup_by_key f (sort_key f xs)) = find (\<lambda>x. f x = k) (sort_key f xs)"
    by (rule dedup_find) simp
  also have "\<dots> = find (\<lambda>x. f x = k) xs"
    by (simp add: find_filter sort_key_stable)
  finally show "find (\<lambda>x. f x = k) (dedup_by_key f (sort_key f xs)) = find (\<lambda>x. f x = k) xs" .
qed

lemma strict_sorted_unat: "sorted_wrt (<) (map unat ws) = sorted_wrt (<) (ws :: u64 list)"
  by (simp add: sorted_wrt_map word_less_nat_alt [abs_def])

lemma strict_sorted_interval:
  assumes "sorted_wrt (<) ns" and "set ns = {a<..b}"
  shows "ns = [Suc a..<Suc b]"
proof (rule strict_sorted_equal [symmetric])
  show "set [Suc a..<Suc b] = set ns"
    unfolding assms(2) by (simp only: set_upt atLeastLessThanSuc_atLeastAtMost atLeastSucAtMost_greaterThanAtMost)
qed (use assms(1) in \<open>simp_all only: sorted_wrt_upt\<close>)

lemma finish_batch_contiguous:
  assumes "contiguous p s m"
  shows "numbers (batch_blocks (finish_batch to_block s)) =
      [Suc (unat (last_derived_l2_block p))..<Suc (unat (cu_derived_l2 (batch_update (finish_batch to_block s))))] \<and>
    unat (last_derived_l2_block p) \<le> unat (cu_derived_l2 (batch_update (finish_batch to_block s)))"
proof -
  let ?d = "unat (last_derived_l2_block p)"
  let ?bs = "dedup_by_key l2_block_number (sort_key l2_block_number (st_blocks s))"
  have blocks: "batch_blocks (finish_batch to_block s) = ?bs"
    by (simp add: finish_batch_def Let_def)
  have ns: "numbers ?bs = [Suc ?d..<Suc m]"
  proof (rule strict_sorted_interval)
    show "sorted_wrt (<) (numbers ?bs)"
      using dedup_sorted(1) [of l2_block_number "st_blocks s"]
      by (simp add: numbers_def strict_sorted_unat flip: map_map)
    have "set (numbers ?bs) = unat ` set (map l2_block_number ?bs)" by (simp add: numbers_def image_image)
    then show "set (numbers ?bs) = {?d<..m}"
      unfolding dedup_sorted(2) using assms by (simp add: contiguous_def numbers_def image_image)
  qed
  have "unat (cu_derived_l2 (batch_update (finish_batch to_block s))) = m"
  proof (cases "?bs = []")
    case True
    with ns have "[Suc ?d..<Suc m] = []" by (metis numbers_simps(1))
    then have "m \<le> ?d" unfolding upt_eq_Nil_conv by linarith
    then have "m = ?d" using assms by (simp add: contiguous_def)
    with True assms show ?thesis by (simp add: finish_batch_def Let_def contiguous_def)
  next
    case False
    then have "unat (l2_block_number (last ?bs)) = last (numbers ?bs)"
      by (simp add: numbers_def last_map)
    also have "\<dots> = m"
    proof -
      have "[Suc ?d..<Suc m] \<noteq> []" using False unfolding ns [symmetric] by (simp add: numbers_def)
      then have "Suc ?d < Suc m" unfolding upt_eq_Nil_conv by linarith
      then show ?thesis unfolding ns by (simp only: last_upt)
    qed
    finally show ?thesis using False by (simp add: finish_batch_def Let_def)
  qed
  then show ?thesis using ns assms blocks by (simp add: contiguous_def del: upt_Suc)
qed

lemma derive_next_batchE:
  assumes "derive_next_batch A D node latest p = Inr batch" and "last_processed_l1_block p < latest"
  obtains consumed logs s where
    "get_batch_logs node (fst (window p latest)) (snd (window p latest)) = Inr logs"
    "fetch_consumed D node p (fst (window p latest)) (snd (window p latest)) = Inr consumed"
    "process_logs A D node p consumed logs (start_state p consumed) = Inr s"
    "batch = finish_batch (snd (window p latest)) s"
  using assms by (auto simp: derive_next_batch_def not_le split: prod.splits sum.splits if_splits)

section \<open>Consumption is first in, first out\<close>

definition is_deferred :: "cross_chain_execution_entry \<Rightarrow> bool" where
  "is_deferred e \<longleftrightarrow> action_hash e \<noteq> ZERO_HASH"

lemma scan_fifo:
  assumes "h \<noteq> ZERO_HASH"
  shows "filter (\<lambda>e. action_hash e = h) (scan_deferred (scan_entries es s)) =
      filter (\<lambda>e. action_hash e = h) (scan_deferred s) @
      take (available (scan_remaining s) h) (filter (\<lambda>e. action_hash e = h) es) \<and>
    available (scan_remaining (scan_entries es s)) h =
      available (scan_remaining s) h - length (filter (\<lambda>e. action_hash e = h) es)"
proof (induction es arbitrary: s)
  case (Cons e es)
  show ?case
  proof (cases "action_hash e = ZERO_HASH")
    case True
    with assms Cons show ?thesis by (auto split: list.split)
  next
    case False
    then show ?thesis
      using Cons by (cases "scan_remaining s (action_hash e)")
        (auto simp: available_def take_Cons' split: option.splits)
  qed
qed simp

lemma scan_unconsumed_iff:
  "(scan_unconsumed (scan_entries es s) \<longleftrightarrow>
     scan_unconsumed s \<or> length (scan_deferred (scan_entries es s)) < length (scan_deferred s) + length (filter is_deferred es)) \<and>
   length (scan_deferred (scan_entries es s)) \<le> length (scan_deferred s) + length (filter is_deferred es) \<and>
   (\<exists>ds. scan_deferred (scan_entries es s) = scan_deferred s @ ds \<and> subseq ds (filter is_deferred es))"
proof (induction es arbitrary: s)
  case (Cons e es)
  show ?case
  proof (cases "action_hash e = ZERO_HASH")
    case True
    with Cons.IH [of s] Cons.IH [of "s\<lparr>scan_root := new_state (hd (state_deltas e))\<rparr>"]
    show ?thesis by (cases "state_deltas e") (simp_all add: is_deferred_def)
  next
    case False
    show ?thesis
    proof (cases "available (scan_remaining s) (action_hash e) > 0")
      case True
      then obtain n where n: "scan_remaining s (action_hash e) = Some n" "n > 0"
        by (auto simp: available_def split: option.splits)
      show ?thesis
        using False n Cons.IH [of "s\<lparr>scan_remaining := (scan_remaining s)(action_hash e \<mapsto> n - 1),
            scan_deferred := scan_deferred s @ [e]\<rparr>"]
        by (auto simp: is_deferred_def)
    next
      case zero: False
      then have "scan_entries (e # es) s = scan_entries es (s\<lparr>scan_unconsumed := True\<rparr>)"
        using False by (auto simp: available_def split: option.splits)
      then show ?thesis
        using False Cons.IH [of "s\<lparr>scan_unconsumed := True\<rparr>"] by (auto simp: is_deferred_def)
    qed
  qed
qed simp

section \<open>The effective root\<close>

lemma effective_of_chain:
  assumes "chained x es y" and "\<forall>e \<in> set es. \<forall>d \<in> set (state_deltas e). delta_rollup_id d = our"
  shows "effective_state_root our {} x es = y"
  using assms
proof (induction x es y rule: chained.induct)
  case (2 x e es y)
  then obtain d where "state_deltas e = [d]" "current_state d = x" "chained (new_state d) es y"
    by (auto split: list.splits)
  with 2 show ?case by (simp add: effective_state_root_def apply_delta_def)
qed (simp add: effective_state_root_def)

lemma group_result_rollup:
  "e \<in> set (group_result rid root n es) \<Longrightarrow> d \<in> set (state_deltas e) \<Longrightarrow> delta_rollup_id d = rid"
  by (induction es arbitrary: n) auto

lemma groups_result_rollup:
  "length roots = length gs + 1 \<Longrightarrow> e \<in> set (groups_result A rollup roots gs) \<Longrightarrow> d \<in> set (state_deltas e) \<Longrightarrow>
     delta_rollup_id d = RollupId (ucast rollup)"
  by (induction A rollup roots gs rule: groups_result.induct) (auto dest: group_result_rollup simp: length_Suc_conv)

lemma take_groups_result:
  "length roots = length gs + 1 \<Longrightarrow> k \<le> length gs \<Longrightarrow>
     take (length (concat (take k gs))) (groups_result A rollup roots gs) =
     groups_result A rollup (take (Suc k) roots) (take k gs)"
proof (induction A rollup roots gs arbitrary: k rule: groups_result.induct)
  case (1 A rollup x y roots g gs)
  then show ?case by (cases k) simp_all
qed auto

lemma derived_blocks_lemma:
  assumes "derive_next_batch A D node latest p = Inr batch"
  shows "numbers (batch_blocks batch) =
      [Suc (unat (last_derived_l2_block p))..<Suc (unat (cu_derived_l2 (batch_update batch)))] \<and>
    unat (last_derived_l2_block p) \<le> unat (cu_derived_l2 (batch_update batch)) \<and>
    (\<forall>b \<in> set (batch_blocks batch). l2_timestamp_checked (config p) (l2_block_number b) = Some (l2_timestamp b)) \<and>
    sorted_wrt (<) (map meta_l2 (cu_entries (batch_update batch))) \<and>
    (\<forall>e \<in> set (cu_entries (batch_update batch)). unat (meta_l2 e) \<in> set (numbers (batch_blocks batch))) \<and>
    (last_processed_l1_block p < latest \<longrightarrow> cu_processed_l1 (batch_update batch) \<le> latest)"
proof (cases "last_processed_l1_block p < latest")
  case True
  from derive_next_batchE [OF assms True] obtain consumed logs s where
    s: "process_logs A D node p consumed logs (start_state p consumed) = Inr s"
    and batch: "batch = finish_batch (snd (window p latest)) s" by metis
  from process_logs_contiguous [OF start_contiguous s] obtain m where m: "contiguous p s m" ..
  have sub: "set (dedup_by_key l2_block_number (sort_key l2_block_number (st_blocks s))) \<subseteq> set (st_blocks s)"
    using set_dedup_by_key [of l2_block_number "sort_key l2_block_number (st_blocks s)"] by simp
  have nums: "set (numbers (batch_blocks batch)) = set (numbers (st_blocks s))"
    unfolding set_numbers batch finish_batch_def Let_def derived_batch.simps dedup_sorted(2) by simp
  have cur: "set (cu_entries (batch_update batch)) \<subseteq> set (st_cursor s)"
    using set_dedup_by_key [of meta_l2 "sort_key meta_l2 (st_cursor s)"]
    by (simp add: batch finish_batch_def Let_def)
  have "snd (window p latest) \<le> latest" by (simp add: window_def Let_def)
  moreover have "cu_processed_l1 (batch_update batch) = snd (window p latest)"
    by (simp add: batch finish_batch_def Let_def)
  moreover have "sorted_wrt (<) (map meta_l2 (cu_entries (batch_update batch)))"
    using dedup_sorted(1) [of meta_l2 "st_cursor s"] by (simp add: batch finish_batch_def Let_def)
  moreover have "\<forall>b \<in> set (batch_blocks batch). l2_timestamp_checked (config p) (l2_block_number b) = Some (l2_timestamp b)"
    using m sub by (auto simp: batch finish_batch_def Let_def contiguous_def)
  moreover have "\<forall>e \<in> set (cu_entries (batch_update batch)). unat (meta_l2 e) \<in> set (numbers (batch_blocks batch))"
    using m cur unfolding nums by (auto simp: contiguous_def)
  ultimately show ?thesis
    using finish_batch_contiguous [OF m, of "snd (window p latest)"] unfolding batch by metis
qed (use assms in \<open>auto simp: derive_next_batch_def not_less simp del: upt_Suc\<close>)

section \<open>Properties\<close>

text \<open>
  C2: a derived batch has no hole and no duplicate. Its block numbers are exactly the ones
  after the last derived block up to the new one, in order, whatever was posted (stale,
  out-of-order, duplicate or gapped blocks); every block, gap-fills included, carries the
  timestamp of its number; the new cursor entries are strictly increasing and belong to blocks
  of the batch; and the window never passes the latest L1 block.
\<close>

theorem derived_blocks_contiguous:
  assumes "derive_next_batch A D node latest p = Inr batch"
  shows "numbers (batch_blocks batch) =
      [Suc (unat (last_derived_l2_block p))..<Suc (unat (cu_derived_l2 (batch_update batch)))] \<and>
    unat (last_derived_l2_block p) \<le> unat (cu_derived_l2 (batch_update batch)) \<and>
    (\<forall>b \<in> set (batch_blocks batch). l2_timestamp_checked (config p) (l2_block_number b) = Some (l2_timestamp b)) \<and>
    sorted_wrt (<) (map meta_l2 (cu_entries (batch_update batch))) \<and>
    (\<forall>e \<in> set (cu_entries (batch_update batch)). unat (meta_l2 e) \<in> set (numbers (batch_blocks batch))) \<and>
    (last_processed_l1_block p < latest \<longrightarrow> cu_processed_l1 (batch_update batch) \<le> latest)"
  using assms by (rule derived_blocks_lemma)

definition toy_config :: rollup_config where
  "toy_config = \<lparr>rollups_address = 0, deployment_l1_block = 0, deployment_timestamp = 0, block_time = 1, cfg_rollup_id = 1\<rparr>"

text \<open>
  A small L1: block data is a list of bytes, one per L2 block number, and every log's
  transaction hash is its block number.
\<close>

definition toy_decoders :: decoders where
  "toy_decoders = \<lparr>dec_consumed = (\<lambda>_. None), dec_post_batch = (\<lambda>bs. Some ([], bs)),
     dec_block_data = (\<lambda>bs. Some (map ucast bs, map (\<lambda>b. [b]) bs)), dec_tx_inputs = (\<lambda>_. None),
     dec_load_table = (\<lambda>_. None), values_order = id\<rparr>"

definition toy_node :: "(u64 \<times> bytes) list \<Rightarrow> l1_node" where
  "toy_node posts = \<lparr>get_batch_logs = (\<lambda>a b. Inr (map (\<lambda>(n, _). \<lparr>pl_block_number = Some n, pl_transaction_hash = Some (ucast n)\<rparr>)
        (filter (\<lambda>(n, _). a \<le> n \<and> n \<le> b) posts))),
     get_consumed_logs = (\<lambda>_ _. Inr []),
     get_tx_input = (\<lambda>h. Inr (map_of (map (\<lambda>(n, bs). (ucast n, bs)) posts) h)),
     get_header = (\<lambda>n. Inr (Some \<lparr>hdr_hash = ucast n, hdr_parent_hash = ucast (n - 1)\<rparr>))\<rparr>"

lemmas toy_simps = derive_next_batch_def window_def fetch_consumed_def process_log_def process_batch_def
  push_block_def batch_block_def start_state_def finish_batch_def toy_config_def toy_decoders_def toy_node_def
  new_pipeline_def decode_post_batch_calldata_def decode_block_calldata_def fits_u64_def saturating_add_def
  saturating_sub_def MAX_LOG_RANGE_def MAX_BLOCK_GAP_def l2_timestamp_checked_def checked_add_def checked_mul_def
  batch_has_revert_def l1_has_revert_def tx_bytes_revert_def revert_action_hashes_def effective_state_root_def
  l2_entries_def gap_block_def u64_range_def upt_conv_Cons Let_def

lemma toy_derive: "\<exists>batch. derive_next_batch toy_abi toy_decoders (toy_node [(10, [2])]) 15 (new_pipeline toy_config) = Inr batch \<and>
    numbers (batch_blocks batch) = [1, 2]"
  by (simp add: toy_simps numbers_def)

theorem derived_blocks_contiguous_witness:
  "\<exists>batch. derive_next_batch toy_abi toy_decoders (toy_node [(10, [2])]) 15 (new_pipeline toy_config) = Inr batch \<and>
    numbers (batch_blocks batch) = [Suc 0..<Suc (unat (cu_derived_l2 (batch_update batch)))]"
proof -
  obtain batch where b: "derive_next_batch toy_abi toy_decoders (toy_node [(10, [2])]) 15 (new_pipeline toy_config) = Inr batch"
    using toy_derive by blast
  from derived_blocks_contiguous [OF b] b show ?thesis
    by (auto simp: new_pipeline_def simp del: upt_Suc)
qed

text \<open>The blocks that one batch adds: its own, by their position, and the empty ones of the gaps.\<close>

lemma push_block_new:
  assumes "push_block p B i n txs s = Inr s'"
  shows "\<exists>bs. st_blocks s' = st_blocks s @ bs \<and> st_remaining s' = st_remaining s \<and>
    (\<forall>b \<in> set bs. filtering b = None \<and> execution_entries b = [] \<or> b = batch_block B i n (l2_timestamp b) txs) \<and>
    (last_derived_l2_block p < n \<and> l2_timestamp_checked (config p) n \<noteq> None \<longrightarrow>
      (\<exists>b \<in> set bs. b = batch_block B i n (l2_timestamp b) txs))"
proof -
  have gap: "filtering b = None \<and> execution_entries b = []" if "b \<in> set (gap_blocks c info ns)" for b c info ns
    using that by (induction ns) (auto split: option.splits simp: gap_block_def)
  have ts: "l2_timestamp (batch_block B i n ts txs) = ts" for ts by (simp add: batch_block_def Let_def)
  show ?thesis
  proof (cases "n \<le> last_derived_l2_block p \<and> n \<le> st_derived s \<or> l2_timestamp_checked (config p) n = None")
    case True
    with assms have "s' = s" by (auto simp: push_block_def split: option.splits)
    with True show ?thesis by (intro exI [of _ "[]"]) auto
  next
    case False
    then obtain t where t: "l2_timestamp_checked (config p) n = Some t" by auto
    obtain info where "st_blocks s' = st_blocks s @ (if n > saturating_add (st_derived s) 1
        then gap_blocks (config p) info (u64_range (saturating_add (st_derived s) 1) n) else []) @ [batch_block B i n t txs]"
      and "st_remaining s' = st_remaining s"
      using assms False t by (auto simp: push_block_def Let_def split: if_splits)
    then show ?thesis using gap
      by (intro exI [of _ "(if n > saturating_add (st_derived s) 1
        then gap_blocks (config p) info (u64_range (saturating_add (st_derived s) 1) n) else []) @ [batch_block B i n t txs]"])
        (auto simp: ts)
  qed
qed

lemma push_blocks_new:
  assumes "push_blocks p B i bs s = Inr s'"
  shows "\<exists>new. st_blocks s' = st_blocks s @ new \<and> st_remaining s' = st_remaining s \<and>
    (\<forall>b \<in> set new. filtering b = None \<and> execution_entries b = [] \<or>
      (\<exists>j < length bs. b = batch_block B (i + j) (fst (bs ! j)) (l2_timestamp b) (snd (bs ! j)))) \<and>
    (\<forall>j < length bs. last_derived_l2_block p < fst (bs ! j) \<and> l2_timestamp_checked (config p) (fst (bs ! j)) \<noteq> None \<longrightarrow>
      (\<exists>b \<in> set new. b = batch_block B (i + j) (fst (bs ! j)) (l2_timestamp b) (snd (bs ! j))))"
  using assms
proof (induction bs arbitrary: i s)
  case (Cons nt bs)
  obtain n txs where nt: "nt = (n, txs)" by fastforce
  from Cons.prems obtain t where t: "push_block p B i n txs s = Inr t" "push_blocks p B (Suc i) bs t = Inr s'"
    by (auto simp: nt split: sum.splits)
  from push_block_new [OF t(1)] obtain one where one: "st_blocks t = st_blocks s @ one" "st_remaining t = st_remaining s"
    "\<forall>b \<in> set one. filtering b = None \<and> execution_entries b = [] \<or> b = batch_block B i n (l2_timestamp b) txs"
    "last_derived_l2_block p < n \<and> l2_timestamp_checked (config p) n \<noteq> None \<longrightarrow>
      (\<exists>b \<in> set one. b = batch_block B i n (l2_timestamp b) txs)" by blast
  from Cons.IH [OF t(2)] obtain new where new: "st_blocks s' = st_blocks t @ new" "st_remaining s' = st_remaining t"
    "\<forall>b \<in> set new. filtering b = None \<and> execution_entries b = [] \<or>
      (\<exists>j < length bs. b = batch_block B (Suc i + j) (fst (bs ! j)) (l2_timestamp b) (snd (bs ! j)))"
    "\<forall>j < length bs. last_derived_l2_block p < fst (bs ! j) \<and> l2_timestamp_checked (config p) (fst (bs ! j)) \<noteq> None \<longrightarrow>
      (\<exists>b \<in> set new. b = batch_block B (Suc i + j) (fst (bs ! j)) (l2_timestamp b) (snd (bs ! j)))" by blast
  have sound: "filtering b = None \<and> execution_entries b = [] \<or>
      (\<exists>j < length (nt # bs). b = batch_block B (i + j) (fst ((nt # bs) ! j)) (l2_timestamp b) (snd ((nt # bs) ! j)))"
    if "b \<in> set (one @ new)" for b
  proof (cases "b \<in> set one")
    case True
    then show ?thesis using one(3) nt by fastforce
  next
    case False
    with that new(3) consider "filtering b = None \<and> execution_entries b = []"
      | j where "j < length bs" "b = batch_block B (Suc i + j) (fst (bs ! j)) (l2_timestamp b) (snd (bs ! j))" by auto
    then show ?thesis
    proof cases
      case 2
      then show ?thesis by (intro disjI2 exI [of _ "Suc j"]) simp
    qed simp
  qed
  have complete: "\<exists>b \<in> set (one @ new). b = batch_block B (i + j) (fst ((nt # bs) ! j)) (l2_timestamp b) (snd ((nt # bs) ! j))"
    if "j < length (nt # bs)" "last_derived_l2_block p < fst ((nt # bs) ! j)"
      "l2_timestamp_checked (config p) (fst ((nt # bs) ! j)) \<noteq> None" for j
    using that one(4) new(4) nt by (cases j) auto
  show ?case using one(1,2) new(1,2) sound complete by (intro exI [of _ "one @ new"]) simp
qed auto

text \<open>The scan as \<open>process_batch\<close> starts it.\<close>

lemma fresh_scan:
  fixes es :: "cross_chain_execution_entry list" and rem :: remaining_map
  defines "scan \<equiv> scan_entries es \<lparr>scan_root = 0, scan_deferred = [], scan_unconsumed = False, scan_remaining = rem\<rparr>"
  shows "scan_unconsumed scan \<longleftrightarrow> scan_deferred scan \<noteq> filter is_deferred es"
    and "subseq (scan_deferred scan) (filter is_deferred es)"
    and "h \<noteq> ZERO_HASH \<Longrightarrow> filter (\<lambda>e. action_hash e = h) (scan_deferred scan) =
        take (available rem h) (filter (\<lambda>e. action_hash e = h) es) \<and>
      available (scan_remaining scan) h = available rem h - length (filter (\<lambda>e. action_hash e = h) es)"
  using scan_unconsumed_iff [of es "\<lparr>scan_root = 0, scan_deferred = [], scan_unconsumed = False, scan_remaining = rem\<rparr>"]
    scan_fifo [of h es "\<lparr>scan_root = 0, scan_deferred = [], scan_unconsumed = False, scan_remaining = rem\<rparr>"]
  by (auto simp: scan_def dest: subseq_same_length)

text \<open>
  The \<open>i\<close>-th block of a batch as it must come out: \<open>ds\<close> are the executed entries of \<open>es\<close> and
  \<open>rem\<close> the consumption counts from before the batch.
\<close>

definition own_block :: "abi \<Rightarrow> decoders \<Rightarrow> consumed_map \<Rightarrow> remaining_map \<Rightarrow> cross_chain_execution_entry list
    \<Rightarrow> cross_chain_execution_entry list \<Rightarrow> u64 list \<Rightarrow> bytes list \<Rightarrow> nat \<Rightarrow> derived_block \<Rightarrow> bool" where
  "own_block A D consumed rem es ds ns txs i b \<longleftrightarrow>
     i < length ns \<and> i < length txs \<and> l2_block_number b = ns ! i \<and> db_transactions b = txs ! i \<and>
     (filtering b \<noteq> None \<longleftrightarrow>
        (i = 0 \<or> i = length ns - 1) \<and> ds \<noteq> filter is_deferred es \<and> \<not> batch_has_revert D es txs) \<and>
     (\<forall>f. filtering b = Some f \<longrightarrow> l1_consumed_remaining f = rem \<and> all_l2_entries f = execution_entries b) \<and>
     execution_entries b = (if i = 0 \<or> i = length ns - 1
       then l2_entries A (batch_has_revert D es txs) ds (concat (map snd (values_order D consumed))) else [])"


lemma case_sum_returns: "(\<And>e. x \<noteq> Inl e) \<Longrightarrow> \<exists>z. (case x of Inl e \<Rightarrow> Inl e | Inr y \<Rightarrow> Inr (f y)) = Inr z"
  by (cases x) (blast, simp)

lemma toy_batch_one: "\<exists>s'. process_batch A D (toy_node []) (new_pipeline toy_config) m 10 es [1] [x]
    ((start_state (new_pipeline toy_config) [])\<lparr>st_remaining := rem\<rparr>) = Inr s'"
proof -
  have "\<exists>s'. push_block p B 0 1 x s = Inr s'" if "st_derived s = 0" for p B s
    using that by (auto simp: push_block_def saturating_add_def Let_def split: option.split)
  then have "\<exists>s'. push_blocks p B 0 [(1, x)] s = Inr s'" if "st_derived s = 0" for p B s
    using that by (metis push_blocks.simps sum.simps(6))
  then have ok: "push_blocks p B 0 [(1, x)] s \<noteq> Inl e" if "st_derived s = 0" for p B s e
    using that by (metis sum.distinct(1))
  let ?s = "(start_state (new_pipeline toy_config) [])\<lparr>st_remaining := rem\<rparr>"
  have "st_derived (?s\<lparr>st_remaining := r\<rparr>) = 0" for r by (simp add: start_state_def new_pipeline_def)
  note ok = ok [OF this]
  have hdr: "get_header (toy_node []) 10 = Inr (Some \<lparr>hdr_hash = 10, hdr_parent_hash = 9\<rparr>)" by (simp add: toy_node_def)
  have zip: "zip [1] [x] = [(1 :: u64, x)]" by simp
  show ?thesis
    unfolding process_batch_def Let_def hdr zip sum.case option.case
    by (rule case_sum_returns) (rule ok)
qed


lemma effective_root_of_groups:
  assumes "attach_generic_state_deltas A (concat gs) roots rollup (starts_of 0 gs) = Inr es"
    and "\<forall>g \<in> set gs. g \<noteq> []" and "length roots = length gs + 1" and "k \<le> length gs"
  shows "effective_state_root (RollupId (ucast rollup)) {} (hd roots) (take (length (concat (take k gs))) es) = roots ! k"
proof -
  have es: "es = groups_result A rollup roots gs"
    using attach_groups_result [OF assms(3), of A rollup "[]"] assms(1)
    by (simp add: attach_generic_state_deltas_def)
  let ?roots = "take (Suc k) roots"
  have len: "length ?roots = length (take k gs) + 1" using assms(3,4) by simp
  have "chained (hd ?roots) (groups_result A rollup ?roots (take k gs)) (last ?roots)"
    by (rule chained_groups_result [OF len]) (use assms(2) in \<open>auto dest: in_set_takeD\<close>)
  moreover have "hd ?roots = hd roots" using assms(3) by (cases roots) simp_all
  moreover have "last ?roots = roots ! k" using assms(3,4) by (simp add: take_Suc_conv_app_nth)
  ultimately show ?thesis
    unfolding es take_groups_result [OF assms(3,4)]
    using effective_of_chain groups_result_rollup [OF len] by metis
qed

text \<open>
  The builder's chain and the fullnode's walk agree. When the deltas of all trigger groups
  were attached from one root per boundary and L1 consumed the entries of exactly the first k
  groups, the effective state root that derivation computes from the batch's clean root is the
  k-th boundary root.
\<close>

theorem effective_root_of_consumed_groups:
  assumes "attach_generic_state_deltas A (concat gs) roots rollup (starts_of 0 gs) = Inr es"
    and "\<forall>g \<in> set gs. g \<noteq> []" and "length roots = length gs + 1" and "k \<le> length gs"
  shows "effective_state_root (RollupId (ucast rollup)) {} (hd roots) (take (length (concat (take k gs))) es) = roots ! k"
  by (rule effective_root_of_groups [OF assms])

theorem effective_root_of_consumed_groups_witness:
  "effective_state_root (RollupId (ucast (1 :: u64))) {} (hd [10, 20, 30])
     (take (length (concat (take 1 [[sample_entry, sample_entry], [sample_entry]])))
       (groups_result toy_abi 1 [10, 20, 30] [[sample_entry, sample_entry], [sample_entry]])) = [10, 20, 30] ! 1"
  by (rule effective_root_of_consumed_groups [of toy_abi])
    (use attach_groups_result [of "[10, 20, 30]" "[[sample_entry, sample_entry], [sample_entry]]" toy_abi 1 "[]"]
     in \<open>simp_all add: attach_generic_state_deltas_def\<close>)

end
