(* ===== verification/Protocol_Txs.thy ===== *)
theory Protocol_Txs
  imports Fork_Choice Derivation
begin

text \<open>
  The builder's transactions of a block (\<open>cross_chain.rs\<close>, \<open>build_*_tx\<close>, and
  \<open>build_builder_protocol_txs\<close> of \<open>driver/protocol_txs.rs\<close>): bootstrap, L2 context,
  execution table, triggers, then the drain of the transaction pool. Signing, the ABI encoders,
  the compiled bytecodes, the RLP list encoder and the pool are parameters. The builder's nonce
  is threaded as state, also through failures, and additions on it and on gas wrap as in a
  release build.
\<close>

section \<open>Transactions\<close>

record legacy_tx =
  tx_chain_id :: u64
  tx_nonce :: u64
  tx_gas_price :: u128
  tx_gas_limit :: u64
  tx_to :: "address option"
  tx_value :: u256
  tx_input :: bytes

datatype 'p block_tx = Protocol legacy_tx bytes | Pooled 'p

record bootstrap_account =
  ba_address :: address
  ba_amount_wei :: u128

record builder_config = rollup_config +
  builder_address :: address
  l2_context_address :: address
  cross_chain_manager_address :: address
  bridge_l1_address :: address
  bridge_l2_address :: address
  bootstrap_accounts :: "bootstrap_account list"

record tx_encoders =
  enc_set_context :: "u256 \<Rightarrow> b256 \<Rightarrow> bytes"
  enc_load_table :: "sol_execution_entry list \<Rightarrow> bytes"
  enc_execute_incoming :: "address \<Rightarrow> u256 \<Rightarrow> bytes \<Rightarrow> address \<Rightarrow> u256 \<Rightarrow> u256 list \<Rightarrow> bytes"
  enc_initialize :: "address \<Rightarrow> u256 \<Rightarrow> address \<Rightarrow> bytes"
  enc_set_canonical :: "address \<Rightarrow> bytes"
  enc_context_args :: "address \<Rightarrow> bytes"
  enc_ccm_args :: "u256 \<Rightarrow> address \<Rightarrow> bytes"
  l2context_creation_bytecode :: bytes
  ccm_creation_bytecode :: bytes
  bridge_creation_bytecode :: bytes

text \<open>What all transactions of one block share: the chain id and the gas price.\<close>

record fees =
  chain_id :: u64
  gas_price :: u128

definition DEPLOY_GAS_LIMIT :: u64 where
  "DEPLOY_GAS_LIMIT = 5000000"

definition SET_CONTEXT_GAS_LIMIT :: u64 where
  "SET_CONTEXT_GAS_LIMIT = 250000"

definition LOAD_TABLE_GAS_LIMIT :: u64 where
  "LOAD_TABLE_GAS_LIMIT = 3000000"

definition EXECUTE_INCOMING_GAS_LIMIT :: u64 where
  "EXECUTE_INCOMING_GAS_LIMIT = 2000000"

definition legacy :: "fees \<Rightarrow> address option \<Rightarrow> bytes \<Rightarrow> u64 \<Rightarrow> u64 \<Rightarrow> u128 \<Rightarrow> legacy_tx" where
  "legacy F to data nonce gas_limit val =
     \<lparr>tx_chain_id = chain_id F, tx_nonce = nonce, tx_gas_price = gas_price F, tx_gas_limit = gas_limit,
      tx_to = to, tx_value = ucast val, tx_input = data\<rparr>"

definition build_signed_legacy_tx :: "(legacy_tx \<Rightarrow> bytes option) \<Rightarrow> legacy_tx \<Rightarrow> 'p block_tx option" where
  "build_signed_legacy_tx sign t = map_option (Protocol t) (sign t)"

definition encode_set_context_calldata :: "tx_encoders \<Rightarrow> l1_block_info \<Rightarrow> bytes" where
  "encode_set_context_calldata X info = enc_set_context X (ucast (info_number info)) (info_hash info)"

definition encode_load_execution_table_calldata :: "tx_encoders \<Rightarrow> cross_chain_execution_entry list \<Rightarrow> bytes" where
  "encode_load_execution_table_calldata X entries = enc_load_table X (map entry_to_sol entries)"

definition encode_execute_incoming_call_calldata :: "tx_encoders \<Rightarrow> cross_chain_action \<Rightarrow> bytes" where
  "encode_execute_incoming_call_calldata X a =
     enc_execute_incoming X (destination a) (call_value a) (call_data a) (source_address a)
       (as_u256 (source_rollup a)) (as_slice (scope a))"

definition set_context_tx :: "tx_encoders \<Rightarrow> fees \<Rightarrow> address \<Rightarrow> l1_block_info \<Rightarrow> u64 \<Rightarrow> legacy_tx" where
  "set_context_tx X F l2_context info nonce =
     legacy F (Some l2_context) (encode_set_context_calldata X info) nonce SET_CONTEXT_GAS_LIMIT 0"

definition load_table_tx :: "tx_encoders \<Rightarrow> fees \<Rightarrow> address \<Rightarrow> cross_chain_execution_entry list \<Rightarrow> u64 \<Rightarrow> legacy_tx" where
  "load_table_tx X F ccm entries nonce =
     legacy F (Some ccm) (encode_load_execution_table_calldata X entries) nonce LOAD_TABLE_GAS_LIMIT 0"

definition execute_incoming_tx :: "tx_encoders \<Rightarrow> fees \<Rightarrow> address \<Rightarrow> cross_chain_action \<Rightarrow> u64 \<Rightarrow> legacy_tx" where
  "execute_incoming_tx X F ccm a nonce =
     legacy F (Some ccm) (encode_execute_incoming_call_calldata X a) nonce EXECUTE_INCOMING_GAS_LIMIT 0"

definition deploy_l2context_tx :: "tx_encoders \<Rightarrow> fees \<Rightarrow> address \<Rightarrow> legacy_tx" where
  "deploy_l2context_tx X F authorized_caller =
     legacy F None (l2context_creation_bytecode X @ enc_context_args X authorized_caller) 0 DEPLOY_GAS_LIMIT 0"

definition deploy_ccm_tx :: "tx_encoders \<Rightarrow> fees \<Rightarrow> u64 \<Rightarrow> address \<Rightarrow> legacy_tx" where
  "deploy_ccm_tx X F rollup system_address =
     legacy F None (ccm_creation_bytecode X @ enc_ccm_args X (ucast rollup) system_address) 1 DEPLOY_GAS_LIMIT 0"

definition deploy_bridge_tx :: "tx_encoders \<Rightarrow> fees \<Rightarrow> legacy_tx" where
  "deploy_bridge_tx X F = legacy F None (bridge_creation_bytecode X) 2 DEPLOY_GAS_LIMIT 0"

definition initialize_bridge_tx :: "tx_encoders \<Rightarrow> fees \<Rightarrow> address \<Rightarrow> u64 \<Rightarrow> address \<Rightarrow> address \<Rightarrow> legacy_tx" where
  "initialize_bridge_tx X F ccm rollup admin bridge =
     legacy F (Some bridge) (enc_initialize X ccm (ucast rollup) admin) 3 SET_CONTEXT_GAS_LIMIT 0"

definition set_canonical_bridge_tx :: "tx_encoders \<Rightarrow> fees \<Rightarrow> address \<Rightarrow> address \<Rightarrow> u64 \<Rightarrow> legacy_tx" where
  "set_canonical_bridge_tx X F bridge_l2 canonical nonce =
     legacy F (Some bridge_l2) (enc_set_canonical X canonical) nonce SET_CONTEXT_GAS_LIMIT 0"

definition bootstrap_transfer_tx :: "fees \<Rightarrow> bootstrap_account \<Rightarrow> u64 \<Rightarrow> legacy_tx" where
  "bootstrap_transfer_tx F a nonce = legacy F (Some (ba_address a)) [] nonce 21000 (ba_amount_wei a)"

section \<open>The protocol stages\<close>

datatype build_error =
    No_Proposer
  | No_Parent_Header
  | Signing_Failed
  | Build_Panicked panic

text \<open>\<open>?\<close> on a result that also carries the builder's nonce.\<close>

definition and_then :: "('e + 'a) \<times> u64 \<Rightarrow> ('a \<Rightarrow> u64 \<Rightarrow> ('e + 'b) \<times> u64) \<Rightarrow> ('e + 'b) \<times> u64" where
  "and_then r k = (case r of (Inl e, n) \<Rightarrow> (Inl e, n) | (Inr x, n) \<Rightarrow> k x n)"

text \<open>Signing transactions one after the other, each with the next nonce.\<close>

fun sign_seq :: "(legacy_tx \<Rightarrow> bytes option) \<Rightarrow> (u64 \<Rightarrow> legacy_tx) list \<Rightarrow> u64
    \<Rightarrow> (build_error + 'p block_tx list) \<times> u64" where
  "sign_seq sign [] n = (Inr [], n)"
| "sign_seq sign (mk # mks) n =
     (case build_signed_legacy_tx sign (mk n) of
        None \<Rightarrow> (Inl Signing_Failed, n)
      | Some t \<Rightarrow> and_then (sign_seq sign mks (n + 1)) (\<lambda>ts n'. (Inr (t # ts), n')))"

definition deploy_txs :: "tx_encoders \<Rightarrow> builder_config \<Rightarrow> fees \<Rightarrow> legacy_tx list" where
  "deploy_txs X c F =
     deploy_l2context_tx X F (builder_address c) #
     (if rollups_address c = 0 then []
      else [deploy_ccm_tx X F (cfg_rollup_id c) (builder_address c), deploy_bridge_tx X F,
            initialize_bridge_tx X F (cross_chain_manager_address c) (cfg_rollup_id c) (builder_address c)
              (bridge_l2_address c)])"

definition block_one_txs :: "tx_encoders \<Rightarrow> (legacy_tx \<Rightarrow> bytes option) \<Rightarrow> builder_config \<Rightarrow> fees \<Rightarrow> u64
    \<Rightarrow> (build_error + 'p block_tx list) \<times> u64" where
  "block_one_txs X sign c F n =
     (case those (map (build_signed_legacy_tx sign) (deploy_txs X c F)) of
        None \<Rightarrow> (Inl Signing_Failed, n)
      | Some ts \<Rightarrow>
          and_then (sign_seq sign (map (bootstrap_transfer_tx F) (bootstrap_accounts c))
              (if rollups_address c = 0 then 1 else 4))
            (\<lambda>ts' n'. (Inr (ts @ ts'), n')))"

definition bootstrap_txs :: "tx_encoders \<Rightarrow> (legacy_tx \<Rightarrow> bytes option) \<Rightarrow> builder_config \<Rightarrow> fees \<Rightarrow> u64 \<Rightarrow> u64
    \<Rightarrow> (build_error + 'p block_tx list) \<times> u64" where
  "bootstrap_txs X sign c F l2_block n =
     and_then (if l2_block = 1 then block_one_txs X sign c F n else (Inr [], n))
       (\<lambda>ts n1.
          if l2_block = 2 \<and> bridge_l1_address c \<noteq> 0 \<and> bridge_l2_address c \<noteq> 0
          then and_then (sign_seq sign [set_canonical_bridge_tx X F (bridge_l2_address c) (bridge_l1_address c)] n1)
                 (\<lambda>ts' n2. (Inr (ts @ ts'), n2))
          else (Inr ts, n1))"

definition context_txs :: "tx_encoders \<Rightarrow> builder_config \<Rightarrow> fees \<Rightarrow> l1_block_info \<Rightarrow> (u64 \<Rightarrow> legacy_tx) list" where
  "context_txs X c F info =
     (if l2_context_address c \<noteq> 0 then [set_context_tx X F (l2_context_address c) info] else [])"

definition is_revert_entry :: "cross_chain_execution_entry \<Rightarrow> bool" where
  "is_revert_entry e \<longleftrightarrow> action_type (next_action e) = Revert"

text \<open>REVERT patterns get a trigger scope one deeper than the deepest REVERT.\<close>

definition override_scopes :: "cross_chain_execution_entry list \<Rightarrow> cross_chain_execution_entry list
    \<Rightarrow> cross_chain_execution_entry list" where
  "override_scopes table triggers =
     (if \<exists>e \<in> set table. is_revert_entry e then
        let depth = foldr max (map (\<lambda>e. length (as_slice (scope (next_action e)))) (filter is_revert_entry table)) 0;
            trigger_scope = from_parts (replicate (depth + 1) 0)
        in map (\<lambda>t. t\<lparr>next_action := (next_action t)\<lparr>scope := trigger_scope\<rparr>\<rparr>) triggers
      else triggers)"

definition split_entries :: "abi \<Rightarrow> builder_config \<Rightarrow> cross_chain_execution_entry list
    \<Rightarrow> cross_chain_execution_entry list \<times> cross_chain_execution_entry list" where
  "split_entries A c entries =
     (if entries \<noteq> [] \<and> cross_chain_manager_address c \<noteq> 0 then
        case partition_entries A entries (RollupId (ucast (cfg_rollup_id c))) of
          (table, triggers) \<Rightarrow> (table, override_scopes table triggers)
      else ([], []))"

definition table_txs :: "tx_encoders \<Rightarrow> builder_config \<Rightarrow> fees \<Rightarrow> cross_chain_execution_entry list \<Rightarrow> (u64 \<Rightarrow> legacy_tx) list" where
  "table_txs X c F table =
     (if table \<noteq> [] then [load_table_tx X F (cross_chain_manager_address c) table] else [])"

definition trigger_txs :: "tx_encoders \<Rightarrow> builder_config \<Rightarrow> fees \<Rightarrow> nat \<Rightarrow> cross_chain_execution_entry list
    \<Rightarrow> (u64 \<Rightarrow> legacy_tx) list" where
  "trigger_txs X c F max_trigger_count triggers =
     map (\<lambda>t. execute_incoming_tx X F (cross_chain_manager_address c) (next_action t))
       (take (min (length triggers) max_trigger_count) triggers)"

text \<open>\<open>ProtocolTxPlan\<close>: bootstrap, context, table, triggers.\<close>

definition protocol_txs :: "tx_encoders \<Rightarrow> abi \<Rightarrow> (legacy_tx \<Rightarrow> bytes option) \<Rightarrow> builder_config \<Rightarrow> fees \<Rightarrow> u64
    \<Rightarrow> l1_block_info \<Rightarrow> cross_chain_execution_entry list \<Rightarrow> nat \<Rightarrow> u64 \<Rightarrow> (build_error + 'p block_tx list) \<times> u64" where
  "protocol_txs X A sign c F l2_block info entries max_trigger_count n =
     and_then (bootstrap_txs X sign c F l2_block n) (\<lambda>boot n1.
     and_then (sign_seq sign (context_txs X c F info) n1) (\<lambda>ctx n2.
       (case split_entries A c entries of (table, triggers) \<Rightarrow>
     and_then (sign_seq sign (table_txs X c F table) n2) (\<lambda>tab n3.
     and_then (sign_seq sign (trigger_txs X c F max_trigger_count triggers) n3) (\<lambda>trig n4.
       (Inr (boot @ ctx @ tab @ trig), n4))))))"

section \<open>The transaction pool\<close>

text \<open>
  The pool's iterator is the list of what it still yields; \<open>mark_invalid\<close> makes it skip the
  transactions that depend on the marked one: \<open>dependent\<close>, a parameter.
\<close>

record 'p pool_tx =
  pt_sender :: address
  pt_nonce :: u64
  pt_gas_limit :: u64
  pt_consensus :: 'p

definition estimate_builder_tx_gas :: "'p block_tx list \<Rightarrow> u64" where
  "estimate_builder_tx_gas txs = sum_list (map (\<lambda>t. case t of Protocol l _ \<Rightarrow> tx_gas_limit l | Pooled _ \<Rightarrow> 0) txs)"

definition mark_invalid :: "('p pool_tx \<Rightarrow> 'p pool_tx \<Rightarrow> bool) \<Rightarrow> 'p pool_tx \<Rightarrow> 'p pool_tx list \<Rightarrow> 'p pool_tx list" where
  "mark_invalid dependent p ps = filter (\<lambda>q. \<not> dependent p q) ps"

text \<open>The nonce check against the canonical state, when it can be read, and the expected nonces after it.\<close>

definition check_nonce :: "(address \<Rightarrow> u64) option \<Rightarrow> (address \<rightharpoonup> u64) \<Rightarrow> 'p pool_tx \<Rightarrow> bool \<times> (address \<rightharpoonup> u64)" where
  "check_nonce account_nonce expected p =
     (case account_nonce of
        None \<Rightarrow> (True, expected)
      | Some state \<Rightarrow>
          let e = (case expected (pt_sender p) of None \<Rightarrow> state (pt_sender p) | Some e \<Rightarrow> e)
          in if pt_nonce p \<noteq> e then (False, expected(pt_sender p \<mapsto> e))
             else (True, expected(pt_sender p \<mapsto> pt_nonce p + 1)))"

function drain_pool :: "('p pool_tx \<Rightarrow> 'p pool_tx \<Rightarrow> bool) \<Rightarrow> address \<Rightarrow> (address \<Rightarrow> u64) option \<Rightarrow> u64
    \<Rightarrow> (address \<rightharpoonup> u64) \<Rightarrow> u64 \<Rightarrow> 'p pool_tx list \<Rightarrow> 'p pool_tx list" where
  "drain_pool dependent builder account_nonce block_gas_limit expected gas [] = []"
| "drain_pool dependent builder account_nonce block_gas_limit expected gas (p # ps) =
     (if pt_sender p = builder then drain_pool dependent builder account_nonce block_gas_limit expected gas ps
      else
        let (ok, expected') = check_nonce account_nonce expected p in
        if \<not> ok then drain_pool dependent builder account_nonce block_gas_limit expected' gas (mark_invalid dependent p ps)
        else if gas + pt_gas_limit p > block_gas_limit
        then drain_pool dependent builder account_nonce block_gas_limit expected' gas (mark_invalid dependent p ps)
        else p # drain_pool dependent builder account_nonce block_gas_limit expected' (gas + pt_gas_limit p) ps)"
  by pat_completeness auto
termination
  by (relation "measure (\<lambda>(_, _, _, _, _, _, ps). length ps)")
    (auto simp: mark_invalid_def less_Suc_eq_le)

section \<open>The whole block\<close>

record parent_info =
  next_block_base_fee :: "u64 option"
  parent_gas_limit :: u64

definition DESIRED_GAS_LIMIT :: u64 where
  "DESIRED_GAS_LIMIT = 60000000"

definition fees_of :: "u64 \<Rightarrow> parent_info \<Rightarrow> fees" where
  "fees_of chain parent =
     \<lparr>chain_id = chain, gas_price = ucast (max (case next_block_base_fee parent of None \<Rightarrow> 1 | Some f \<Rightarrow> f) 1)\<rparr>"

text \<open>
  \<open>signer\<close>: the proposer's signer, if there is one. \<open>pool\<close>: what the pool yields for a base
  fee. \<open>encode_list\<close>: \<open>encode_block_transactions\<close>, the RLP list.
\<close>

record 'p block_env =
  be_encoders :: tx_encoders
  be_abi :: abi
  be_signer :: "(legacy_tx \<Rightarrow> bytes option) option"
  be_chain_id :: u64
  be_header :: "u64 \<Rightarrow> parent_info option"
  be_pool :: "u64 \<Rightarrow> 'p pool_tx list"
  be_dependent :: "'p pool_tx \<Rightarrow> 'p pool_tx \<Rightarrow> bool"
  be_account_nonce :: "(address \<Rightarrow> u64) option"
  be_encode_list :: "'p block_tx list \<Rightarrow> bytes"

definition build_builder_protocol_txs :: "'p block_env \<Rightarrow> builder_config \<Rightarrow> u64 \<Rightarrow> l1_block_info
    \<Rightarrow> cross_chain_execution_entry list \<Rightarrow> nat \<Rightarrow> u64 \<Rightarrow> (build_error + bytes) \<times> u64" where
  "build_builder_protocol_txs V c l2_block info entries max_trigger_count n =
     (case be_signer V of
        None \<Rightarrow> (Inl No_Proposer, n)
      | Some sign \<Rightarrow>
          (case be_header V (saturating_sub l2_block 1) of
             None \<Rightarrow> (Inl No_Parent_Header, n)
           | Some parent \<Rightarrow>
               and_then (protocol_txs (be_encoders V) (be_abi V) sign c (fees_of (be_chain_id V) parent) l2_block info
                   entries max_trigger_count n)
                 (\<lambda>txs n'.
                    (case calc_gas_limit (parent_gas_limit parent) DESIRED_GAS_LIMIT of
                       Inl pn \<Rightarrow> (Inl (Build_Panicked pn), n')
                     | Inr block_gas_limit \<Rightarrow>
                         let base_fee = (case next_block_base_fee parent of None \<Rightarrow> 1 | Some f \<Rightarrow> f);
                             user = drain_pool (be_dependent V) (builder_address c) (be_account_nonce V) block_gas_limit
                               Map.empty (estimate_builder_tx_gas txs) (be_pool V base_fee)
                         in (Inr (be_encode_list V (txs @ map (Pooled \<circ> pt_consensus) user)), n')))))"

section \<open>The plan as one numbered list\<close>

text \<open>What a signed transaction says, and the transactions made from consecutive nonces.\<close>

fun tx_of :: "'p block_tx \<Rightarrow> legacy_tx option" where
  "tx_of (Protocol t _) = Some t"
| "tx_of (Pooled _) = None"

fun number_from :: "u64 \<Rightarrow> (u64 \<Rightarrow> legacy_tx) list \<Rightarrow> legacy_tx list" where
  "number_from n [] = []"
| "number_from n (mk # mks) = mk n # number_from (n + 1) mks"

lemma length_number_from [simp]: "length (number_from n mks) = length mks"
  by (induction mks arbitrary: n) simp_all

lemma number_from_append [simp]:
  "number_from n (xs @ ys) = number_from n xs @ number_from (n + of_nat (length xs)) ys"
  by (induction xs arbitrary: n) (simp_all add: ac_simps)

lemma take_number_from [simp]: "take k (number_from n mks) = number_from n (take k mks)"
  by (induction mks arbitrary: n k) (auto simp: take_Cons split: nat.split)

lemma number_from_nonces:
  "\<forall>mk \<in> set mks. \<forall>m. tx_nonce (mk m) = m \<Longrightarrow>
     map tx_nonce (number_from n mks) = map (\<lambda>i. n + of_nat i) [0..<length mks]"
proof (induction mks arbitrary: n)
  case (Cons mk mks)
  then show ?case
    by (simp add: upt_conv_Cons map_Suc_upt [symmetric] comp_def ac_simps del: upt_Suc map_Suc_upt)
qed simp

lemma and_then_simps [simp]:
  "and_then (Inl e, n) k = (Inl e, n)" "and_then (Inr x, n) k = k x n"
  by (simp_all add: and_then_def)

lemma and_then_InrE:
  assumes "and_then r k = (Inr y, n')"
  obtains x n where "r = (Inr x, n)" "k x n = (Inr y, n')"
  using assms by (auto simp: and_then_def split: prod.splits sum.splits)

lemma sign_seq_ok:
  "sign_seq sign mks n = (Inr ts, n') \<Longrightarrow>
     map tx_of ts = map Some (number_from n mks) \<and> n' = n + of_nat (length mks)"
  by (induction mks arbitrary: n ts)
    (force simp: build_signed_legacy_tx_def ac_simps split: option.splits elim!: and_then_InrE)+

lemma those_signed:
  "those (map (build_signed_legacy_tx sign) ls) = Some ts \<Longrightarrow> map tx_of ts = map Some ls"
  by (induction ls arbitrary: ts) (auto simp: build_signed_legacy_tx_def split: option.splits)

definition bootstrap_plan :: "tx_encoders \<Rightarrow> builder_config \<Rightarrow> fees \<Rightarrow> u64 \<Rightarrow> (u64 \<Rightarrow> legacy_tx) list" where
  "bootstrap_plan X c F l2_block =
     (if l2_block = 1 then map (\<lambda>t n. t\<lparr>tx_nonce := n\<rparr>) (deploy_txs X c F)
        @ map (bootstrap_transfer_tx F) (bootstrap_accounts c)
      else if l2_block = 2 \<and> bridge_l1_address c \<noteq> 0 \<and> bridge_l2_address c \<noteq> 0
      then [set_canonical_bridge_tx X F (bridge_l2_address c) (bridge_l1_address c)] else [])"

definition protocol_plan :: "tx_encoders \<Rightarrow> abi \<Rightarrow> builder_config \<Rightarrow> fees \<Rightarrow> u64 \<Rightarrow> l1_block_info
    \<Rightarrow> cross_chain_execution_entry list \<Rightarrow> nat \<Rightarrow> (u64 \<Rightarrow> legacy_tx) list" where
  "protocol_plan X A c F l2_block info entries k =
     bootstrap_plan X c F l2_block @ context_txs X c F info @
     (case split_entries A c entries of (table, triggers) \<Rightarrow> table_txs X c F table @ trigger_txs X c F k triggers)"

definition first_nonce :: "u64 \<Rightarrow> u64 \<Rightarrow> u64" where
  "first_nonce l2_block n = (if l2_block = 1 then 0 else n)"

lemmas tx_defs = legacy_def set_context_tx_def load_table_tx_def execute_incoming_tx_def deploy_l2context_tx_def
  deploy_ccm_tx_def deploy_bridge_tx_def initialize_bridge_tx_def set_canonical_bridge_tx_def bootstrap_transfer_tx_def

lemma deploy_txs_numbered:
  "number_from 0 (map (\<lambda>t n. t\<lparr>tx_nonce := n\<rparr>) (deploy_txs X c F)) = deploy_txs X c F"
  by (simp add: deploy_txs_def tx_defs)

lemma bootstrap_txs_ok:
  assumes "bootstrap_txs X sign c F l2_block n = (Inr ts, n')"
  shows "map tx_of ts = map Some (number_from (first_nonce l2_block n) (bootstrap_plan X c F l2_block)) \<and>
    n' = first_nonce l2_block n + of_nat (length (bootstrap_plan X c F l2_block))"
proof (cases "l2_block = 1")
  case True
  with assms obtain ds tr where ds: "those (map (build_signed_legacy_tx sign) (deploy_txs X c F)) = Some ds"
    and tr: "sign_seq sign (map (bootstrap_transfer_tx F) (bootstrap_accounts c)) (if rollups_address c = 0 then 1 else 4)
      = (Inr tr, n')" and ts: "ts = ds @ tr"
    by (auto simp: bootstrap_txs_def block_one_txs_def split: option.splits elim!: and_then_InrE)
  have len: "of_nat (length (deploy_txs X c F)) = (if rollups_address c = 0 then 1 else 4 :: u64)"
    by (simp add: deploy_txs_def)
  show ?thesis
    using True those_signed [OF ds] sign_seq_ok [OF tr]
    by (simp add: ts bootstrap_plan_def first_nonce_def deploy_txs_numbered len)
next
  case False
  with assms show ?thesis
    by (auto simp: bootstrap_txs_def bootstrap_plan_def first_nonce_def simp del: sign_seq.simps
        split: if_splits elim!: and_then_InrE dest!: sign_seq_ok)
qed

lemma plan_nonces: "mk \<in> set (protocol_plan X A c F l2_block info entries k) \<Longrightarrow> tx_nonce (mk m) = m"
  by (auto simp: protocol_plan_def bootstrap_plan_def context_txs_def table_txs_def trigger_txs_def tx_defs
      split: if_splits prod.splits)

lemma protocol_txs_ok:
  assumes "protocol_txs X A sign c F l2_block info entries k n = (Inr txs, n')"
  shows "map tx_of txs = map Some (number_from (first_nonce l2_block n) (protocol_plan X A c F l2_block info entries k)) \<and>
    n' = first_nonce l2_block n + of_nat (length txs)"
proof -
  obtain table triggers where split: "split_entries A c entries = (table, triggers)" by fastforce
  from assms split obtain boot n1 ctx n2 tab n3 trig where
    1: "bootstrap_txs X sign c F l2_block n = (Inr boot, n1)" and
    2: "sign_seq sign (context_txs X c F info) n1 = (Inr ctx, n2)" and
    3: "sign_seq sign (table_txs X c F table) n2 = (Inr tab, n3)" and
    4: "sign_seq sign (trigger_txs X c F k triggers) n3 = (Inr trig, n')" and
    txs: "txs = boot @ ctx @ tab @ trig"
    by (auto simp: protocol_txs_def elim!: and_then_InrE)
  note oks = bootstrap_txs_ok [OF 1] sign_seq_ok [OF 2] sign_seq_ok [OF 3] sign_seq_ok [OF 4]
  then have tx: "map tx_of txs = map Some (number_from (first_nonce l2_block n) (protocol_plan X A c F l2_block info entries k))"
    by (simp add: txs protocol_plan_def split ac_simps)
  then have "length txs = length (protocol_plan X A c F l2_block info entries k)"
    by (metis length_map length_number_from)
  with oks tx show ?thesis by (simp add: protocol_plan_def split ac_simps)
qed

lemma and_then_InlE:
  assumes "and_then r k = (Inl e, n')"
  obtains "r = (Inl e, n')" | x n where "r = (Inr x, n)" "k x n = (Inl e, n')"
  using assms by (auto simp: and_then_def split: prod.splits sum.splits)

lemma sign_seq_fails: "sign_seq sign mks n = (Inl e, n') \<Longrightarrow> e = Signing_Failed \<and> (\<exists>t. sign t = None)"
  by (induction mks arbitrary: n) (auto simp: build_signed_legacy_tx_def split: option.splits elim!: and_then_InlE)

lemma those_None: "those xs = None \<longleftrightarrow> None \<in> set xs"
  by (induction xs) (auto split: option.splits)

lemma bootstrap_txs_fails:
  assumes "bootstrap_txs X sign c F l2_block n = (Inl e, n')"
  shows "e = Signing_Failed \<and> (\<exists>t. sign t = None)"
  using assms
  by (auto simp: bootstrap_txs_def block_one_txs_def those_None build_signed_legacy_tx_def simp del: sign_seq.simps
      split: if_splits option.splits elim!: and_then_InlE dest: sign_seq_fails)

lemma protocol_txs_fails:
  assumes "protocol_txs X A sign c F l2_block info entries k n = (Inl e, n')"
  shows "e = Signing_Failed \<and> (\<exists>t. sign t = None)"
  using assms
  by (auto simp: protocol_txs_def split: prod.splits elim!: and_then_InlE dest: sign_seq_fails bootstrap_txs_fails)

lemma nths_cong_length: "(\<And>i. i < length xs \<Longrightarrow> i \<in> A \<longleftrightarrow> i \<in> B) \<Longrightarrow> nths xs A = nths xs B"
  by (auto simp: nths_def set_zip intro!: arg_cong [where f = "map fst"] filter_cong)

section \<open>Properties of the plan\<close>

text \<open>
  C36: the builder's transactions are one plan with consecutive nonces. A successful assembly
  signs exactly the planned transactions in their order (bootstrap, context, table, triggers),
  numbered without a gap from the builder's nonce (from 0 in block 1), and leaves the nonce
  after the last of them; an assembly fails only when signing fails.
\<close>

theorem protocol_txs_follow_plan:
  assumes "protocol_txs X A sign c F l2_block info entries k n = (r, n')"
  shows "(case r of
      Inl err \<Rightarrow> err = Signing_Failed \<and> (\<exists>t. sign t = None)
    | Inr txs \<Rightarrow>
        map tx_of txs = map Some (number_from (first_nonce l2_block n) (protocol_plan X A c F l2_block info entries k)) \<and>
        map (map_option tx_nonce \<circ> tx_of) txs = map (\<lambda>i. Some (first_nonce l2_block n + of_nat i)) [0..<length txs] \<and>
        n' = first_nonce l2_block n + of_nat (length txs))"
proof (cases r)
  case (Inl err)
  from protocol_txs_fails [OF assms [unfolded Inl]] Inl show ?thesis by simp
next
  case (Inr txs)
  let ?plan = "protocol_plan X A c F l2_block info entries k" and ?first = "first_nonce l2_block n"
  note ok = protocol_txs_ok [OF assms [unfolded Inr]]
  then have tx: "map tx_of txs = map Some (number_from ?first ?plan)" ..
  then have len: "length txs = length ?plan" by (metis length_map length_number_from)
  have "map (map_option tx_nonce \<circ> tx_of) txs = map (map_option tx_nonce) (map tx_of txs)" by simp
  also have "\<dots> = map Some (map tx_nonce (number_from ?first ?plan))" by (simp only: tx) (simp add: comp_def)
  also have "map tx_nonce (number_from ?first ?plan) = map (\<lambda>i. ?first + of_nat i) [0..<length txs]"
    unfolding len using plan_nonces by (intro number_from_nonces) blast
  finally show ?thesis using ok Inr by (simp add: comp_def)
qed

definition toy_builder :: builder_config where
  "toy_builder = \<lparr>rollups_address = 9, deployment_l1_block = 0, deployment_timestamp = 0, block_time = 1,
     cfg_rollup_id = 1, builder_address = 5, l2_context_address = 6, cross_chain_manager_address = 7,
     bridge_l1_address = 10, bridge_l2_address = 8, bootstrap_accounts = [\<lparr>ba_address = 20, ba_amount_wei = 3\<rparr>]\<rparr>"

definition toy_encoders :: tx_encoders where
  "toy_encoders = \<lparr>enc_set_context = (\<lambda>_ _. [1]), enc_load_table = (\<lambda>es. [2, of_nat (length es)]),
     enc_execute_incoming = (\<lambda>_ _ _ _ _ _. [3]), enc_initialize = (\<lambda>_ _ _. [4]), enc_set_canonical = (\<lambda>_. [5]),
     enc_context_args = (\<lambda>_. [6]), enc_ccm_args = (\<lambda>_ _. [7]), l2context_creation_bytecode = [],
     ccm_creation_bytecode = [], bridge_creation_bytecode = [8]\<rparr>"

definition toy_fees :: fees where
  "toy_fees = \<lparr>chain_id = 1, gas_price = 7\<rparr>"

text \<open>One deposit: its trigger (the hash of an action is its value) and one table entry.\<close>

definition hash_by_value :: abi where
  "hash_by_value = \<lparr>keccak = (\<lambda>bs. of_nat (length bs)), enc_action = (\<lambda>a. replicate (unat (sol_value a)) 0),
     enc_deltas = (\<lambda>_. []), enc_words = (\<lambda>_. [])\<rparr>"

definition deposit_entries :: "cross_chain_execution_entry list" where
  "deposit_entries =
     (case build_cross_chain_call_entries hash_by_value (RollupId 1) 40 [] 2 41 MAINNET True [] of (call, result) \<Rightarrow> [call, result])"

lemma toy_block_one:
  "\<exists>(txs :: unit block_tx list) n'. protocol_txs toy_encoders hash_by_value (\<lambda>_. Some []) toy_builder toy_fees 1
      \<lparr>info_number = 3, info_hash = 4\<rparr> deposit_entries 1 77 = (Inr txs, n') \<and> length txs = 8"
  by (simp add: protocol_txs_def bootstrap_txs_def block_one_txs_def deploy_txs_def toy_builder_def
      build_signed_legacy_tx_def context_txs_def split_entries_def deposit_entries_def build_cross_chain_call_entries_def
      partition_entries_def is_trigger_def result_action_def override_scopes_def is_revert_entry_def table_txs_def trigger_txs_def
      hash_of_def hash_by_value_def to_sol_action_def)

theorem protocol_txs_follow_plan_witness:
  "\<exists>(txs :: unit block_tx list) n'. protocol_txs toy_encoders hash_by_value (\<lambda>_. Some []) toy_builder toy_fees 1
      \<lparr>info_number = 3, info_hash = 4\<rparr> deposit_entries 1 77 = (Inr txs, n') \<and> n' = 8 \<and>
    map (map_option tx_nonce \<circ> tx_of) txs = map (\<lambda>i. Some (of_nat i)) [0..<8]"
proof -
  obtain txs :: "unit block_tx list" and n' where run: "protocol_txs toy_encoders hash_by_value (\<lambda>_. Some []) toy_builder toy_fees 1
      \<lparr>info_number = 3, info_hash = 4\<rparr> deposit_entries 1 77 = (Inr txs, n')" "length txs = 8"
    using toy_block_one by blast
  from protocol_txs_follow_plan [OF run(1)] run show ?thesis by (simp add: first_nonce_def)
qed

lemma sign_seq_take:
  "sign_seq sign mks n = (Inr ts, n') \<Longrightarrow>
     sign_seq sign (take k mks) n = (Inr (take k ts), n' - of_nat (length mks - k)) \<and> length ts = length mks"
proof (induction mks arbitrary: n k ts)
  case (Cons mk mks)
  then obtain t us where t: "build_signed_legacy_tx sign (mk n) = Some t" "sign_seq sign mks (n + 1) = (Inr us, n')" "ts = t # us"
    by (auto split: option.splits elim!: and_then_InrE)
  have n': "n' = n + of_nat (length (mk # mks))" using sign_seq_ok [OF Cons.prems] by blast
  show ?case
  proof (cases k)
    case 0
    then show ?thesis using n' Cons.IH [OF t(2)] t(3) by simp
  next
    case (Suc j)
    then show ?thesis using Cons.IH [OF t(2), of j] t by simp
  qed
qed simp

text \<open>With the triggers at the end, the trigger indices are the last positions.\<close>

lemma trigger_indices_at_end:
  assumes "\<forall>i < length receipts. emits_consumed sig ccm (receipts ! i) \<longleftrightarrow> base \<le> i"
  shows "identify_trigger_tx_indices sig receipts ccm = [base..<length receipts]"
proof (rule strict_sorted_equal)
  show "set (identify_trigger_tx_indices sig receipts ccm) = set [base..<length receipts]"
    using assms by (auto simp: mem_identify)
qed (simp_all add: identify_sorted)

lemma filter_last_triggers: "base \<le> length txs \<Longrightarrow> filter_txs txs [base..<length txs] k = take (base + k) txs"
proof -
  assume "base \<le> length txs"
  have "nths txs {i. i \<notin> set (drop k [base..<length txs])} = nths txs {..<base + k}"
    by (rule nths_cong_length) auto
  then show ?thesis by (simp add: filter_txs_nths)
qed

text \<open>
  C37: limiting the triggers is filtering the full block. Suppose the assembly with room for every
  trigger succeeds, and among the receipts of its transactions exactly those of the triggers,
  which come last, carry a consumption event. Then the assembly with at most \<open>k\<close> triggers gives the
  transactions that the filter by the receipts' trigger indices keeps of the full ones, signatures
  included, and its nonce is behind by the triggers left out.
\<close>

theorem limited_plan_filters_triggers:
  assumes "protocol_txs X A sign c F l2_block info entries big n = (Inr full, n')"
    and "triggers = snd (split_entries A c entries)" and "length triggers \<le> big"
    and "length receipts = length full"
    and "\<forall>i < length full. emits_consumed sig ccm (receipts ! i) \<longleftrightarrow> length full \<le> i + length triggers"
  shows "protocol_txs X A sign c F l2_block info entries k n =
    (Inr (filter_txs full (identify_trigger_tx_indices sig receipts ccm) k), n' - of_nat (length triggers - k))"
proof -
  obtain table where split: "split_entries A c entries = (table, triggers)" using assms(2) by (metis prod.collapse)
  let ?mk = "\<lambda>t. execute_incoming_tx X F (cross_chain_manager_address c) (next_action (t :: cross_chain_execution_entry))"
  have all: "trigger_txs X c F big triggers = map ?mk triggers" using assms(3) by (simp add: trigger_txs_def min_absorb1)
  from assms(1) split all obtain boot n1 ctx n2 tab n3 trig where
    1: "bootstrap_txs X sign c F l2_block n = (Inr boot, n1)" and
    2: "sign_seq sign (context_txs X c F info) n1 = (Inr ctx, n2)" and
    3: "sign_seq sign (table_txs X c F table) n2 = (Inr tab, n3)" and
    4: "sign_seq sign (map ?mk triggers) n3 = (Inr trig, n')" and
    full: "full = boot @ ctx @ tab @ trig"
    by (auto simp: protocol_txs_def elim!: and_then_InrE)
  have some: "trigger_txs X c F k triggers = take k (map ?mk triggers)" by (simp add: trigger_txs_def take_map min_def)
  note t = sign_seq_take [OF 4, of k]
  then have "protocol_txs X A sign c F l2_block info entries k n =
      (Inr (boot @ ctx @ tab @ take k trig), n' - of_nat (length triggers - k))"
    by (simp add: protocol_txs_def 1 2 3 split some)
  moreover have base: "length full = length (boot @ ctx @ tab) + length triggers" using t by (simp add: full)
  moreover have "identify_trigger_tx_indices sig receipts ccm = [length (boot @ ctx @ tab)..<length full]"
    using trigger_indices_at_end [of receipts sig ccm "length (boot @ ctx @ tab)"] assms(4,5) base by auto
  ultimately show ?thesis using filter_last_triggers [of "length (boot @ ctx @ tab)" full k] by (simp add: full)
qed

lemma toy_block_three:
  "\<exists>(t1 :: unit block_tx) t2 t3. protocol_txs toy_encoders hash_by_value (\<lambda>_. Some []) toy_builder toy_fees 3
      \<lparr>info_number = 3, info_hash = 4\<rparr> deposit_entries 1 5 = (Inr [t1, t2, t3], 8)"
  by (simp add: protocol_txs_def bootstrap_txs_def toy_builder_def
      build_signed_legacy_tx_def context_txs_def split_entries_def deposit_entries_def build_cross_chain_call_entries_def
      partition_entries_def is_trigger_def result_action_def override_scopes_def is_revert_entry_def table_txs_def trigger_txs_def
      hash_of_def hash_by_value_def to_sol_action_def)

lemma deposit_trigger: "length (snd (split_entries hash_by_value toy_builder deposit_entries)) = 1"
  by (simp add: toy_builder_def split_entries_def deposit_entries_def
      build_cross_chain_call_entries_def partition_entries_def is_trigger_def result_action_def override_scopes_def
      is_revert_entry_def hash_of_def hash_by_value_def to_sol_action_def)

theorem limited_plan_filters_triggers_witness:
  "\<exists>(t1 :: unit block_tx) t2 t3. protocol_txs toy_encoders hash_by_value (\<lambda>_. Some []) toy_builder toy_fees 3
      \<lparr>info_number = 3, info_hash = 4\<rparr> deposit_entries 1 5 = (Inr [t1, t2, t3], 8) \<and>
    protocol_txs toy_encoders hash_by_value (\<lambda>_. Some []) toy_builder toy_fees 3
      \<lparr>info_number = 3, info_hash = 4\<rparr> deposit_entries 0 5 =
    (Inr (filter_txs [t1, t2, t3] (identify_trigger_tx_indices 1 [[], [], [\<lparr>log_address = 7, topics = [1, 40], log_data = []\<rparr>]] 7) 0), 7)"
proof -
  let ?r = "[[], [], [\<lparr>log_address = 7, topics = [1, 40], log_data = []\<rparr>]] :: receipt list"
  obtain t1 :: "unit block_tx" and t2 t3 where full: "protocol_txs toy_encoders hash_by_value (\<lambda>_. Some []) toy_builder toy_fees 3
      \<lparr>info_number = 3, info_hash = 4\<rparr> deposit_entries 1 5 = (Inr [t1, t2, t3], 8)" using toy_block_three by blast
  have e: "\<forall>i < length [t1, t2, t3]. emits_consumed 1 7 (?r ! i) \<longleftrightarrow> length [t1, t2, t3] \<le> i + 1"
    by (auto simp: less_Suc_eq emits_consumed_def)
  have "protocol_txs toy_encoders hash_by_value (\<lambda>_. Some []) toy_builder toy_fees 3
      \<lparr>info_number = 3, info_hash = 4\<rparr> deposit_entries 0 5 =
    (Inr (filter_txs [t1, t2, t3] (identify_trigger_tx_indices 1 ?r 7) 0), 8 - of_nat (1 - 0))"
    using limited_plan_filters_triggers [OF full refl, of ?r 1 7 0] e unfolding deposit_trigger by simp
  with full show ?thesis by auto
qed

section \<open>Properties of the pool drain\<close>

lemma mark_invalid_subset: "set (mark_invalid dependent p ps) \<subseteq> set ps"
  by (auto simp: mark_invalid_def)

text \<open>What a step of the drain keeps: one case per outcome of its checks.\<close>

lemma drain_pool_cases [case_names Nil Builder Skip Take]:
  assumes "\<And>expected gas. P expected gas []"
    and "\<And>expected gas p ps. pt_sender p = builder \<Longrightarrow> P expected gas ps \<Longrightarrow> P expected gas (p # ps)"
    and "\<And>expected gas p ps ok expected'. pt_sender p \<noteq> builder \<Longrightarrow> check_nonce st expected p = (ok, expected') \<Longrightarrow>
      \<not> ok \<or> gas + pt_gas_limit p > limit \<Longrightarrow>
      drain_pool dependent builder st limit expected gas (p # ps) =
        drain_pool dependent builder st limit expected' gas (mark_invalid dependent p ps) \<Longrightarrow>
      P expected' gas (mark_invalid dependent p ps) \<Longrightarrow> P expected gas (p # ps)"
    and "\<And>expected gas p ps expected'. pt_sender p \<noteq> builder \<Longrightarrow> check_nonce st expected p = (True, expected') \<Longrightarrow>
      gas + pt_gas_limit p \<le> limit \<Longrightarrow>
      drain_pool dependent builder st limit expected gas (p # ps) =
        p # drain_pool dependent builder st limit expected' (gas + pt_gas_limit p) ps \<Longrightarrow>
      P expected' (gas + pt_gas_limit p) ps \<Longrightarrow> P expected gas (p # ps)"
  shows "P expected gas ps"
proof (induction "length ps" arbitrary: ps expected gas rule: less_induct)
  case less
  show ?case
  proof (cases ps)
    case Nil
    then show ?thesis using assms(1) by simp
  next
    case (Cons p qs)
    obtain ok expected' where c: "check_nonce st expected p = (ok, expected')" by fastforce
    have "length (mark_invalid dependent p qs) < length ps" "length qs < length ps"
      using Cons by (simp_all add: mark_invalid_def less_Suc_eq_le)
    note IH = less.hyps [OF this(1)] less.hyps [OF this(2)]
    show ?thesis
    proof (cases "pt_sender p = builder")
      case True
      then show ?thesis unfolding Cons using assms(2) IH(2) by blast
    next
      case False
      show ?thesis
      proof (cases "\<not> ok \<or> gas + pt_gas_limit p > limit")
        case skip: True
        show ?thesis unfolding Cons
          by (rule assms(3) [OF False c skip _ IH(1)]) (use False c skip in auto)
      next
        case take: False
        show ?thesis unfolding Cons
          by (rule assms(4) [OF False _ _ _ IH(2)]) (use False c take in auto)
      qed
    qed
  qed
qed

lemma drain_pool_subset: "set (drain_pool dependent builder st limit expected gas ps) \<subseteq> set ps"
proof (induction expected gas ps rule: drain_pool_cases [where dependent = dependent and builder = builder and st = st and limit = limit])
  case (Skip expected gas p ps ok expected')
  then show ?case using mark_invalid_subset [of dependent p ps] by auto
qed auto

lemma drain_pool_not_builder: "\<forall>p \<in> set (drain_pool dependent builder st limit expected gas ps). pt_sender p \<noteq> builder"
  by (induction expected gas ps rule: drain_pool_cases [where dependent = dependent and builder = builder and st = st and limit = limit])
    auto

lemma drain_pool_gas:
  "\<forall>p \<in> set ps. unat limit + unat (pt_gas_limit p) < 2 ^ 64 \<Longrightarrow> gas \<le> limit \<Longrightarrow>
     unat gas + sum_list (map (unat \<circ> pt_gas_limit) (drain_pool dependent builder st limit expected gas ps)) \<le> unat limit"
proof (induction expected gas ps rule: drain_pool_cases [where dependent = dependent and builder = builder and st = st and limit = limit])
  case (Nil expected gas)
  then show ?case by (simp add: word_le_nat_alt)
next
  case (Skip expected gas p ps ok expected')
  then have "\<forall>q \<in> set (mark_invalid dependent p ps). unat limit + unat (pt_gas_limit q) < 2 ^ 64"
    using mark_invalid_subset [of dependent p ps] by (metis list.set_intros(2) subsetD)
  with Skip show ?case by simp
next
  case (Take expected gas p ps expected')
  have "unat limit + unat (pt_gas_limit p) < 2 ^ 64" using Take.prems(1) by simp
  then have "unat gas + unat (pt_gas_limit p) < 2 ^ 64" using Take.prems(2) by (simp add: word_le_nat_alt)
  then have "unat (gas + pt_gas_limit p) = unat gas + unat (pt_gas_limit p)" by (simp add: unat_word_ariths)
  with Take show ?case by simp
qed simp

definition next_nonce :: "(address \<Rightarrow> u64) \<Rightarrow> (address \<rightharpoonup> u64) \<Rightarrow> address \<Rightarrow> u64" where
  "next_nonce state expected a = (case expected a of None \<Rightarrow> state a | Some e \<Rightarrow> e)"

lemma check_nonce_ok:
  assumes "check_nonce (Some state) expected p = (ok, expected')"
  shows "(ok \<longleftrightarrow> pt_nonce p = next_nonce state expected (pt_sender p)) \<and>
    next_nonce state expected' = (next_nonce state expected)(pt_sender p := if ok then pt_nonce p + 1
      else next_nonce state expected (pt_sender p))"
  using assms by (auto simp: check_nonce_def next_nonce_def Let_def fun_eq_iff split: if_splits option.splits)

lemma drain_pool_nonces:
  assumes "\<forall>p q. pt_sender p = pt_sender q \<longrightarrow> dependent p q"
  shows "map pt_nonce (filter (\<lambda>p. pt_sender p = a) (drain_pool dependent builder (Some state) limit expected gas ps)) =
    map (\<lambda>i. next_nonce state expected a + of_nat i)
      [0..<length (filter (\<lambda>p. pt_sender p = a) (drain_pool dependent builder (Some state) limit expected gas ps))]"
proof (induction expected gas ps rule: drain_pool_cases [where dependent = dependent and builder = builder and st = "Some state" and limit = limit])
  case (Skip expected gas p ps ok expected')
  show ?case
  proof (cases "pt_sender p = a")
    case True
    have "\<forall>q \<in> set (mark_invalid dependent p ps). pt_sender q \<noteq> a"
      using assms True by (auto simp: mark_invalid_def)
    then have "filter (\<lambda>p. pt_sender p = a) (drain_pool dependent builder (Some state) limit expected' gas (mark_invalid dependent p ps)) = []"
      using drain_pool_subset by (metis (mono_tags, lifting) filter_False subsetD)
    with Skip show ?thesis by simp
  next
    case False
    with Skip check_nonce_ok [OF Skip(2)] show ?thesis by simp
  qed
next
  case (Take expected gas p ps expected')
  note nonces = check_nonce_ok [OF Take(2)]
  show ?case
  proof (cases "pt_sender p = a")
    case True
    with Take nonces show ?thesis
      by (simp add: upt_conv_Cons map_Suc_upt [symmetric] comp_def ac_simps del: upt_Suc map_Suc_upt)
  next
    case False
    with Take nonces show ?thesis by simp
  qed
qed simp_all

text \<open>
  What the pool contributes. The user transactions of a block come from the pool, none is
  the builder's, their gas limits together with the protocol transactions stay below the block
  gas limit (for pool transactions whose gas limit cannot overflow the sum), and each sender's
  transactions carry consecutive nonces from the account's nonce when marking a transaction
  invalid removes its sender's later ones, as the pool documents.
\<close>

theorem pool_drain_sound:
  assumes "\<forall>p q. pt_sender p = pt_sender q \<longrightarrow> dependent p q"
    and "\<forall>p \<in> set ps. unat limit + unat (pt_gas_limit p) < 2 ^ 64" and "gas \<le> limit"
    and "user = drain_pool dependent builder (Some state) limit Map.empty gas ps"
  shows "set user \<subseteq> set ps \<and> (\<forall>p \<in> set user. pt_sender p \<noteq> builder) \<and>
    unat gas + sum_list (map (unat \<circ> pt_gas_limit) user) \<le> unat limit \<and>
    map pt_nonce (filter (\<lambda>p. pt_sender p = a) user) =
      map (\<lambda>i. state a + of_nat i) [0..<length (filter (\<lambda>p. pt_sender p = a) user)]"
  unfolding assms(4)
  using drain_pool_nonces [OF assms(1), where expected = Map.empty]
  by (intro conjI drain_pool_subset drain_pool_not_builder drain_pool_gas [OF assms(2,3)]) (simp add: next_nonce_def)

definition toy_pool :: "nat pool_tx list" where
  "toy_pool = [\<lparr>pt_sender = 1, pt_nonce = 4, pt_gas_limit = 100, pt_consensus = 0\<rparr>,
     \<lparr>pt_sender = 5, pt_nonce = 0, pt_gas_limit = 100, pt_consensus = 1\<rparr>,
     \<lparr>pt_sender = 2, pt_nonce = 9, pt_gas_limit = 100, pt_consensus = 2\<rparr>,
     \<lparr>pt_sender = 1, pt_nonce = 5, pt_gas_limit = 100, pt_consensus = 3\<rparr>,
     \<lparr>pt_sender = 1, pt_nonce = 6, pt_gas_limit = 900, pt_consensus = 4\<rparr>]"

theorem pool_drain_sound_witness:
  "map pt_consensus (drain_pool (\<lambda>p q. pt_sender p = pt_sender q) 5 (Some (\<lambda>a. if a = 1 then 4 else 0)) 1000 Map.empty 200 toy_pool) = [0, 3] \<and>
   unat (200 :: u64) + sum_list (map (unat \<circ> pt_gas_limit)
      (drain_pool (\<lambda>p q. pt_sender p = pt_sender q) 5 (Some (\<lambda>a. if a = 1 then 4 else 0)) 1000 Map.empty 200 toy_pool)) \<le> unat (1000 :: u64)"
proof
  let ?st = "\<lambda>a :: address. if a = 1 then 4 else (0 :: u64)"
  show "map pt_consensus (drain_pool (\<lambda>p q. pt_sender p = pt_sender q) 5 (Some ?st) 1000 Map.empty 200 toy_pool) = [0, 3]"
    by (simp add: toy_pool_def check_nonce_def mark_invalid_def Let_def word_less_nat_alt)
  show "unat (200 :: u64) + sum_list (map (unat \<circ> pt_gas_limit)
      (drain_pool (\<lambda>p q. pt_sender p = pt_sender q) 5 (Some ?st) 1000 Map.empty 200 toy_pool)) \<le> unat (1000 :: u64)"
    using pool_drain_sound [OF _ _ _ refl, of "\<lambda>p q. pt_sender p = pt_sender q" toy_pool 1000 200 5 ?st 1]
    by (simp add: toy_pool_def word_le_nat_alt)
qed

end
