(* ===== verification/Block_Filtering.thy ===== *)
theory Block_Filtering
  imports Protocol_Txs
begin

text \<open>
  Filtering and executing blocks (\<open>driver/verify.rs\<close>, \<open>build_derived_block\<close> of
  \<open>driver/protocol_txs.rs\<close>): trial execution, the two filtering paths of a derived block, the
  intermediate state roots of a builder block. The EVM is a parameter: a prepared state per
  parent and block environment, one step per transaction and the sealed block at the end.
  Builder and fullnode run the same deterministic executor.
\<close>

section \<open>Executing blocks\<close>

record 'tx sealed_block =
  sb_hash :: b256
  sb_state_root :: b256
  sb_body :: "'tx list"

record ('s, 'tx) executor =
  ex_snapshot :: "u64 \<Rightarrow> u64 \<Rightarrow> l1_block_info \<Rightarrow> 's option"
  ex_decode :: "bytes \<Rightarrow> 'tx list option"
  ex_encode :: "'tx list \<Rightarrow> bytes"
  ex_recover :: "'tx \<Rightarrow> bool"
  ex_run :: "'s \<Rightarrow> 'tx \<Rightarrow> (receipt \<times> 's) option"
  ex_finish :: "'s \<Rightarrow> 'tx sealed_block option"
  ex_parent_root :: "u64 \<Rightarrow> b256"

datatype exec_error =
    Snapshot_Failed
  | Decode_Failed
  | Recover_Failed
  | Execution_Failed
  | Finish_Failed
  | Filter_Failed

text \<open>A failed transaction of a trial is skipped and leaves no receipt.\<close>

fun trial_loop :: "('s, 'tx) executor \<Rightarrow> 's \<Rightarrow> 'tx list \<Rightarrow> exec_error + receipt list \<times> 's" where
  "trial_loop X s [] = Inr ([], s)"
| "trial_loop X s (t # ts) =
     (if \<not> ex_recover X t then Inl Recover_Failed
      else case ex_run X s t of
          None \<Rightarrow> trial_loop X s ts
        | Some (r, s') \<Rightarrow>
            (case trial_loop X s' ts of Inl e \<Rightarrow> Inl e | Inr (rs, s'') \<Rightarrow> Inr (r # rs, s'')))"

definition trial_execute_for_receipts :: "('s, 'tx) executor \<Rightarrow> u64 \<Rightarrow> u64 \<Rightarrow> l1_block_info \<Rightarrow> bytes
    \<Rightarrow> exec_error + receipt list" where
  "trial_execute_for_receipts X parent ts info encoded =
     (if encoded = [] then Inr []
      else case ex_snapshot X parent ts info of
          None \<Rightarrow> Inl Snapshot_Failed
        | Some s \<Rightarrow>
            (case ex_decode X encoded of
               None \<Rightarrow> Inl Decode_Failed
             | Some txs \<Rightarrow>
                 (case trial_loop X s txs of
                    Inl e \<Rightarrow> Inl e
                  | Inr (rs, s') \<Rightarrow> (case ex_finish X s' of None \<Rightarrow> Inl Finish_Failed | Some _ \<Rightarrow> Inr rs))))"

fun exec_loop :: "('s, 'tx) executor \<Rightarrow> 's \<Rightarrow> 'tx list \<Rightarrow> exec_error + 's" where
  "exec_loop X s [] = Inr s"
| "exec_loop X s (t # ts) =
     (if \<not> ex_recover X t then Inl Recover_Failed
      else case ex_run X s t of None \<Rightarrow> Inl Execution_Failed | Some (_, s') \<Rightarrow> exec_loop X s' ts)"

definition execute_block :: "('s, 'tx) executor \<Rightarrow> u64 \<Rightarrow> u64 \<Rightarrow> l1_block_info \<Rightarrow> bytes
    \<Rightarrow> exec_error + 'tx sealed_block" where
  "execute_block X parent ts info encoded =
     (case ex_snapshot X parent ts info of
        None \<Rightarrow> Inl Snapshot_Failed
      | Some s \<Rightarrow>
          (case (if encoded = [] then Some [] else ex_decode X encoded) of
             None \<Rightarrow> Inl Decode_Failed
           | Some txs \<Rightarrow>
               (case exec_loop X s txs of
                  Inl e \<Rightarrow> Inl e
                | Inr s' \<Rightarrow> (case ex_finish X s' of None \<Rightarrow> Inl Finish_Failed | Some b \<Rightarrow> Inr b))))"

definition compute_state_root_with_entries :: "('s, 'tx) executor \<Rightarrow> u64 \<Rightarrow> u64 \<Rightarrow> l1_block_info \<Rightarrow> bytes
    \<Rightarrow> exec_error + b256" where
  "compute_state_root_with_entries X parent ts info encoded =
     (case execute_block X parent ts info encoded of Inl e \<Rightarrow> Inl e | Inr b \<Rightarrow> Inr (sb_state_root b))"

definition build_derived_block :: "('s, 'tx) executor \<Rightarrow> u64 \<Rightarrow> u64 \<Rightarrow> l1_block_info \<Rightarrow> bytes
    \<Rightarrow> exec_error + built_block" where
  "build_derived_block X parent ts info encoded =
     (case execute_block X parent ts info encoded of
        Inl e \<Rightarrow> Inl e
      | Inr b \<Rightarrow> Inr \<lparr>built_hash = sb_hash b, pre_state_root = ex_parent_root X parent,
          built_state_root = sb_state_root b, tx_count = length (sb_body b),
          encoded_transactions = ex_encode X (sb_body b)\<rparr>)"

section \<open>Filtering a derived block\<close>

text \<open>\<open>sig\<close> and \<open>ccm\<close>: the event signature and the manager whose events mark a trigger.\<close>

definition apply_generic_filtering :: "('s, 'tx) executor \<Rightarrow> b256 \<Rightarrow> address \<Rightarrow> derived_block \<Rightarrow> deferred_filtering
    \<Rightarrow> exec_error + bytes" where
  "apply_generic_filtering X sig ccm b f =
     (case trial_execute_for_receipts X (saturating_sub (l2_block_number b) 1) (l2_timestamp b) (l1_info b)
          (db_transactions b) of
        Inl e \<Rightarrow> Inl e
      | Inr receipts \<Rightarrow>
          let idx = identify_trigger_tx_indices sig receipts ccm in
          if idx = [] then Inr (db_transactions b)
          else let k = prefix_as_usize (fst (compute_consumed_trigger_prefix sig receipts ccm (l1_consumed_remaining f) idx)) in
            if k \<ge> length idx then Inr (db_transactions b)
            else (case filter_block_by_trigger_prefix (ex_decode X) (ex_encode X) (db_transactions b) idx k of
                Some filtered \<Rightarrow> Inr filtered
              | None \<Rightarrow> Inr (db_transactions b)))"

definition USIZE_MAX :: nat where
  "USIZE_MAX = 2 ^ 64 - 1"

definition apply_generic_filtering_via_rebuild :: "('s, 'tx) executor \<Rightarrow> b256 \<Rightarrow> address \<Rightarrow> 'p block_env \<Rightarrow> builder_config
    \<Rightarrow> derived_block \<Rightarrow> deferred_filtering \<Rightarrow> u64 \<Rightarrow> (exec_error + bytes) \<times> u64" where
  "apply_generic_filtering_via_rebuild X sig ccm V c b f nonce =
     (let fallback = (apply_generic_filtering X sig ccm b f, nonce);
          build = (\<lambda>k. build_builder_protocol_txs V c (l2_block_number b) (l1_info b) (all_l2_entries f) k nonce)
      in case build USIZE_MAX of
           (Inl _, _) \<Rightarrow> fallback
         | (Inr full_txs, n') \<Rightarrow>
             (case trial_execute_for_receipts X (saturating_sub (l2_block_number b) 1) (l2_timestamp b) (l1_info b) full_txs of
                Inl _ \<Rightarrow> fallback
              | Inr receipts \<Rightarrow>
                  let idx = identify_trigger_tx_indices sig receipts ccm in
                  if idx = [] then (Inr full_txs, n')
                  else let k = prefix_as_usize (fst (compute_consumed_trigger_prefix sig receipts ccm (l1_consumed_remaining f) idx)) in
                    if k \<ge> length idx then (Inr full_txs, n')
                    else (case build k of
                        (Inl _, n'') \<Rightarrow> (apply_generic_filtering X sig ccm b f, n'')
                      | (Inr filtered, n'') \<Rightarrow> (Inr filtered, n''))))"

definition apply_deferred_filtering :: "('s, 'tx) executor \<Rightarrow> b256 \<Rightarrow> address \<Rightarrow> 'p block_env \<Rightarrow> builder_config
    \<Rightarrow> bool \<Rightarrow> derived_block \<Rightarrow> u64 \<Rightarrow> (exec_error + bytes) \<times> u64" where
  "apply_deferred_filtering X sig ccm V c has_proposer b nonce =
     (case filtering b of
        None \<Rightarrow> (Inr (db_transactions b), nonce)
      | Some f \<Rightarrow>
          if all_l2_entries f \<noteq> [] \<and> has_proposer then apply_generic_filtering_via_rebuild X sig ccm V c b f nonce
          else (apply_generic_filtering X sig ccm b f, nonce))"

section \<open>Intermediate roots\<close>

fun roots_loop :: "('s, 'tx) executor \<Rightarrow> u64 \<Rightarrow> u64 \<Rightarrow> l1_block_info \<Rightarrow> bytes \<Rightarrow> nat list \<Rightarrow> nat list
    \<Rightarrow> exec_error + b256 list" where
  "roots_loop X parent ts info encoded idx [] = Inr []"
| "roots_loop X parent ts info encoded idx (k # ks) =
     (case filter_block_by_trigger_prefix (ex_decode X) (ex_encode X) encoded idx k of
        None \<Rightarrow> Inl Filter_Failed
      | Some filtered \<Rightarrow>
          (case compute_state_root_with_entries X parent ts info filtered of
             Inl e \<Rightarrow> Inl e
           | Inr root \<Rightarrow>
               (case roots_loop X parent ts info encoded idx ks of Inl e \<Rightarrow> Inl e | Inr roots \<Rightarrow> Inr (root # roots))))"

definition compute_intermediate_roots :: "('s, 'tx) executor \<Rightarrow> b256 \<Rightarrow> address \<Rightarrow> u64 \<Rightarrow> u64 \<Rightarrow> l1_block_info
    \<Rightarrow> b256 \<Rightarrow> bytes \<Rightarrow> exec_error + b256 list" where
  "compute_intermediate_roots X sig ccm parent ts info speculative_root encoded =
     (case trial_execute_for_receipts X parent ts info encoded of
        Inl e \<Rightarrow> Inl e
      | Inr receipts \<Rightarrow>
          let idx = identify_trigger_tx_indices sig receipts ccm in
          if idx = [] then Inr [speculative_root, speculative_root]
          else (case roots_loop X parent ts info encoded idx [0..<length idx] of
              Inl e \<Rightarrow> Inl e
            | Inr roots \<Rightarrow> Inr (roots @ [speculative_root])))"

section \<open>Lemmas\<close>

lemma roots_loop_nth:
  "roots_loop X parent ts info encoded idx ks = Inr roots \<Longrightarrow>
     length roots = length ks \<and>
     (\<forall>i < length ks. \<exists>filtered. filter_block_by_trigger_prefix (ex_decode X) (ex_encode X) encoded idx (ks ! i) = Some filtered \<and>
        compute_state_root_with_entries X parent ts info filtered = Inr (roots ! i))"
  by (induction ks arbitrary: roots) (auto simp: nth_Cons' less_Suc_eq_0_disj split: option.splits sum.splits)

lemma intermediate_roots_nth:
  assumes "compute_intermediate_roots X sig ccm parent ts info spec encoded = Inr roots"
    and "trial_execute_for_receipts X parent ts info encoded = Inr receipts"
    and "idx = identify_trigger_tx_indices sig receipts ccm"
  shows "length roots = max (length idx) 1 + 1 \<and> last roots = spec \<and>
    (\<forall>k < length idx. \<exists>filtered. filter_block_by_trigger_prefix (ex_decode X) (ex_encode X) encoded idx k = Some filtered \<and>
       compute_state_root_with_entries X parent ts info filtered = Inr (roots ! k))"
proof (cases "idx = []")
  case True
  with assms show ?thesis by (auto simp: compute_intermediate_roots_def Let_def)
next
  case False
  with assms obtain rs where rs: "roots_loop X parent ts info encoded idx [0..<length idx] = Inr rs" "roots = rs @ [spec]"
    by (auto simp: compute_intermediate_roots_def Let_def split: sum.splits)
  from False have "max (length idx) 1 = length idx" by (cases idx) simp_all
  with roots_loop_nth [OF rs(1)] rs(2) show ?thesis by (simp add: nth_append)
qed

lemma build_derived_root:
  "build_derived_block X parent ts info encoded = Inr built \<Longrightarrow>
     compute_state_root_with_entries X parent ts info encoded = Inr (built_state_root built)"
  by (auto simp: build_derived_block_def compute_state_root_with_entries_def split: sum.splits)


lemma trial_deterministic:
  "apply_generic_filtering X sig ccm b f = Inr txs \<Longrightarrow>
     \<exists>receipts. trial_execute_for_receipts X (saturating_sub (l2_block_number b) 1) (l2_timestamp b) (l1_info b)
        (db_transactions b) = Inr receipts"
  by (simp add: apply_generic_filtering_def split: sum.splits)

text \<open>What the filter path returns when the builder could compute its intermediate roots.\<close>

lemma generic_filtering_result:
  assumes "apply_generic_filtering X sig ccm b f = Inr txs"
    and "trial_execute_for_receipts X (saturating_sub (l2_block_number b) 1) (l2_timestamp b) (l1_info b)
        (db_transactions b) = Inr receipts"
    and "idx = identify_trigger_tx_indices sig receipts ccm"
    and "k = prefix_as_usize (fst (compute_consumed_trigger_prefix sig receipts ccm (l1_consumed_remaining f) idx))"
    and "\<forall>j < length idx. filter_block_by_trigger_prefix (ex_decode X) (ex_encode X) (db_transactions b) idx j \<noteq> None"
  shows "k \<le> length idx \<and>
    (if k < length idx then filter_block_by_trigger_prefix (ex_decode X) (ex_encode X) (db_transactions b) idx k = Some txs
     else txs = db_transactions b)"
proof
  show "k \<le> length idx"
    using prefix_loop_le [of sig receipts ccm 0 "l1_consumed_remaining f" idx]
    by (simp add: assms(4) compute_consumed_trigger_prefix_def)
  show "if k < length idx then filter_block_by_trigger_prefix (ex_decode X) (ex_encode X) (db_transactions b) idx k = Some txs
     else txs = db_transactions b"
    using assms(1) assms(5) [rule_format, of k]
    unfolding apply_generic_filtering_def assms(2) sum.case Let_def assms(3) [symmetric] assms(4) [symmetric]
    by (auto split: if_splits option.splits)
qed


lemma filtered_root:
  assumes "build_derived_block X (saturating_sub (l2_block_number b) 1) (l2_timestamp b) (l1_info b) (db_transactions b) = Inr full"
    and "compute_intermediate_roots X sig ccm (saturating_sub (l2_block_number b) 1) (l2_timestamp b) (l1_info b)
      (built_state_root full) (db_transactions b) = Inr roots"
    and "apply_generic_filtering X sig ccm b f = Inr txs"
    and "build_derived_block X (saturating_sub (l2_block_number b) 1) (l2_timestamp b) (l1_info b) txs = Inr built"
    and "trial_execute_for_receipts X (saturating_sub (l2_block_number b) 1) (l2_timestamp b) (l1_info b)
      (db_transactions b) = Inr receipts"
    and "k = prefix_as_usize (fst (compute_consumed_trigger_prefix sig receipts ccm (l1_consumed_remaining f)
      (identify_trigger_tx_indices sig receipts ccm)))"
  shows "k < length roots \<and> built_state_root built = roots ! k"
proof -
  define idx where "idx = identify_trigger_tx_indices sig receipts ccm"
  note roots = intermediate_roots_nth [OF assms(2,5) idx_def]
  have k: "k \<le> length idx \<and>
      (if k < length idx then filter_block_by_trigger_prefix (ex_decode X) (ex_encode X) (db_transactions b) idx k = Some txs
       else txs = db_transactions b)"
    by (rule generic_filtering_result [OF assms(3,5) idx_def]) (use roots assms(6) in \<open>auto simp: idx_def\<close>)
  note built = build_derived_root [OF assms(4)]
  show ?thesis
  proof (cases "k < length idx")
    case True
    with k roots built show ?thesis by fastforce
  next
    case False
    with k assms(1,4) have "built_state_root built = built_state_root full" "k = length idx" by auto
    moreover have "roots ! length idx = built_state_root full"
    proof (cases "idx = []")
      case True
      with assms(2,5) show ?thesis by (auto simp: compute_intermediate_roots_def idx_def)
    next
      case False
      then have "max (length idx) 1 = length idx" by (cases idx) simp_all
      with roots have "length roots = length idx + 1" "last roots = built_state_root full" by simp_all
      then show ?thesis by (cases roots rule: rev_cases) (simp_all add: nth_append)
    qed
    ultimately show ?thesis using roots by simp
  qed
qed

lemma trial_loop_aligned:
  "exec_loop X s ts = Inr s' \<Longrightarrow> \<exists>rs. trial_loop X s ts = Inr (rs, s') \<and> length rs = length ts"
  by (induction ts arbitrary: s) (fastforce split: if_splits option.splits)+

section \<open>Properties\<close>

text \<open>
  Builder and fullnode agree on the root of a filtered block. The builder computes one root
  per number of consumed triggers of its speculative block; a fullnode that filters the same
  transactions by what L1 consumed and builds the result gets exactly the root the builder
  computed for that number of triggers, also when all or none were consumed.
\<close>

theorem fullnode_root_is_intermediate_root:
  assumes "build_derived_block X (saturating_sub (l2_block_number b) 1) (l2_timestamp b) (l1_info b) (db_transactions b) = Inr full"
    and "compute_intermediate_roots X sig ccm (saturating_sub (l2_block_number b) 1) (l2_timestamp b) (l1_info b)
      (built_state_root full) (db_transactions b) = Inr roots"
    and "apply_generic_filtering X sig ccm b f = Inr txs"
    and "build_derived_block X (saturating_sub (l2_block_number b) 1) (l2_timestamp b) (l1_info b) txs = Inr built"
    and "trial_execute_for_receipts X (saturating_sub (l2_block_number b) 1) (l2_timestamp b) (l1_info b)
      (db_transactions b) = Inr receipts"
    and "k = prefix_as_usize (fst (compute_consumed_trigger_prefix sig receipts ccm (l1_consumed_remaining f)
      (identify_trigger_tx_indices sig receipts ccm)))"
  shows "k < length roots \<and> built_state_root built = roots ! k"
  by (rule filtered_root [OF assms])

text \<open>A toy chain: a transaction is a byte added to the state, from 10 on it is a trigger whose hash is the byte.\<close>

definition toy_executor :: "(nat, 8 word) executor" where
  "toy_executor = \<lparr>ex_snapshot = (\<lambda>_ _ _. Some 0), ex_decode = Some, ex_encode = id, ex_recover = (\<lambda>_. True),
     ex_run = (\<lambda>s t. Some (if t < 10 then [] else [\<lparr>log_address = 2, topics = [1, ucast t], log_data = []\<rparr>], s + unat t)),
     ex_finish = (\<lambda>s. Some \<lparr>sb_hash = 0, sb_state_root = of_nat s, sb_body = []\<rparr>), ex_parent_root = (\<lambda>_. 0)\<rparr>"

definition toy_derived :: "bytes \<Rightarrow> derived_block" where
  "toy_derived txs = \<lparr>l2_block_number = 1, l2_timestamp = 12, l1_info = \<lparr>info_number = 3, info_hash = 4\<rparr>,
     db_state_root = 0, db_transactions = txs, db_is_empty = False, execution_entries = [], filtering = None\<rparr>"

definition toy_filtering :: deferred_filtering where
  "toy_filtering = \<lparr>l1_consumed_remaining = [ActionHash 10 \<mapsto> 1], all_l2_entries = []\<rparr>"

theorem fullnode_root_is_intermediate_root_witness:
  "1 < length [1 :: b256, 11, 31, 61] \<and>
    built_state_root \<lparr>built_hash = 0, pre_state_root = 0, built_state_root = 11, tx_count = 0, encoded_transactions = []\<rparr> =
      [1, 11, 31, 61] ! 1"
  by (rule fullnode_root_is_intermediate_root [where X = toy_executor and b = "toy_derived [1, 10, 20, 30]" and
        sig = 1 and ccm = 2 and f = toy_filtering and txs = "[1, 10]" and
        full = "\<lparr>built_hash = 0, pre_state_root = 0, built_state_root = 61, tx_count = 0, encoded_transactions = []\<rparr>" and
        receipts = "[[], [\<lparr>log_address = 2, topics = [1, 10], log_data = []\<rparr>], [\<lparr>log_address = 2, topics = [1, 20], log_data = []\<rparr>],
          [\<lparr>log_address = 2, topics = [1, 30], log_data = []\<rparr>]]"])
    (simp_all add: toy_executor_def toy_derived_def toy_filtering_def build_derived_block_def execute_block_def
      compute_intermediate_roots_def trial_execute_for_receipts_def identify_trigger_tx_indices_def emits_consumed_def
      filter_block_by_trigger_prefix_def filter_txs_def compute_state_root_with_entries_def apply_generic_filtering_def
      compute_consumed_trigger_prefix_def consumed_hashes_def available_def decrement_def)

text \<open>
  Trial execution of a valid block. For a block that builds, the trial skips nothing: it
  returns one receipt per transaction of the payload, so the receipt indices that mark the
  triggers are transaction indices, and the state after the trial is the built one.
\<close>

theorem trial_receipts_aligned:
  assumes "execute_block X parent ts info encoded = Inr blk" and "encoded \<noteq> []"
  shows "\<exists>txs receipts. ex_decode X encoded = Some txs \<and>
    trial_execute_for_receipts X parent ts info encoded = Inr receipts \<and> length receipts = length txs \<and>
    (\<forall>i \<in> set (identify_trigger_tx_indices sig receipts ccm). i < length txs)"
proof -
  from assms obtain s txs s' where run: "ex_snapshot X parent ts info = Some s" "ex_decode X encoded = Some txs"
    "exec_loop X s txs = Inr s'" "ex_finish X s' = Some blk"
    by (auto simp: execute_block_def split: option.splits sum.splits)
  from trial_loop_aligned [OF run(3)] obtain rs where rs: "trial_loop X s txs = Inr (rs, s')" "length rs = length txs" by blast
  moreover have "\<forall>i \<in> set (identify_trigger_tx_indices sig rs ccm). i < length rs"
    by (auto simp: identify_trigger_tx_indices_def in_set_enumerate_eq)
  ultimately show ?thesis using run assms(2) by (simp add: trial_execute_for_receipts_def)
qed

theorem trial_receipts_aligned_witness:
  "\<exists>txs receipts. ex_decode toy_executor [1, 10] = Some txs \<and>
    trial_execute_for_receipts toy_executor 0 12 \<lparr>info_number = 3, info_hash = 4\<rparr> [1, 10] = Inr receipts \<and>
    length receipts = length txs"
  using trial_receipts_aligned [of toy_executor 0 12 "\<lparr>info_number = 3, info_hash = 4\<rparr>" "[1, 10]"
      "\<lparr>sb_hash = 0, sb_state_root = 11, sb_body = []\<rparr>" 1 2]
  by (auto simp: execute_block_def toy_executor_def)

text \<open>
  The rebuild path does not read the posted transactions. With a proposer and entries to
  rebuild from, when no rebuild step fails, the filtered transactions and the builder's nonce
  are the same whatever the block posted on L1 holds: its user transactions are lost, and
  the pool's are taken instead.
\<close>

theorem rebuild_ignores_calldata:
  fixes posted :: bytes
  assumes "filtering b = Some f" and "all_l2_entries f \<noteq> []"
    and "build_builder_protocol_txs V c (l2_block_number b) (l1_info b) (all_l2_entries f) USIZE_MAX nonce = (Inr full, n')"
    and "trial_execute_for_receipts X (saturating_sub (l2_block_number b) 1) (l2_timestamp b) (l1_info b) full = Inr receipts"
    and "idx = identify_trigger_tx_indices sig receipts ccm"
    and "k = prefix_as_usize (fst (compute_consumed_trigger_prefix sig receipts ccm (l1_consumed_remaining f) idx))"
    and "build_builder_protocol_txs V c (l2_block_number b) (l1_info b) (all_l2_entries f) k nonce = (Inr limited, n'')"
  shows "apply_deferred_filtering X sig ccm V c True (b\<lparr>db_transactions := posted\<rparr>) nonce =
    (if idx = [] \<or> length idx \<le> k then (Inr full, n') else (Inr limited, n''))"
  using assms(7)
  by (simp add: apply_deferred_filtering_def assms(1-6) apply_generic_filtering_via_rebuild_def Let_def)

text \<open>A toy builder whose payload is one byte per transaction, 10 for a trigger.\<close>

definition toy_env :: "8 word block_env" where
  "toy_env = \<lparr>be_encoders = toy_encoders, be_abi = hash_by_value, be_signer = Some (\<lambda>_. Some []), be_chain_id = 1,
     be_header = (\<lambda>_. Some \<lparr>next_block_base_fee = None, parent_gas_limit = 60000000\<rparr>), be_pool = (\<lambda>_. []),
     be_dependent = (\<lambda>_ _. False), be_account_nonce = None,
     be_encode_list = map (\<lambda>t. case t of Pooled b \<Rightarrow> b | Protocol l _ \<Rightarrow>
       if tx_gas_limit l = EXECUTE_INCOMING_GAS_LIMIT then 10 else 1)\<rparr>"

lemma calc_gas_limit_same: "calc_gas_limit 60000000 60000000 = Inr 60000000"
  by (simp add: calc_gas_limit_def clamp_def saturating_sub_def saturating_add_def word_less_nat_alt word_le_nat_alt Let_def)

lemma toy_build:
  "build_builder_protocol_txs toy_env toy_builder 5 info deposit_entries k n =
    (Inr ([1, 1] @ (if k = 0 then [] else [10])), if k = 0 then n + 2 else n + 3)"
  by (cases k) (simp_all add: build_builder_protocol_txs_def toy_env_def protocol_txs_def bootstrap_txs_def toy_builder_def
      build_signed_legacy_tx_def context_txs_def split_entries_def deposit_entries_def build_cross_chain_call_entries_def
      partition_entries_def is_trigger_def result_action_def override_scopes_def is_revert_entry_def table_txs_def trigger_txs_def
      hash_of_def hash_by_value_def to_sol_action_def and_then_def set_context_tx_def load_table_tx_def execute_incoming_tx_def
      legacy_def EXECUTE_INCOMING_GAS_LIMIT_def SET_CONTEXT_GAS_LIMIT_def LOAD_TABLE_GAS_LIMIT_def DESIRED_GAS_LIMIT_def
      calc_gas_limit_same)

theorem rebuild_ignores_calldata_witness:
  "apply_deferred_filtering toy_executor 1 2 toy_env toy_builder True
      ((toy_derived [1, 7, 10])\<lparr>l2_block_number := 5,
        filtering := Some \<lparr>l1_consumed_remaining = Map.empty, all_l2_entries = deposit_entries\<rparr>\<rparr>) 0 = (Inr [1, 1], 2)"
proof -
  let ?f = "\<lparr>l1_consumed_remaining = Map.empty, all_l2_entries = deposit_entries\<rparr>"
  let ?b = "(toy_derived [])\<lparr>l2_block_number := 5, filtering := Some ?f\<rparr>"
  let ?receipts = "[[], [], [\<lparr>log_address = 2, topics = [1, 10], log_data = []\<rparr>]]"
  have idx: "identify_trigger_tx_indices 1 ?receipts 2 = [2]"
    by (simp add: identify_trigger_tx_indices_def emits_consumed_def)
  have entries: "deposit_entries \<noteq> []" by (simp add: deposit_entries_def split: prod.split)
  have k: "fst (compute_consumed_trigger_prefix 1 ?receipts 2 Map.empty [2]) = ConsumedPrefix 0"
    by (simp add: compute_consumed_trigger_prefix_def consumed_hashes_def available_def numeral_2_eq_2 Let_def)
  have "apply_deferred_filtering toy_executor 1 2 toy_env toy_builder True (?b\<lparr>db_transactions := [1, 7, 10]\<rparr>) 0 =
      (if [2 :: nat] = [] \<or> length [2 :: nat] \<le> 0 then (Inr [1, 1, 10], 3) else (Inr [1, 1], 2))"
    by (rule rebuild_ignores_calldata [of _ ?f _ _ _ _ _ _ ?receipts])
      (simp_all add: toy_derived_def toy_build USIZE_MAX_def idx k entries toy_executor_def trial_execute_for_receipts_def)
  then show ?thesis by (simp add: toy_derived_def)
qed

end
