(* ===== verification/Pending_Queue.thy ===== *)
theory Pending_Queue
  imports State_Deltas
begin

text \<open>
  The pending L1 submission queue (\<open>driver/pending_queue.rs\<close>): deferred entries with the
  trigger groups that partition them, and what its operations keep of that partition.
\<close>

section \<open>State\<close>

record trigger_metadata =
  tm_user :: address
  tm_amount :: u256
  tm_rlp_encoded_tx :: bytes
  tm_trigger_count :: nat

record pending_l1_group =
  start :: nat
  mode :: entry_group_mode
  trigger :: "trigger_metadata option"

datatype block_entry_mix = Mix_Empty | OnlyDeposits | OnlyWithdrawals | Mixed

record pending_l1_queue =
  pq_entries :: "cross_chain_execution_entry list"
  pq_groups :: "pending_l1_group list"

section \<open>Operations\<close>

definition empty_pending :: pending_l1_queue where
  "empty_pending = \<lparr>pq_entries = [], pq_groups = []\<rparr>"

definition len_entries :: "pending_l1_queue \<Rightarrow> nat" where
  "len_entries q = length (pq_entries q)"

definition num_groups :: "pending_l1_queue \<Rightarrow> nat" where
  "num_groups q = length (pq_groups q)"

definition pending_is_empty :: "pending_l1_queue \<Rightarrow> bool" where
  "pending_is_empty q \<longleftrightarrow> pq_entries q = []"

definition append_group :: "cross_chain_execution_entry list \<Rightarrow> entry_group_mode
    \<Rightarrow> trigger_metadata option \<Rightarrow> pending_l1_queue \<Rightarrow> pending_l1_queue" where
  "append_group group_entries m t q =
     \<lparr>pq_entries = pq_entries q @ group_entries,
      pq_groups = pq_groups q @ [\<lparr>start = length (pq_entries q), mode = m, trigger = t\<rparr>]\<rparr>"

definition truncate_to :: "nat \<Rightarrow> nat \<Rightarrow> pending_l1_queue \<Rightarrow> pending_l1_queue" where
  "truncate_to entry_len group_count q =
     \<lparr>pq_entries = take entry_len (pq_entries q), pq_groups = take group_count (pq_groups q)\<rparr>"

definition clear_pending :: "pending_l1_queue \<Rightarrow> pending_l1_queue" where
  "clear_pending q = \<lparr>pq_entries = [], pq_groups = []\<rparr>"

definition trim_entries_from_front :: "nat \<Rightarrow> pending_l1_queue \<Rightarrow> pending_l1_queue" where
  "trim_entries_from_front max_entries q =
     (if length (pq_entries q) > max_entries
      then q\<lparr>pq_entries := drop (length (pq_entries q) - max_entries) (pq_entries q)\<rparr>
      else q)"

definition entry_mix :: "pending_l1_queue \<Rightarrow> block_entry_mix" where
  "entry_mix q =
     (if pq_groups q = [] then Mix_Empty
      else case (\<exists>g \<in> set (pq_groups q). trigger g = None, \<exists>g \<in> set (pq_groups q). trigger g \<noteq> None) of
          (True, False) \<Rightarrow> OnlyDeposits
        | (False, True) \<Rightarrow> OnlyWithdrawals
        | (True, True) \<Rightarrow> Mixed
        | (False, False) \<Rightarrow> Mix_Empty)"

section \<open>The groups partition the entries\<close>

definition starts :: "pending_l1_queue \<Rightarrow> nat list" where
  "starts q = map start (pq_groups q)"

definition partitioned :: "pending_l1_queue \<Rightarrow> cross_chain_execution_entry list list \<Rightarrow> bool" where
  "partitioned q gs \<longleftrightarrow> pq_entries q = concat gs \<and> starts q = starts_of 0 gs"

definition queue_ok :: "pending_l1_queue \<Rightarrow> bool" where
  "queue_ok q \<longleftrightarrow> (\<exists>gs. partitioned q gs)"

lemma starts_of_append [simp]:
  "starts_of n (gs @ hs) = starts_of n gs @ starts_of (n + length (concat gs)) hs"
  by (induction gs arbitrary: n) (simp_all add: add.assoc)

lemma length_starts_of [simp]: "length (starts_of n gs) = length gs"
  by (induction gs arbitrary: n) simp_all

lemma partitioned_empty: "partitioned empty_pending []"
  by (simp add: partitioned_def empty_pending_def starts_def)

lemma partitioned_append:
  "partitioned q gs \<Longrightarrow> partitioned (append_group g m t q) (gs @ [g])"
  by (simp add: partitioned_def append_group_def starts_def)

lemma queue_ok_clear [simp]: "queue_ok (clear_pending q)"
  using partitioned_empty by (auto simp: queue_ok_def clear_pending_def empty_pending_def)

text \<open>Appending several groups, as the drains of the driver do.\<close>

type_synonym group_spec = "cross_chain_execution_entry list \<times> entry_group_mode \<times> trigger_metadata option"

definition append_groups :: "group_spec list \<Rightarrow> pending_l1_queue \<Rightarrow> pending_l1_queue" where
  "append_groups gs q = fold (\<lambda>(g, m, t). append_group g m t) gs q"

lemma append_groups_simps [simp]:
  "append_groups [] q = q"
  "append_groups ((g, m, t) # gs) q = append_groups gs (append_group g m t q)"
  "append_groups (gs @ hs) q = append_groups hs (append_groups gs q)"
  by (simp_all add: append_groups_def)

lemma partitioned_append_groups:
  "partitioned q hs \<Longrightarrow> partitioned (append_groups gs q) (hs @ map fst gs)"
proof (induction gs arbitrary: q hs)
  case (Cons g gs)
  obtain es m t where [simp]: "g = (es, m, t)" by (cases g)
  from Cons.IH [OF partitioned_append [OF Cons.prems, of es m t]] show ?case by simp
qed simp

lemma append_groups_prefix:
  "\<exists>es gs'. pq_entries (append_groups gs q) = pq_entries q @ es \<and>
     pq_groups (append_groups gs q) = pq_groups q @ gs' \<and> length gs' = length gs \<and>
     map mode gs' = map (fst \<circ> snd) gs \<and> map trigger gs' = map (snd \<circ> snd) gs"
proof (induction gs arbitrary: q)
  case (Cons g gs)
  obtain es m t where [simp]: "g = (es, m, t)" by (cases g)
  from Cons.IH [of "append_group es m t q"] show ?case
    by (auto simp: append_group_def Cons_eq_append_conv)
qed simp

lemma num_groups_append_groups: "num_groups (append_groups gs q) = num_groups q + length gs"
  using append_groups_prefix [of gs q] by (auto simp: num_groups_def)

lemma truncate_append_groups:
  "truncate_to (len_entries q) (num_groups q) (append_groups gs q) = q"
  using append_groups_prefix [of gs q] by (auto simp: truncate_to_def len_entries_def num_groups_def)

section \<open>Trimming leaves stale boundaries\<close>

lemma sorted_starts_of: "sorted (starts_of n gs) \<and> (\<forall>s \<in> set (starts_of n gs). n \<le> s)"
  by (induction gs arbitrary: n) fastforce+

lemma attach_groups_stale:
  assumes "sorted ss" and "s \<in> set ss" and "length es < s" and "length ss < length roots"
  shows "attach_groups A rollup roots ss es = Inl SliceOutOfRange"
  using assms
proof (induction ss arbitrary: roots es)
  case (Cons a ss)
  from Cons.prems(4) obtain x y roots' where roots: "roots = x # y # roots'"
    by (cases roots; cases "tl roots") auto
  let ?e = "case ss of [] \<Rightarrow> length es | next # _ \<Rightarrow> next"
  show ?case
  proof (cases "slice_range es a ?e")
    case (Inl p)
    then have "p = SliceOutOfRange" by (simp add: slice_range_def split: if_splits)
    with Inl roots show ?thesis by (simp add: Let_def)
  next
    case (Inr grp)
    then have ae: "a \<le> ?e" "?e \<le> length es" by (simp_all add: slice_range_def split: if_splits)
    have "s \<in> set ss" using Cons.prems(2,3) ae by auto
    then have "attach_groups A rollup (y # roots') ss es' = Inl SliceOutOfRange" if "length es' = length es" for es'
      using Cons.IH [where roots = "y # roots'" and es = es'] Cons.prems that roots by simp
    with Inr roots show ?thesis by (simp add: Let_def attach_group_def)
  qed
qed simp

section \<open>Properties\<close>

text \<open>
  The groups of the queue always partition its entries in submission order. Starting from
  an empty queue, appending groups keeps every group readable between its start and the next
  one, so the unified chain of state deltas can be attached: with one root per boundary and no
  empty group the deltas lead from the first root to the last.
\<close>

theorem pending_groups_form_one_chain:
  assumes "q = append_groups gs empty_pending"
    and "\<forall>g \<in> set gs. fst g \<noteq> []" and "length roots = num_groups q + 1"
  shows "num_groups q = length gs \<and> pq_entries q = concat (map fst gs) \<and>
    (\<exists>es'. attach_generic_state_deltas A (pq_entries q) roots rollup (starts q) = Inr es' \<and>
       chained (hd roots) es' (last roots) \<and> map without_deltas es' = map without_deltas (pq_entries q))"
proof -
  have p: "partitioned q (map fst gs)"
    using partitioned_append_groups [OF partitioned_empty, of gs] assms(1) by simp
  have n: "num_groups q = length gs"
    unfolding assms(1) num_groups_append_groups by (simp add: num_groups_def empty_pending_def)
  have r: "length roots = length (map fst gs) + 1" using assms(3) n by simp
  have "attach_generic_state_deltas A (pq_entries q) roots rollup (starts q) =
      Inr (groups_result A rollup roots (map fst gs))"
    using attach_groups_result [OF r, of A rollup "[]"] p
    by (simp add: attach_generic_state_deltas_def partitioned_def)
  moreover have "chained (hd roots) (groups_result A rollup roots (map fst gs)) (last roots)"
    by (rule chained_groups_result [OF r]) (use assms(2) in auto)
  ultimately show ?thesis
    using p n by (simp add: partitioned_def without_deltas_groups_result)
qed

theorem pending_groups_form_one_chain_witness:
  "num_groups (append_groups [([sample_entry], Chained, None), ([sample_entry, sample_entry], Chained, None)] empty_pending) =
      length [([sample_entry], Chained, None), ([sample_entry, sample_entry], Chained, None :: trigger_metadata option)] \<and>
   pq_entries (append_groups [([sample_entry], Chained, None), ([sample_entry, sample_entry], Chained, None)] empty_pending) =
      concat (map fst [([sample_entry], Chained, None), ([sample_entry, sample_entry], Chained, None :: trigger_metadata option)]) \<and>
   (\<exists>es'. attach_generic_state_deltas \<lparr>keccak = be_word, enc_action = sol_data, enc_deltas = (\<lambda>_. []), enc_words = (\<lambda>_. [])\<rparr>
        (pq_entries (append_groups [([sample_entry], Chained, None), ([sample_entry, sample_entry], Chained, None)] empty_pending))
        [10, 20, 30] 1 (starts (append_groups [([sample_entry], Chained, None), ([sample_entry, sample_entry], Chained, None)] empty_pending)) = Inr es' \<and>
      chained (hd [10, 20, 30]) es' (last [10, 20, 30]) \<and> map without_deltas es' = map without_deltas
        (pq_entries (append_groups [([sample_entry], Chained, None), ([sample_entry, sample_entry], Chained, None)] empty_pending)))"
  by (rule pending_groups_form_one_chain [OF refl])
    (simp_all add: num_groups_def append_group_def empty_pending_def)

text \<open>
  Trimming the front of the queue does not adjust the group boundaries. When a group of a
  well-formed queue starts beyond the kept length, attaching the chain to the trimmed queue
  panics on a slice out of range, whatever the roots are (one per boundary).
\<close>

theorem trimmed_queue_panics:
  assumes "queue_ok q" and "g \<in> set (pq_groups q)" and "max_entries < start g"
    and "length roots = num_groups q + 1"
  shows "attach_generic_state_deltas A (pq_entries (trim_entries_from_front max_entries q)) roots rollup
      (starts (trim_entries_from_front max_entries q)) = Inl SliceOutOfRange"
proof -
  obtain gs where gs: "pq_entries q = concat gs" "starts q = starts_of 0 gs"
    using assms(1) by (auto simp: queue_ok_def partitioned_def)
  have mem: "start g \<in> set (starts q)" using assms(2) by (simp add: starts_def)
  have bound: "s \<in> set (starts_of n gs) \<Longrightarrow> s \<le> n + length (concat gs)" for s n
    by (induction gs arbitrary: n) fastforce+
  have len: "length gs = length (pq_groups q)"
    using gs(2) length_starts_of [of 0 gs] by (metis length_map starts_def)
  have "max_entries < length (pq_entries q)"
    using bound [of "start g" 0] mem gs assms(3) by simp
  then have trim: "length (pq_entries (trim_entries_from_front max_entries q)) = max_entries"
      "starts (trim_entries_from_front max_entries q) = starts q"
    by (simp_all add: trim_entries_from_front_def starts_def)
  show ?thesis
    unfolding attach_generic_state_deltas_def
    by (rule attach_groups_stale [where s = "start g"])
      (use sorted_starts_of [of 0 gs] gs mem assms(3,4) trim len in \<open>simp_all add: num_groups_def starts_def\<close>)
qed

theorem trimmed_queue_panics_witness:
  "attach_generic_state_deltas \<lparr>keccak = be_word, enc_action = sol_data, enc_deltas = (\<lambda>_. []), enc_words = (\<lambda>_. [])\<rparr>
     (pq_entries (trim_entries_from_front 1
        (append_groups [([sample_entry, sample_entry], Chained, None), ([sample_entry], Chained, None)] empty_pending)))
     [10, 20, 30] 1
     (starts (trim_entries_from_front 1
        (append_groups [([sample_entry, sample_entry], Chained, None), ([sample_entry], Chained, None)] empty_pending)))
   = Inl SliceOutOfRange"
proof (rule trimmed_queue_panics [where g = "\<lparr>start = 2, mode = Chained, trigger = None\<rparr>"])
  show "queue_ok (append_groups [([sample_entry, sample_entry], Chained, None), ([sample_entry], Chained, None)] empty_pending)"
    using partitioned_append_groups [OF partitioned_empty] by (auto simp: queue_ok_def simp del: append_groups_simps)
qed (simp_all add: append_group_def empty_pending_def num_groups_def)

end
