(* ===== verification/Queue_Drain.thy ===== *)
theory Queue_Drain
  imports Pending_Queue Sim_Artifact Call_Entries
begin

text \<open>
  Draining the RPC queues into a block (\<open>driver/step_builder.rs\<close>, with the queued calls of
  \<open>rpc.rs\<close>): the L1-to-L2 queue sorted by gas price with one continuation per cycle, the
  L2-to-L1 queue, the snapshot and its rollback after a failed build. The entries fetched
  from L1 by the derivation pipeline are a parameter of the drain.
\<close>

section \<open>Queued calls\<close>

datatype queued_cross_chain_call =
    Simple_Call (s_call_entry: cross_chain_execution_entry) (s_result_entry: cross_chain_execution_entry)
      (gas_price: u128) (raw_l1_tx: bytes) (tx_reverts: tx_outcome) (l1_independent: entry_group_mode)
  | With_Continuations (c_table_entries: "cross_chain_execution_entry list")
      (c_l1_entries: "cross_chain_execution_entry list")
      (gas_price: u128) (raw_l1_tx: bytes) (tx_reverts: tx_outcome) (l1_independent: entry_group_mode)

fun is_continuation :: "queued_cross_chain_call \<Rightarrow> bool" where
  "is_continuation (Simple_Call _ _ _ _ _ _) = False"
| "is_continuation (With_Continuations _ _ _ _ _ _) = True"

fun tracking_action_hash :: "queued_cross_chain_call \<Rightarrow> action_hash" where
  "tracking_action_hash (Simple_Call c _ _ _ _ _) = action_hash c"
| "tracking_action_hash (With_Continuations es _ _ _ _ _) =
     (case es of [] \<Rightarrow> ZERO_HASH | e # _ \<Rightarrow> action_hash e)"

record queued_l2_to_l1_call =
  q_l2_table_entries :: "cross_chain_execution_entry list"
  q_l1_deferred_entries :: "cross_chain_execution_entry list"
  q_user :: address
  q_amount :: u256
  q_raw_l2_tx :: bytes
  q_rlp_encoded_tx :: bytes
  q_trigger_count :: nat
  q_tx_reverts :: tx_outcome

section \<open>The L1-to-L2 drain\<close>

text \<open>
  The table entries and the L1 group of one call. \<open>oc\<close> and \<open>sels\<close> are the parameters of
  \<^const>\<open>is_simulation_artifact\<close>; the operands of \<open>&&\<close> are evaluated from the left.
\<close>

fun call_contribution :: "bool \<Rightarrow> bytes list \<Rightarrow> queued_cross_chain_call
    \<Rightarrow> panic + cross_chain_execution_entry list \<times> cross_chain_execution_entry list" where
  "call_contribution oc sels (Simple_Call c r _ _ _ _) =
     (let l1 = convert_pairs_to_l1_entries [c, r] in
      if failed (next_action r) then
        (case is_simulation_artifact oc sels (call_data (next_action r)) of
           Inl p \<Rightarrow> Inl p
         | Inr artifact \<Rightarrow> Inr (if \<not> artifact then [] else [c, r], l1))
      else Inr ([c, r], l1))"
| "call_contribution oc sels (With_Continuations es l1 _ _ _ _) =
     (if es = [] then Inr (es, l1)
      else let e = last es in
        if failed (next_action e) \<and> call_data (next_action e) \<noteq> [] then
          (case is_simulation_artifact oc sels (call_data (next_action e)) of
             Inl p \<Rightarrow> Inl p
           | Inr artifact \<Rightarrow> Inr (if \<not> artifact then [] else es, l1))
        else Inr (es, l1))"

record l1_drain =
  dr_queue :: "queued_cross_chain_call list"
  dr_had_continuation :: bool
  dr_rpc_entries :: "cross_chain_execution_entry list"
  dr_l1_txs :: "bytes list"
  dr_pending :: pending_l1_queue
  dr_repush :: "queued_cross_chain_call list"

fun drain_loop :: "bool \<Rightarrow> bytes list \<Rightarrow> queued_cross_chain_call list \<Rightarrow> l1_drain \<Rightarrow> panic + l1_drain" where
  "drain_loop oc sels [] s = Inr s"
| "drain_loop oc sels (c # cs) s =
     (if is_continuation c \<and> dr_had_continuation s
      then drain_loop oc sels cs (s\<lparr>dr_queue := dr_queue s @ [c]\<rparr>)
      else case call_contribution oc sels c of
          Inl p \<Rightarrow> Inl p
        | Inr (l2, l1) \<Rightarrow>
            drain_loop oc sels cs
              (s\<lparr>dr_had_continuation := dr_had_continuation s \<or> is_continuation c,
                 dr_rpc_entries := dr_rpc_entries s @ l2,
                 dr_l1_txs := (if raw_l1_tx c \<noteq> [] then dr_l1_txs s @ [raw_l1_tx c] else dr_l1_txs s),
                 dr_pending := append_group l1 (l1_independent c) None (dr_pending s),
                 dr_repush := dr_repush s @ [c]\<rparr>))"

definition sort_by_gas_price :: "queued_cross_chain_call list \<Rightarrow> queued_cross_chain_call list" where
  "sort_by_gas_price calls = sort_key (\<lambda>c. - uint (gas_price c)) calls"

section \<open>The whole drain and its rollback\<close>

definition l2_to_l1_group :: "queued_l2_to_l1_call
    \<Rightarrow> cross_chain_execution_entry list \<times> entry_group_mode \<times> trigger_metadata option" where
  "l2_to_l1_group w = (q_l1_deferred_entries w, Chained,
     Some \<lparr>tm_user = q_user w, tm_amount = q_amount w, tm_rlp_encoded_tx = q_rlp_encoded_tx w,
       tm_trigger_count = q_trigger_count w\<rparr>)"

record queue_drain_result =
  builder_execution_entries :: "cross_chain_execution_entry list"
  rpc_entry_count :: nat
  queued_l1_txs :: "bytes list"
  held_l2_txs :: "bytes list"
  pre_drain_l1_len :: nat
  pre_drain_l1_groups :: nat
  calls_for_repush :: "queued_cross_chain_call list"
  l2_to_l1_for_repush :: "queued_l2_to_l1_call list"

record rpc_queues =
  queued_cross_chain_calls :: "queued_cross_chain_call list"
  queued_l2_to_l1_calls :: "queued_l2_to_l1_call list"
  pending_l1 :: pending_l1_queue

definition drain_rpc_queues :: "bool \<Rightarrow> bytes list \<Rightarrow> cross_chain_execution_entry list \<Rightarrow> rpc_queues
    \<Rightarrow> panic + queue_drain_result \<times> rpc_queues" where
  "drain_rpc_queues oc sels fetched s =
     (case drain_loop oc sels (sort_by_gas_price (queued_cross_chain_calls s))
        \<lparr>dr_queue = [], dr_had_continuation = False, dr_rpc_entries = [], dr_l1_txs = [],
         dr_pending = pending_l1 s, dr_repush = []\<rparr> of
        Inl p \<Rightarrow> Inl p
      | Inr d \<Rightarrow>
          let ws = queued_l2_to_l1_calls s;
              tables = concat (map q_l2_table_entries ws)
          in Inr (\<lparr>builder_execution_entries = (fetched @ dr_rpc_entries d) @ tables,
                   rpc_entry_count = length (dr_rpc_entries d) + sum_list (map (length \<circ> q_l2_table_entries) ws),
                   queued_l1_txs = dr_l1_txs d,
                   held_l2_txs = filter (\<lambda>tx. tx \<noteq> []) (map q_raw_l2_tx ws),
                   pre_drain_l1_len = len_entries (pending_l1 s),
                   pre_drain_l1_groups = num_groups (pending_l1 s),
                   calls_for_repush = dr_repush d,
                   l2_to_l1_for_repush = ws\<rparr>,
                  \<lparr>queued_cross_chain_calls = dr_queue d, queued_l2_to_l1_calls = [],
                   pending_l1 = append_groups (map l2_to_l1_group ws) (dr_pending d)\<rparr>))"

definition rollback_queue_drain :: "queue_drain_result \<Rightarrow> rpc_queues \<Rightarrow> rpc_queues" where
  "rollback_queue_drain r s =
     \<lparr>queued_cross_chain_calls = queued_cross_chain_calls s @ calls_for_repush r,
      queued_l2_to_l1_calls = queued_l2_to_l1_calls s @ l2_to_l1_for_repush r,
      pending_l1 = truncate_to (pre_drain_l1_len r) (pre_drain_l1_groups r) (pending_l1 s)\<rparr>"

section \<open>What the loop does\<close>

text \<open>
  The calls that a drain takes, and those it leaves: every simple call is taken, of the
  continuations only the first.
\<close>

fun taken :: "bool \<Rightarrow> queued_cross_chain_call list \<Rightarrow> queued_cross_chain_call list" where
  "taken had [] = []"
| "taken had (c # cs) =
     (if is_continuation c \<and> had then taken had cs else c # taken (had \<or> is_continuation c) cs)"

fun left :: "bool \<Rightarrow> queued_cross_chain_call list \<Rightarrow> queued_cross_chain_call list" where
  "left had [] = []"
| "left had (c # cs) =
     (if is_continuation c \<and> had then c # left had cs else left (had \<or> is_continuation c) cs)"

definition l1_group :: "bool \<Rightarrow> bytes list \<Rightarrow> queued_cross_chain_call
    \<Rightarrow> cross_chain_execution_entry list \<times> entry_group_mode \<times> trigger_metadata option" where
  "l1_group oc sels c =
     ((case call_contribution oc sels c of Inr (_, l1) \<Rightarrow> l1 | Inl _ \<Rightarrow> []), l1_independent c, None)"

lemma drain_loop_result:
  "drain_loop oc sels cs s = Inr d \<Longrightarrow>
     dr_queue d = dr_queue s @ left (dr_had_continuation s) cs \<and>
     dr_repush d = dr_repush s @ taken (dr_had_continuation s) cs \<and>
     dr_pending d = append_groups (map (l1_group oc sels) (taken (dr_had_continuation s) cs)) (dr_pending s) \<and>
     dr_l1_txs d = dr_l1_txs s @ filter (\<lambda>tx. tx \<noteq> []) (map raw_l1_tx (taken (dr_had_continuation s) cs))"
  by (induction cs arbitrary: s) (auto split: if_splits sum.splits simp: l1_group_def)

lemma taken_left_mset: "mset (taken had cs) + mset (left had cs) = mset cs"
  by (induction cs arbitrary: had) auto

lemma set_taken: "set (taken had cs) \<subseteq> set cs"
  by (induction cs arbitrary: had) (auto split: if_splits)

lemma sorted_wrt_taken: "sorted_wrt P cs \<Longrightarrow> sorted_wrt P (taken had cs)"
  using set_taken by (induction cs arbitrary: had) fastforce+

lemma taken_continuations:
  "filter is_continuation (taken had cs) = (if had then [] else take 1 (filter is_continuation cs))"
  by (induction cs arbitrary: had) auto

lemma taken_simple: "filter (\<lambda>c. \<not> is_continuation c) (taken had cs) = filter (\<lambda>c. \<not> is_continuation c) cs"
  by (induction cs arbitrary: had) auto

lemma drain_rpc_queuesE:
  assumes "drain_rpc_queues oc sels fetched s = Inr (r, s')"
  obtains d where
    "drain_loop oc sels (sort_by_gas_price (queued_cross_chain_calls s))
        \<lparr>dr_queue = [], dr_had_continuation = False, dr_rpc_entries = [], dr_l1_txs = [],
         dr_pending = pending_l1 s, dr_repush = []\<rparr> = Inr d"
    "builder_execution_entries r = fetched @ dr_rpc_entries d @ concat (map q_l2_table_entries (queued_l2_to_l1_calls s))"
    "rpc_entry_count r = length (dr_rpc_entries d) + length (concat (map q_l2_table_entries (queued_l2_to_l1_calls s)))"
    "queued_cross_chain_calls s' = left False (sort_by_gas_price (queued_cross_chain_calls s))"
    "calls_for_repush r = taken False (sort_by_gas_price (queued_cross_chain_calls s))"
    "queued_l2_to_l1_calls s' = []" "l2_to_l1_for_repush r = queued_l2_to_l1_calls s"
    "queued_l1_txs r = filter (\<lambda>tx. tx \<noteq> []) (map raw_l1_tx (calls_for_repush r))"
    "pre_drain_l1_len r = len_entries (pending_l1 s)" "pre_drain_l1_groups r = num_groups (pending_l1 s)"
    "pending_l1 s' = append_groups (map (l1_group oc sels) (calls_for_repush r)
        @ map l2_to_l1_group (queued_l2_to_l1_calls s)) (pending_l1 s)"
  using assms by (auto simp: drain_rpc_queues_def Let_def length_concat comp_def split: sum.splits
      dest!: drain_loop_result)

section \<open>Properties\<close>

text \<open>
  A drain followed by its rollback loses no call and leaves no entry behind. Whatever the
  RPC pushes in between, the pending L1 queue is exactly the one before the drain, the
  L1-to-L2 queue holds the calls it held (the pushed ones included) as a multiset, and the
  L2-to-L1 queue holds the pushed calls followed by the old ones in order.
\<close>

theorem drain_rollback_lossless:
  assumes "drain_rpc_queues oc sels fetched s = Inr (r, s')"
  shows "pending_l1 (rollback_queue_drain r
      (s'\<lparr>queued_cross_chain_calls := queued_cross_chain_calls s' @ cs, queued_l2_to_l1_calls := ws\<rparr>)) = pending_l1 s \<and>
    mset (queued_cross_chain_calls (rollback_queue_drain r
      (s'\<lparr>queued_cross_chain_calls := queued_cross_chain_calls s' @ cs, queued_l2_to_l1_calls := ws\<rparr>))) =
      mset (queued_cross_chain_calls s) + mset cs \<and>
    queued_l2_to_l1_calls (rollback_queue_drain r
      (s'\<lparr>queued_cross_chain_calls := queued_cross_chain_calls s' @ cs, queued_l2_to_l1_calls := ws\<rparr>)) =
      ws @ queued_l2_to_l1_calls s"
  using assms
proof (rule drain_rpc_queuesE)
  fix d
  assume r: "queued_cross_chain_calls s' = left False (sort_by_gas_price (queued_cross_chain_calls s))"
    "calls_for_repush r = taken False (sort_by_gas_price (queued_cross_chain_calls s))"
    "l2_to_l1_for_repush r = queued_l2_to_l1_calls s"
    "pre_drain_l1_len r = len_entries (pending_l1 s)" "pre_drain_l1_groups r = num_groups (pending_l1 s)"
    "pending_l1 s' = append_groups (map (l1_group oc sels) (calls_for_repush r)
        @ map l2_to_l1_group (queued_l2_to_l1_calls s)) (pending_l1 s)"
  have "mset (left False (sort_by_gas_price (queued_cross_chain_calls s)))
      + mset (taken False (sort_by_gas_price (queued_cross_chain_calls s))) = mset (queued_cross_chain_calls s)"
    using taken_left_mset [of False "sort_by_gas_price (queued_cross_chain_calls s)"]
    by (simp add: sort_by_gas_price_def add.commute)
  with r show ?thesis
    by (simp add: rollback_queue_drain_def truncate_append_groups ac_simps del: append_groups_simps)
qed

definition toy_simple :: "u128 \<Rightarrow> queued_cross_chain_call" where
  "toy_simple p = Simple_Call sample_entry sample_entry p [1] Outcome_Success Chained"

definition toy_continuation :: "u128 \<Rightarrow> queued_cross_chain_call" where
  "toy_continuation p = With_Continuations [sample_entry, sample_entry] [sample_entry] p [] Outcome_Success Chained"

definition toy_queues :: rpc_queues where
  "toy_queues = \<lparr>queued_cross_chain_calls = [toy_continuation 1, toy_simple 3, toy_continuation 2],
     queued_l2_to_l1_calls = [], pending_l1 = empty_pending\<rparr>"

lemma toy_drain: "\<exists>r s'. drain_rpc_queues True [] [] toy_queues = Inr (r, s')"
  by (simp add: drain_rpc_queues_def toy_queues_def toy_simple_def toy_continuation_def
      sort_by_gas_price_def sample_entry_def  Let_def)

theorem drain_rollback_lossless_witness:
  "\<exists>r s'. drain_rpc_queues True [] [] toy_queues = Inr (r, s') \<and>
    pending_l1 (rollback_queue_drain r (s'\<lparr>queued_cross_chain_calls := queued_cross_chain_calls s' @ [], queued_l2_to_l1_calls := []\<rparr>))
      = empty_pending"
  using toy_drain drain_rollback_lossless [of True "[]" "[]" toy_queues _ _ "[]" "[]"]
  by (metis toy_queues_def rpc_queues.select_convs(3))

text \<open>
  What a drain takes. The taken calls are in descending order of gas price (equal prices
  in queue order), they are all simple calls and exactly one continuation when there is any, the
  one with the highest price; the other continuations stay in the queue. The L1 groups are
  appended in the same order, one per call and then one per L2-to-L1 call, and
  \<open>rpc_entry_count\<close> counts the table entries of the queues at the back of the merged vector.
\<close>

theorem drain_takes_one_continuation:
  assumes "drain_rpc_queues oc sels fetched s = Inr (r, s')"
  shows "sorted_wrt (\<lambda>a b. gas_price b \<le> gas_price a) (calls_for_repush r) \<and>
    filter (\<lambda>c. \<not> is_continuation c) (calls_for_repush r) =
      filter (\<lambda>c. \<not> is_continuation c) (sort_by_gas_price (queued_cross_chain_calls s)) \<and>
    filter is_continuation (calls_for_repush r) =
      take 1 (filter is_continuation (sort_by_gas_price (queued_cross_chain_calls s))) \<and>
    mset (queued_cross_chain_calls s') + mset (calls_for_repush r) = mset (queued_cross_chain_calls s) \<and>
    num_groups (pending_l1 s') = num_groups (pending_l1 s) + length (calls_for_repush r)
      + length (queued_l2_to_l1_calls s) \<and>
    take (length (builder_execution_entries r) - rpc_entry_count r) (builder_execution_entries r) = fetched"
  using assms
proof (rule drain_rpc_queuesE)
  fix d
  let ?sorted = "sort_by_gas_price (queued_cross_chain_calls s)"
  assume r: "builder_execution_entries r = fetched @ dr_rpc_entries d @ concat (map q_l2_table_entries (queued_l2_to_l1_calls s))"
    "rpc_entry_count r = length (dr_rpc_entries d) + length (concat (map q_l2_table_entries (queued_l2_to_l1_calls s)))"
    "queued_cross_chain_calls s' = left False ?sorted" "calls_for_repush r = taken False ?sorted"
    "pending_l1 s' = append_groups (map (l1_group oc sels) (calls_for_repush r)
        @ map l2_to_l1_group (queued_l2_to_l1_calls s)) (pending_l1 s)"
  have "sorted_wrt (\<lambda>a b. gas_price b \<le> gas_price a) ?sorted"
    using sorted_sort_key [of "\<lambda>c. - uint (gas_price c)" "queued_cross_chain_calls s"]
    by (simp add: sort_by_gas_price_def sorted_map word_le_def)
  then have "sorted_wrt (\<lambda>a b. gas_price b \<le> gas_price a) (calls_for_repush r)"
    unfolding r by (rule sorted_wrt_taken)
  moreover have "mset (queued_cross_chain_calls s') + mset (calls_for_repush r) = mset (queued_cross_chain_calls s)"
    using r taken_left_mset [of False ?sorted] by (simp add: sort_by_gas_price_def add.commute)
  moreover have "num_groups (pending_l1 s') = num_groups (pending_l1 s) + length (calls_for_repush r)
      + length (queued_l2_to_l1_calls s)"
    unfolding r(5) num_groups_append_groups by simp
  ultimately show ?thesis
    using r by (simp add: taken_simple taken_continuations)
qed

theorem drain_takes_one_continuation_witness:
  "\<exists>r s'. drain_rpc_queues True [] [] toy_queues = Inr (r, s') \<and>
    filter is_continuation (calls_for_repush r) =
      take 1 (filter is_continuation (sort_by_gas_price (queued_cross_chain_calls toy_queues)))"
  using toy_drain drain_takes_one_continuation [of True "[]" "[]" toy_queues] by metis

end
