(* ===== verification/Hold.thy ===== *)
theory Hold
  imports Prelude
begin

text \<open>
  The entry-verification hold (\<open>driver/hold.rs\<close>): the state machine that stops block
  production and submissions between sending a batch with entries and verifying its block.
  The deferral counter is a \<open>u32\<close>; its increment wraps here as in a release build (a debug
  build panics instead, after \<open>2 ^ 32\<close> deferrals of one hold).
\<close>

section \<open>The state machine\<close>

definition MAX_ENTRY_VERIFY_DEFERRALS :: u32 where
  "MAX_ENTRY_VERIFY_DEFERRALS = 3"

datatype deferral_result =
    Continue u32
  | MustRewind u64
  | NotArmed

datatype entry_verification_hold =
    Clear
  | Armed u64 u32

fun arm :: "u64 \<Rightarrow> entry_verification_hold \<Rightarrow> entry_verification_hold" where
  "arm b (Armed current n) = (if current = b then Armed current n else Armed b 0)"
| "arm b Clear = Armed b 0"

fun defer_hold :: "entry_verification_hold \<Rightarrow> deferral_result \<times> entry_verification_hold" where
  "defer_hold Clear = (NotArmed, Clear)"
| "defer_hold (Armed b n) =
     (let n' = n + 1 in
      (if n' < MAX_ENTRY_VERIFY_DEFERRALS then Continue n' else MustRewind (saturating_sub b 1),
       Armed b n'))"

definition clear :: "entry_verification_hold \<Rightarrow> entry_verification_hold" where
  "clear h = Clear"

fun is_armed :: "entry_verification_hold \<Rightarrow> bool" where
  "is_armed Clear = False"
| "is_armed (Armed _ _) = True"

definition is_blocking_build :: "entry_verification_hold \<Rightarrow> bool" where
  "is_blocking_build h = is_armed h"

fun armed_for :: "entry_verification_hold \<Rightarrow> u64 option" where
  "armed_for Clear = None"
| "armed_for (Armed b _) = Some b"

fun hold_deferrals :: "entry_verification_hold \<Rightarrow> u32" where
  "hold_deferrals Clear = 0"
| "hold_deferrals (Armed _ n) = n"

fun is_armed_for :: "u64 \<Rightarrow> entry_verification_hold \<Rightarrow> bool" where
  "is_armed_for b Clear = False"
| "is_armed_for b (Armed current _) = (current = b)"

section \<open>Runs\<close>

text \<open>A sequence of calls on one hold, with the results of the deferrals.\<close>

datatype hold_op = Op_Arm u64 | Op_Defer | Op_Clear

fun hold_run :: "hold_op list \<Rightarrow> entry_verification_hold \<Rightarrow> deferral_result list \<times> entry_verification_hold" where
  "hold_run [] h = ([], h)"
| "hold_run (Op_Arm b # ops) h = hold_run ops (arm b h)"
| "hold_run (Op_Defer # ops) h =
     (let (r, h') = defer_hold h; (rs, h'') = hold_run ops h' in (r # rs, h''))"
| "hold_run (Op_Clear # ops) h = hold_run ops (clear h)"

text \<open>The intended answer to the k-th deferral of one hold, for block b.\<close>

definition deferral_answer :: "u64 \<Rightarrow> nat \<Rightarrow> deferral_result" where
  "deferral_answer b k = (if k < 3 then Continue (of_nat k) else MustRewind (saturating_sub b 1))"

definition defers :: "hold_op list \<Rightarrow> nat" where
  "defers ops = length (filter (\<lambda>op. op = Op_Defer) ops)"

lemma defers_simps [simp]:
  "defers [] = 0" "defers (Op_Defer # ops) = Suc (defers ops)"
  "defers (Op_Arm b # ops) = defers ops" "defers (Op_Clear # ops) = defers ops"
  by (simp_all add: defers_def)

lemma less_MAX_iff: "k < 2 ^ 32 \<Longrightarrow> (of_nat k :: u32) < MAX_ENTRY_VERIFY_DEFERRALS \<longleftrightarrow> k < 3"
  by (simp add: MAX_ENTRY_VERIFY_DEFERRALS_def word_less_nat_alt unat_of_nat take_bit_nat_eq_self)

lemma defer_answer:
  "Suc n < 2 ^ 32 \<Longrightarrow> defer_hold (Armed b (of_nat n)) = (deferral_answer b (Suc n), Armed b (of_nat (Suc n)))"
  using less_MAX_iff [of "Suc n"] by (simp add: deferral_answer_def add.commute Let_def)

lemma hold_run_answers:
  assumes "set ops \<subseteq> {Op_Arm b, Op_Defer}" and "n + defers ops < 2 ^ 32"
  shows "hold_run ops (Armed b (of_nat n)) =
    (map (\<lambda>k. deferral_answer b (n + k)) [1..<Suc (defers ops)], Armed b (of_nat (n + defers ops)))"
  using assms
proof (induction ops arbitrary: n)
  case (Cons op ops)
  from Cons.prems(1) consider "op = Op_Arm b" | "op = Op_Defer" by auto
  then show ?case
  proof cases
    case 2
    have "defer_hold (Armed b (of_nat n)) = (deferral_answer b (Suc n), Armed b (of_nat (Suc n)))"
      by (rule defer_answer) (use Cons.prems 2 in simp)
    moreover have "hold_run ops (Armed b (of_nat (Suc n))) =
      (map (\<lambda>k. deferral_answer b (Suc n + k)) [1..<Suc (defers ops)], Armed b (of_nat (Suc n + defers ops)))"
      by (rule Cons.IH) (use Cons.prems 2 in simp_all)
    moreover have "map (\<lambda>k. deferral_answer b (n + k)) [1..<Suc (Suc (defers ops))] =
        deferral_answer b (Suc n) # map (\<lambda>k. deferral_answer b (Suc n + k)) [1..<Suc (defers ops)]"
      by (subst upt_conv_Cons) (simp_all add: map_Suc_upt [symmetric] del: map_Suc_upt upt_Suc)
    ultimately show ?thesis
      using 2 by (simp del: upt_Suc defer_hold.simps of_nat_Suc)
  qed (use Cons in simp)
qed simp

section \<open>The hold blocks until it is cleared\<close>

inductive hold_step :: "entry_verification_hold \<Rightarrow> entry_verification_hold \<Rightarrow> bool" where
  step_arm: "hold_step h (arm b h)"
| step_defer: "hold_step h (snd (defer_hold h))"

lemma arm_armed [simp]: "is_armed (arm b h)"
  by (cases h) simp_all

lemma defer_armed [simp]: "is_armed (snd (defer_hold h)) = is_armed h"
  by (cases h) (simp_all add: Let_def)

interpretation hold_inv: step_invariant hold_step is_blocking_build
  by unfold_locales (auto simp: is_blocking_build_def elim: hold_step.cases)

section \<open>Properties\<close>

text \<open>
  The deferral budget. Once a hold is armed for a block, re-arming it for the same block
  changes nothing, and the answers to its deferrals are Continue(1), Continue(2), and from the
  third on MustRewind with the block before the entry block (genesis saturates), however arms
  and deferrals are interleaved.
\<close>

theorem hold_deferral_budget:
  assumes "armed_for h \<noteq> Some b" and "set ops \<subseteq> {Op_Arm b, Op_Defer}" and "defers ops < 2 ^ 32"
  shows "hold_run (Op_Arm b # ops) h =
    (map (deferral_answer b) [1..<Suc (defers ops)], Armed b (of_nat (defers ops)))"
proof -
  have "arm b h = Armed b (of_nat 0)"
    using assms(1) by (cases h) simp_all
  then show ?thesis
    using hold_run_answers [of ops b 0] assms(2,3) by (simp del: of_nat_0 upt_Suc)
qed

theorem hold_deferral_budget_witness:
  "hold_run (Op_Arm 7 # [Op_Defer, Op_Arm 7, Op_Defer, Op_Defer]) Clear =
    (map (deferral_answer 7) [1..<Suc (defers [Op_Defer, Op_Arm 7, Op_Defer, Op_Defer])],
     Armed 7 (of_nat (defers [Op_Defer, Op_Arm 7, Op_Defer, Op_Defer])))"
  by (rule hold_deferral_budget) simp_all

text \<open>
  Production stays halted. From a hold that blocks building, no sequence of arms and
  deferrals leads to one that does not: only clearing it releases the builder.
\<close>

theorem hold_blocks_until_cleared:
  assumes "hold_step\<^sup>*\<^sup>* h h'" and "is_blocking_build h"
  shows "is_blocking_build h'"
  using assms by (rule hold_inv.reachable_inv)

theorem hold_blocks_until_cleared_witness:
  "is_blocking_build (snd (defer_hold (arm 7 Clear)))"
  by (rule hold_blocks_until_cleared [where h = "arm 7 Clear"])
    (simp_all add: is_blocking_build_def r_into_rtranclp step_defer del: arm.simps defer_hold.simps)

end
