(* ===== verification/Derivation_Cursor.thy ===== *)
theory Derivation_Cursor
  imports Derivation
begin

text \<open>
  The cursor of the derivation pipeline (\<open>derivation.rs\<close>): committing a batch, reorg
  detection and rollback, pruning, the entry fetch of the builder, the persisted checkpoints and
  the cursor rebuilt from L2 headers after a restart.
\<close>

section \<open>Committing\<close>

definition REORG_CHECK_DEPTH :: nat where
  "REORG_CHECK_DEPTH = 64"

definition cap_cursor :: "derived_block_meta list \<Rightarrow> derived_block_meta list" where
  "cap_cursor c = (if length c > 2 * REORG_CHECK_DEPTH then drop (length c - REORG_CHECK_DEPTH) c else c)"

definition commit_batch :: "derived_batch \<Rightarrow> pipeline \<Rightarrow> pipeline" where
  "commit_batch batch p =
     (let u = batch_update batch in
      p\<lparr>last_processed_l1_block := cu_processed_l1 u, last_execution_l1_block := cu_execution_l1 u,
        last_derived_l2_block := cu_derived_l2 u, last_l1_info := cu_l1_info u,
        cursor := cap_cursor (cursor p @ cu_entries u)\<rparr>)"

definition derive_next_batch_and_commit :: "abi \<Rightarrow> decoders \<Rightarrow> l1_node \<Rightarrow> u64 \<Rightarrow> pipeline
    \<Rightarrow> (derive_error + derived_block list) \<times> pipeline" where
  "derive_next_batch_and_commit A D node latest p =
     (case derive_next_batch A D node latest p of
        Inl e \<Rightarrow> (Inl e, p)
      | Inr batch \<Rightarrow> (Inr (batch_blocks batch), commit_batch batch p))"

section \<open>Reorgs\<close>

definition canonical_hash :: "l1_node \<Rightarrow> u64 \<Rightarrow> derive_error + b256" where
  "canonical_hash node n =
     (case get_header node n of
        Inl e \<Rightarrow> Inl e | Inr None \<Rightarrow> Inl (L1_Block_Not_Found n) | Inr (Some h) \<Rightarrow> Inr (hdr_hash h))"

fun walk_back :: "l1_node \<Rightarrow> u64 \<Rightarrow> derived_block_meta list \<Rightarrow> derive_error + u64" where
  "walk_back node deployment [] = Inr deployment"
| "walk_back node deployment (m # ms) =
     (case canonical_hash node (meta_l1 m) of
        Inl e \<Rightarrow> Inl e
      | Inr h \<Rightarrow> if h = meta_hash m then Inr (meta_l1 m) else walk_back node deployment ms)"

definition detect_reorg :: "l1_node \<Rightarrow> pipeline \<Rightarrow> derive_error + u64 option" where
  "detect_reorg node p =
     (if cursor p = [] then Inr None
      else
        let entries = drop (length (cursor p) - min (length (cursor p)) REORG_CHECK_DEPTH) (cursor p);
            latest = last entries
        in case canonical_hash node (meta_l1 latest) of
             Inl e \<Rightarrow> Inl e
           | Inr h \<Rightarrow>
               if h = meta_hash latest then Inr None
               else (case walk_back node (deployment_l1_block (config p)) (tl (rev entries)) of
                       Inl e \<Rightarrow> Inl e | Inr fork \<Rightarrow> Inr (Some fork)))"

definition info_of_meta :: "derived_block_meta \<Rightarrow> l1_block_info" where
  "info_of_meta m = \<lparr>info_number = meta_l1 m, info_hash = meta_hash m\<rparr>"

definition last_option :: "'a list \<Rightarrow> 'a option" where
  "last_option xs = (if xs = [] then None else Some (last xs))"

definition rollback_to :: "u64 \<Rightarrow> pipeline \<Rightarrow> u64 option \<times> pipeline" where
  "rollback_to l1_block p =
     (let kept = filter (\<lambda>m. meta_l1 m \<le> l1_block) (cursor p);
          last_valid_l2 = map_option meta_l2 (last_option kept)
      in (last_valid_l2,
          p\<lparr>cursor := kept, last_processed_l1_block := l1_block,
            last_execution_l1_block := min l1_block (last_execution_l1_block p),
            builder_execution_l1_block := min l1_block (builder_execution_l1_block p),
            last_derived_l2_block := (case last_valid_l2 of None \<Rightarrow> 0 | Some n \<Rightarrow> n),
            last_l1_info := map_option info_of_meta (last_option kept)\<rparr>))"

definition prune_finalized :: "u64 \<Rightarrow> pipeline \<Rightarrow> pipeline" where
  "prune_finalized finalized p = p\<lparr>cursor := filter (\<lambda>m. meta_l1 m > finalized) (cursor p)\<rparr>"

section \<open>Entries for the builder\<close>

definition fetch_execution_entries_for_builder ::
    "(u64 \<Rightarrow> u64 \<Rightarrow> derive_error + (u64 option \<times> event_log) list) \<Rightarrow> (bytes \<Rightarrow> sol_execution_entry list option)
     \<Rightarrow> u64 \<Rightarrow> pipeline \<Rightarrow> (derive_error + cross_chain_execution_entry list) \<times> pipeline" where
  "fetch_execution_entries_for_builder get_logs decode up_to p =
     (if rollups_address (config p) = 0 then (Inr [], p)
      else
        let effective = max (builder_execution_l1_block p) (last_execution_l1_block p) in
        if up_to \<le> effective then (Inr [], p)
        else
          let from_l1 = saturating_add effective 1;
              to_l1 = min up_to (saturating_add from_l1 (MAX_LOG_RANGE - 1))
          in case get_logs from_l1 to_l1 of
               Inl e \<Rightarrow> (Inl e, p)
             | Inr logs \<Rightarrow>
                 (Inr (map d_entry (parse_batch_posted_logs decode logs (ucast (cfg_rollup_id (config p))))),
                  p\<lparr>builder_execution_l1_block := to_l1\<rparr>))"

section \<open>Checkpoints\<close>

datatype stage_id = L1_DERIVATION_STAGE | L1_EXECUTION_STAGE | L1_CONFIRMED_L2_STAGE | L1_CONFIRMED_L1_STAGE

type_synonym stage_db = "stage_id \<rightharpoonup> u64"

definition save_checkpoint :: "pipeline \<Rightarrow> stage_db \<Rightarrow> stage_db" where
  "save_checkpoint p db = db(L1_DERIVATION_STAGE \<mapsto> last_processed_l1_block p,
     L1_EXECUTION_STAGE \<mapsto> last_execution_l1_block p)"

definition load_checkpoint :: "stage_db \<Rightarrow> pipeline \<Rightarrow> u64 option \<times> pipeline" where
  "load_checkpoint db p =
     (case db L1_DERIVATION_STAGE of
        None \<Rightarrow> (None, p)
      | Some l1_block \<Rightarrow>
          let q = resume_from l1_block p in
          (Some l1_block, case db L1_EXECUTION_STAGE of
             None \<Rightarrow> q | Some e \<Rightarrow> q\<lparr>last_execution_l1_block := e\<rparr>))"

section \<open>The cursor after a restart\<close>

text \<open>
  A header of the L2 chain. The driver encodes the L1 context number in the last 8 bytes of
  \<open>mix_hash\<close> and its hash in \<open>parent_beacon_block_root\<close>. A missing or unreadable header
  is \<open>None\<close>; both are skipped.
\<close>

record l2_header =
  mix_hash :: "b256 option"
  parent_beacon_block_root :: "b256 option"

definition header_meta :: "u64 \<Rightarrow> l2_header \<Rightarrow> derived_block_meta option" where
  "header_meta n h = map_option (\<lambda>mix. \<lparr>meta_l2 = n, meta_l1 = ucast mix,
     meta_hash = (case parent_beacon_block_root h of None \<Rightarrow> 0 | Some r \<Rightarrow> r)\<rparr>) (mix_hash h)"

definition rebuild_cursor_from_headers :: "(u64 \<Rightarrow> l2_header option) \<Rightarrow> u64 \<Rightarrow> pipeline \<Rightarrow> pipeline" where
  "rebuild_cursor_from_headers headers l2_head p =
     (if l2_head = 0 then p
      else
        let start_block = max (saturating_sub l2_head (of_nat REORG_CHECK_DEPTH)) 1;
            ms = List.map_filter (\<lambda>n. Option.bind (headers n) (header_meta n))
                   (map of_nat [unat start_block..<Suc (unat l2_head)]);
            q = p\<lparr>cursor := ms\<rparr>
        in (case last_option ms of None \<Rightarrow> q | Some m \<Rightarrow> q\<lparr>last_l1_info := Some (info_of_meta m)\<rparr>))"

section \<open>The cursor invariant\<close>

definition cursor_ok :: "pipeline \<Rightarrow> bool" where
  "cursor_ok p \<longleftrightarrow> sorted_wrt (<) (map meta_l2 (cursor p)) \<and>
     (\<forall>m \<in> set (cursor p). meta_l2 m \<le> last_derived_l2_block p) \<and> length (cursor p) \<le> 2 * REORG_CHECK_DEPTH"

inductive pipeline_step :: "pipeline \<Rightarrow> pipeline \<Rightarrow> bool" where
  step_derive: "derive_next_batch A D node latest p = Inr batch \<Longrightarrow> pipeline_step p (commit_batch batch p)"
| step_rollback: "pipeline_step p (snd (rollback_to l1 p))"
| step_prune: "pipeline_step p (prune_finalized l1 p)"
| step_fetch: "pipeline_step p (snd (fetch_execution_entries_for_builder get_logs decode up_to p))"
| step_resume: "pipeline_step p (resume_from l1 p)"

lemma sorted_wrt_filter_map: "sorted_wrt R (map f xs) \<Longrightarrow> sorted_wrt R (map f (filter P xs))"
  by (induction xs) auto

lemma sorted_wrt_drop_map: "sorted_wrt R (map f xs) \<Longrightarrow> sorted_wrt R (map f (drop n xs))"
  by (simp add: sorted_wrt_drop flip: drop_map)

lemma set_cap_cursor: "set (cap_cursor c) \<subseteq> set c"
  by (auto simp: cap_cursor_def dest: in_set_dropD)

lemma last_le_sorted:
  "sorted_wrt (<) (map f xs) \<Longrightarrow> x \<in> set xs \<Longrightarrow> f x \<le> (f (last xs) :: 'a::linorder)"
  by (induction xs) (auto simp: less_imp_le)

lemma last_ge_sorted: "sorted (map f xs) \<Longrightarrow> x \<in> set xs \<Longrightarrow> f x \<le> (f (last xs) :: 'a::linorder)"
  by (induction xs) auto

lemma cursor_ok_new: "cursor_ok (new_pipeline c)"
  by (simp add: cursor_ok_def new_pipeline_def)

lemma cursor_ok_commit:
  assumes "cursor_ok p" and "derive_next_batch A D node latest p = Inr batch"
  shows "cursor_ok (commit_batch batch p)"
proof -
  let ?new = "cu_entries (batch_update batch)"
  note d = derived_blocks_lemma [OF assms(2)]
  have bounds: "last_derived_l2_block p < meta_l2 m \<and> meta_l2 m \<le> cu_derived_l2 (batch_update batch)" if "m \<in> set ?new" for m
  proof -
    have "unat (meta_l2 m) \<in> set (numbers (batch_blocks batch))" using d that by blast
    then show ?thesis using d by (simp add: word_less_nat_alt word_le_nat_alt less_Suc_eq_le Suc_le_eq del: upt_Suc)
  qed
  have "sorted_wrt (<) (map meta_l2 (cursor p @ ?new))"
    using assms(1) bounds d by (auto simp: sorted_wrt_append cursor_ok_def intro: le_less_trans)
  then have "sorted_wrt (<) (map meta_l2 (cap_cursor (cursor p @ ?new)))"
    by (simp only: cap_cursor_def sorted_wrt_drop_map split: if_split) simp
  moreover have "meta_l2 m \<le> cu_derived_l2 (batch_update batch)" if "m \<in> set (cap_cursor (cursor p @ ?new))" for m
  proof -
    from that set_cap_cursor have "m \<in> set (cursor p) \<union> set ?new" by fastforce
    moreover have "last_derived_l2_block p \<le> cu_derived_l2 (batch_update batch)"
      using d by (simp add: word_le_nat_alt)
    ultimately show ?thesis using bounds assms(1) by (auto simp: cursor_ok_def intro: order_trans)
  qed
  moreover have "length (cap_cursor c) \<le> 2 * REORG_CHECK_DEPTH" for c
    by (simp add: cap_cursor_def REORG_CHECK_DEPTH_def)
  ultimately show ?thesis by (simp add: cursor_ok_def commit_batch_def Let_def)
qed

lemma length_filter_bound: "length xs \<le> n \<Longrightarrow> length (filter P xs) \<le> n"
  by (rule order_trans [OF length_filter_le])

lemma cursor_ok_rollback: "cursor_ok p \<Longrightarrow> cursor_ok (snd (rollback_to l1 p))"
  using last_le_sorted [of meta_l2 "filter (\<lambda>m. meta_l1 m \<le> l1) (cursor p)"]
  by (auto simp: cursor_ok_def rollback_to_def Let_def last_option_def sorted_wrt_filter_map length_filter_bound
      filter_empty_conv)

interpretation pipe: step_invariant pipeline_step cursor_ok
proof
  fix p q
  assume "pipeline_step p q" and "cursor_ok p"
  then show "cursor_ok q"
  proof (induction rule: pipeline_step.induct)
    case (step_fetch p get_logs decode up_to)
    then show ?case
      by (auto simp: cursor_ok_def fetch_execution_entries_for_builder_def Let_def split: sum.split)
  qed (auto simp: cursor_ok_commit cursor_ok_rollback,
       simp_all add: cursor_ok_def prune_finalized_def resume_from_def sorted_wrt_filter_map length_filter_bound)
qed

section \<open>Finding the fork\<close>

definition is_canonical :: "l1_node \<Rightarrow> derived_block_meta \<Rightarrow> bool" where
  "is_canonical node m \<longleftrightarrow> canonical_hash node (meta_l1 m) = Inr (meta_hash m)"

definition node_answers :: "l1_node \<Rightarrow> derived_block_meta list \<Rightarrow> bool" where
  "node_answers node ms \<longleftrightarrow> (\<forall>m \<in> set ms. \<exists>h. canonical_hash node (meta_l1 m) = Inr h)"

definition check_window :: "pipeline \<Rightarrow> derived_block_meta list" where
  "check_window p = drop (length (cursor p) - REORG_CHECK_DEPTH) (cursor p)"

lemma walk_back_find:
  "node_answers node ms \<Longrightarrow> walk_back node dep ms =
     Inr (case find (is_canonical node) ms of None \<Rightarrow> dep | Some m \<Rightarrow> meta_l1 m)"
  by (induction ms) (fastforce simp: node_answers_def is_canonical_def)+

lemma detect_reorg_find:
  assumes "node_answers node (check_window p)"
  shows "detect_reorg node p =
    (case rev (check_window p) of
       [] \<Rightarrow> Inr None
     | latest # older \<Rightarrow>
         if is_canonical node latest then Inr None
         else Inr (Some (case find (is_canonical node) older of
             None \<Rightarrow> deployment_l1_block (config p) | Some m \<Rightarrow> meta_l1 m)))"
proof (cases "cursor p = []")
  case True
  then show ?thesis by (simp add: detect_reorg_def check_window_def)
next
  case False
  have win: "drop (length (cursor p) - min (length (cursor p)) REORG_CHECK_DEPTH) (cursor p) = check_window p"
    by (simp add: check_window_def min_def)
  have ne: "check_window p \<noteq> []" using False by (cases "cursor p") (simp_all add: check_window_def REORG_CHECK_DEPTH_def)
  then obtain latest older where r: "rev (check_window p) = latest # older"
    by (metis neq_Nil_conv rev_is_Nil_conv)
  then have l: "last (check_window p) = latest" by (metis list.sel(1) last_rev rev_rev_ident hd_rev)
  have set: "set (check_window p) = insert latest (set older)" using r by (metis list.simps(15) set_rev)
  then obtain h where h: "canonical_hash node (meta_l1 latest) = Inr h"
    using assms by (auto simp: node_answers_def)
  have "node_answers node older" using assms set by (simp add: node_answers_def)
  from walk_back_find [OF this] show ?thesis
    using False by (simp add: detect_reorg_def win l r h is_canonical_def)
qed

lemma find_rev_SomeD:
  "find P (rev xs) = Some m \<Longrightarrow> \<exists>ys zs. xs = ys @ m # zs \<and> P m \<and> (\<forall>z \<in> set zs. \<not> P z)"
proof (induction xs rule: rev_induct)
  case (snoc x xs)
  show ?case
  proof (cases "P x")
    case False
    with snoc obtain ys zs where "xs = ys @ m # zs" "P m" "\<forall>z \<in> set zs. \<not> P z" by auto
    with False have "xs @ [x] = ys @ m # (zs @ [x])" "\<forall>z \<in> set (zs @ [x]). \<not> P z" by auto
    with \<open>P m\<close> show ?thesis by blast
  next
    case True
    with snoc.prems have "xs @ [x] = xs @ m # []" "P m" by simp_all
    then show ?thesis by fastforce
  qed
qed simp

lemma detect_reorg_Some:
  assumes "node_answers node (check_window p)" and "detect_reorg node p = Inr (Some fork)"
  shows "(\<exists>ys m zs. check_window p = ys @ m # zs \<and> is_canonical node m \<and> fork = meta_l1 m \<and>
      zs \<noteq> [] \<and> (\<forall>z \<in> set zs. \<not> is_canonical node z)) \<or>
    (fork = deployment_l1_block (config p) \<and> (\<forall>m \<in> set (check_window p). \<not> is_canonical node m))"
proof -
  from assms(2) obtain latest older where r: "rev (check_window p) = latest # older" "\<not> is_canonical node latest"
    "fork = (case find (is_canonical node) older of None \<Rightarrow> deployment_l1_block (config p) | Some m \<Rightarrow> meta_l1 m)"
    unfolding detect_reorg_find [OF assms(1)] by (auto split: list.splits if_splits)
  then have w: "check_window p = rev older @ [latest]" by (simp add: rev_swap)
  show ?thesis
  proof (cases "find (is_canonical node) older")
    case None
    with r w show ?thesis by (auto simp: find_None_iff)
  next
    case (Some m)
    with find_rev_SomeD [of "is_canonical node" "rev older" m] obtain ys zs where
      "rev older = ys @ m # zs" "is_canonical node m" "\<forall>z \<in> set zs. \<not> is_canonical node z" by auto
    with r w Some have "check_window p = ys @ m # (zs @ [latest])" "fork = meta_l1 m"
      "\<forall>z \<in> set (zs @ [latest]). \<not> is_canonical node z" by auto
    with \<open>is_canonical node m\<close> show ?thesis by blast
  qed
qed

section \<open>Rollback resolves a reorg\<close>

text \<open>
  The cursor of a chain derived in L1 order: L1 numbers do not decrease, entries of one L1
  block agree on its hash, and nothing is older than the deployment.
\<close>

definition l1_ordered :: "pipeline \<Rightarrow> bool" where
  "l1_ordered p \<longleftrightarrow> sorted (map meta_l1 (cursor p)) \<and>
     (\<forall>m \<in> set (cursor p). \<forall>m' \<in> set (cursor p). meta_l1 m = meta_l1 m' \<longrightarrow> meta_hash m = meta_hash m') \<and>
     (\<forall>m \<in> set (cursor p). deployment_l1_block (config p) < meta_l1 m)"

lemma set_check_window: "set (check_window p) \<subseteq> set (cursor p)"
  by (auto simp: check_window_def dest: in_set_dropD)

lemma last_kept_l1:
  assumes "sorted (map meta_l1 c)" and "m \<in> set c" and "meta_l1 m = fork"
  shows "meta_l1 (last (filter (\<lambda>m. meta_l1 m \<le> fork) c)) = fork"
proof -
  let ?k = "filter (\<lambda>m. meta_l1 m \<le> fork) c"
  have m: "m \<in> set ?k" using assms(2,3) by simp
  then have ne: "?k \<noteq> []" by (metis list.set_cases list.distinct(1))
  have "sorted (map meta_l1 ?k)" by (rule sorted_wrt_filter_map [OF assms(1)])
  then have "meta_l1 m \<le> meta_l1 (last ?k)" using m by (rule last_ge_sorted)
  moreover have "meta_l1 (last ?k) \<le> fork" using last_in_set [OF ne] by simp
  ultimately show ?thesis using assms(3) by simp
qed

lemma rollback_fields [simp]:
  "cursor (snd (rollback_to l1 p)) = filter (\<lambda>m. meta_l1 m \<le> l1) (cursor p)"
  "config (snd (rollback_to l1 p)) = config p"
  "last_processed_l1_block (snd (rollback_to l1 p)) = l1"
  "last_derived_l2_block (snd (rollback_to l1 p)) =
     (case last_option (filter (\<lambda>m. meta_l1 m \<le> l1) (cursor p)) of None \<Rightarrow> 0 | Some m \<Rightarrow> meta_l2 m)"
  "last_execution_l1_block (snd (rollback_to l1 p)) = min l1 (last_execution_l1_block p)"
  "builder_execution_l1_block (snd (rollback_to l1 p)) = min l1 (builder_execution_l1_block p)"
  by (simp_all add: rollback_to_def Let_def option.case_eq_if option.map_sel)

lemma rollback_resolves:
  assumes "node_answers node (cursor p)" and "l1_ordered p" and "detect_reorg node p = Inr (Some fork)"
  shows "detect_reorg node (snd (rollback_to fork p)) = Inr None"
proof -
  let ?k = "filter (\<lambda>m. meta_l1 m \<le> fork) (cursor p)" and ?q = "snd (rollback_to fork p)"
  have "node_answers node (check_window p)" and ans: "node_answers node (check_window ?q)"
    using assms(1) set_check_window [of p] set_check_window [of ?q] by (auto simp: node_answers_def)
  from detect_reorg_Some [OF this(1) assms(3)] consider
      (found) m where "m \<in> set (cursor p)" "is_canonical node m" "fork = meta_l1 m"
    | (none) "fork = deployment_l1_block (config p)"
    using set_check_window [of p] by fastforce
  then show ?thesis
  proof cases
    case found
    have "m \<in> set ?k" using found by simp
    then have ne: "?k \<noteq> []" by (metis list.set_cases list.distinct(1))
    then have "check_window ?q \<noteq> []"
      by (cases ?k) (simp_all add: check_window_def REORG_CHECK_DEPTH_def)
    moreover have "last (check_window ?q) = last ?k"
      using ne \<open>check_window ?q \<noteq> []\<close> by (simp add: check_window_def)
    moreover have "is_canonical node (last ?k)"
    proof -
      have "meta_l1 (last ?k) = meta_l1 m" "last ?k \<in> set (cursor p)"
        using last_kept_l1 [of "cursor p" m fork] found assms(2) last_in_set [OF ne] by (simp_all add: l1_ordered_def)
      with found assms(2) show ?thesis by (metis is_canonical_def l1_ordered_def)
    qed
    ultimately show ?thesis
      unfolding detect_reorg_find [OF ans]
      by (cases "rev (check_window ?q)") (simp_all add: hd_rev [symmetric])
  next
    case none
    then have "?k = []" using assms(2) by (auto simp: l1_ordered_def filter_empty_conv not_le)
    then show ?thesis by (simp add: detect_reorg_def)
  qed
qed

section \<open>Properties\<close>

text \<open>
  C34: the cursor stays well formed. Whatever sequence of derive-and-commit, rollback, pruning,
  builder fetches and resumes runs from a new pipeline, the cursor is strictly increasing in L2
  block numbers, holds no block beyond the last derived one, and never more than 128 entries.
\<close>

theorem cursor_ok_reachable:
  assumes "pipeline_step\<^sup>*\<^sup>* (new_pipeline c) p"
  shows "sorted_wrt (<) (map meta_l2 (cursor p)) \<and>
    (\<forall>m \<in> set (cursor p). meta_l2 m \<le> last_derived_l2_block p) \<and> length (cursor p) \<le> 128"
  using pipe.reachable_inv [OF assms cursor_ok_new] by (simp add: cursor_ok_def REORG_CHECK_DEPTH_def)

theorem cursor_ok_reachable_witness:
  "\<exists>batch. derive_next_batch toy_abi toy_decoders (toy_node [(10, [2])]) 15 (new_pipeline toy_config) = Inr batch \<and>
    sorted_wrt (<) (map meta_l2 (cursor (commit_batch batch (new_pipeline toy_config))))"
  using toy_derive cursor_ok_reachable [OF r_into_rtranclp [where r = pipeline_step]] step_derive by blast

text \<open>
  What \<open>detect_reorg\<close> reports. When the node answers for the checked entries (the 64
  most recent), a reported fork is the L1 block of the latest checked entry that is still
  canonical, and some later entry is not; or the deployment block when no checked entry is.
\<close>

theorem detect_reorg_finds_fork:
  assumes "node_answers node (check_window p)" and "detect_reorg node p = Inr (Some fork)"
  shows "(\<exists>ys m zs. check_window p = ys @ m # zs \<and> is_canonical node m \<and> fork = meta_l1 m \<and>
      zs \<noteq> [] \<and> (\<forall>z \<in> set zs. \<not> is_canonical node z)) \<or>
    (fork = deployment_l1_block (config p) \<and> (\<forall>m \<in> set (check_window p). \<not> is_canonical node m))"
  using assms by (rule detect_reorg_Some)

definition reorged_pipeline :: pipeline where
  "reorged_pipeline = (new_pipeline toy_config)\<lparr>cursor := [\<lparr>meta_l2 = 1, meta_l1 = 10, meta_hash = 10\<rparr>,
     \<lparr>meta_l2 = 2, meta_l1 = 11, meta_hash = 99\<rparr>], last_derived_l2_block := 2, last_processed_l1_block := 11\<rparr>"

lemmas reorg_simps = node_answers_def check_window_def REORG_CHECK_DEPTH_def reorged_pipeline_def canonical_hash_def
  toy_node_def detect_reorg_def new_pipeline_def toy_config_def

theorem detect_reorg_finds_fork_witness:
  "\<exists>fork. detect_reorg (toy_node []) reorged_pipeline = Inr (Some fork) \<and>
    ((\<exists>ys m zs. check_window reorged_pipeline = ys @ m # zs \<and> is_canonical (toy_node []) m \<and> fork = meta_l1 m \<and>
      zs \<noteq> [] \<and> (\<forall>z \<in> set zs. \<not> is_canonical (toy_node []) z)) \<or>
    (fork = deployment_l1_block (config reorged_pipeline) \<and>
      (\<forall>m \<in> set (check_window reorged_pipeline). \<not> is_canonical (toy_node []) m)))"
proof (intro exI conjI)
  show "detect_reorg (toy_node []) reorged_pipeline = Inr (Some 10)" by (simp add: reorg_simps)
  show "(\<exists>ys m zs. check_window reorged_pipeline = ys @ m # zs \<and> is_canonical (toy_node []) m \<and> 10 = meta_l1 m \<and>
      zs \<noteq> [] \<and> (\<forall>z \<in> set zs. \<not> is_canonical (toy_node []) z)) \<or>
    (10 = deployment_l1_block (config reorged_pipeline) \<and>
      (\<forall>m \<in> set (check_window reorged_pipeline). \<not> is_canonical (toy_node []) m))"
    by (rule detect_reorg_finds_fork) (simp_all add: reorg_simps)
qed

text \<open>
  Rolling back to the reported fork ends the reorg. For a cursor in L1 order the next
  check finds none, exactly the entries above the fork are gone, gap filling restarts at the
  last kept block, and neither execution cursor moves forward.
\<close>

theorem rollback_resolves_reorg:
  assumes "node_answers node (cursor p)" and "l1_ordered p" and "detect_reorg node p = Inr (Some fork)"
  shows "detect_reorg node (snd (rollback_to fork p)) = Inr None \<and>
    cursor (snd (rollback_to fork p)) = filter (\<lambda>m. meta_l1 m \<le> fork) (cursor p) \<and>
    last_derived_l2_block (snd (rollback_to fork p)) =
      (case last_option (filter (\<lambda>m. meta_l1 m \<le> fork) (cursor p)) of None \<Rightarrow> 0 | Some m \<Rightarrow> meta_l2 m) \<and>
    last_execution_l1_block (snd (rollback_to fork p)) \<le> last_execution_l1_block p \<and>
    builder_execution_l1_block (snd (rollback_to fork p)) \<le> builder_execution_l1_block p"
  using rollback_resolves [OF assms] by simp

theorem rollback_resolves_reorg_witness:
  "\<exists>fork. detect_reorg (toy_node []) reorged_pipeline = Inr (Some fork) \<and>
    detect_reorg (toy_node []) (snd (rollback_to fork reorged_pipeline)) = Inr None"
proof (intro exI conjI)
  show "detect_reorg (toy_node []) reorged_pipeline = Inr (Some 10)" by (simp add: reorg_simps)
  show "detect_reorg (toy_node []) (snd (rollback_to 10 reorged_pipeline)) = Inr None"
    by (rule conjunct1 [OF rollback_resolves_reorg]) (simp_all add: reorg_simps l1_ordered_def)
qed

definition toy_posts :: "(u64 \<times> bytes) list" where
  "toy_posts = [(10, [2]), (20, [4])]"

definition toy_synced :: pipeline where
  "toy_synced = snd (derive_next_batch_and_commit toy_abi toy_decoders (toy_node toy_posts) 15 (new_pipeline toy_config))"

text \<open>
  A rollback changes the L1 context of later gap blocks. Deriving leaves the context of
  the last posted block (the parent of its L1 block) for gap filling; \<open>rollback_to\<close> restores
  the containing L1 block itself from the cursor. On one and the same L1, a pipeline that rolled
  back to where it already was then derives the same block numbers with a different gap block.
\<close>

theorem rollback_changes_gap_context:
  "\<exists>b b'. derive_next_batch toy_abi toy_decoders (toy_node toy_posts) 30 toy_synced = Inr b \<and>
     derive_next_batch toy_abi toy_decoders (toy_node toy_posts) 30 (snd (rollback_to 10 toy_synced)) = Inr b' \<and>
     numbers (batch_blocks b) = [3, 4] \<and> numbers (batch_blocks b') = [3, 4] \<and>
     map l1_info (batch_blocks b) = [\<lparr>info_number = 9, info_hash = 9\<rparr>, \<lparr>info_number = 19, info_hash = 19\<rparr>] \<and>
     map l1_info (batch_blocks b') = [\<lparr>info_number = 10, info_hash = 10\<rparr>, \<lparr>info_number = 19, info_hash = 19\<rparr>]"
  by (simp add: toy_simps toy_synced_def toy_posts_def derive_next_batch_and_commit_def commit_batch_def
      rollback_to_def cap_cursor_def REORG_CHECK_DEPTH_def last_option_def info_of_meta_def numbers_def)

definition reposted :: "(u64 \<times> bytes) list" where
  "reposted = [(10, [1, 2]), (20, [1]), (30, [4])]"

definition first_window :: pipeline where
  "first_window = snd (derive_next_batch_and_commit toy_abi toy_decoders (toy_node reposted) 15 (new_pipeline toy_config))"

text \<open>
  The derived chain depends on how the L1 range is cut into windows. A block number posted
  again is stale for a pipeline that committed it, but not within one window: there it only
  loses the deduplication, after it has become the gap-fill context. The same L1 derived in one
  window or in two gives the same block numbers with different L1 contexts.
\<close>

theorem derivation_depends_on_window:
  "\<exists>one b1 b2. derive_next_batch toy_abi toy_decoders (toy_node reposted) 40 (new_pipeline toy_config) = Inr one \<and>
     fst (derive_next_batch_and_commit toy_abi toy_decoders (toy_node reposted) 15 (new_pipeline toy_config)) = Inr b1 \<and>
     derive_next_batch toy_abi toy_decoders (toy_node reposted) 40 first_window = Inr b2 \<and>
     numbers (batch_blocks one) = [1, 2, 3, 4] \<and> numbers (b1 @ batch_blocks b2) = [1, 2, 3, 4] \<and>
     map (info_number \<circ> l1_info) (batch_blocks one) = [9, 9, 19, 29] \<and>
     map (info_number \<circ> l1_info) (b1 @ batch_blocks b2) = [9, 9, 9, 29]"
  by (simp add: toy_simps first_window_def reposted_def derive_next_batch_and_commit_def commit_batch_def
      cap_cursor_def REORG_CHECK_DEPTH_def numbers_def) (simp add: word_le_nat_alt)

section \<open>Restart\<close>

lemma filter_map_sorted:
  assumes "\<And>n m. g n = Some m \<Longrightarrow> meta_l2 m = n"
  shows "sorted_wrt (<) ns \<Longrightarrow> sorted_wrt (<) (map meta_l2 (List.map_filter g ns))"
proof (induction ns)
  case (Cons n ns)
  have "n < meta_l2 m" if m: "m \<in> set (List.map_filter g ns)" for m
  proof -
    from m obtain k where "k \<in> set ns" "g k = Some m" by (auto simp: List.map_filter_def)
    with assms Cons.prems show ?thesis by auto
  qed
  with Cons assms show ?case by (cases "g n") (auto simp: List.map_filter_simps)
qed (simp add: List.map_filter_simps)

lemma length_map_filter: "length (List.map_filter g ns) \<le> length ns"
  by (simp add: List.map_filter_def)

lemma rebuilt_window:
  fixes l2_head :: u64
  assumes "l2_head \<noteq> 0"
  defines "ns \<equiv> map (of_nat :: nat \<Rightarrow> u64) [unat (max (saturating_sub l2_head (of_nat REORG_CHECK_DEPTH)) 1)..<Suc (unat l2_head)]"
  shows "sorted_wrt (<) ns" and "length ns \<le> 65"
    and "n \<in> set ns \<longleftrightarrow> 1 \<le> unat n \<and> n \<le> l2_head \<and> unat l2_head \<le> unat n + 64"
proof -
  let ?a = "max (saturating_sub l2_head (of_nat REORG_CHECK_DEPTH)) 1"
  have val: "unat (of_nat k :: u64) = k" if "k \<le> unat l2_head" for k
    by (rule unat_of_nat_u64) (use that unat_u64_lt [of l2_head] in linarith)
  have "map unat ns = [unat ?a..<Suc (unat l2_head)]"
    unfolding ns_def map_map by (rule map_idI) (use val in auto)
  then have "sorted_wrt (<) (map unat ns)" by (simp only: sorted_wrt_upt)
  then show "sorted_wrt (<) ns" by (simp only: strict_sorted_unat)
  have "unat (of_nat REORG_CHECK_DEPTH :: u64) = 64" by (simp add: REORG_CHECK_DEPTH_def)
  then have "unat (saturating_sub l2_head (of_nat REORG_CHECK_DEPTH)) = unat l2_head - 64"
    by (simp only: unat_saturating_sub)
  then have a: "unat ?a = max (unat l2_head - 64) 1" by (simp add: max_def word_le_nat_alt)
  then show "length ns \<le> 65" by (simp add: ns_def del: upt_Suc)
  have "n \<in> set ns \<longleftrightarrow> unat n \<in> set [unat ?a..<Suc (unat l2_head)]"
    using val by (auto simp: ns_def simp del: upt_Suc intro!: image_eqI [of n _ "unat n"])
  then show "n \<in> set ns \<longleftrightarrow> 1 \<le> unat n \<and> n \<le> l2_head \<and> unat l2_head \<le> unat n + 64"
    by (auto simp: a word_le_nat_alt simp del: upt_Suc)
qed

lemma in_set_map_filter:
  assumes "\<And>n m. g n = Some m \<Longrightarrow> meta_l2 m = n"
  shows "m \<in> set (List.map_filter g ns) \<longleftrightarrow> meta_l2 m \<in> set ns \<and> g (meta_l2 m) = Some m"
proof -
  have "m \<in> set (List.map_filter g ns) \<longleftrightarrow> (\<exists>n \<in> set ns. g n = Some m)"
    by (induction ns) (auto simp: List.map_filter_simps split: option.split)
  also have "\<dots> \<longleftrightarrow> meta_l2 m \<in> set ns \<and> g (meta_l2 m) = Some m"
  proof
    assume "\<exists>n \<in> set ns. g n = Some m"
    then obtain n where n: "n \<in> set ns" "g n = Some m" by blast
    with assms [OF n(2)] show "meta_l2 m \<in> set ns \<and> g (meta_l2 m) = Some m" by simp
  qed blast
  finally show ?thesis .
qed

text \<open>
  C35: a restart resumes where it stopped. Loading a saved checkpoint into any pipeline
  restores both L1 positions. The cursor rebuilt from the L2 headers is strictly increasing and
  holds exactly the readable headers of the last 65 blocks up to the head, block 0 excepted, each
  number paired with the L1 context of its own header; its last pair is handed to gap filling,
  whose context stays as it was when no header could be read.
\<close>

theorem restart_restores_positions:
  assumes "l2_head \<noteq> 0"
  shows "let r = snd (load_checkpoint (save_checkpoint p db) p'); q = rebuild_cursor_from_headers headers l2_head r
    in last_processed_l1_block q = last_processed_l1_block p \<and>
       last_execution_l1_block q = last_execution_l1_block p \<and>
       sorted_wrt (<) (map meta_l2 (cursor q)) \<and> length (cursor q) \<le> 65 \<and>
       (\<forall>m. m \<in> set (cursor q) \<longleftrightarrow>
          1 \<le> unat (meta_l2 m) \<and> meta_l2 m \<le> l2_head \<and> unat l2_head \<le> unat (meta_l2 m) + 64 \<and>
          Option.bind (headers (meta_l2 m)) (header_meta (meta_l2 m)) = Some m) \<and>
       last_l1_info q = (if cursor q = [] then last_l1_info r else Some (info_of_meta (last (cursor q))))"
proof -
  define ns where "ns = map (of_nat :: nat \<Rightarrow> u64) [unat (max (saturating_sub l2_head (of_nat REORG_CHECK_DEPTH)) 1)..<Suc (unat l2_head)]"
  define g where "g = (\<lambda>n. Option.bind (headers n) (header_meta n))"
  define r where "r = snd (load_checkpoint (save_checkpoint p db) p')"
  have g: "g n = Some m \<Longrightarrow> meta_l2 m = n" for n m
    by (auto simp: g_def header_meta_def bind_eq_Some_conv)
  have gb: "Option.bind (headers n) (header_meta n) = g n" for n by (simp add: g_def)
  note w = rebuilt_window [OF assms, folded ns_def]
  have q: "rebuild_cursor_from_headers headers l2_head r =
      (case last_option (List.map_filter g ns) of None \<Rightarrow> r\<lparr>cursor := List.map_filter g ns\<rparr>
       | Some m \<Rightarrow> r\<lparr>cursor := List.map_filter g ns, last_l1_info := Some (info_of_meta m)\<rparr>)"
    using assms by (simp add: rebuild_cursor_from_headers_def Let_def g_def ns_def split: option.split)
  have pos: "last_processed_l1_block r = last_processed_l1_block p" "last_execution_l1_block r = last_execution_l1_block p"
    by (simp_all add: r_def load_checkpoint_def save_checkpoint_def resume_from_def)
  have c: "cursor (rebuild_cursor_from_headers headers l2_head r) = List.map_filter g ns"
    unfolding q by (simp split: option.split)
  have m: "m \<in> set (List.map_filter g ns) \<longleftrightarrow>
      1 \<le> unat (meta_l2 m) \<and> meta_l2 m \<le> l2_head \<and> unat l2_head \<le> unat (meta_l2 m) + 64 \<and> g (meta_l2 m) = Some m" for m
    using in_set_map_filter [of g m ns] g w(3) by blast
  have s: "sorted_wrt (<) (map meta_l2 (List.map_filter g ns))" using g w(1) by (rule filter_map_sorted)
  have "length (List.map_filter g ns) \<le> 65" using length_map_filter [of g ns] w(2) by (rule le_trans)
  moreover have "last_processed_l1_block (rebuild_cursor_from_headers headers l2_head r) = last_processed_l1_block p"
    "last_execution_l1_block (rebuild_cursor_from_headers headers l2_head r) = last_execution_l1_block p"
    "last_l1_info (rebuild_cursor_from_headers headers l2_head r) =
       (if List.map_filter g ns = [] then last_l1_info r else Some (info_of_meta (last (List.map_filter g ns))))"
    unfolding q by (simp_all add: pos last_option_def)
  ultimately show ?thesis
    unfolding Let_def r_def [symmetric] c by (intro conjI allI s) (simp_all add: m gb)
qed

theorem restart_restores_positions_witness:
  "let q = rebuild_cursor_from_headers (\<lambda>_. Some \<lparr>mix_hash = Some 7, parent_beacon_block_root = Some 8\<rparr>) 3
        (snd (load_checkpoint (save_checkpoint reorged_pipeline Map.empty) (new_pipeline toy_config)))
   in last_processed_l1_block q = last_processed_l1_block reorged_pipeline \<and>
     \<lparr>meta_l2 = 2, meta_l1 = 7, meta_hash = 8\<rparr> \<in> set (cursor q)"
  using restart_restores_positions [of 3 "reorged_pipeline" Map.empty "new_pipeline toy_config"
      "\<lambda>_. Some \<lparr>mix_hash = Some 7, parent_beacon_block_root = Some 8\<rparr>"]
  unfolding Let_def by (simp add: header_meta_def word_le_nat_alt)

end
