(* ===== verification/Recovery.thy ===== *)
theory Recovery
  imports Hold Pending_Queue Derivation_Cursor Fork_Choice
begin

text \<open>
  Recovery of the driver: the pure decisions and plans of \<open>driver/types.rs\<close> and the state
  transitions of \<open>driver/rewind.rs\<close> (clearing pending state, the hard rewind, applying a
  sibling-reorg plan). The driver's fields are grouped: its chain head, its derivation pipeline,
  the queues that a recovery drops, and the recovery fields.
\<close>

section \<open>State\<close>

datatype driver_mode = Sync | Builder | Fullnode

record pending_block =
  pb_l2_block_number :: u64
  pb_pre_state_root :: b256
  pb_state_root :: b256
  pb_clean_state_root :: clean_state_root
  pb_encoded_transactions :: bytes
  pb_intermediate_roots :: "b256 list"
  pb_l1_context_block :: u64

record l1_confirmed_anchor =
  anchor_l2 :: u64
  anchor_l1 :: u64

record sibling_reorg_request =
  req_target :: u64
  req_root :: b256

record driver_queues =
  preconfirmed_hashes :: "u64 \<rightharpoonup> b256"
  pending_submissions :: "pending_block list"
  drv_pending_l1 :: pending_l1_queue
  pending_l1_forward_txs :: "bytes list"

record driver =
  drv_head :: chain_head
  derivation :: pipeline
  drv_mode :: driver_mode
  synced :: bool
  drv_hold :: entry_verification_hold
  queues :: driver_queues
  pending_sibling_reorg :: "sibling_reorg_request option"
  pending_rewind_target :: "u64 option"
  pending_anchor_refresh :: "u64 option"
  consecutive_rewind_cycles :: u32
  consecutive_flush_mismatches :: u32
  drv_anchor :: "l1_confirmed_anchor option"
  last_seen_l1_block :: u64
  last_checkpointed_l1_block :: u64

section \<open>Decisions\<close>

definition REORG_SAFETY_THRESHOLD :: u64 where
  "REORG_SAFETY_THRESHOLD = 48"

definition MAX_REORG_DEPTH :: u64 where
  "MAX_REORG_DEPTH = 64"

datatype sibling_reorg_decision = Sibling_Reorg u64 b256 | Bare_Rewind | Halt

definition reorg_depth_exceeded :: "u64 \<Rightarrow> u64 \<Rightarrow> bool" where
  "reorg_depth_exceeded depth threshold \<longleftrightarrow> depth \<ge> threshold"

definition decide_divergence_recovery :: "pending_block \<Rightarrow> b256 \<Rightarrow> u64 \<Rightarrow> u64 \<Rightarrow> sibling_reorg_decision" where
  "decide_divergence_recovery divergent on_chain_root reorg_depth safety_threshold =
     (if reorg_depth_exceeded reorg_depth safety_threshold then Halt
      else
        let clean_root = clean_as_b256 (pb_clean_state_root divergent) in
        if clean_root = on_chain_root \<and> clean_root \<noteq> pb_state_root divergent
        then Sibling_Reorg (pb_l2_block_number divergent) clean_root
        else Bare_Rewind)"

fun scan_reorg_target :: "pending_block list \<Rightarrow> b256 \<Rightarrow> u64 \<Rightarrow> u64 \<Rightarrow> sibling_reorg_request option" where
  "scan_reorg_target [] on_chain_root reorg_depth safety_threshold = None"
| "scan_reorg_target (b # bs) on_chain_root reorg_depth safety_threshold =
     (case decide_divergence_recovery b on_chain_root reorg_depth safety_threshold of
        Sibling_Reorg t r \<Rightarrow> Some \<lparr>req_target = t, req_root = r\<rparr>
      | _ \<Rightarrow> scan_reorg_target bs on_chain_root reorg_depth safety_threshold)"

definition find_rightmost_sibling_reorg_target ::
    "pending_block list \<Rightarrow> b256 \<Rightarrow> u64 \<Rightarrow> u64 \<Rightarrow> nat \<Rightarrow> sibling_reorg_request option" where
  "find_rightmost_sibling_reorg_target pending on_chain_root reorg_depth safety_threshold window_len =
     scan_reorg_target (rev (take (min window_len (length pending)) pending)) on_chain_root reorg_depth safety_threshold"

record sibling_reorg_verify_plan =
  plan_request :: sibling_reorg_request
  rewind_target_l2 :: u64
  rollback_l1_block :: u64

definition plan_sibling_reorg_from_verify ::
    "u64 \<Rightarrow> b256 \<Rightarrow> l1_confirmed_anchor option \<Rightarrow> u64 \<Rightarrow> sibling_reorg_verify_plan" where
  "plan_sibling_reorg_from_verify entry_block root anchor deployment =
     (let (target, rollback) =
        (case anchor of
           Some a \<Rightarrow> (saturating_sub entry_block 1, saturating_sub (anchor_l1 a) 1)
         | None \<Rightarrow> (0, deployment))
      in \<lparr>plan_request = \<lparr>req_target = entry_block, req_root = root\<rparr>,
          rewind_target_l2 = target, rollback_l1_block = rollback\<rparr>)"

datatype verify_mismatch_action =
    FastPathSiblingReorg
  | NoOpPendingSiblingReorg
  | DeferEntryVerify
  | ExhaustedDeferralRewind
  | GenericMismatchRewind

definition classify_verify_mismatch :: "bool \<Rightarrow> bool \<Rightarrow> bool \<Rightarrow> u32 \<Rightarrow> u32 \<Rightarrow> verify_mismatch_action" where
  "classify_verify_mismatch filtering_present sibling_reorg_already_queued is_pending_entry_block
      deferrals_before_increment max_deferrals =
     (if filtering_present \<and> \<not> sibling_reorg_already_queued then FastPathSiblingReorg
      else if filtering_present \<and> sibling_reorg_already_queued then NoOpPendingSiblingReorg
      else if is_pending_entry_block then
        (if deferrals_before_increment + 1 < max_deferrals then DeferEntryVerify else ExhaustedDeferralRewind)
      else GenericMismatchRewind)"

section \<open>State transitions\<close>

definition clear_recovery_state :: "driver \<Rightarrow> driver" where
  "clear_recovery_state d = d\<lparr>pending_sibling_reorg := None, drv_hold := clear (drv_hold d)\<rparr>"

definition clear_internal_state :: "driver \<Rightarrow> driver" where
  "clear_internal_state d =
     clear_recovery_state (d\<lparr>queues := \<lparr>preconfirmed_hashes = Map.empty, pending_submissions = [],
       drv_pending_l1 = clear_pending (drv_pending_l1 (queues d)), pending_l1_forward_txs = []\<rparr>\<rparr>)"

definition min_target :: "u64 \<Rightarrow> u64 option \<Rightarrow> u64 option" where
  "min_target target t = Some (case t of None \<Rightarrow> target | Some t' \<Rightarrow> min t' target)"

definition set_rewind_target :: "u64 \<Rightarrow> driver \<Rightarrow> driver" where
  "set_rewind_target target d = d\<lparr>pending_rewind_target := min_target target (pending_rewind_target d)\<rparr>"

definition rewind_to_re_derive :: "u64 \<Rightarrow> u64 \<Rightarrow> driver \<Rightarrow> driver" where
  "rewind_to_re_derive target_l2_block rollback d =
     (let d1 = clear_internal_state d;
          d2 = d1\<lparr>derivation := set_last_derived_l2_block target_l2_block (snd (rollback_to rollback (derivation d1)))\<rparr>;
          d3 = d2\<lparr>drv_mode := Sync, synced := False,
                 consecutive_rewind_cycles := saturating_add (consecutive_rewind_cycles d2) 1\<rparr>
      in set_rewind_target target_l2_block d3)"

definition apply_sibling_reorg_plan_fields ::
    "sibling_reorg_request \<Rightarrow> sibling_reorg_verify_plan \<Rightarrow> driver \<Rightarrow> driver" where
  "apply_sibling_reorg_plan_fields saved_req plan d =
     d\<lparr>pending_sibling_reorg := Some saved_req,
       derivation := snd (rollback_to (rollback_l1_block plan)
         (set_last_derived_l2_block (rewind_target_l2 plan) (derivation d))),
       drv_mode := Sync,
       pending_rewind_target := min_target (rewind_target_l2 plan) (pending_rewind_target d),
       drv_hold := clear (drv_hold d)\<rparr>"

definition apply_sibling_reorg_plan :: "sibling_reorg_verify_plan \<Rightarrow> driver \<Rightarrow> driver" where
  "apply_sibling_reorg_plan plan d =
     (let d1 = apply_sibling_reorg_plan_fields (plan_request plan) plan (clear_internal_state d)
      in d1\<lparr>synced := False\<rparr>)"

definition clear_fields_on_sibling_reorg_success :: "driver \<Rightarrow> driver" where
  "clear_fields_on_sibling_reorg_success d =
     d\<lparr>pending_sibling_reorg := None, consecutive_rewind_cycles := 0, consecutive_flush_mismatches := 0,
       drv_hold := clear (drv_hold d)\<rparr>"

section \<open>Contracts\<close>

text \<open>
  What a recovery step promises its callers: it leaves sync mode entered, no hold, and nothing
  pending that was built on the old chain.
\<close>

definition queues_dropped :: "driver \<Rightarrow> bool" where
  "queues_dropped d \<longleftrightarrow> preconfirmed_hashes (queues d) = Map.empty \<and> pending_submissions (queues d) = [] \<and>
     pending_is_empty (drv_pending_l1 (queues d)) \<and> pq_groups (drv_pending_l1 (queues d)) = [] \<and>
     pending_l1_forward_txs (queues d) = []"

locale recovery_step =
  fixes recover :: "driver \<Rightarrow> driver"
    and rewind_target :: u64
  assumes drops: "queues_dropped (recover d)"
    and sync: "drv_mode (recover d) = Sync \<and> \<not> synced (recover d)"
    and releases: "drv_hold (recover d) = Clear"
    and targets: "pending_rewind_target (recover d) = min_target rewind_target (pending_rewind_target d)"
    and keeps_head: "drv_head (recover d) = drv_head d"
begin

lemma builder_not_blocked: "\<not> is_blocking_build (drv_hold (recover d))"
  by (simp add: releases is_blocking_build_def)

lemma target_at_most: "\<exists>t. pending_rewind_target (recover d) = Some t \<and> t \<le> rewind_target"
  by (simp add: targets min_target_def split: option.split)

lemma target_monotone: "pending_rewind_target d = Some t \<Longrightarrow> \<exists>t'. pending_rewind_target (recover d) = Some t' \<and> t' \<le> t"
  by (simp add: targets min_target_def)

end

lemma clear_internal_state_fields [simp]:
  "queues_dropped (clear_internal_state d)" "drv_hold (clear_internal_state d) = Clear"
  "pending_sibling_reorg (clear_internal_state d) = None" "drv_head (clear_internal_state d) = drv_head d"
  "derivation (clear_internal_state d) = derivation d" "drv_mode (clear_internal_state d) = drv_mode d"
  "synced (clear_internal_state d) = synced d" "drv_anchor (clear_internal_state d) = drv_anchor d"
  "pending_rewind_target (clear_internal_state d) = pending_rewind_target d"
  "pending_anchor_refresh (clear_internal_state d) = pending_anchor_refresh d"
  "consecutive_rewind_cycles (clear_internal_state d) = consecutive_rewind_cycles d"
  "last_seen_l1_block (clear_internal_state d) = last_seen_l1_block d"
  by (simp_all add: clear_internal_state_def clear_recovery_state_def queues_dropped_def clear_def
      pending_is_empty_def clear_pending_def)

lemma queues_dropped_upd [simp]:
  "queues_dropped (d\<lparr>derivation := x\<rparr>) = queues_dropped d" "queues_dropped (d\<lparr>drv_mode := m\<rparr>) = queues_dropped d"
  "queues_dropped (d\<lparr>synced := b\<rparr>) = queues_dropped d" "queues_dropped (d\<lparr>drv_hold := h\<rparr>) = queues_dropped d"
  "queues_dropped (d\<lparr>pending_sibling_reorg := r\<rparr>) = queues_dropped d"
  "queues_dropped (d\<lparr>pending_rewind_target := t\<rparr>) = queues_dropped d"
  "queues_dropped (d\<lparr>consecutive_rewind_cycles := c\<rparr>) = queues_dropped d"
  by (simp_all add: queues_dropped_def)

interpretation hard: recovery_step "rewind_to_re_derive target rollback" target for target rollback
  by unfold_locales (simp_all add: rewind_to_re_derive_def set_rewind_target_def Let_def)

interpretation sibling: recovery_step "apply_sibling_reorg_plan plan" "rewind_target_l2 plan" for plan
  by unfold_locales (simp_all add: apply_sibling_reorg_plan_def apply_sibling_reorg_plan_fields_def Let_def clear_def)

lemma derivation_head:
  "last_derived_l2_block (derivation (rewind_to_re_derive target rollback d)) = target"
  "last_derived_l2_block (derivation (apply_sibling_reorg_plan plan d)) =
     (case last_option (filter (\<lambda>m. meta_l1 m \<le> rollback_l1_block plan) (cursor (derivation d))) of
        None \<Rightarrow> 0 | Some m \<Rightarrow> meta_l2 m)"
  by (simp_all add: rewind_to_re_derive_def apply_sibling_reorg_plan_def apply_sibling_reorg_plan_fields_def
      set_rewind_target_def set_last_derived_l2_block_def Let_def)

lemma scan_reorg_target_eq:
  "scan_reorg_target bs root depth threshold =
     (if reorg_depth_exceeded depth threshold then None
      else map_option (\<lambda>b. \<lparr>req_target = pb_l2_block_number b, req_root = root\<rparr>)
        (find (\<lambda>b. clean_as_b256 (pb_clean_state_root b) = root \<and> pb_state_root b \<noteq> root) bs))"
  by (induction bs) (auto simp: decide_divergence_recovery_def Let_def)

section \<open>Properties\<close>

text \<open>A recovery, the target and the rollback block it names; several may be applied before the next tick.\<close>

datatype recovery = Hard u64 u64 | Sibling sibling_reorg_verify_plan

fun recover_by :: "recovery \<Rightarrow> driver \<Rightarrow> driver" where
  "recover_by (Hard target rollback) d = rewind_to_re_derive target rollback d"
| "recover_by (Sibling plan) d = apply_sibling_reorg_plan plan d"

fun recovery_target :: "recovery \<Rightarrow> u64" where
  "recovery_target (Hard target rollback) = target"
| "recovery_target (Sibling plan) = rewind_target_l2 plan"

fun recovery_rollback :: "recovery \<Rightarrow> u64" where
  "recovery_rollback (Hard target rollback) = rollback"
| "recovery_rollback (Sibling plan) = rollback_l1_block plan"

interpretation any: recovery_step "recover_by r" "recovery_target r" for r
  by (cases r; unfold_locales)
    (simp_all add: hard.drops hard.sync hard.releases hard.targets hard.keeps_head
      sibling.drops sibling.sync sibling.releases sibling.targets sibling.keeps_head)

lemma recover_by_derivation:
  "cursor (derivation (recover_by r d)) = filter (\<lambda>m. meta_l1 m \<le> recovery_rollback r) (cursor (derivation d))"
  "last_processed_l1_block (derivation (recover_by r d)) = recovery_rollback r"
  "pending_sibling_reorg (recover_by r d) = (case r of Hard _ _ \<Rightarrow> None | Sibling plan \<Rightarrow> Some (plan_request plan))"
  by (cases r; simp add: rewind_to_re_derive_def apply_sibling_reorg_plan_def apply_sibling_reorg_plan_fields_def
      set_rewind_target_def set_last_derived_l2_block_def rollback_to_def Let_def)+

lemma recoveries_target:
  "rs \<noteq> [] \<Longrightarrow> pending_rewind_target (fold recover_by rs d) =
     Some (Min (set (map recovery_target rs) \<union> set_option (pending_rewind_target d)))"
proof (induction rs rule: rev_nonempty_induct)
  case (single r)
  show ?case by (cases "pending_rewind_target d") (simp_all add: any.targets min_target_def min.commute)
next
  case (snoc r rs)
  then show ?case by (simp add: any.targets min_target_def Min_insert2 min.commute)
qed

lemma recoveries_cursor:
  "cursor (derivation (fold recover_by rs d)) =
     filter (\<lambda>m. \<forall>r \<in> set rs. meta_l1 m \<le> recovery_rollback r) (cursor (derivation d))"
  "drv_head (fold recover_by rs d) = drv_head d"
  by (induction rs rule: rev_induct) (auto simp: recover_by_derivation any.keeps_head intro!: filter_cong)

text \<open>
  C38: what recoveries leave behind. After any number of hard rewinds and sibling plans, in any
  order, the rewind target is exactly the lowest of their targets and of the target that was
  pending before: no recovery overwrites a lower one. Every pending queue is dropped, the hold is
  released, the driver is in sync mode and not synced, and its head is untouched. The cursor
  keeps exactly the blocks at or below every rollback block, and derivation goes on from the
  rollback block of the last recovery; a sibling request is pending just when that was a
  sibling plan, and it is that plan's. A last hard rewind puts the derivation head on its own target.
\<close>

theorem recovery_contract:
  assumes "rs \<noteq> []" and "d' = fold recover_by rs d"
  shows "pending_rewind_target d' = Some (Min (set (map recovery_target rs) \<union> set_option (pending_rewind_target d))) \<and>
    queues_dropped d' \<and> drv_hold d' = Clear \<and> drv_mode d' = Sync \<and> \<not> synced d' \<and> drv_head d' = drv_head d \<and>
    cursor (derivation d') = filter (\<lambda>m. \<forall>r \<in> set rs. meta_l1 m \<le> recovery_rollback r) (cursor (derivation d)) \<and>
    last_processed_l1_block (derivation d') = recovery_rollback (last rs) \<and>
    (case last rs of
       Hard target _ \<Rightarrow> pending_sibling_reorg d' = None \<and> last_derived_l2_block (derivation d') = target
     | Sibling plan \<Rightarrow> pending_sibling_reorg d' = Some (plan_request plan))"
proof -
  have d': "d' = recover_by (last rs) (fold recover_by (butlast rs) d)"
    using assms by (cases rs rule: rev_cases) simp_all
  have "case last rs of
       Hard target _ \<Rightarrow> pending_sibling_reorg d' = None \<and> last_derived_l2_block (derivation d') = target
     | Sibling plan \<Rightarrow> pending_sibling_reorg d' = Some (plan_request plan)"
    unfolding d' by (cases "last rs") (simp_all add: rewind_to_re_derive_def
        apply_sibling_reorg_plan_def apply_sibling_reorg_plan_fields_def set_rewind_target_def set_last_derived_l2_block_def Let_def)
  moreover have "queues_dropped d' \<and> drv_hold d' = Clear \<and> drv_mode d' = Sync \<and> \<not> synced d' \<and>
      last_processed_l1_block (derivation d') = recovery_rollback (last rs)"
    unfolding d' using any.drops any.releases any.sync recover_by_derivation(2) by blast
  ultimately show ?thesis
    using recoveries_target [OF assms(1), of d] recoveries_cursor [of rs d] assms(2) by blast
qed

text \<open>
  The sibling plan loses its derivation head. The plan sets the head before rolling back,
  and the rollback overwrites it: when the cursor holds nothing at or below the rollback block,
  the head is 0 instead of the planned target, and a batch that posts a block more than a gap
  limit away then fails on every attempt.
\<close>

theorem sibling_plan_loses_derivation_head:
  assumes "\<forall>m \<in> set (cursor (derivation d)). rollback_l1_block plan < meta_l1 m"
  shows "last_derived_l2_block (derivation (apply_sibling_reorg_plan plan d)) = 0 \<and>
    (unat n > 1001 \<and> st_derived s = last_derived_l2_block (derivation (apply_sibling_reorg_plan plan d)) \<and>
       l2_timestamp_checked (config (derivation d)) n \<noteq> None \<longrightarrow>
     push_block (derivation (apply_sibling_reorg_plan plan d)) B i n txs s = Inl (Gap_Too_Large n 1))"
proof -
  have "filter (\<lambda>m. meta_l1 m \<le> rollback_l1_block plan) (cursor (derivation d)) = []"
    using assms by (auto simp: filter_empty_conv not_le)
  then have z: "last_derived_l2_block (derivation (apply_sibling_reorg_plan plan d)) = 0"
    by (simp add: derivation_head last_option_def)
  have c: "config (derivation (apply_sibling_reorg_plan plan d)) = config (derivation d)"
    by (simp add: apply_sibling_reorg_plan_def apply_sibling_reorg_plan_fields_def set_last_derived_l2_block_def Let_def)
  have "push_block (derivation (apply_sibling_reorg_plan plan d)) B i n txs s = Inl (Gap_Too_Large n 1)"
    if "unat n > 1001" "st_derived s = 0" "l2_timestamp_checked (config (derivation d)) n \<noteq> None"
  proof -
    have one: "saturating_add (0 :: u64) 1 = 1" by (simp add: saturating_add_def)
    have "1 < n" "MAX_BLOCK_GAP < n - 1"
      using that(1) by (simp_all add: word_less_nat_alt MAX_BLOCK_GAP_def unat_sub word_le_nat_alt)
    moreover from this have "\<not> n \<le> 0" by auto
    ultimately show ?thesis
      using that(2,3) by (auto simp: push_block_def z c one Let_def)
  qed
  with z show ?thesis by auto
qed

definition toy_driver :: driver where
  "toy_driver = \<lparr>drv_head = toy_head\<lparr>l2_head_number := 3000\<rparr>, derivation = new_pipeline toy_config,
     drv_mode = Builder, synced = True, drv_hold = Armed 2500 0,
     queues = \<lparr>preconfirmed_hashes = Map.empty, pending_submissions = [], drv_pending_l1 = empty_pending,
       pending_l1_forward_txs = []\<rparr>,
     pending_sibling_reorg = None, pending_rewind_target = None, pending_anchor_refresh = None,
     consecutive_rewind_cycles = 0, consecutive_flush_mismatches = 0,
     drv_anchor = Some \<lparr>anchor_l2 = 2499, anchor_l1 = 20\<rparr>, last_seen_l1_block = 25, last_checkpointed_l1_block = 0\<rparr>"

theorem recovery_contract_witness:
  "pending_rewind_target (fold recover_by [Sibling (plan_sibling_reorg_from_verify 2500 7 (drv_anchor toy_driver) 0), Hard 2600 30]
     toy_driver) = Some 2499"
proof -
  let ?rs = "[Sibling (plan_sibling_reorg_from_verify 2500 7 (drv_anchor toy_driver) 0), Hard 2600 30]"
  have "pending_rewind_target (fold recover_by ?rs toy_driver) =
      Some (Min (set (map recovery_target ?rs) \<union> set_option (pending_rewind_target toy_driver)))"
    by (rule recovery_contract [THEN conjunct1]) simp_all
  then show ?thesis by (simp add: plan_sibling_reorg_from_verify_def toy_driver_def saturating_sub_def word_le_nat_alt min_def)
qed

theorem sibling_plan_loses_derivation_head_witness:
  "last_derived_l2_block (derivation (apply_sibling_reorg_plan
     (plan_sibling_reorg_from_verify 2500 7 (drv_anchor toy_driver) 0) toy_driver)) = 0"
  by (rule conjunct1 [OF sibling_plan_loses_derivation_head]) (simp add: toy_driver_def new_pipeline_def)

text \<open>
  Which block a sibling reorg targets. Unless the depth has reached the safety threshold,
  the request names the rightmost block of the window whose clean root is the on-chain root
  while its speculative root is not; there is none when no block of the window is like that.
\<close>

theorem rightmost_divergent_block:
  "find_rightmost_sibling_reorg_target pending root depth threshold window_len =
     (if threshold \<le> depth then None
      else map_option (\<lambda>b. \<lparr>req_target = pb_l2_block_number b, req_root = root\<rparr>)
        (find (\<lambda>b. clean_as_b256 (pb_clean_state_root b) = root \<and> pb_state_root b \<noteq> root)
          (rev (take window_len pending))))"
  by (simp add: find_rightmost_sibling_reorg_target_def scan_reorg_target_eq reorg_depth_exceeded_def min_def)

text \<open>
  The pure classifier agrees with the hold. For a mismatch at the block the hold is armed
  for, without filtering, the classifier defers exactly when the hold's own deferral answers
  Continue, and rewinds exactly when it answers MustRewind with the block before the entry
  block; so no mismatch is accepted once the deferrals are used up.
\<close>

theorem classifier_refines_hold:
  assumes "is_armed_for b h"
  shows "(classify_verify_mismatch False q True (hold_deferrals h) MAX_ENTRY_VERIFY_DEFERRALS = DeferEntryVerify \<longleftrightarrow>
      (\<exists>k. fst (defer_hold h) = Continue k)) \<and>
    (classify_verify_mismatch False q True (hold_deferrals h) MAX_ENTRY_VERIFY_DEFERRALS = ExhaustedDeferralRewind \<longleftrightarrow>
      fst (defer_hold h) = MustRewind (saturating_sub b 1))"
  using assms by (cases h) (auto simp: classify_verify_mismatch_def Let_def)

theorem classifier_refines_hold_witness:
  "classify_verify_mismatch False True True (hold_deferrals (Armed 7 2)) MAX_ENTRY_VERIFY_DEFERRALS = ExhaustedDeferralRewind \<longleftrightarrow>
     fst (defer_hold (Armed 7 2)) = MustRewind (saturating_sub 7 1)"
  by (rule conjunct2 [OF classifier_refines_hold]) simp

end
