(* ===== verification/Driver_Steps.thy ===== *)
theory Driver_Steps
  imports Recovery
begin

text \<open>
  The driver's steps: verification of a local block against its L1 derivation
  (\<open>driver/verify.rs\<close>), the checks before a flush (\<open>driver/flush.rs\<close>), the pending rewind at
  the head of a tick and the sync tick (\<open>driver/mod.rs\<close>). The local headers, the L1 node, the
  engine, the database and the block builder (with the deferred filtering of the block's
  transactions) are parameters; clocks and balances are booleans.
\<close>

section \<open>Verification\<close>

datatype verification_decision =
    Match
  | Skip
  | L1ContextMismatchRewound u64
  | GapFillVerified
  | MismatchDeferExhausted u64
  | MismatchPermanent u64
  | SiblingReorgQueued u64 b256
  | SiblingReorgAlreadyQueued u64 "u64 option"

datatype verify_error =
    Header_Read_Failed
  | Deferred_To_Queued_Reorg u64
  | Verification_Deferred u64 u32
  | State_Root_Mismatch u64

record local_header =
  lh_mix_hash :: "b256 option"
  lh_state_root :: b256

definition local_l1_number :: "local_header \<Rightarrow> u64" where
  "local_l1_number h = ucast (case lh_mix_hash h of None \<Rightarrow> 0 | Some m \<Rightarrow> m)"

definition plan_for :: "derived_block \<Rightarrow> driver \<Rightarrow> sibling_reorg_verify_plan" where
  "plan_for b d = plan_sibling_reorg_from_verify (l2_block_number b) (db_state_root b) (drv_anchor d)
     (deployment_l1_block (config (derivation d)))"

definition anchor_rollback :: "driver \<Rightarrow> u64" where
  "anchor_rollback d = (case drv_anchor d of Some a \<Rightarrow> saturating_sub (anchor_l1 a) 1
     | None \<Rightarrow> deployment_l1_block (config (derivation d)))"

definition generic_mismatch :: "derived_block \<Rightarrow> driver \<Rightarrow> driver" where
  "generic_mismatch b d =
     (let d1 = clear_internal_state (d\<lparr>drv_mode := Sync, synced := False,
            consecutive_rewind_cycles := saturating_add (consecutive_rewind_cycles d) 1\<rparr>)
      in set_rewind_target (saturating_sub (l2_block_number b) 1)
           (d1\<lparr>derivation := snd (rollback_to (info_number (l1_info b)) (derivation d1))\<rparr>))"

definition handle_mismatch :: "derived_block \<Rightarrow> driver \<Rightarrow> (verify_error + verification_decision) \<times> driver" where
  "handle_mismatch b d =
     (let n = l2_block_number b;
          generic = (Inl (State_Root_Mismatch n), generic_mismatch b d)
      in case classify_verify_mismatch (filtering b \<noteq> None) (pending_sibling_reorg d \<noteq> None)
           (is_armed_for n (drv_hold d)) (hold_deferrals (drv_hold d)) MAX_ENTRY_VERIFY_DEFERRALS of
           FastPathSiblingReorg \<Rightarrow>
             (Inr (SiblingReorgQueued n (db_state_root b)), apply_sibling_reorg_plan (plan_for b d) d)
         | NoOpPendingSiblingReorg \<Rightarrow> (Inl (Deferred_To_Queued_Reorg n), d)
         | DeferEntryVerify \<Rightarrow>
             (case defer_hold (drv_hold d) of
                (Continue k, h) \<Rightarrow> (Inl (Verification_Deferred n k), d\<lparr>drv_hold := h\<rparr>)
              | (MustRewind t, h) \<Rightarrow>
                  (Inr (MismatchDeferExhausted t), rewind_to_re_derive t (anchor_rollback d) (d\<lparr>drv_hold := h\<rparr>))
              | (NotArmed, h) \<Rightarrow> generic)
         | ExhaustedDeferralRewind \<Rightarrow>
             (case defer_hold (drv_hold d) of (r, h) \<Rightarrow>
                let t = (case r of MustRewind t \<Rightarrow> t | _ \<Rightarrow> saturating_sub n 1)
                in (Inr (MismatchDeferExhausted t), rewind_to_re_derive t (anchor_rollback d) (d\<lparr>drv_hold := h\<rparr>)))
         | GenericMismatchRewind \<Rightarrow> generic)"

definition release_hold_for :: "u64 \<Rightarrow> driver \<Rightarrow> driver" where
  "release_hold_for n d = (if is_armed_for n (drv_hold d) then d\<lparr>drv_hold := clear (drv_hold d)\<rparr> else d)"

definition classify_and_apply_verification ::
    "(u64 \<Rightarrow> verify_error + local_header option) \<Rightarrow> derived_block \<Rightarrow> driver
     \<Rightarrow> (verify_error + verification_decision) \<times> driver" where
  "classify_and_apply_verification headers b d =
     (let n = l2_block_number b in
      if n \<le> immutable_block_ceiling (drv_head d) then (Inr Skip, d)
      else case headers n of
          Inl err \<Rightarrow> (Inl err, d)
        | Inr None \<Rightarrow> (Inr Skip, d)
        | Inr (Some h) \<Rightarrow>
            if local_l1_number h \<noteq> info_number (l1_info b) then
              (Inr (SiblingReorgQueued n (db_state_root b)), apply_sibling_reorg_plan (plan_for b d) d)
            else if db_state_root b = 0 then (Inr GapFillVerified, release_hold_for n d)
            else if lh_state_root h \<noteq> db_state_root b then handle_mismatch b d
            else (Inr Match, release_hold_for n d))"

definition verify_local_block_matches_l1 ::
    "(u64 \<Rightarrow> verify_error + local_header option) \<Rightarrow> derived_block \<Rightarrow> driver \<Rightarrow> (verify_error + unit) \<times> driver" where
  "verify_local_block_matches_l1 headers b d =
     (case classify_and_apply_verification headers b d of
        (Inl err, d') \<Rightarrow> (Inl err, d') | (Inr _, d') \<Rightarrow> (Inr (), d'))"

section \<open>The checks before a flush\<close>

datatype flush_precheck_result = Precheck_Skip | Proceed b256

definition rposition :: "('a \<Rightarrow> bool) \<Rightarrow> 'a list \<Rightarrow> nat option" where
  "rposition P xs = map_option (\<lambda>i. length xs - 1 - i) (position P (rev xs))"

definition carries_root :: "b256 \<Rightarrow> pending_block \<Rightarrow> bool" where
  "carries_root root b \<longleftrightarrow> pb_state_root b = root \<or> clean_as_b256 (pb_clean_state_root b) = root \<or>
     root \<in> set (pb_intermediate_roots b)"

definition trim_confirmed :: "b256 \<Rightarrow> driver \<Rightarrow> driver" where
  "trim_confirmed root d =
     (if root = 0 then d
      else
        let pending = pending_submissions (queues d) in
        case rposition (carries_root root) pending of
          None \<Rightarrow> d
        | Some pos \<Rightarrow>
            let req = (if pending_sibling_reorg d = None
                  then find_rightmost_sibling_reorg_target pending root (ucast (consecutive_rewind_cycles d))
                         REORG_SAFETY_THRESHOLD (pos + 1)
                  else pending_sibling_reorg d);
                trimmed = pb_l2_block_number (pending ! pos);
                update = (case drv_anchor d of None \<Rightarrow> True | Some a \<Rightarrow> anchor_l2 a < trimmed)
            in d\<lparr>pending_sibling_reorg := req,
                 queues := (queues d)\<lparr>pending_submissions := drop (pos + 1) pending\<rparr>,
                 drv_anchor := (if update then Some \<lparr>anchor_l2 = trimmed, anchor_l1 = last_seen_l1_block d\<rparr>
                   else drv_anchor d)\<rparr>)"

definition dispatch_sibling_reorg :: "sibling_reorg_request \<Rightarrow> driver \<Rightarrow> driver" where
  "dispatch_sibling_reorg req d =
     (let (target, rollback) =
        (case drv_anchor d of
           Some a \<Rightarrow> (max (saturating_sub (req_target req) 1) (anchor_l2 a), saturating_sub (anchor_l1 a) 1)
         | None \<Rightarrow> (saturating_sub (req_target req) 1, deployment_l1_block (config (derivation d))));
        d1 = clear_internal_state d
      in d1\<lparr>pending_sibling_reorg := Some req,
           derivation := snd (rollback_to rollback (set_last_derived_l2_block target (derivation d1))),
           drv_mode := Sync, synced := False\<rparr>)"

definition nothing_pending :: "driver \<Rightarrow> bool" where
  "nothing_pending d \<longleftrightarrow> pending_submissions (queues d) = [] \<and> pending_is_empty (drv_pending_l1 (queues d))"

definition check_stale_anchor :: "b256 \<Rightarrow> driver \<Rightarrow> flush_precheck_result \<times> driver" where
  "check_stale_anchor root d =
     (let proceed = (if nothing_pending d then (Precheck_Skip, d) else (Proceed root, d)) in
      if pending_anchor_refresh d \<noteq> None then (Precheck_Skip, d)
      else case pending_submissions (queues d) of
          [] \<Rightarrow> proceed
        | first # _ \<Rightarrow>
            if saturating_add (pb_l1_context_block first) 1 \<le> last_seen_l1_block d then
              (if reorg_depth_exceeded (saturating_sub (l2_head_number (drv_head d)) (pb_l2_block_number first))
                    REORG_SAFETY_THRESHOLD
               then (Precheck_Skip, d)
               else (Precheck_Skip, d\<lparr>pending_anchor_refresh := Some (pb_l2_block_number first)\<rparr>))
            else proceed)"

text \<open>
  \<open>has_proposer\<close>, \<open>cooling_down\<close>: whether a signer exists and whether the last failure is
  less than \<open>SUBMISSION_COOLDOWN_SECS\<close> old. \<open>on_chain\<close> is the state root read from L1.
\<close>

definition flush_precheck :: "bool \<Rightarrow> bool \<Rightarrow> b256 option \<Rightarrow> driver \<Rightarrow> flush_precheck_result \<times> driver" where
  "flush_precheck has_proposer cooling_down on_chain d =
     (if \<not> has_proposer then
        (Precheck_Skip, d\<lparr>queues := (queues d)\<lparr>pending_submissions := [],
           drv_pending_l1 := clear_pending (drv_pending_l1 (queues d))\<rparr>\<rparr>)
      else if nothing_pending d then (Precheck_Skip, d)
      else if armed_for (drv_hold d) \<noteq> None then (Precheck_Skip, d)
      else if cooling_down then (Precheck_Skip, d)
      else case on_chain of
          None \<Rightarrow> (Precheck_Skip, d)
        | Some root \<Rightarrow>
            let d1 = trim_confirmed root d in
            (case pending_sibling_reorg d1 of
               Some req \<Rightarrow> (Precheck_Skip, dispatch_sibling_reorg req d1)
             | None \<Rightarrow> check_stale_anchor root d1))"

section \<open>The pending rewind at the head of a tick\<close>

text \<open>\<open>tip\<close> is the last block of the database after the fork choice update.\<close>

definition consume_rewind_target :: "('e, 'pl) engine_client \<Rightarrow> block_db \<Rightarrow> u64 \<Rightarrow> driver \<Rightarrow> 'e
    \<Rightarrow> (engine_error + unit) \<times> driver \<times> 'e" where
  "consume_rewind_target E db tip d e =
     (case pending_rewind_target d of
        None \<Rightarrow> (Inr (), d, e)
      | Some target \<Rightarrow>
          let d1 = d\<lparr>pending_rewind_target := None\<rparr> in
          if target < l2_head_number (drv_head d) then
            let d2 = clear_internal_state d1 in
            (case rewind_l2_chain E db tip target (drv_head d2) e of
               (Inr _, h, e') \<Rightarrow> (Inr (), d2\<lparr>drv_head := h\<rparr>, e')
             | (Inl err, h, e') \<Rightarrow> (Inl err, d2\<lparr>drv_head := h, pending_rewind_target := Some target\<rparr>, e'))
          else (Inr (), d1, e))"

section \<open>The sync tick\<close>

datatype step_error = Derive_Error derive_error | Engine_Error engine_error | Checkpoint_Failed

definition CHECKPOINT_INTERVAL :: u64 where
  "CHECKPOINT_INTERVAL = 64"

fun sync_blocks :: "('e, 'pl) engine_client \<Rightarrow> block_db \<Rightarrow> (derived_block \<Rightarrow> u64 \<Rightarrow> (built_block \<times> 'pl) option)
    \<Rightarrow> derived_block list \<Rightarrow> driver \<Rightarrow> 'e \<Rightarrow> (step_error + unit) \<times> driver \<times> 'e" where
  "sync_blocks E db build [] d e = (Inr (), d, e)"
| "sync_blocks E db build (b # bs) d e =
     (let n = l2_block_number b in
      case pending_sibling_reorg d of
        Some req \<Rightarrow>
          if n = req_target req \<and> n \<le> l2_head_number (drv_head d) then
            (case rebuild_block_as_sibling E db (build b) n (req_root req) (drv_head d) e of
               (Inl err, h, e') \<Rightarrow> (Inl (Engine_Error err), d\<lparr>drv_head := h\<rparr>, e')
             | (Inr _, h, e') \<Rightarrow>
                 sync_blocks E db build bs (clear_fields_on_sibling_reorg_success (d\<lparr>drv_head := h\<rparr>)) e')
          else if n \<le> l2_head_number (drv_head d) then sync_blocks E db build bs d e
          else (case build_and_insert_block E (build b) n (drv_head d) e of
              (Inl err, h, e') \<Rightarrow> (Inl (Engine_Error err), d\<lparr>drv_head := h\<rparr>, e')
            | (Inr _, h, e') \<Rightarrow> sync_blocks E db build bs (d\<lparr>drv_head := h\<rparr>) e')
      | None \<Rightarrow>
          if n \<le> l2_head_number (drv_head d) then sync_blocks E db build bs d e
          else (case build_and_insert_block E (build b) n (drv_head d) e of
              (Inl err, h, e') \<Rightarrow> (Inl (Engine_Error err), d\<lparr>drv_head := h\<rparr>, e')
            | (Inr _, h, e') \<Rightarrow> sync_blocks E db build bs (d\<lparr>drv_head := h\<rparr>) e'))"

definition commit_derivation :: "derived_batch \<Rightarrow> driver \<Rightarrow> driver" where
  "commit_derivation batch d = d\<lparr>derivation := commit_batch batch (derivation d)\<rparr>"

definition enter_mode :: "bool \<Rightarrow> driver \<Rightarrow> driver" where
  "enter_mode builder_mode d =
     (clear_internal_state d)\<lparr>consecutive_rewind_cycles := 0,
       drv_mode := (if builder_mode then Builder else Fullnode), synced := True\<rparr>"

text \<open>\<open>db_ok\<close>: the database write of \<open>save_checkpoint\<close> (\<^const>\<open>save_checkpoint\<close>) succeeds.\<close>

definition maybe_save_checkpoint :: "bool \<Rightarrow> driver \<Rightarrow> (step_error + unit) \<times> driver" where
  "maybe_save_checkpoint db_ok d =
     (let current = last_processed_l1_block (derivation d) in
      if saturating_sub current (last_checkpointed_l1_block d) \<ge> CHECKPOINT_INTERVAL then
        let d1 = d\<lparr>derivation := prune_finalized (saturating_sub current 128) (derivation d)\<rparr>
        in if db_ok then (Inr (), d1\<lparr>last_checkpointed_l1_block := current\<rparr>) else (Inl Checkpoint_Failed, d1)
      else (Inr (), d))"

definition step_sync :: "abi \<Rightarrow> decoders \<Rightarrow> l1_node \<Rightarrow> ('e, 'pl) engine_client \<Rightarrow> block_db
    \<Rightarrow> (derived_block \<Rightarrow> u64 \<Rightarrow> (built_block \<times> 'pl) option) \<Rightarrow> bool \<Rightarrow> bool \<Rightarrow> u64 \<Rightarrow> driver \<Rightarrow> 'e
    \<Rightarrow> (step_error + unit) \<times> driver \<times> 'e" where
  "step_sync A D node E db build builder_mode db_ok latest_l1_block d e =
     (case derive_next_batch A D node latest_l1_block (derivation d) of
        Inl err \<Rightarrow> (Inl (Derive_Error err), d, e)
      | Inr batch \<Rightarrow>
          if batch_blocks batch = [] then
            (if pending_rewind_target d \<noteq> None then (Inr (), d, e)
             else
               let d1 = commit_derivation batch d in
               if latest_l1_block \<le> last_processed_l1_block (derivation d1) \<and> drv_mode d1 = Sync
               then (Inr (), enter_mode builder_mode d1, e) else (Inr (), d1, e))
          else
            (case sync_blocks E db build (batch_blocks batch) d e of
               (Inl err, d', e') \<Rightarrow> (Inl err, d', e')
             | (Inr _, d', e') \<Rightarrow>
                 if pending_rewind_target d' = None
                 then (case maybe_save_checkpoint db_ok (commit_derivation batch d') of (r, d'') \<Rightarrow> (r, d'', e'))
                 else (Inr (), d', e')))"

section \<open>Lemmas\<close>

lemma plan_for_simps [simp]:
  "plan_request (plan_for b d) = \<lparr>req_target = l2_block_number b, req_root = db_state_root b\<rparr>"
  "rewind_target_l2 (plan_for b d) = (case drv_anchor d of None \<Rightarrow> 0 | Some _ \<Rightarrow> saturating_sub (l2_block_number b) 1)"
  by (simp_all add: plan_for_def plan_sibling_reorg_from_verify_def split: option.split)

lemma apply_plan_fields [simp]:
  "pending_sibling_reorg (apply_sibling_reorg_plan p d) = Some (plan_request p)"
  "pending_rewind_target (apply_sibling_reorg_plan p d) = min_target (rewind_target_l2 p) (pending_rewind_target d)"
  "drv_head (apply_sibling_reorg_plan p d) = drv_head d"
  "drv_hold (apply_sibling_reorg_plan p d) = Clear"
  by (simp_all add: apply_sibling_reorg_plan_def apply_sibling_reorg_plan_fields_def Let_def clear_def)

lemma rewind_fields [simp]:
  "pending_sibling_reorg (rewind_to_re_derive t r d) = None"
  "pending_rewind_target (rewind_to_re_derive t r d) = min_target t (pending_rewind_target d)"
  "drv_hold (rewind_to_re_derive t r d) = Clear"
  "drv_mode (rewind_to_re_derive t r d) = Sync"
  "drv_head (rewind_to_re_derive t r d) = drv_head d"
  "last_derived_l2_block (derivation (rewind_to_re_derive t r d)) = t"
  by (simp_all add: rewind_to_re_derive_def set_rewind_target_def set_last_derived_l2_block_def Let_def)

lemma generic_fields [simp]:
  "drv_mode (generic_mismatch b d) = Sync" "drv_hold (generic_mismatch b d) = Clear"
  "pending_sibling_reorg (generic_mismatch b d) = None" "drv_head (generic_mismatch b d) = drv_head d"
  "pending_rewind_target (generic_mismatch b d) = min_target (saturating_sub (l2_block_number b) 1) (pending_rewind_target d)"
  by (simp_all add: generic_mismatch_def set_rewind_target_def Let_def)

lemma saturating_sub_one_less: "n \<noteq> 0 \<Longrightarrow> saturating_sub n 1 < (n :: u64)"
  using unat_eq_zero [of n] by (auto simp: word_less_nat_alt unat_saturating_sub)

lemma min_target_le: "\<exists>t. min_target r p = Some t \<and> t \<le> r"
  by (simp add: min_target_def split: option.split)

lemma handle_mismatch_result:
  "fst (handle_mismatch b d) \<noteq> Inr Match \<and> fst (handle_mismatch b d) \<noteq> Inr GapFillVerified \<and>
   fst (handle_mismatch b d) \<noteq> Inr Skip"
  by (simp add: handle_mismatch_def Let_def split: verify_mismatch_action.split prod.split deferral_result.split)

lemma verification_outcome:
  assumes "classify_and_apply_verification headers b d = (Inr dec, d')"
  shows "dec = Skip \<and> d' = d \<or>
    (\<exists>h. headers (l2_block_number b) = Inr (Some h) \<and>
      (local_l1_number h \<noteq> info_number (l1_info b) \<and> dec = SiblingReorgQueued (l2_block_number b) (db_state_root b) \<or>
       local_l1_number h = info_number (l1_info b) \<and> db_state_root b = 0 \<and> dec = GapFillVerified \<and>
         d' = release_hold_for (l2_block_number b) d \<or>
       local_l1_number h = info_number (l1_info b) \<and> db_state_root b \<noteq> 0 \<and> lh_state_root h = db_state_root b \<and>
         dec = Match \<and> d' = release_hold_for (l2_block_number b) d \<or>
       (Inr dec, d') = handle_mismatch b d))"
  using assms by (auto simp: classify_and_apply_verification_def Let_def split: if_splits sum.splits option.splits)

text \<open>The decisions that queue a sibling reorg are exactly the two sites that apply the plan.\<close>

lemma queued_state:
  assumes "classify_and_apply_verification headers b d = (Inr (SiblingReorgQueued n r), d')"
  shows "n = l2_block_number b \<and> r = db_state_root b \<and> d' = apply_sibling_reorg_plan (plan_for b d) d \<and>
    immutable_block_ceiling (drv_head d) < n \<and> (\<exists>h. headers n = Inr (Some h))"
  using assms by (auto simp: classify_and_apply_verification_def handle_mismatch_def Let_def
      split: if_splits sum.splits option.splits verify_mismatch_action.splits prod.splits deferral_result.splits)

lemma recover_head:
  assumes "recover_chain_state db tip h = (Inr (), h')" and "tip \<noteq> 0"
  shows "l2_head_number h' = tip \<and> immutable_block_ceiling h' = immutable_block_ceiling h"
  using assms by (auto simp: recover_chain_state_def split: sum.splits dest!: recover_hashes_ok)

lemma rewind_noop:
  assumes "rewind_l2_chain E db tip t h e = (Inr (), h', e')" and "t < tip"
  shows "immutable_block_ceiling h' = tip \<and> l2_head_number h' = tip"
proof -
  have "tip \<noteq> 0" using assms(2) by auto
  with assms show ?thesis
    by (auto simp: rewind_l2_chain_def Let_def split: sum.splits prod.splits if_splits dest: recover_head)
qed

lemma sync_blocks_keeps_derivation:
  "sync_blocks E db build bs d e = (r, d', e') \<Longrightarrow> derivation d' = derivation d \<and> drv_mode d' = drv_mode d \<and>
     pending_rewind_target d' = pending_rewind_target d"
proof (induction bs arbitrary: d e)
  case (Cons b bs)
  note IH = Cons.IH
  show ?case
    using Cons.prems
    by (auto simp: Let_def clear_fields_on_sibling_reorg_success_def split: option.splits if_splits prod.splits sum.splits
        dest!: IH)
qed simp

section \<open>Properties\<close>

lemma mismatch_recovers:
  assumes "handle_mismatch b d = (Inr dec, d')" and "l2_block_number b \<noteq> 0"
  shows "dec \<notin> {Match, GapFillVerified, Skip} \<and> drv_mode d' = Sync \<and> drv_hold d' = Clear \<and>
    (\<exists>t. pending_rewind_target d' = Some t \<and> t < l2_block_number b)"
proof -
  let ?n = "l2_block_number b"
  note lt = saturating_sub_one_less [OF assms(2)]
  have less: "\<exists>t. min_target r q = Some t \<and> t < ?n" if "r < ?n" for r q
    using min_target_le [of r q] that by (metis order.strict_trans1)
  have plan: "rewind_target_l2 (plan_for b d) < ?n"
    using lt assms(2) by (simp add: word_gt_0 split: option.split)
  have m: "drv_mode (apply_sibling_reorg_plan p e) = Sync" for p e by (rule conjunct1 [OF sibling.sync])
  show ?thesis
    using assms(1) less [OF lt] less [OF plan] m
    by (cases "drv_hold d") (auto simp: handle_mismatch_def classify_verify_mismatch_def Let_def
        simp del: plan_for_simps(2) split: verify_mismatch_action.splits if_splits)
qed

text \<open>
  C8: what a verification accepts, and on which evidence. The decision is a match exactly
  for a block above the immutable range whose local header has the derived L1 number and the
  derived root, the derived root not being zero; a gap-fill acceptance compares the L1
  number only, because the derived root is zero; a block is skipped without any comparison
  exactly when it is immutable or has no local header. An accepted block only releases the
  hold of that very block, a skip changes nothing, and every other decision leaves sync mode,
  a released hold and a rewind target below the block.
\<close>

theorem accepted_blocks_agree:
  assumes "classify_and_apply_verification headers b d = (Inr dec, d')"
  shows "(dec = Match \<longleftrightarrow> immutable_block_ceiling (drv_head d) < l2_block_number b \<and> (\<exists>h. headers (l2_block_number b) = Inr (Some h) \<and>
      local_l1_number h = info_number (l1_info b) \<and> lh_state_root h = db_state_root b \<and> db_state_root b \<noteq> 0)) \<and>
    (dec = GapFillVerified \<longleftrightarrow> immutable_block_ceiling (drv_head d) < l2_block_number b \<and>
      (\<exists>h. headers (l2_block_number b) = Inr (Some h) \<and> local_l1_number h = info_number (l1_info b) \<and> db_state_root b = 0)) \<and>
    (dec = Skip \<longleftrightarrow> l2_block_number b \<le> immutable_block_ceiling (drv_head d) \<or> headers (l2_block_number b) = Inr None) \<and>
    (dec \<in> {Match, GapFillVerified} \<longrightarrow> d' = release_hold_for (l2_block_number b) d) \<and> (dec = Skip \<longrightarrow> d' = d) \<and>
    (dec \<notin> {Match, GapFillVerified, Skip} \<longrightarrow> drv_mode d' = Sync \<and> drv_hold d' = Clear \<and>
      (\<exists>t. pending_rewind_target d' = Some t \<and> t < l2_block_number b))"
proof (cases "l2_block_number b \<le> immutable_block_ceiling (drv_head d) \<or> headers (l2_block_number b) = Inr None")
  case True
  with assms show ?thesis by (auto simp: classify_and_apply_verification_def Let_def split: if_splits)
next
  case False
  let ?n = "l2_block_number b"
  from False have n: "?n \<noteq> 0" "immutable_block_ceiling (drv_head d) < ?n" by auto
  obtain h where h: "headers ?n = Inr (Some h)"
    using False assms by (auto simp: classify_and_apply_verification_def Let_def split: sum.splits option.splits)
  have plan: "rewind_target_l2 (plan_for b d) < ?n"
    using saturating_sub_one_less [OF n(1)] n(1) by (simp add: word_gt_0 split: option.split)
  have "\<exists>t. min_target (rewind_target_l2 (plan_for b d)) q = Some t \<and> t < ?n" for q
    using min_target_le [of "rewind_target_l2 (plan_for b d)" q] plan by (metis order.strict_trans1)
  moreover have "drv_mode (apply_sibling_reorg_plan (plan_for b d) d) = Sync" by (rule conjunct1 [OF sibling.sync])
  ultimately show ?thesis
    using assms n h mismatch_recovers [OF _ n(1), of d dec d']
    by (auto simp: classify_and_apply_verification_def Let_def simp del: plan_for_simps(2) split: if_splits)
qed

lemma toy_driver_simps [simp]:
  "immutable_block_ceiling (drv_head toy_driver) = 0" "drv_hold toy_driver = Armed 2500 0"
  "l2_head_number (drv_head toy_driver) = 3000" "pending_rewind_target toy_driver = None"
  "pending_sibling_reorg toy_driver = None" "drv_anchor toy_driver = Some \<lparr>anchor_l2 = 2499, anchor_l1 = 20\<rparr>"
  "derivation toy_driver = new_pipeline toy_config" "pending_anchor_refresh toy_driver = None"
  "last_seen_l1_block toy_driver = 25"
  by (simp_all add: toy_driver_def toy_head_def)

definition block_at :: "u64 \<Rightarrow> u64 \<Rightarrow> b256 \<Rightarrow> derived_block" where
  "block_at n l1 root = \<lparr>l2_block_number = n, l2_timestamp = 0, l1_info = \<lparr>info_number = l1, info_hash = 0\<rparr>,
     db_state_root = root, db_transactions = [], db_is_empty = True, execution_entries = [], filtering = None\<rparr>"

definition header_of :: "u64 \<Rightarrow> b256 \<Rightarrow> u64 \<Rightarrow> verify_error + local_header option" where
  "header_of l1 root = (\<lambda>_. Inr (Some \<lparr>lh_mix_hash = Some (ucast l1), lh_state_root = root\<rparr>))"

lemma block_at_simps [simp]:
  "l2_block_number (block_at n l1 root) = n" "info_number (l1_info (block_at n l1 root)) = l1"
  "db_state_root (block_at n l1 root) = root" "filtering (block_at n l1 root) = None"
  by (simp_all add: block_at_def)

lemma header_of_simps:
  "header_of l1 root n = Inr (Some \<lparr>lh_mix_hash = Some (ucast l1), lh_state_root = root\<rparr>)"
  "local_l1_number \<lparr>lh_mix_hash = Some 9, lh_state_root = root\<rparr> = 9"
  by (simp_all add: header_of_def local_l1_number_def)

theorem accepted_blocks_agree_witness:
  "\<exists>h. header_of 9 7 (l2_block_number (block_at 2500 9 7)) = Inr (Some h) \<and>
     local_l1_number h = info_number (l1_info (block_at 2500 9 7)) \<and> lh_state_root h = db_state_root (block_at 2500 9 7)"
proof -
  have run: "classify_and_apply_verification (header_of 9 7) (block_at 2500 9 7) toy_driver =
      (Inr Match, release_hold_for 2500 toy_driver)"
    by (simp add: classify_and_apply_verification_def header_of_simps)
  from accepted_blocks_agree [OF run] show ?thesis by blast
qed

text \<open>
  The budget of an entry block. While the hold is armed for a block whose root does not
  match and no filtering was flagged, the first two verifications only count (an error for the
  back-off, nothing else changes); the third rewinds: sync mode, hold released, the block before
  the entry block as derivation head and rewind target. No number of attempts accepts the block.
\<close>

theorem entry_block_budget:
  assumes "drv_hold d = Armed n k" and "l2_block_number b = n" and "filtering b = None"
    and "immutable_block_ceiling (drv_head d) < n"
    and "headers n = Inr (Some h)" and "local_l1_number h = info_number (l1_info b)"
    and "db_state_root b \<noteq> 0" and "lh_state_root h \<noteq> db_state_root b" and "k < 3"
  shows "if k < 2 then classify_and_apply_verification headers b d =
      (Inl (Verification_Deferred n (k + 1)), d\<lparr>drv_hold := Armed n (k + 1)\<rparr>)
    else \<exists>d'. classify_and_apply_verification headers b d = (Inr (MismatchDeferExhausted (saturating_sub n 1)), d') \<and>
      drv_mode d' = Sync \<and> drv_hold d' = Clear \<and> last_derived_l2_block (derivation d') = saturating_sub n 1 \<and>
      pending_rewind_target d' = min_target (saturating_sub n 1) (pending_rewind_target d)"
proof -
  have k: "k = 0 \<or> k = 1 \<or> k = 2"
    using assms(9) unfolding word_unat_eq_iff word_less_nat_alt by simp linarith
  show ?thesis
    using k assms by (auto simp: classify_and_apply_verification_def handle_mismatch_def classify_verify_mismatch_def
        MAX_ENTRY_VERIFY_DEFERRALS_def Let_def)
qed

theorem entry_block_budget_witness:
  "\<exists>d'. classify_and_apply_verification (header_of 9 8) (block_at 2500 9 7) (toy_driver\<lparr>drv_hold := Armed 2500 2\<rparr>) =
      (Inr (MismatchDeferExhausted (saturating_sub 2500 1)), d') \<and> drv_hold d' = Clear"
proof -
  let ?d = "toy_driver\<lparr>drv_hold := Armed 2500 2\<rparr>"
  have "if (2 :: u32) < 2 then classify_and_apply_verification (header_of 9 8) (block_at 2500 9 7) ?d =
      (Inl (Verification_Deferred 2500 (2 + 1)), ?d\<lparr>drv_hold := Armed 2500 (2 + 1)\<rparr>)
    else \<exists>d'. classify_and_apply_verification (header_of 9 8) (block_at 2500 9 7) ?d =
        (Inr (MismatchDeferExhausted (saturating_sub 2500 1)), d') \<and>
      drv_mode d' = Sync \<and> drv_hold d' = Clear \<and> last_derived_l2_block (derivation d') = saturating_sub 2500 1 \<and>
      pending_rewind_target d' = min_target (saturating_sub 2500 1) (pending_rewind_target ?d)"
    by (rule entry_block_budget [where h = "\<lparr>lh_mix_hash = Some 9, lh_state_root = 8\<rparr>"])
      (simp_all add: header_of_simps)
  then show ?thesis by auto
qed

text \<open>
  A queued sibling reorg does not survive the next tick. Verification queues the request
  together with a rewind target below the block; the next tick consumes the target by clearing
  the internal state, the request included. If the engine then leaves the chain in place (the
  no-op for which the sibling reorg was introduced), the divergent block falls below the
  immutable ceiling and later verifications of it are skipped.
\<close>

theorem queued_sibling_reorg_is_lost:
  assumes "classify_and_apply_verification headers b d = (Inr (SiblingReorgQueued n root), d1)"
    and "n \<le> l2_head_number (drv_head d)" and "consume_rewind_target E db tip d1 e = (Inr (), d2, e')" and "n \<le> tip"
  shows "pending_sibling_reorg d1 = Some \<lparr>req_target = n, req_root = root\<rparr> \<and> pending_sibling_reorg d2 = None \<and>
    pending_rewind_target d2 = None \<and> immutable_block_ceiling (drv_head d2) = tip \<and>
    classify_and_apply_verification headers b d2 = (Inr Skip, d2)"
proof -
  note q = queued_state [OF assms(1)]
  have n0: "n \<noteq> 0" using q by auto
  have r: "rewind_target_l2 (plan_for b d) < n"
    using q saturating_sub_one_less [OF n0] n0 by (auto simp: word_gt_0 split: option.split)
  obtain t where "min_target (rewind_target_l2 (plan_for b d)) (pending_rewind_target d) = Some t"
    and t: "t \<le> rewind_target_l2 (plan_for b d)"
    using min_target_le by blast
  then have d1: "pending_rewind_target d1 = Some t" "drv_head d1 = drv_head d"
    "pending_sibling_reorg d1 = Some \<lparr>req_target = n, req_root = root\<rparr>"
    using q by (auto simp del: plan_for_simps(2))
  from t r have "t < n" by simp
  then have head: "t < l2_head_number (drv_head d1)" "t < tip" using assms(2,4) d1(2) by auto
  from assms(3) head d1(1) obtain h where h:
    "rewind_l2_chain E db tip t (drv_head (clear_internal_state (d1\<lparr>pending_rewind_target := None\<rparr>))) e = (Inr (), h, e')"
    "d2 = (clear_internal_state (d1\<lparr>pending_rewind_target := None\<rparr>))\<lparr>drv_head := h\<rparr>"
    by (auto simp: consume_rewind_target_def Let_def split: prod.splits sum.splits)
  have ceiling: "immutable_block_ceiling h = tip" using rewind_noop [OF h(1) head(2)] by simp
  have d2: "pending_sibling_reorg d2 = None" "pending_rewind_target d2 = None" "drv_head d2 = h"
    unfolding h(2) by simp_all
  have "classify_and_apply_verification headers b d2 = (Inr Skip, d2)"
    using assms(4) q d2(3) ceiling by (simp add: classify_and_apply_verification_def)
  with d1 d2 ceiling show ?thesis by simp
qed

definition noop_engine :: "(unit, unit) engine_client" where
  "noop_engine = \<lparr>new_payload = (\<lambda>_ e. (Some Valid, e)), fork_choice_updated = (\<lambda>_ e. (Some Valid, e))\<rparr>"

lemma noop_engine_accepts: "fork_choice_updated_with_retry noop_engine s () = (Inr Valid, [], ())"
  by (simp add: fork_choice_updated_with_retry_def FCU_SYNCING_MAX_RETRIES_def eval_nat_numeral noop_engine_def)

theorem queued_sibling_reorg_is_lost_witness:
  "\<exists>d1 d2 e'. classify_and_apply_verification (header_of 9 7) (block_at 2500 8 7) toy_driver =
      (Inr (SiblingReorgQueued 2500 7), d1) \<and>
     consume_rewind_target noop_engine (\<lambda>n. Inr (Some (ucast n))) 3000 d1 () = (Inr (), d2, e') \<and>
     pending_sibling_reorg d2 = None"
proof -
  let ?db = "\<lambda>n. Inr (Some (ucast n))"
  define d1 where "d1 = apply_sibling_reorg_plan (plan_for (block_at 2500 8 7) toy_driver) toy_driver"
  have v: "classify_and_apply_verification (header_of 9 7) (block_at 2500 8 7) toy_driver =
      (Inr (SiblingReorgQueued 2500 7), d1)"
    by (simp add: classify_and_apply_verification_def header_of_simps d1_def)
  have rec: "\<exists>h'. recover_hashes ?db ns h = (Inr (), h')" for ns h
    by (induction ns arbitrary: h) auto
  have "\<exists>h. rewind_l2_chain noop_engine ?db 3000 2499 h0 () = (Inr (), h, ())" for h0
  proof -
    obtain h where "recover_chain_state ?db 3000 (h0\<lparr>immutable_block_ceiling := 3000\<rparr>) = (Inr (), h)"
      by (atomize_elim, simp add: recover_chain_state_def required_hash_def rec)
    then show ?thesis
      by (auto simp: rewind_l2_chain_def required_hash_def noop_engine_accepts word_less_nat_alt)
  qed
  then obtain h where h: "rewind_l2_chain noop_engine ?db 3000 2499 (drv_head toy_driver) () = (Inr (), h, ())"
    by blast
  have d1: "pending_rewind_target d1 = Some 2499" "drv_head d1 = drv_head toy_driver"
    by (simp_all add: d1_def min_target_def saturating_sub_def word_le_nat_alt)
  obtain d2 where c: "consume_rewind_target noop_engine ?db 3000 d1 () = (Inr (), d2, ())"
    by (atomize_elim, simp add: consume_rewind_target_def Let_def word_less_nat_alt d1 h)
  have "pending_sibling_reorg d2 = None"
    using queued_sibling_reorg_is_lost [OF v _ c] by (simp add: word_le_nat_alt)
  with v c show ?thesis by blast
qed

lemma rposition_Some:
  assumes "rposition P xs = Some i"
  shows "i < length xs \<and> P (xs ! i) \<and> (\<forall>x\<in>set (drop (i + 1) xs). \<not> P x)"
proof -
  obtain j where j: "position P (rev xs) = Some j" "i = length xs - 1 - j"
    using assms by (auto simp: rposition_def)
  have jl: "j < length xs" and p: "P (rev xs ! j)" and first: "\<forall>k<j. \<not> P (rev xs ! k)"
    using position_SomeD [OF j(1)] by simp_all
  have "\<not> P x" if "x \<in> set (drop (i + 1) xs)" for x
  proof -
    from that obtain k where k: "k < length xs - (i + 1)" "x = xs ! (i + 1 + k)"
      by (auto simp: in_set_conv_nth)
    then have "x = rev xs ! (j - 1 - k)" "j - 1 - k < j"
      using jl j(2) by (auto simp: rev_nth Suc_diff_Suc)
    with first show ?thesis by blast
  qed
  then show ?thesis using jl p j(2) by (simp add: rev_nth)
qed

lemma rposition_None: "rposition P xs = None \<Longrightarrow> x \<in> set xs \<Longrightarrow> \<not> P x"
  by (auto simp: rposition_def dest: position_NoneD)

lemma trim_confirmed_result:
  shows "\<exists>k. pending_submissions (queues (trim_confirmed root d)) = drop k (pending_submissions (queues d))"
    and "root \<noteq> 0 \<Longrightarrow> \<forall>b\<in>set (pending_submissions (queues (trim_confirmed root d))). \<not> carries_root root b"
    and "drv_pending_l1 (queues (trim_confirmed root d)) = drv_pending_l1 (queues d)"
    and "drv_hold (trim_confirmed root d) = drv_hold d"
    and "last_seen_l1_block (trim_confirmed root d) = last_seen_l1_block d"
  unfolding trim_confirmed_def Let_def
  by (auto split: option.split dest: rposition_Some rposition_None intro: exI [of _ 0])

lemma check_stale_anchor_proceed:
  assumes "check_stale_anchor root d = (Proceed r, d')"
  shows "r = root \<and> d' = d \<and> \<not> nothing_pending d \<and> pending_anchor_refresh d = None \<and>
    (\<forall>b bs. pending_submissions (queues d) = b # bs \<longrightarrow> last_seen_l1_block d < saturating_add (pb_l1_context_block b) 1)"
  using assms by (auto simp: check_stale_anchor_def Let_def split: if_splits list.splits)

lemma flush_precheck_proceeds:
  assumes "flush_precheck has_proposer cooling on_chain d = (Proceed root, d')"
  shows "has_proposer \<and> \<not> cooling \<and> on_chain = Some root \<and> armed_for (drv_hold d) = None \<and> drv_hold d' = drv_hold d \<and>
    pending_sibling_reorg d' = None \<and> pending_anchor_refresh d' = None \<and> \<not> nothing_pending d' \<and>
    (\<exists>k. pending_submissions (queues d') = drop k (pending_submissions (queues d))) \<and>
    drv_pending_l1 (queues d') = drv_pending_l1 (queues d) \<and>
    (root \<noteq> 0 \<longrightarrow> (\<forall>b\<in>set (pending_submissions (queues d')). \<not> carries_root root b)) \<and>
    (\<forall>b bs. pending_submissions (queues d') = b # bs \<longrightarrow>
      last_seen_l1_block d < saturating_add (pb_l1_context_block b) 1)"
proof -
  from assms have pre: "has_proposer" "\<not> cooling" "armed_for (drv_hold d) = None"
    and none: "pending_sibling_reorg (trim_confirmed root d) = None" and chain: "on_chain = Some root"
    and stale: "check_stale_anchor root (trim_confirmed root d) = (Proceed root, d')"
    by (auto simp: flush_precheck_def Let_def split: if_splits option.splits dest: check_stale_anchor_proceed)
  show ?thesis
    using pre none chain check_stale_anchor_proceed [OF stale] trim_confirmed_result [of root d] by auto
qed

text \<open>
  C9: the gate before a submission. When the checks let a flush proceed, a signer exists, no
  cooldown runs, the hold is not armed, no sibling reorg and no anchor refresh is pending, the
  root is the one read from L1, something is left to submit, what is left is a suffix of the
  queue in which no block carries a root that L1 already confirmed, and the first block's L1
  context is still ahead of the last L1 block seen.
\<close>

theorem flush_gate:
  assumes "flush_precheck has_proposer cooling on_chain d = (Proceed root, d')"
  shows "has_proposer \<and> \<not> cooling \<and> on_chain = Some root \<and> armed_for (drv_hold d) = None \<and> drv_hold d' = drv_hold d \<and>
    pending_sibling_reorg d' = None \<and> pending_anchor_refresh d' = None \<and> \<not> nothing_pending d' \<and>
    (\<exists>k. pending_submissions (queues d') = drop k (pending_submissions (queues d))) \<and>
    drv_pending_l1 (queues d') = drv_pending_l1 (queues d) \<and>
    (root \<noteq> 0 \<longrightarrow> (\<forall>b\<in>set (pending_submissions (queues d')). \<not> carries_root root b)) \<and>
    (\<forall>b bs. pending_submissions (queues d') = b # bs \<longrightarrow>
      last_seen_l1_block d < saturating_add (pb_l1_context_block b) 1)"
  by (rule flush_precheck_proceeds [OF assms])

definition flush_driver :: driver where
  "flush_driver = toy_driver\<lparr>drv_hold := Clear, queues := (queues toy_driver)\<lparr>pending_submissions :=
     map (\<lambda>n. \<lparr>pb_l2_block_number = n, pb_pre_state_root = ucast (n - 1), pb_state_root = ucast n,
        pb_clean_state_root = CleanStateRoot (ucast n), pb_encoded_transactions = [], pb_intermediate_roots = [],
        pb_l1_context_block = 30\<rparr>) [2500, 2501]\<rparr>\<rparr>"

theorem flush_gate_witness:
  "\<exists>d'. flush_precheck True False (Some 2500) flush_driver = (Proceed 2500, d') \<and>
     (\<forall>b\<in>set (pending_submissions (queues d')). \<not> carries_root 2500 b)"
proof -
  have "\<exists>d'. flush_precheck True False (Some 2500) flush_driver = (Proceed 2500, d')"
    by (simp add: flush_precheck_def flush_driver_def nothing_pending_def trim_confirmed_def Let_def
        rposition_def carries_root_def check_stale_anchor_def
        find_rightmost_sibling_reorg_target_def decide_divergence_recovery_def saturating_add_def word_less_nat_alt)
  then obtain d' where d': "flush_precheck True False (Some 2500) flush_driver = (Proceed 2500, d')" by blast
  with flush_gate [OF d'] show ?thesis by auto
qed

lemma less_eq_saturating_add: "x \<le> saturating_add x (y :: u64)"
  using unat_u64_lt [of x] by (simp add: word_le_nat_alt unat_saturating_add)

text \<open>One block of a sync run: skipped, inserted on the head, or swapped in by the queued sibling reorg.\<close>

lemma sync_blocks_Cons:
  assumes "sync_blocks E db build (b # bs) d e = (Inr (), d', e')"
  shows "\<exists>d1 e1. sync_blocks E db build bs d1 e1 = (Inr (), d', e') \<and>
    (d1 = d \<and> l2_block_number b \<le> l2_head_number (drv_head d) \<or>
     (\<exists>x pl. build b (l2_block_number b - 1) = Some (x, pl) \<and> l2_head_number (drv_head d1) = l2_block_number b \<and>
        head_hash (drv_head d1) = built_hash x \<and>
        (l2_head_number (drv_head d) < l2_block_number b \<and> pending_sibling_reorg d1 = pending_sibling_reorg d \<and>
           block_hashes (drv_head d1) = push_hash (built_hash x) (block_hashes (drv_head d)) \<or>
         (\<exists>req. pending_sibling_reorg d = Some req \<and> l2_block_number b = req_target req \<and>
           l2_block_number b \<le> l2_head_number (drv_head d) \<and> built_state_root x = req_root req \<and> pending_sibling_reorg d1 = None))))"
proof -
  have one: "saturating_add h 1 - 1 = h" if "\<not> saturating_add h 1 \<le> h" for h :: u64
  proof -
    have "h \<noteq> - 1" using that less_eq_saturating_add [of h 1] by (auto simp: word_order.extremum_unique)
    then have "unat h + 1 < 2 ^ 64"
      using unat_u64_lt [of h] by (simp add: word_unat_eq_iff unsigned_minus_1_eq_mask mask_eq_exp_minus_1)
    then show ?thesis by (simp add: saturating_add_def)
  qed
  show ?thesis
    using assms one
    by (fastforce simp: Let_def clear_fields_on_sibling_reorg_success_def not_le
        split: option.splits if_splits prod.splits sum.splits
        dest!: rebuild_sibling_cases build_and_insert_cases)
qed

text \<open>
  \<open>run\<close> are the blocks that a sync run built, with what was built: the end of the batch from some
  block on, each built on its predecessor, and the head is the last of them. What comes before is
  at a height that was held already and is not looked at. A block at a held height is built only
  from the target of the queued sibling reorg on, which then has the requested root.
\<close>

definition blocks_executed :: "(derived_block \<Rightarrow> u64 \<Rightarrow> (built_block \<times> 'pl) option) \<Rightarrow> derived_block list \<Rightarrow> driver
    \<Rightarrow> (derived_block \<times> built_block) list \<Rightarrow> chain_head \<Rightarrow> bool" where
  "blocks_executed build bs d run h \<longleftrightarrow>
     (\<exists>pre. bs = pre @ map fst run \<and> (\<forall>b \<in> set pre. l2_block_number b \<le> l2_head_number (drv_head d))) \<and>
     (\<forall>(b, x) \<in> set run. \<exists>pl. build b (l2_block_number b - 1) = Some (x, pl)) \<and>
     (\<forall>(b, x) \<in> set run. l2_block_number b \<le> l2_head_number (drv_head d) \<longrightarrow>
       (\<exists>req. pending_sibling_reorg d = Some req \<and> req_target req \<le> l2_block_number b \<and>
         (l2_block_number b = req_target req \<longrightarrow> built_state_root x = req_root req))) \<and>
     (if run = [] then h = drv_head d
      else l2_head_number h = l2_block_number (fst (last run)) \<and> head_hash h = built_hash (snd (last run))) \<and>
     (pending_sibling_reorg d = None \<longrightarrow> block_hashes h = fold push_hash (map (built_hash \<circ> snd) run) (block_hashes (drv_head d)))"

lemma executed_skip:
  assumes "blocks_executed build bs d run h" and "l2_block_number b \<le> l2_head_number (drv_head d)"
  shows "blocks_executed build (b # bs) d run h"
proof -
  obtain pre where "bs = pre @ map fst run" "\<forall>b \<in> set pre. l2_block_number b \<le> l2_head_number (drv_head d)"
    using assms(1) by (auto simp: blocks_executed_def)
  then have "\<exists>pre. b # bs = pre @ map fst run \<and> (\<forall>b \<in> set pre. l2_block_number b \<le> l2_head_number (drv_head d))"
    using assms(2) by (intro exI [of _ "b # pre"]) simp
  then show ?thesis using assms(1) by (simp add: blocks_executed_def)
qed

lemma executed_above:
  assumes "blocks_executed build bs d1 run h" and "\<forall>b' \<in> set bs. l2_head_number (drv_head d1) < l2_block_number b'"
  shows "bs = map fst run"
proof -
  obtain pre where "bs = pre @ map fst run" "\<forall>b \<in> set pre. l2_block_number b \<le> l2_head_number (drv_head d1)"
    using assms(1) by (auto simp: blocks_executed_def)
  then show ?thesis using assms(2) by (cases pre) auto
qed

lemma executed_build:
  assumes "blocks_executed build bs d1 run h" and "build b (l2_block_number b - 1) = Some (x, pl)"
    and head: "l2_head_number (drv_head d1) = l2_block_number b" "head_hash (drv_head d1) = built_hash x"
    and above: "\<forall>b' \<in> set bs. l2_block_number b < l2_block_number b'"
    and how: "l2_head_number (drv_head d) < l2_block_number b \<and> pending_sibling_reorg d1 = pending_sibling_reorg d \<and>
        block_hashes (drv_head d1) = push_hash (built_hash x) (block_hashes (drv_head d)) \<or>
      (\<exists>req. pending_sibling_reorg d = Some req \<and> l2_block_number b = req_target req \<and>
        l2_block_number b \<le> l2_head_number (drv_head d) \<and> built_state_root x = req_root req \<and> pending_sibling_reorg d1 = None)"
  shows "blocks_executed build (b # bs) d ((b, x) # run) h"
proof -
  have all: "bs = map fst run" using executed_above [OF assms(1)] above head(1) by simp
  then have gt: "l2_block_number b < l2_block_number b'" if "(b', y) \<in> set run" for b' y
    using above that by force
  have old: "\<exists>req. pending_sibling_reorg d = Some req \<and> req_target req \<le> l2_block_number b' \<and>
      (l2_block_number b' = req_target req \<longrightarrow> built_state_root y = req_root req)"
    if "(b', y) \<in> set ((b, x) # run)" "l2_block_number b' \<le> l2_head_number (drv_head d)" for b' y
    using how that by (auto dest!: gt)
  have built: "\<forall>(b, x) \<in> set ((b, x) # run). \<exists>pl. build b (l2_block_number b - 1) = Some (x, pl)"
    using assms(1,2) by (auto simp: blocks_executed_def)
  have pre: "\<exists>pre. b # bs = pre @ map fst ((b, x) # run) \<and> (\<forall>b \<in> set pre. l2_block_number b \<le> l2_head_number (drv_head d))"
    using all by (intro exI [of _ "[]"]) simp
  have hashes: "pending_sibling_reorg d = None \<longrightarrow>
      block_hashes h = fold push_hash (map (built_hash \<circ> snd) ((b, x) # run)) (block_hashes (drv_head d))"
    and last: "if run = [] then h = drv_head d1
      else l2_head_number h = l2_block_number (fst (last run)) \<and> head_hash h = built_hash (snd (last run))"
    using assms(1) how by (auto simp: blocks_executed_def)
  show ?thesis
    unfolding blocks_executed_def using pre built hashes old last head by (auto split: if_splits)
qed

lemma sync_blocks_executed:
  assumes "sync_blocks E db build bs d e = (Inr (), d', e')" and "sorted_wrt (<) (map l2_block_number bs)"
  shows "\<exists>run. blocks_executed build bs d run (drv_head d')"
  using assms
proof (induction bs arbitrary: d e)
  case Nil
  then have "blocks_executed build [] d [] (drv_head d')" by (simp add: blocks_executed_def)
  then show ?case ..
next
  case (Cons b bs)
  obtain d1 e1 where rest: "sync_blocks E db build bs d1 e1 = (Inr (), d', e')" and
    step: "d1 = d \<and> l2_block_number b \<le> l2_head_number (drv_head d) \<or>
     (\<exists>x pl. build b (l2_block_number b - 1) = Some (x, pl) \<and> l2_head_number (drv_head d1) = l2_block_number b \<and>
        head_hash (drv_head d1) = built_hash x \<and>
        (l2_head_number (drv_head d) < l2_block_number b \<and> pending_sibling_reorg d1 = pending_sibling_reorg d \<and>
           block_hashes (drv_head d1) = push_hash (built_hash x) (block_hashes (drv_head d)) \<or>
         (\<exists>req. pending_sibling_reorg d = Some req \<and> l2_block_number b = req_target req \<and>
           l2_block_number b \<le> l2_head_number (drv_head d) \<and> built_state_root x = req_root req \<and> pending_sibling_reorg d1 = None)))"
    using sync_blocks_Cons [OF Cons.prems(1)] by blast
  from Cons.IH [OF rest] Cons.prems(2) obtain run where run: "blocks_executed build bs d1 run (drv_head d')" by auto
  have above: "\<forall>b' \<in> set bs. l2_block_number b < l2_block_number b'" using Cons.prems(2) by auto
  show ?case using step executed_skip [OF run] executed_build [OF run _ _ _ above] by metis
qed

lemma executed_reach:
  assumes "blocks_executed build bs d run h" and "sorted_wrt (<) (map l2_block_number bs)" and "b \<in> set bs"
  shows "l2_block_number b \<le> l2_head_number h"
proof (cases run rule: rev_cases)
  case Nil
  with assms(1,3) show ?thesis by (auto simp: blocks_executed_def)
next
  case (snoc r bx)
  with assms(1) obtain pre where "bs = pre @ map fst r @ [fst bx]" "l2_head_number h = l2_block_number (fst bx)"
    by (auto simp: blocks_executed_def)
  with assms(2,3) show ?thesis by (auto simp: sorted_wrt_append intro: less_imp_le)
qed

lemma sync_blocks_no_checkpoint: "sync_blocks E db build bs d e = (r, d', e') \<Longrightarrow> r \<noteq> Inl Checkpoint_Failed"
  by (induction bs arbitrary: d e) (auto simp: Let_def split: option.splits if_splits prod.splits sum.splits)

lemma maybe_save_checkpoint_result:
  assumes "maybe_save_checkpoint ok d = (r, d')"
  shows "(r = Inr () \<or> r = Inl Checkpoint_Failed) \<and> drv_head d' = drv_head d \<and>
    (derivation d' = derivation d \<or> (\<exists>k. derivation d' = prune_finalized k (derivation d)))"
  using assms by (auto simp: maybe_save_checkpoint_def Let_def split: if_splits)

text \<open>
  C7: a sync tick is atomic on the derivation side, and what it commits was executed. If it
  fails before the checkpoint, or if a rewind is pending, the pipeline is untouched, so the same
  L1 range is derived again; otherwise (also when only the checkpoint write fails) the cursor
  has moved by exactly the derived batch, with or without the pruning of old entries. Then the
  head is at or above every block of the batch; the end of the batch from the first height that
  was not held (or from the target of a queued sibling reorg) was built block by block, each on
  its predecessor, and the head and the hash window are what was built. The blocks before, at
  heights already held, are skipped and not compared.
\<close>

theorem sync_tick_atomic:
  assumes "step_sync A D node E db build builder_mode db_ok latest d e = (r, d', e')"
  shows "(r \<noteq> Inr () \<and> r \<noteq> Inl Checkpoint_Failed \<or> pending_rewind_target d \<noteq> None \<longrightarrow> derivation d' = derivation d) \<and>
    ((r = Inr () \<or> r = Inl Checkpoint_Failed) \<and> pending_rewind_target d = None \<longrightarrow>
      (\<exists>batch run. derive_next_batch A D node latest (derivation d) = Inr batch \<and>
        (derivation d' = commit_batch batch (derivation d) \<or>
         (\<exists>k. derivation d' = prune_finalized k (commit_batch batch (derivation d)))) \<and>
        (\<forall>b \<in> set (batch_blocks batch). l2_block_number b \<le> l2_head_number (drv_head d')) \<and>
        blocks_executed build (batch_blocks batch) d run (drv_head d')))"
proof (cases "derive_next_batch A D node latest (derivation d)")
  case (Inl err)
  with assms show ?thesis by (auto simp: step_sync_def)
next
  case (Inr batch)
  have sorted: "sorted_wrt (<) (map l2_block_number (batch_blocks batch))"
    using derived_blocks_lemma [OF Inr] by (metis strict_sorted_unat numbers_def map_map sorted_wrt_upt)
  show ?thesis
  proof (cases "batch_blocks batch = []")
    case True
    have "blocks_executed build [] d [] (drv_head d)" by (simp add: blocks_executed_def)
    with True assms Inr show ?thesis
      by (auto simp: step_sync_def Let_def commit_derivation_def enter_mode_def split: if_splits)
  next
    case False
    obtain r1 d1 e1 where run: "sync_blocks E db build (batch_blocks batch) d e = (r1, d1, e1)"
      by (cases "sync_blocks E db build (batch_blocks batch) d e") auto
    note keep = sync_blocks_keeps_derivation [OF run]
    show ?thesis
    proof (cases r1)
      case (Inl err)
      with assms Inr False run keep sync_blocks_no_checkpoint [OF run] show ?thesis by (auto simp: step_sync_def)
    next
      case ok: (Inr u)
      obtain xs where xs: "blocks_executed build (batch_blocks batch) d xs (drv_head d1)"
        using sync_blocks_executed [OF run [unfolded ok, simplified] sorted] by blast
      note reach = executed_reach [OF xs sorted]
      obtain r2 d2 where save: "maybe_save_checkpoint db_ok (commit_derivation batch d1) = (r2, d2)" by fastforce
      from assms Inr False run ok save have "if pending_rewind_target d1 = None then r = r2 \<and> d' = d2 else r = Inr () \<and> d' = d1"
        by (auto simp: step_sync_def split: if_splits)
      with keep reach xs Inr maybe_save_checkpoint_result [OF save] show ?thesis
        by (auto simp: commit_derivation_def split: if_splits)
    qed
  qed
qed

definition builder_of :: "derived_block \<Rightarrow> u64 \<Rightarrow> (built_block \<times> unit) option" where
  "builder_of b parent = Some (\<lparr>built_hash = ucast (l2_block_number b), pre_state_root = 0,
     built_state_root = db_state_root b, tx_count = length (db_transactions b),
     encoded_transactions = db_transactions b\<rparr>, ())"

lemma noop_new_payload: "new_payload noop_engine p e = (Some Valid, e)"
  by (simp add: noop_engine_def)

lemma sync_two_blocks:
  assumes "l2_block_number b1 = 1" and "l2_block_number b2 = 2"
  shows "\<exists>d'. sync_blocks noop_engine db builder_of [b1, b2] (toy_driver\<lparr>drv_head := toy_head\<lparr>l2_head_number := 0\<rparr>\<rparr>) () =
    (Inr (), d', ())"
  using assms
  by (simp add: build_and_insert_block_def builder_of_def saturating_add_def noop_engine_accepts
      noop_new_payload update_fork_choice_def Let_def toy_driver_def)

theorem sync_tick_atomic_witness:
  "\<exists>d'. step_sync toy_abi toy_decoders (toy_node [(10, [2])]) noop_engine (\<lambda>_. Inr None) builder_of False True 15
      (toy_driver\<lparr>drv_head := toy_head\<lparr>l2_head_number := 0\<rparr>\<rparr>) () = (Inr (), d', ()) \<and>
    2 \<le> l2_head_number (drv_head d')"
proof -
  let ?d = "toy_driver\<lparr>drv_head := toy_head\<lparr>l2_head_number := 0\<rparr>\<rparr>"
  obtain batch where batch: "derive_next_batch toy_abi toy_decoders (toy_node [(10, [2])]) 15 (derivation ?d) = Inr batch"
    and "numbers (batch_blocks batch) = [1, 2]"
    using toy_derive by auto
  then obtain b1 b2 where bs: "batch_blocks batch = [b1, b2]" "unat (l2_block_number b1) = 1" "unat (l2_block_number b2) = 2"
    by (auto simp: numbers_def Cons_eq_map_conv)
  then have "l2_block_number b1 = 1" and n: "l2_block_number b2 = 2" by (simp_all add: word_unat_eq_iff)
  from sync_two_blocks [OF this] obtain d1 where
    sync: "sync_blocks noop_engine (\<lambda>_. Inr None) builder_of (batch_blocks batch) ?d () = (Inr (), d1, ())" unfolding bs(1) by blast
  have "\<exists>d'. maybe_save_checkpoint True d2 = (Inr (), d')" for d2
    by (simp add: maybe_save_checkpoint_def Let_def)
  then obtain d2 where save: "maybe_save_checkpoint True (commit_derivation batch d1) = (Inr (), d2)" by blast
  have ne: "batch_blocks batch \<noteq> []" using bs(1) by simp
  obtain d' where run: "step_sync toy_abi toy_decoders (toy_node [(10, [2])]) noop_engine (\<lambda>_. Inr None) builder_of False True 15 ?d ()
      = (Inr (), d', ())"
    by (atomize_elim, unfold step_sync_def batch) (simp add: ne sync save)
  from sync_tick_atomic [OF run] batch bs(1) n have "2 \<le> l2_head_number (drv_head d')" by auto
  with run show ?thesis by blast
qed

end
