(* ===== verification/Tx_Journal.thy ===== *)
theory Tx_Journal
  imports Recovery
begin

text \<open>
  The crash journal (\<open>TxJournalEntry\<close> of \<open>driver/types.rs\<close>, \<open>driver/journal.rs\<close>): its byte
  format, journaling and pruning, and what a restart recovers, together with the persisted
  L1-confirmed anchor. Decoding a block's transactions and recovering a signer are parameters.
\<close>

section \<open>The byte format\<close>

record tx_journal_entry =
  je_l2_block_number :: u64
  je_block_txs :: bytes

text \<open>\<open>to_le_bytes\<close> and \<open>from_le_bytes\<close>.\<close>

fun le_bytes :: "nat \<Rightarrow> 'a::len word \<Rightarrow> bytes" where
  "le_bytes 0 w = []"
| "le_bytes (Suc n) w = ucast w # le_bytes n (drop_bit 8 w)"

fun le_value :: "bytes \<Rightarrow> nat" where
  "le_value [] = 0"
| "le_value (b # bs) = unat b + 256 * le_value bs"

definition encode_entry :: "tx_journal_entry \<Rightarrow> bytes" where
  "encode_entry e = le_bytes 8 (je_l2_block_number e) @
     le_bytes 4 (of_nat (length (je_block_txs e)) :: u32) @ je_block_txs e"

definition encode_all :: "tx_journal_entry list \<Rightarrow> bytes" where
  "encode_all entries = concat (map encode_entry entries)"

text \<open>\<open>pos\<close> of the code is what has been dropped from \<open>data\<close>.\<close>

function decode_all :: "bytes \<Rightarrow> tx_journal_entry list" where
  "decode_all data =
     (if length data < 12 then []
      else
        let tx_len = le_value (take 4 (drop 8 data));
            rest = drop 12 data
        in if length rest < tx_len then []
           else \<lparr>je_l2_block_number = of_nat (le_value (take 8 data)), je_block_txs = take tx_len rest\<rparr> #
             decode_all (drop tx_len rest))"
  by pat_completeness auto
termination
  by (relation "measure length") auto

declare decode_all.simps [simp del]

section \<open>The journal of a running builder\<close>

text \<open>
  \<open>js_db\<close>: the bytes stored under \<open>TX_JOURNAL_STAGE_ID\<close>. Opening, writing and committing
  fail together: \<open>db_ok\<close>; a failure is only logged.
\<close>

record 'tx journal_state =
  tx_journal :: "tx_journal_entry list"
  pending_reinjection :: "(address \<times> 'tx) list"
  js_db :: "bytes option"

definition save_tx_journal :: "bool \<Rightarrow> 'tx journal_state \<Rightarrow> 'tx journal_state" where
  "save_tx_journal db_ok s = (if db_ok then s\<lparr>js_db := Some (encode_all (tx_journal s))\<rparr> else s)"

definition journal_block_transactions :: "bool \<Rightarrow> u64 \<Rightarrow> bytes \<Rightarrow> 'tx journal_state \<Rightarrow> 'tx journal_state" where
  "journal_block_transactions db_ok l2_block encoded s =
     save_tx_journal db_ok
       (s\<lparr>tx_journal := tx_journal s @ [\<lparr>je_l2_block_number = l2_block, je_block_txs = encoded\<rparr>]\<rparr>)"

definition prune_tx_journal :: "bool \<Rightarrow> u64 \<Rightarrow> 'tx journal_state \<Rightarrow> 'tx journal_state" where
  "prune_tx_journal db_ok confirmed s =
     (let kept = filter (\<lambda>e. je_l2_block_number e > confirmed) (tx_journal s);
          s' = s\<lparr>tx_journal := kept\<rparr>
      in if length (tx_journal s) - length kept > 0 then save_tx_journal db_ok s' else s')"

text \<open>The user transactions of one entry; an entry that does not decode contributes none.\<close>

definition user_txs :: "(bytes \<Rightarrow> 'tx list option) \<Rightarrow> ('tx \<Rightarrow> address option) \<Rightarrow> address \<Rightarrow> tx_journal_entry
    \<Rightarrow> (address \<times> 'tx) list" where
  "user_txs decode recover builder e =
     (case decode (je_block_txs e) of
        None \<Rightarrow> []
      | Some txs \<Rightarrow> List.map_filter (\<lambda>tx. case recover tx of
            None \<Rightarrow> None
          | Some sender \<Rightarrow> if sender = builder then None else Some (sender, tx)) txs)"

definition load_tx_journal :: "(bytes \<Rightarrow> 'tx list option) \<Rightarrow> ('tx \<Rightarrow> address option) \<Rightarrow> address \<Rightarrow> u64 \<Rightarrow> bool
    \<Rightarrow> 'tx journal_state \<Rightarrow> 'tx journal_state" where
  "load_tx_journal decode recover builder l2_head db_ok s =
     (case js_db s of
        None \<Rightarrow> s
      | Some data \<Rightarrow>
          let entries = decode_all data in
          if entries = [] then s
          else
            let recovered = concat (map (user_txs decode recover builder)
                  (filter (\<lambda>e. je_l2_block_number e > l2_head) entries));
                s' = s\<lparr>pending_reinjection := pending_reinjection s @ recovered,
                       tx_journal := filter (\<lambda>e. je_l2_block_number e \<le> l2_head) entries\<rparr>
            in if length recovered > 0 then save_tx_journal db_ok s' else s')"

section \<open>The persisted anchor\<close>

definition save_l1_confirmed_anchor :: "bool \<Rightarrow> l1_confirmed_anchor option \<Rightarrow> stage_db \<Rightarrow> stage_db" where
  "save_l1_confirmed_anchor db_ok anchor db =
     (case anchor of
        None \<Rightarrow> db
      | Some a \<Rightarrow> if db_ok then db(L1_CONFIRMED_L2_STAGE \<mapsto> anchor_l2 a, L1_CONFIRMED_L1_STAGE \<mapsto> anchor_l1 a) else db)"

definition load_l1_confirmed_anchor :: "stage_db \<Rightarrow> l1_confirmed_anchor option \<Rightarrow> l1_confirmed_anchor option" where
  "load_l1_confirmed_anchor db anchor =
     (case (db L1_CONFIRMED_L2_STAGE, db L1_CONFIRMED_L1_STAGE) of
        (Some l2, Some l1) \<Rightarrow> Some \<lparr>anchor_l2 = l2, anchor_l1 = l1\<rparr>
      | _ \<Rightarrow> anchor)"

section \<open>Lemmas\<close>

lemma length_le_bytes [simp]: "length (le_bytes n w) = n"
  by (induction n arbitrary: w) simp_all

lemma le_value_bytes: "le_value (le_bytes n w) = unat w mod 256 ^ n"
proof (induction n arbitrary: w)
  case (Suc n)
  have "unat (ucast w :: u8) = unat w mod 256" by (simp add: unsigned_ucast_eq take_bit_eq_mod unat_mod)
  moreover have "unat (drop_bit 8 w) = unat w div 256" by (simp only: unat_drop_bit_eq) (simp add: drop_bit_eq_div)
  ultimately show ?case using Suc by (simp add: mod_mult2_eq)
qed simp

definition small :: "tx_journal_entry \<Rightarrow> bool" where
  "small e \<longleftrightarrow> length (je_block_txs e) < 2 ^ 32"

lemma length_encode_entry: "length (encode_entry e) = 12 + length (je_block_txs e)"
  by (simp add: encode_entry_def)

lemma decode_short: "length data < 12 \<Longrightarrow> decode_all data = []"
  by (subst decode_all.simps) simp

lemma entry_length_field:
  "small e \<Longrightarrow> le_value (le_bytes 4 (of_nat (length (je_block_txs e)) :: u32)) = length (je_block_txs e)"
  by (simp add: le_value_bytes small_def unat_of_nat)

lemma block_number_field [simp]: "of_nat (le_value (le_bytes 8 n)) = (n :: u64)"
  using unat_u64_lt [of n] by (simp add: le_value_bytes)

lemma decode_Nil [simp]: "decode_all [] = []"
  by (simp add: decode_short)

lemma decode_entry: "small e \<Longrightarrow> decode_all (encode_entry e @ rest) = e # decode_all rest"
  by (subst decode_all.simps)
    (simp add: encode_entry_def entry_length_field Let_def)

text \<open>An entry that is cut off decodes to nothing.\<close>

lemma decode_cut:
  assumes "small e" and "k < length (encode_entry e)"
  shows "decode_all (take k (encode_entry e)) = []"
proof (cases "k < 12")
  case True
  then show ?thesis by (simp add: decode_short)
next
  case False
  then have "take k (encode_entry e) = le_bytes 8 (je_l2_block_number e) @
      le_bytes 4 (of_nat (length (je_block_txs e)) :: u32) @ take (k - 12) (je_block_txs e)"
    by (simp add: encode_entry_def)
  moreover have "k - 12 < length (je_block_txs e)" using assms(2) False by (simp add: length_encode_entry)
  ultimately show ?thesis
    by (subst decode_all.simps) (simp add: entry_length_field [OF assms(1)] Let_def)
qed

lemma encode_all_Cons [simp]: "encode_all (e # es) = encode_entry e @ encode_all es"
  and encode_all_Nil [simp]: "encode_all [] = []"
  by (simp_all add: encode_all_def)

lemma decode_encode_all: "\<forall>e \<in> set es. small e \<Longrightarrow> decode_all (encode_all es) = es"
  by (induction es) (simp_all add: decode_entry decode_short)

text \<open>The entries that fit into the first \<open>k\<close> bytes.\<close>

fun whole_entries :: "nat \<Rightarrow> tx_journal_entry list \<Rightarrow> nat" where
  "whole_entries k [] = 0"
| "whole_entries k (e # es) =
     (if length (encode_entry e) \<le> k then Suc (whole_entries (k - length (encode_entry e)) es) else 0)"

lemma whole_entries_spec:
  "length (encode_all (take (whole_entries k es) es)) \<le> k \<and>
   (whole_entries k es < length es \<longrightarrow> k < length (encode_all (take (Suc (whole_entries k es)) es)))"
  by (induction k es rule: whole_entries.induct) auto

lemma decode_take: "\<forall>e \<in> set es. small e \<Longrightarrow> decode_all (take k (encode_all es)) = take (whole_entries k es) es"
proof (induction k es rule: whole_entries.induct)
  case (1 k)
  then show ?case by (simp add: decode_short)
next
  case (2 k e es)
  then show ?case by (simp add: decode_entry decode_cut)
qed

section \<open>Properties\<close>

text \<open>
  C13: the journal survives a torn write. Decoding the first bytes of an encoded journal gives
  the entries that are complete in them, in order, and nothing else; all bytes give all
  entries. Entries are below 4 GiB, which is what the length field can say.
\<close>

theorem journal_decodes_whole_entries:
  assumes "\<forall>e \<in> set es. length (je_block_txs e) < 2 ^ 32"
  shows "\<exists>j \<le> length es. decode_all (take k (encode_all es)) = take j es \<and>
      length (encode_all (take j es)) \<le> k \<and>
      (j < length es \<longrightarrow> k < length (encode_all (take (Suc j) es)))"
proof (intro exI conjI)
  show "whole_entries k es \<le> length es" by (induction k es rule: whole_entries.induct) simp_all
  show "decode_all (take k (encode_all es)) = take (whole_entries k es) es"
    by (rule decode_take) (use assms in \<open>simp add: small_def\<close>)
  show "length (encode_all (take (whole_entries k es) es)) \<le> k"
    "whole_entries k es < length es \<longrightarrow> k < length (encode_all (take (Suc (whole_entries k es)) es))"
    using whole_entries_spec [of k es] by blast+
qed

definition toy_journal :: "tx_journal_entry list" where
  "toy_journal = [\<lparr>je_l2_block_number = 7, je_block_txs = [1, 2]\<rparr>, \<lparr>je_l2_block_number = 300, je_block_txs = []\<rparr>]"

theorem journal_decodes_whole_entries_witness:
  "\<exists>j. decode_all (take 20 (encode_all toy_journal)) = take j toy_journal"
  using journal_decodes_whole_entries [of toy_journal 20] by (auto simp: toy_journal_def)

text \<open>
  A restart recovers what was not final. After a save that reached the database, a new
  driver with the canonical head \<open>h\<close> re-injects exactly the user transactions of the
  journaled blocks above \<open>h\<close>, in journal order, keeps the entries up to \<open>h\<close>, and
  stores a journal from which the next restart with that head re-injects nothing. The
  anchor is restored as it was saved.
\<close>

theorem restart_recovers_journal:
  assumes "\<forall>e \<in> set (tx_journal s). length (je_block_txs e) < 2 ^ 32"
    and "t = load_tx_journal decode recover builder h True
      \<lparr>tx_journal = [], pending_reinjection = [], js_db = js_db (save_tx_journal True s)\<rparr>"
  shows "pending_reinjection t = concat (map (user_txs decode recover builder)
        (filter (\<lambda>e. h < je_l2_block_number e) (tx_journal s))) \<and>
      tx_journal t = filter (\<lambda>e. je_l2_block_number e \<le> h) (tx_journal s) \<and>
      pending_reinjection (load_tx_journal decode recover builder h True
        \<lparr>tx_journal = [], pending_reinjection = [], js_db = js_db t\<rparr>) = [] \<and>
      load_l1_confirmed_anchor (save_l1_confirmed_anchor True (Some a) db) None = Some a"
proof -
  let ?user = "user_txs decode recover builder"
  have small: "\<forall>e \<in> set (tx_journal s). small e" using assms(1) by (simp add: small_def)
  note dec = decode_encode_all [OF small]
  have kept: "decode_all (encode_all (filter (\<lambda>e. je_l2_block_number e \<le> h) (tx_journal s))) =
      filter (\<lambda>e. je_l2_block_number e \<le> h) (tx_journal s)"
    by (rule decode_encode_all) (use small in auto)
  have none: "filter (\<lambda>e. h < je_l2_block_number e) (filter (\<lambda>e. je_l2_block_number e \<le> h) (tx_journal s)) = []"
    by (auto simp: filter_empty_conv)
  show ?thesis
  proof (cases "concat (map ?user (filter (\<lambda>e. h < je_l2_block_number e) (tx_journal s))) = []")
    case True
    then show ?thesis
      by (simp add: assms(2) load_tx_journal_def save_tx_journal_def dec Let_def
          save_l1_confirmed_anchor_def load_l1_confirmed_anchor_def)
  next
    case False
    then show ?thesis
      by (simp add: assms(2) load_tx_journal_def save_tx_journal_def dec kept none Let_def
          save_l1_confirmed_anchor_def load_l1_confirmed_anchor_def del: filter_filter)
  qed
qed

definition toy_journal_state :: "8 word journal_state" where
  "toy_journal_state = \<lparr>tx_journal = toy_journal, pending_reinjection = [], js_db = None\<rparr>"

theorem restart_recovers_journal_witness:
  "pending_reinjection (load_tx_journal Some (\<lambda>b. Some (ucast b)) 1 6 True
      \<lparr>tx_journal = [], pending_reinjection = [], js_db = js_db (save_tx_journal True toy_journal_state)\<rparr>) = [(2, 2)]"
  using restart_recovers_journal [of toy_journal_state _ Some "\<lambda>b. Some (ucast b)" 1 6, OF _ refl]
  by (simp add: toy_journal_state_def toy_journal_def user_txs_def map_filter_simps word_less_nat_alt)

end
