(* ===== verification/Flush.thy ===== *)
theory Flush
  imports Driver_Steps Tx_Journal Call_Entries Trigger_Filter
begin

text \<open>
  The submission of a batch to L1 (\<open>flush_to_l1\<close> of \<open>driver/flush.rs\<close> after its precheck, and
  the plans of \<open>driver/flush_plan.rs\<close>). What the driver sends is recorded in order in a trace
  of L1 actions; a batch is recorded with the hold as it is when it is sent. The proposer's
  answers, the L1 logs and the local headers are parameters.
\<close>

section \<open>The environment\<close>

record gas_price_hint =
  max_fee_per_gas :: u128
  max_priority_fee_per_gas :: u128

datatype l1_action =
    Sent_Batch entry_verification_hold "pending_block list" "cross_chain_execution_entry list" "gas_price_hint option"
  | Forwarded bytes
  | Sent_Trigger u64 bytes
  | Nonce_Reset

datatype receipt_error = Receipt_Reverted | Receipt_Unavailable

record l1_env =
  env_abi :: abi
  env_has_proposer :: bool
  env_cooling_down :: bool
  env_on_chain_root :: "b256 option"
  env_send :: "pending_block list \<Rightarrow> cross_chain_execution_entry list \<Rightarrow> gas_price_hint option \<Rightarrow> b256 option"
  env_pending_nonce :: "u64 option"
  env_send_trigger :: "u64 \<Rightarrow> bytes \<Rightarrow> b256 option"
  env_enc_execute_l2tx :: "u256 \<Rightarrow> bytes \<Rightarrow> bytes"
  env_receipt :: "b256 \<Rightarrow> receipt_error + u64"
  env_consumed_logs :: "u64 \<Rightarrow> event_log list option"
  env_decode_action :: "bytes \<Rightarrow> sol_action option"
  env_refreshed_root :: "b256 option"
  env_local_root :: "u64 \<Rightarrow> b256 option"
  env_db_ok :: bool

record 'tx node =
  nd_driver :: driver
  nd_journal :: "'tx journal_state"
  nd_stages :: stage_db
  nd_submission_failed :: bool
  nd_trace :: "l1_action list"

definition MAX_BATCH_SIZE :: nat where
  "MAX_BATCH_SIZE = 50"

definition MAX_FLUSH_MISMATCHES :: u32 where
  "MAX_FLUSH_MISMATCHES = 2"

section \<open>Flush plans\<close>

text \<open>
  \<open>FlushPlan<S>\<close>: the phases are separate types, so only a plan without entries or one whose
  hold is armed can be submitted.
\<close>

record flush_plan =
  fp_blocks :: "pending_block list"
  fp_pending_l1 :: pending_l1_queue
  fp_entry_block :: "u64 option"

datatype collected_plan = Collected flush_plan
datatype sendable_plan = NoEntries flush_plan | HoldArmed flush_plan

definition new_blocks_only :: "pending_block list \<Rightarrow> sendable_plan" where
  "new_blocks_only blocks = NoEntries \<lparr>fp_blocks = blocks, fp_pending_l1 = empty_pending, fp_entry_block = None\<rparr>"

definition last_opt :: "'a list \<Rightarrow> 'a option" where
  "last_opt xs = (if xs = [] then None else Some (last xs))"

definition new_collected :: "pending_block list \<Rightarrow> pending_l1_queue \<Rightarrow> collected_plan" where
  "new_collected blocks pending = Collected \<lparr>fp_blocks = blocks, fp_pending_l1 = pending,
     fp_entry_block = map_option pb_l2_block_number (last_opt blocks)\<rparr>"

fun arm_hold :: "collected_plan \<Rightarrow> entry_verification_hold \<Rightarrow> sendable_plan \<times> entry_verification_hold" where
  "arm_hold (Collected p) h = (HoldArmed p, case fp_entry_block p of None \<Rightarrow> h | Some b \<Rightarrow> arm b h)"

fun plan_of :: "sendable_plan \<Rightarrow> flush_plan" where
  "plan_of (NoEntries p) = p"
| "plan_of (HoldArmed p) = p"

datatype send_result = Sent b256 | Send_Failed "pending_block list" pending_l1_queue

definition submit_via :: "l1_env \<Rightarrow> gas_price_hint option \<Rightarrow> sendable_plan \<Rightarrow> send_result" where
  "submit_via V hint plan =
     (let p = plan_of plan in
      case env_send V (fp_blocks p) (pq_entries (fp_pending_l1 p)) hint of
        Some tx_hash \<Rightarrow> Sent tx_hash
      | None \<Rightarrow> Send_Failed (fp_blocks p) (fp_pending_l1 p))"

section \<open>The gas bid\<close>

definition saturating_mul :: "'a::len word \<Rightarrow> 'a word \<Rightarrow> 'a word" where
  "saturating_mul a b = (if unat a * unat b < 2 ^ LENGTH('a) then a * b else - 1)"

definition apply_pct :: "int \<Rightarrow> u128 \<Rightarrow> u128" where
  "apply_pct pct val =
     (if pct \<ge> 0 then
        let bump = saturating_mul val (word_of_int pct) div 100;
            bump' = (if bump = 0 \<and> val > 0 then 1 else bump)
        in saturating_add val bump'
      else saturating_sub val (saturating_mul val (word_of_int \<bar>pct\<bar>) div 100))"

text \<open>\<open>prices\<close>: of the unified queue; \<open>fees\<close>: fee and priority fee of the decodable forwarded transactions.\<close>

definition compute_gas_overbid :: "int \<Rightarrow> u128 list \<Rightarrow> (u128 \<times> u128) list \<Rightarrow> gas_price_hint option" where
  "compute_gas_overbid pct prices fees =
     (let max_fee = foldr max (prices @ map fst fees) 0;
          max_priority_fee = foldr max (prices @ map snd fees) 0
      in if prices = [] \<and> fees = [] then None
         else if max_fee = 0 then None
         else Some \<lparr>max_fee_per_gas = apply_pct pct max_fee, max_priority_fee_per_gas = apply_pct pct max_priority_fee\<rparr>)"

section \<open>Choosing the batch\<close>

definition take_batch :: "driver \<Rightarrow> pending_block list \<times> driver" where
  "take_batch d =
     (let pending = pending_submissions (queues d);
          run = (case pending of [] \<Rightarrow> 0
            | b # _ \<Rightarrow> length (takeWhile (\<lambda>b'. pb_l1_context_block b' = pb_l1_context_block b) pending));
          batch_size = min run MAX_BATCH_SIZE
      in (take batch_size pending, d\<lparr>queues := (queues d)\<lparr>pending_submissions := drop batch_size pending\<rparr>\<rparr>))"

definition requeue :: "pending_block list \<Rightarrow> driver \<Rightarrow> driver" where
  "requeue blocks d = d\<lparr>queues := (queues d)\<lparr>pending_submissions := blocks @ pending_submissions (queues d)\<rparr>\<rparr>"

text \<open>Where the rewinds of this function go: \<open>f\<close> of the anchor's block, or genesis.\<close>

definition anchor_rewind :: "(u64 \<Rightarrow> u64) \<Rightarrow> driver \<Rightarrow> driver" where
  "anchor_rewind f d =
     (case drv_anchor d of
        Some a \<Rightarrow> rewind_to_re_derive (f (anchor_l2 a)) (saturating_sub (anchor_l1 a) 1) d
      | None \<Rightarrow> rewind_to_re_derive 0 (deployment_l1_block (config (derivation d))) d)"

text \<open>The anchor whose local block disagrees with the root on L1.\<close>

definition divergent_anchor :: "l1_env \<Rightarrow> b256 \<Rightarrow> driver \<Rightarrow> l1_confirmed_anchor option" where
  "divergent_anchor V on_chain d =
     (if pending_sibling_reorg d \<noteq> None then None
      else case drv_anchor d of
          None \<Rightarrow> None
        | Some a \<Rightarrow>
            (case env_local_root V (anchor_l2 a) of
               None \<Rightarrow> None
             | Some root \<Rightarrow> if root \<noteq> on_chain then Some a else None))"

definition anchor_depth :: "l1_confirmed_anchor \<Rightarrow> driver \<Rightarrow> u64" where
  "anchor_depth a d = saturating_sub (l2_head_number (drv_head d)) (anchor_l2 a)"

text \<open>The check of the first block against the root on L1: whether the submission goes on.\<close>

definition check_pre_state_root :: "l1_env \<Rightarrow> b256 \<Rightarrow> pending_block list \<Rightarrow> driver \<Rightarrow> bool \<times> driver" where
  "check_pre_state_root V on_chain blocks d =
     (case blocks of
        [] \<Rightarrow> (True, d)
      | first # _ \<Rightarrow>
          if pb_pre_state_root first \<noteq> on_chain then
            let d1 = d\<lparr>consecutive_flush_mismatches := consecutive_flush_mismatches d + 1\<rparr> in
            if consecutive_flush_mismatches d1 \<ge> MAX_FLUSH_MISMATCHES then
              (if consecutive_rewind_cycles d1 > 0 then
                 (False, anchor_rewind (\<lambda>_. saturating_sub (pb_l2_block_number first) 1) d1)
               else case divergent_anchor V on_chain d1 of
                   Some a \<Rightarrow>
                     let d2 = (if \<not> reorg_depth_exceeded (anchor_depth a d1) REORG_SAFETY_THRESHOLD
                         then d1\<lparr>pending_sibling_reorg := Some \<lparr>req_target = anchor_l2 a, req_root = on_chain\<rparr>\<rparr>
                         else d1)
                     in (False, (requeue blocks d2)\<lparr>consecutive_flush_mismatches := 0\<rparr>)
                 | None \<Rightarrow>
                     (False, anchor_rewind (\<lambda>l2. max (saturating_sub (pb_l2_block_number first) 1) l2)
                       (d1\<lparr>consecutive_flush_mismatches := 0\<rparr>)))
            else (False, requeue blocks d1)
          else (True, d\<lparr>consecutive_flush_mismatches := 0, consecutive_rewind_cycles := 0\<rparr>))"

section \<open>After the send\<close>

definition forward_queued_l1_txs :: "l1_env \<Rightarrow> 'tx node \<Rightarrow> 'tx node" where
  "forward_queued_l1_txs V s =
     (let d = nd_driver s; txs = pending_l1_forward_txs (queues d) in
      if txs = [] then s
      else if env_cooling_down V then s
      else s\<lparr>nd_driver := d\<lparr>queues := (queues d)\<lparr>pending_l1_forward_txs := []\<rparr>\<rparr>,
             nd_trace := nd_trace s @ map Forwarded txs\<rparr>)"

fun trigger_loop :: "l1_env \<Rightarrow> bytes list \<Rightarrow> u64 \<Rightarrow> l1_action list \<times> b256 list option" where
  "trigger_loop V [] nonce = ([], Some [])"
| "trigger_loop V (c # cs) nonce =
     (case env_send_trigger V nonce c of
        None \<Rightarrow> ([Nonce_Reset], None)
      | Some h \<Rightarrow>
          (case trigger_loop V cs (nonce + 1) of
             (acts, r) \<Rightarrow> (Sent_Trigger nonce c # acts, map_option (\<lambda>hs. h # hs) r)))"

definition trigger_calls :: "l1_env \<Rightarrow> u64 \<Rightarrow> trigger_metadata list \<Rightarrow> bytes list" where
  "trigger_calls V rollup ts =
     concat (map (\<lambda>w. replicate (tm_trigger_count w)
       (env_enc_execute_l2tx V (ucast rollup) (tm_rlp_encoded_tx w))) ts)"

definition send_l2_to_l1_triggers :: "l1_env \<Rightarrow> trigger_metadata list \<Rightarrow> 'tx node \<Rightarrow> b256 list option \<times> 'tx node" where
  "send_l2_to_l1_triggers V ts s =
     (case env_pending_nonce V of
        None \<Rightarrow> (None, s)
      | Some nonce \<Rightarrow>
          (case trigger_loop V (trigger_calls V (cfg_rollup_id (config (derivation (nd_driver s)))) ts) nonce of
             (acts, None) \<Rightarrow> (None, s\<lparr>nd_trace := nd_trace s @ acts\<rparr>)
           | (acts, Some hs) \<Rightarrow> (Some hs, s\<lparr>nd_trace := nd_trace s @ acts @ [Nonce_Reset]\<rparr>)))"

datatype trigger_execution_result = AllConfirmed nat | Trigger_Reverted nat nat

definition verify_trigger_receipts :: "l1_env \<Rightarrow> b256 list \<Rightarrow> trigger_execution_result" where
  "verify_trigger_receipts V hashes =
     (let reverted = length (filter (\<lambda>h. case env_receipt V h of Inl _ \<Rightarrow> True | Inr _ \<Rightarrow> False) hashes) in
      if reverted = 0 then AllConfirmed (length hashes) else Trigger_Reverted reverted (length hashes))"

text \<open>The entries that emit \<open>ExecutionConsumed\<close> when they are consumed.\<close>

definition real_entries :: "l1_env \<Rightarrow> driver \<Rightarrow> cross_chain_execution_entry list \<Rightarrow> cross_chain_execution_entry list" where
  "real_entries V d es =
     (let rc = compute_revert_continue_hash (env_abi V) (RollupId (ucast (cfg_rollup_id (config (derivation d))))) in
      filter (\<lambda>e. action_hash e \<noteq> ZERO_HASH \<and> action_type (next_action e) \<noteq> Revert \<and> action_hash e \<noteq> rc) es)"

definition all_consumed :: "consumed_map \<Rightarrow> cross_chain_execution_entry list \<Rightarrow> bool" where
  "all_consumed consumed real =
     (\<forall>h \<in> set (map action_hash real). case map_of consumed h of
        None \<Rightarrow> False
      | Some v \<Rightarrow> count_list (map action_hash real) h \<le> length v)"

text \<open>A query that failed counts as one that found nothing, as in the code.\<close>

definition consumed_in_block :: "l1_env \<Rightarrow> u64 \<Rightarrow> consumed_map" where
  "consumed_in_block V l1_block =
     (case env_consumed_logs V l1_block of
        None \<Rightarrow> []
      | Some logs \<Rightarrow> parse_execution_consumed_logs (env_decode_action V) logs)"

definition check_consumption :: "l1_env \<Rightarrow> u64 \<Rightarrow> cross_chain_execution_entry list \<Rightarrow> driver \<Rightarrow> driver" where
  "check_consumption V l1_block es d =
     (let consumed = consumed_in_block V l1_block; real = real_entries V d es in
      if consumed \<noteq> [] then
        (if all_consumed consumed real then d\<lparr>drv_hold := clear (drv_hold d)\<rparr>
         else anchor_rewind (\<lambda>l2. saturating_sub (case armed_for (drv_hold d) of None \<Rightarrow> l2 | Some b \<Rightarrow> b) 1) d)
      else if real \<noteq> [] then
        (case (env_refreshed_root V, drv_anchor d) of
           (Some root, Some a) \<Rightarrow>
             if reorg_depth_exceeded (anchor_depth a d) REORG_SAFETY_THRESHOLD then d\<lparr>drv_hold := clear (drv_hold d)\<rparr>
             else if pending_sibling_reorg d = None then
               d\<lparr>pending_sibling_reorg := Some \<lparr>req_target = anchor_l2 a, req_root = root\<rparr>, drv_hold := clear (drv_hold d)\<rparr>
             else d
         | _ \<Rightarrow> d)
      else d)"

text \<open>What a confirmed batch changes before its entries are checked.\<close>

definition batch_confirmed :: "l1_env \<Rightarrow> pending_block list \<Rightarrow> u64 \<Rightarrow> 'tx node \<Rightarrow> 'tx node" where
  "batch_confirmed V blocks l1_block s =
     (let s1 = s\<lparr>nd_submission_failed := False\<rparr> in
      case last_opt blocks of
        None \<Rightarrow> s1
      | Some b \<Rightarrow>
          let a = Some \<lparr>anchor_l2 = pb_l2_block_number b, anchor_l1 = l1_block\<rparr>
          in s1\<lparr>nd_driver := (nd_driver s1)\<lparr>drv_anchor := a\<rparr>,
                nd_stages := save_l1_confirmed_anchor (env_db_ok V) a (nd_stages s1),
                nd_journal := prune_tx_journal (env_db_ok V) (pb_l2_block_number b) (nd_journal s1)\<rparr>)"

definition upd_driver :: "(driver \<Rightarrow> driver) \<Rightarrow> 'tx node \<Rightarrow> 'tx node" where
  "upd_driver f s = s\<lparr>nd_driver := f (nd_driver s)\<rparr>"

text \<open>Nothing is on L1: cooldown, hold released, nonce dropped, blocks and entries back.\<close>

definition restore_batch :: "pending_block list \<Rightarrow> pending_l1_queue \<Rightarrow> 'tx node \<Rightarrow> 'tx node" where
  "restore_batch blocks pending s =
     (let d1 = requeue blocks ((nd_driver s)\<lparr>drv_hold := clear (drv_hold (nd_driver s))\<rparr>) in
      s\<lparr>nd_submission_failed := True, nd_trace := nd_trace s @ [Nonce_Reset],
        nd_driver := d1\<lparr>queues := (queues d1)\<lparr>drv_pending_l1 := pending\<rparr>\<rparr>\<rparr>)"

definition await_receipt :: "l1_env \<Rightarrow> b256 \<Rightarrow> b256 list \<Rightarrow> pending_block list \<Rightarrow> pending_l1_queue \<Rightarrow> 'tx node \<Rightarrow> 'tx node" where
  "await_receipt V tx_hash triggers blocks pending s =
     (case env_receipt V tx_hash of
        Inr l1_block \<Rightarrow>
          let s1 = batch_confirmed V blocks l1_block s in
          (case verify_trigger_receipts V triggers of
             Trigger_Reverted _ _ \<Rightarrow> upd_driver (anchor_rewind (\<lambda>l2. saturating_sub l2 1)) s1
           | AllConfirmed _ \<Rightarrow>
               if pq_entries pending \<noteq> [] then upd_driver (check_consumption V l1_block (pq_entries pending)) s1 else s1)
      | Inl Receipt_Reverted \<Rightarrow> upd_driver (anchor_rewind (\<lambda>l2. l2)) s
      | Inl Receipt_Unavailable \<Rightarrow> restore_batch blocks pending s)"

definition after_send :: "l1_env \<Rightarrow> b256 \<Rightarrow> pending_block list \<Rightarrow> pending_l1_queue \<Rightarrow> 'tx node \<Rightarrow> 'tx node" where
  "after_send V tx_hash blocks pending s =
     (let s1 = (if pq_entries pending \<noteq> [] then forward_queued_l1_txs V s else s);
          metadata = List.map_filter trigger (pq_groups pending)
      in if metadata \<noteq> [] then
           (case send_l2_to_l1_triggers V metadata s1 of
              (None, s2) \<Rightarrow> upd_driver (anchor_rewind (\<lambda>l2. l2)) s2
            | (Some hs, s2) \<Rightarrow> await_receipt V tx_hash hs blocks pending s2)
         else await_receipt V tx_hash [] blocks pending s1)"

section \<open>The submission\<close>

definition submit_batch :: "l1_env \<Rightarrow> gas_price_hint option \<Rightarrow> pending_block list \<Rightarrow> 'tx node \<Rightarrow> 'tx node" where
  "submit_batch V hint blocks s =
     (let pending = drv_pending_l1 (queues (nd_driver s));
          d1 = (nd_driver s)\<lparr>queues := (queues (nd_driver s))\<lparr>drv_pending_l1 := empty_pending\<rparr>\<rparr>;
          (plan, h) = (if pq_entries pending \<noteq> [] then arm_hold (new_collected blocks pending) (drv_hold d1)
            else (new_blocks_only blocks, drv_hold d1));
          s1 = s\<lparr>nd_driver := d1\<lparr>drv_hold := h\<rparr>,
                 nd_trace := nd_trace s @ [Sent_Batch h blocks (pq_entries pending) hint]\<rparr>
      in case submit_via V hint plan of
           Send_Failed bs p \<Rightarrow> restore_batch bs p s1
         | Sent tx_hash \<Rightarrow> after_send V tx_hash blocks pending s1)"

text \<open>\<open>bid\<close>: \<^const>\<open>compute_gas_overbid\<close> of the queues.\<close>

definition flush_to_l1 :: "l1_env \<Rightarrow> (driver \<Rightarrow> gas_price_hint option) \<Rightarrow> 'tx node \<Rightarrow> 'tx node" where
  "flush_to_l1 V bid s =
     (case flush_precheck (env_has_proposer V) (env_cooling_down V) (env_on_chain_root V) (nd_driver s) of
        (Precheck_Skip, d) \<Rightarrow> s\<lparr>nd_driver := d\<rparr>
      | (Proceed on_chain, d) \<Rightarrow>
          (case take_batch d of
             (blocks, d1) \<Rightarrow>
               (case check_pre_state_root V on_chain blocks d1 of
                  (False, d2) \<Rightarrow> s\<lparr>nd_driver := d2\<rparr>
                | (True, d2) \<Rightarrow> submit_batch V (bid d2) blocks (s\<lparr>nd_driver := d2\<rparr>))))"

section \<open>Lemmas\<close>

lemma take_takeWhile:
  assumes "x \<in> set (take (min (length (takeWhile P xs)) n) xs)"
  shows "P x"
proof -
  from assms obtain j where j: "j < length (takeWhile P xs)" "x = xs ! j"
    by (auto simp: in_set_conv_nth)
  then have "takeWhile P xs ! j = x" by (simp add: takeWhile_nth)
  then have "x \<in> set (takeWhile P xs)" using nth_mem [OF j(1)] by simp
  then show ?thesis by (rule conjunct2 [OF set_takeWhileD])
qed

lemma take_batch_result:
  assumes "take_batch d = (blocks, d1)"
  shows "pending_submissions (queues d) = blocks @ pending_submissions (queues d1) \<and> length blocks \<le> MAX_BATCH_SIZE \<and>
    (\<forall>b \<in> set blocks. pb_l1_context_block b = pb_l1_context_block (hd blocks)) \<and>
    drv_pending_l1 (queues d1) = drv_pending_l1 (queues d) \<and> drv_hold d1 = drv_hold d \<and>
    drv_anchor d1 = drv_anchor d \<and> derivation d1 = derivation d \<and> drv_mode d1 = drv_mode d \<and>
    pending_l1_forward_txs (queues d1) = pending_l1_forward_txs (queues d)"
proof (cases "pending_submissions (queues d)")
  case Nil
  then show ?thesis using assms by (auto simp: take_batch_def Let_def)
next
  case (Cons b bs)
  let ?P = "\<lambda>b'. pb_l1_context_block b' = pb_l1_context_block b"
  let ?n = "min (length (takeWhile ?P (b # bs))) MAX_BATCH_SIZE"
  have blocks: "blocks = take ?n (b # bs)" using assms Cons by (simp add: take_batch_def Let_def)
  have "\<forall>b' \<in> set blocks. ?P b'" unfolding blocks by (blast dest: take_takeWhile)
  moreover have "blocks \<noteq> [] \<Longrightarrow> hd blocks = b" unfolding blocks by (cases ?n) simp_all
  ultimately have ctx: "\<forall>b' \<in> set blocks. pb_l1_context_block b' = pb_l1_context_block (hd blocks)"
    by (cases "blocks = []") simp_all
  define n where "n = ?n"
  have "d1 = d\<lparr>queues := (queues d)\<lparr>pending_submissions := drop n (b # bs)\<rparr>\<rparr>" "blocks = take n (b # bs)" "n \<le> MAX_BATCH_SIZE"
    using assms Cons unfolding n_def by (simp_all add: take_batch_def Let_def)
  then have "b # bs = blocks @ pending_submissions (queues d1)" "length blocks \<le> MAX_BATCH_SIZE"
    "drv_pending_l1 (queues d1) = drv_pending_l1 (queues d)" "drv_hold d1 = drv_hold d"
    "drv_anchor d1 = drv_anchor d" "derivation d1 = derivation d" "drv_mode d1 = drv_mode d"
    "pending_l1_forward_txs (queues d1) = pending_l1_forward_txs (queues d)" by simp_all
  with ctx Cons show ?thesis by presburger
qed

lemma check_passes:
  assumes "check_pre_state_root V root blocks d = (True, d')"
  shows "(blocks \<noteq> [] \<longrightarrow> pb_pre_state_root (hd blocks) = root) \<and> queues d' = queues d \<and> drv_hold d' = drv_hold d \<and>
    drv_anchor d' = drv_anchor d \<and> derivation d' = derivation d \<and> drv_mode d' = drv_mode d"
proof (cases blocks)
  case Nil
  with assms show ?thesis by (simp add: check_pre_state_root_def)
next
  case (Cons b bs)
  have "\<not> fst (check_pre_state_root V root blocks d)" if "pb_pre_state_root b \<noteq> root"
    using that by (simp add: Cons check_pre_state_root_def Let_def split: option.split)
  with assms have root: "pb_pre_state_root b = root" by fastforce
  with assms Cons show ?thesis by (auto simp: check_pre_state_root_def)
qed

lemma anchor_rewind_hold [simp]: "drv_hold (anchor_rewind f d) = Clear" "drv_mode (anchor_rewind f d) = Sync"
  by (simp_all add: anchor_rewind_def split: option.split)

lemma check_fails_hold:
  assumes "check_pre_state_root V root blocks d = (False, d')" and "drv_hold d = Clear"
  shows "drv_hold d' = Clear"
  using assms by (auto simp: check_pre_state_root_def requeue_def Let_def split: list.splits if_splits option.splits)

text \<open>What the calls after the send do to the trace.\<close>

lemma trigger_loop_shape:
  "trigger_loop V cs n = (acts, r) \<Longrightarrow>
     \<exists>k \<le> length cs. acts = map (\<lambda>i. Sent_Trigger (n + of_nat i) (cs ! i)) [0..<k] @ (if r = None then [Nonce_Reset] else []) \<and>
       (r \<noteq> None \<longrightarrow> k = length cs)"
proof (induction cs arbitrary: n acts r)
  case (Cons c cs)
  show ?case
  proof (cases "env_send_trigger V n c")
    case None
    with Cons.prems show ?thesis by auto
  next
    case (Some h)
    obtain acts' r' where rest: "trigger_loop V cs (n + 1) = (acts', r')" by fastforce
    with Some Cons.prems have res: "acts = Sent_Trigger n c # acts'" "r = map_option (\<lambda>hs. h # hs) r'" by auto
    from Cons.IH [OF rest] obtain k where k: "k \<le> length cs"
      "acts' = map (\<lambda>i. Sent_Trigger (n + 1 + of_nat i) (cs ! i)) [0..<k] @ (if r' = None then [Nonce_Reset] else [])"
      "r' \<noteq> None \<longrightarrow> k = length cs" by blast
    have "map (\<lambda>i. Sent_Trigger (n + of_nat i) ((c # cs) ! i)) [0..<Suc k] =
        Sent_Trigger n c # map (\<lambda>i. Sent_Trigger (n + 1 + of_nat i) (cs ! i)) [0..<k]"
      by (simp add: upt_conv_Cons map_Suc_upt [symmetric] ac_simps del: upt_Suc map_Suc_upt)
    with res k show ?thesis by (intro exI [of _ "Suc k"]) simp
  qed
qed simp

definition triggers_only :: "l1_action list \<Rightarrow> bool" where
  "triggers_only acts \<longleftrightarrow> (\<exists>n cs resets. acts = map (\<lambda>i. Sent_Trigger (n + of_nat i) (cs ! i)) [0..<length cs] @ resets \<and>
     set resets \<subseteq> {Nonce_Reset})"

lemma triggers_only_reset: "triggers_only acts \<Longrightarrow> triggers_only (acts @ [Nonce_Reset])"
  unfolding triggers_only_def by fastforce

lemma triggers_only_Nil [simp]: "triggers_only []"
  by (auto simp: triggers_only_def intro: exI [of _ "[]"])

lemma send_triggers_trace:
  assumes "send_l2_to_l1_triggers V ts s = (r, t)"
  shows "nd_driver t = nd_driver s \<and> (\<exists>acts. nd_trace t = nd_trace s @ acts \<and> triggers_only acts)"
proof (cases "env_pending_nonce V")
  case None
  with assms show ?thesis by (auto simp: send_l2_to_l1_triggers_def)
next
  case (Some n)
  let ?cs = "trigger_calls V (cfg_rollup_id (config (derivation (nd_driver s)))) ts"
  obtain acts q where loop: "trigger_loop V ?cs n = (acts, q)" by fastforce
  from trigger_loop_shape [OF loop] obtain k where k: "k \<le> length ?cs"
    "acts = map (\<lambda>i. Sent_Trigger (n + of_nat i) (?cs ! i)) [0..<k] @ (if q = None then [Nonce_Reset] else [])" by blast
  have "acts = map (\<lambda>i. Sent_Trigger (n + of_nat i) (take k ?cs ! i)) [0..<length (take k ?cs)] @ (if q = None then [Nonce_Reset] else [])"
    using k by simp
  then have "triggers_only acts" unfolding triggers_only_def
    by (intro exI [of _ n] exI [of _ "take k ?cs"] exI [of _ "if q = None then [Nonce_Reset] else []"]) auto
  with assms Some loop show ?thesis
    by (auto simp: send_l2_to_l1_triggers_def triggers_only_reset split: option.splits)
qed

lemma upd_driver_simps [simp]:
  "nd_trace (upd_driver f s) = nd_trace s" "nd_submission_failed (upd_driver f s) = nd_submission_failed s"
  "nd_driver (upd_driver f s) = f (nd_driver s)"
  by (simp_all add: upd_driver_def)

lemma batch_confirmed_simps [simp]:
  "nd_trace (batch_confirmed V blocks l1 s) = nd_trace s" "\<not> nd_submission_failed (batch_confirmed V blocks l1 s)"
  "drv_hold (nd_driver (batch_confirmed V blocks l1 s)) = drv_hold (nd_driver s)"
  by (simp_all add: batch_confirmed_def Let_def split: option.split)

lemma restore_batch_simps [simp]:
  "nd_trace (restore_batch blocks p s) = nd_trace s @ [Nonce_Reset]" "nd_submission_failed (restore_batch blocks p s)"
  "drv_hold (nd_driver (restore_batch blocks p s)) = Clear"
  "queues (nd_driver (restore_batch blocks p s)) = (queues (nd_driver s))
     \<lparr>pending_submissions := blocks @ pending_submissions (queues (nd_driver s)), drv_pending_l1 := p\<rparr>"
  "derivation (nd_driver (restore_batch blocks p s)) = derivation (nd_driver s)"
  "drv_head (nd_driver (restore_batch blocks p s)) = drv_head (nd_driver s)"
  "drv_mode (nd_driver (restore_batch blocks p s)) = drv_mode (nd_driver s)"
  "drv_anchor (nd_driver (restore_batch blocks p s)) = drv_anchor (nd_driver s)"
  "nd_journal (restore_batch blocks p s) = nd_journal s" "nd_stages (restore_batch blocks p s) = nd_stages s"
  by (simp_all add: restore_batch_def requeue_def clear_def Let_def)

lemma await_trace: "\<exists>resets. nd_trace (await_receipt V h ts blocks p s) = nd_trace s @ resets \<and> set resets \<subseteq> {Nonce_Reset}"
  by (simp add: await_receipt_def Let_def split: sum.split receipt_error.split trigger_execution_result.split)

lemma triggers_only_append: "triggers_only acts \<Longrightarrow> set resets \<subseteq> {Nonce_Reset} \<Longrightarrow> triggers_only (acts @ resets)"
  unfolding triggers_only_def by fastforce

lemma forward_trace:
  "\<exists>fs. nd_trace (forward_queued_l1_txs V s) = nd_trace s @ map Forwarded fs \<and>
     drv_hold (nd_driver (forward_queued_l1_txs V s)) = drv_hold (nd_driver s)"
  by (auto simp: forward_queued_l1_txs_def Let_def intro: exI [of _ "[]"])

lemma after_send_trace:
  "\<exists>fs acts. nd_trace (after_send V h blocks p s) = nd_trace s @ map Forwarded fs @ acts \<and> triggers_only acts"
proof -
  define s1 where "s1 = (if pq_entries p \<noteq> [] then forward_queued_l1_txs V s else s)"
  obtain fs where fs: "nd_trace s1 = nd_trace s @ map Forwarded fs"
    unfolding s1_def using forward_trace [of V s] by (cases "pq_entries p = []") (auto intro: that [of "[]"])
  have "\<exists>acts. nd_trace (after_send V h blocks p s) = nd_trace s1 @ acts \<and> triggers_only acts"
  proof (cases "List.map_filter trigger (pq_groups p) = []")
    case True
    then have "after_send V h blocks p s = await_receipt V h [] blocks p s1"
      by (simp add: after_send_def s1_def Let_def)
    then show ?thesis using await_trace [of V h "[]" blocks p s1] triggers_only_append [OF triggers_only_Nil] by fastforce
  next
    case False
    obtain r s2 where send: "send_l2_to_l1_triggers V (List.map_filter trigger (pq_groups p)) s1 = (r, s2)" by fastforce
    from send_triggers_trace [OF send] obtain acts where acts: "nd_trace s2 = nd_trace s1 @ acts" "triggers_only acts" by blast
    show ?thesis
    proof (cases r)
      case None
      with False send acts show ?thesis by (simp add: after_send_def s1_def [symmetric] Let_def)
    next
      case (Some hs)
      with False send have "after_send V h blocks p s = await_receipt V h hs blocks p s2"
        by (simp add: after_send_def s1_def [symmetric] Let_def)
      with acts await_trace [of V h hs blocks p s2] triggers_only_append [OF acts(2)] show ?thesis by fastforce
    qed
  qed
  with fs show ?thesis by fastforce
qed

text \<open>The plan that is submitted and the hold at that moment.\<close>

lemma arm_last: "blocks \<noteq> [] \<Longrightarrow> arm_hold (new_collected blocks p) h = (plan, h') \<Longrightarrow>
    armed_for h' = Some (pb_l2_block_number (last blocks))"
  by (cases h) (auto simp: new_collected_def last_opt_def split: if_splits)

lemma empty_pending_entries [simp]: "pq_entries empty_pending = []"
  by (simp add: empty_pending_def)

definition submits_as :: "l1_env \<Rightarrow> gas_price_hint option \<Rightarrow> pending_block list \<Rightarrow> 'tx node \<Rightarrow> sendable_plan
    \<Rightarrow> entry_verification_hold \<Rightarrow> 'tx node \<Rightarrow> bool" where
  "submits_as V hint blocks s plan h s1 \<longleftrightarrow>
     (let p = drv_pending_l1 (queues (nd_driver s)) in
      s1 = s\<lparr>nd_driver := (nd_driver s)\<lparr>queues := (queues (nd_driver s))\<lparr>drv_pending_l1 := empty_pending\<rparr>, drv_hold := h\<rparr>,
         nd_trace := nd_trace s @ [Sent_Batch h blocks (pq_entries p) hint]\<rparr> \<and>
      submit_batch V hint blocks s = (case submit_via V hint plan of
        Send_Failed bs q \<Rightarrow> restore_batch bs q s1 | Sent tx \<Rightarrow> after_send V tx blocks p s1) \<and>
      (blocks \<noteq> [] \<and> pq_entries p \<noteq> [] \<longrightarrow> armed_for h = Some (pb_l2_block_number (last blocks))) \<and>
      fp_blocks (plan_of plan) = blocks \<and> pq_entries (fp_pending_l1 (plan_of plan)) = pq_entries p \<and>
      (pq_entries p \<noteq> [] \<longrightarrow> fp_pending_l1 (plan_of plan) = p) \<and>
      (pq_entries p = [] \<or> blocks = [] \<longrightarrow> h = drv_hold (nd_driver s)))"

lemma keep_hold: "d\<lparr>queues := q, drv_hold := drv_hold d\<rparr> = d\<lparr>queues := q\<rparr>"
  by simp

lemma submit_batch_cases: "\<exists>plan h s1. submits_as V hint blocks s plan h s1"
proof (cases "pq_entries (drv_pending_l1 (queues (nd_driver s))) = []")
  case True
  then have "submits_as V hint blocks s (new_blocks_only blocks) (drv_hold (nd_driver s))
      (s\<lparr>nd_driver := (nd_driver s)\<lparr>queues := (queues (nd_driver s))\<lparr>drv_pending_l1 := empty_pending\<rparr>,
          drv_hold := drv_hold (nd_driver s)\<rparr>,
         nd_trace := nd_trace s @ [Sent_Batch (drv_hold (nd_driver s)) blocks [] hint]\<rparr>)"
    by (simp add: submits_as_def submit_batch_def new_blocks_only_def keep_hold Let_def split: send_result.split)
  then show ?thesis by blast
next
  case False
  let ?p = "drv_pending_l1 (queues (nd_driver s))"
  obtain plan h where arm: "arm_hold (new_collected blocks ?p) (drv_hold (nd_driver s)) = (plan, h)"
    by fastforce
  then have plan: "plan_of plan = \<lparr>fp_blocks = blocks, fp_pending_l1 = ?p,
      fp_entry_block = map_option pb_l2_block_number (last_opt blocks)\<rparr>" "blocks = [] \<Longrightarrow> h = drv_hold (nd_driver s)"
    by (auto simp: new_collected_def last_opt_def)
  have "submits_as V hint blocks s plan h
      (s\<lparr>nd_driver := (nd_driver s)\<lparr>queues := (queues (nd_driver s))\<lparr>drv_pending_l1 := empty_pending\<rparr>, drv_hold := h\<rparr>,
         nd_trace := nd_trace s @ [Sent_Batch h blocks (pq_entries ?p) hint]\<rparr>)"
    using arm_last [OF _ arm] by (simp add: False arm plan submits_as_def submit_batch_def Let_def)
  then show ?thesis by blast
qed

lemma submit_batch_trace:
  "\<exists>h fs acts. nd_trace (submit_batch V hint blocks s) =
      nd_trace s @ Sent_Batch h blocks (pq_entries (drv_pending_l1 (queues (nd_driver s)))) hint # map Forwarded fs @ acts \<and>
     triggers_only acts \<and>
     (blocks \<noteq> [] \<and> pq_entries (drv_pending_l1 (queues (nd_driver s))) \<noteq> [] \<longrightarrow>
        armed_for h = Some (pb_l2_block_number (last blocks)))"
proof -
  let ?p = "drv_pending_l1 (queues (nd_driver s))"
  obtain plan h s1 where "submits_as V hint blocks s plan h s1" using submit_batch_cases by blast
  then have run: "nd_trace s1 = nd_trace s @ [Sent_Batch h blocks (pq_entries ?p) hint]"
    "submit_batch V hint blocks s = (case submit_via V hint plan of
      Send_Failed bs q \<Rightarrow> restore_batch bs q s1 | Sent tx \<Rightarrow> after_send V tx blocks ?p s1)"
    "blocks \<noteq> [] \<and> pq_entries ?p \<noteq> [] \<longrightarrow> armed_for h = Some (pb_l2_block_number (last blocks))"
    by (simp_all add: submits_as_def Let_def)
  have "\<exists>fs acts. nd_trace (submit_batch V hint blocks s) = nd_trace s1 @ map Forwarded fs @ acts \<and> triggers_only acts"
  proof (cases "submit_via V hint plan")
    case (Sent tx)
    then show ?thesis using after_send_trace [of V tx blocks ?p s1] by (simp add: run)
  next
    case (Send_Failed bs q)
    then show ?thesis using triggers_only_append [OF triggers_only_Nil, of "[Nonce_Reset]"]
      by (intro exI [of _ "[]"] exI [of _ "[Nonce_Reset]"]) (simp add: run)
  qed
  then show ?thesis using run(1,3) by fastforce
qed

text \<open>A flush either sends nothing or submits the batch it took.\<close>

lemma check_stale_anchor_hold: "drv_hold (snd (check_stale_anchor root d)) = drv_hold d"
  by (simp add: check_stale_anchor_def Let_def split: list.split)

lemma dispatch_hold: "drv_hold (dispatch_sibling_reorg req d) = Clear"
  by (simp add: dispatch_sibling_reorg_def Let_def split: option.split)

lemma precheck_hold:
  assumes "flush_precheck p c on_chain d = (r, d')" and "drv_hold d = Clear"
  shows "drv_hold d' = Clear"
proof -
  have "drv_hold (snd (check_stale_anchor root d)) = Clear" if "drv_hold d = Clear" for root d
    using that by (simp add: check_stale_anchor_hold)
  moreover have "drv_hold (trim_confirmed root d) = Clear" for root using assms(2) trim_confirmed_result(4) by metis
  ultimately have "drv_hold (snd (flush_precheck p c on_chain d)) = Clear"
    using assms(2) by (simp add: flush_precheck_def dispatch_hold Let_def split: option.split)
  with assms(1) show ?thesis by simp
qed

lemma flush_cases:
  obtains (Quiet) "nd_trace (flush_to_l1 V bid s) = nd_trace s"
      "nd_submission_failed (flush_to_l1 V bid s) = nd_submission_failed s"
      "drv_hold (nd_driver s) = Clear \<Longrightarrow> drv_hold (nd_driver (flush_to_l1 V bid s)) = Clear"
    | (Submits) root d blocks d1 d2 where
      "flush_precheck (env_has_proposer V) (env_cooling_down V) (env_on_chain_root V) (nd_driver s) = (Proceed root, d)"
      "take_batch d = (blocks, d1)" "check_pre_state_root V root blocks d1 = (True, d2)"
      "flush_to_l1 V bid s = submit_batch V (bid d2) blocks (s\<lparr>nd_driver := d2\<rparr>)"
proof -
  obtain r d where pre: "flush_precheck (env_has_proposer V) (env_cooling_down V) (env_on_chain_root V) (nd_driver s) = (r, d)"
    by fastforce
  obtain blocks d1 where take: "take_batch d = (blocks, d1)" by fastforce
  show thesis
  proof (cases r)
    case Precheck_Skip
    then show thesis using Quiet pre precheck_hold [OF pre] by (simp add: flush_to_l1_def)
  next
    case (Proceed root)
    obtain go d2 where check: "check_pre_state_root V root blocks d1 = (go, d2)" by fastforce
    show thesis
    proof (cases go)
      case True
      then show thesis using Submits pre Proceed take check by (simp add: flush_to_l1_def)
    next
      case False
      have "drv_hold d2 = Clear" if "drv_hold (nd_driver s) = Clear"
        using check_fails_hold check False precheck_hold [OF pre that] take_batch_result [OF take] by metis
      then show thesis using Quiet pre Proceed take check False by (simp add: flush_to_l1_def)
    qed
  qed
qed

lemma await_hold:
  assumes "drv_hold (nd_driver (await_receipt V tx ts blocks p s)) \<noteq> Clear"
  shows "\<exists>l1. env_receipt V tx = Inr l1 \<and> drv_hold (nd_driver s) \<noteq> Clear \<and> (pq_entries p \<noteq> [] \<longrightarrow> consumed_in_block V l1 = [])"
proof (cases "env_receipt V tx")
  case (Inl err)
  with assms show ?thesis by (cases err) (simp_all add: await_receipt_def)
next
  case (Inr l1)
  with assms have "drv_hold (nd_driver s) \<noteq> Clear \<and> (pq_entries p \<noteq> [] \<longrightarrow> consumed_in_block V l1 = [])"
    by (auto simp: await_receipt_def check_consumption_def clear_def Let_def
        split: trigger_execution_result.splits if_splits option.splits)
  with Inr show ?thesis by blast
qed

lemma after_send_hold:
  assumes "drv_hold (nd_driver (after_send V tx blocks p s)) \<noteq> Clear"
  shows "\<exists>l1. env_receipt V tx = Inr l1 \<and> drv_hold (nd_driver s) \<noteq> Clear \<and> (pq_entries p \<noteq> [] \<longrightarrow> consumed_in_block V l1 = [])"
proof -
  define s1 where "s1 = (if pq_entries p \<noteq> [] then forward_queued_l1_txs V s else s)"
  have h1: "drv_hold (nd_driver s1) = drv_hold (nd_driver s)"
    using forward_trace [of V s] by (auto simp: s1_def)
  have run: "after_send V tx blocks p s =
      (if List.map_filter trigger (pq_groups p) \<noteq> [] then
         (case send_l2_to_l1_triggers V (List.map_filter trigger (pq_groups p)) s1 of
            (None, s2) \<Rightarrow> upd_driver (anchor_rewind (\<lambda>l2. l2)) s2
          | (Some hs, s2) \<Rightarrow> await_receipt V tx hs blocks p s2)
       else await_receipt V tx [] blocks p s1)"
    by (simp add: after_send_def s1_def Let_def)
  show ?thesis
  proof (cases "List.map_filter trigger (pq_groups p) = []")
    case True
    with assms run h1 show ?thesis using await_hold [of V tx "[]" blocks p s1] by simp
  next
    case False
    obtain r s2 where send: "send_l2_to_l1_triggers V (List.map_filter trigger (pq_groups p)) s1 = (r, s2)" by fastforce
    with send_triggers_trace [OF send] have h2: "drv_hold (nd_driver s2) = drv_hold (nd_driver s)" by (simp add: h1)
    show ?thesis
    proof (cases r)
      case None
      with assms run False send show ?thesis by simp
    next
      case (Some hs)
      with assms run False send h2 show ?thesis using await_hold [of V tx hs blocks p s2] by simp
    qed
  qed
qed

text \<open>What forwarding and triggers leave as it is.\<close>

definition same_driver :: "'tx node \<Rightarrow> 'tx node \<Rightarrow> bool" where
  "same_driver s t \<longleftrightarrow> nd_submission_failed t = nd_submission_failed s \<and>
     (\<exists>fs. nd_driver t = (nd_driver s)\<lparr>queues := (queues (nd_driver s))\<lparr>pending_l1_forward_txs := fs\<rparr>\<rparr>) \<and>
     nd_journal t = nd_journal s \<and> nd_stages t = nd_stages s"

lemma same_driver_refl: "same_driver s s"
  by (auto simp: same_driver_def intro: exI [of _ "pending_l1_forward_txs (queues (nd_driver s))"])

lemma same_driver_forward: "same_driver s (forward_queued_l1_txs V s)"
  using same_driver_refl [of s] by (auto simp: same_driver_def forward_queued_l1_txs_def Let_def)

lemma same_driver_triggers: "send_l2_to_l1_triggers V ts s = (r, t) \<Longrightarrow> same_driver u s \<Longrightarrow> same_driver u t"
  by (auto simp: same_driver_def send_l2_to_l1_triggers_def split: option.splits prod.splits)

text \<open>The batch of the trace is the one that the submission took.\<close>

lemma flush_sent:
  assumes "Sent_Batch h blocks es hint \<in> set (nd_trace (flush_to_l1 V bid s))" and "nd_trace s = []"
  obtains root d d1 d2 where
    "flush_precheck (env_has_proposer V) (env_cooling_down V) (env_on_chain_root V) (nd_driver s) = (Proceed root, d)"
    "take_batch d = (blocks, d1)" "check_pre_state_root V root blocks d1 = (True, d2)"
    "flush_to_l1 V bid s = submit_batch V hint blocks (s\<lparr>nd_driver := d2\<rparr>)"
    "es = pq_entries (drv_pending_l1 (queues d2))"
proof (cases rule: flush_cases [of V bid s])
  case Quiet
  with assms show thesis by simp
next
  case (Submits root d bs d1 d2)
  obtain h' fs acts where trace: "nd_trace (flush_to_l1 V bid s) =
      Sent_Batch h' bs (pq_entries (drv_pending_l1 (queues d2))) (bid d2) # map Forwarded fs @ acts" "triggers_only acts"
    using submit_batch_trace [of V "bid d2" bs "s\<lparr>nd_driver := d2\<rparr>"] by (auto simp: Submits(4) assms(2))
  have "Sent_Batch h blocks es hint \<notin> set (map Forwarded fs @ acts)"
    using trace(2) by (auto simp: triggers_only_def)
  with assms(1) have "blocks = bs" "es = pq_entries (drv_pending_l1 (queues d2))" "hint = bid d2"
    by (auto simp: trace(1))
  with that Submits show thesis by simp
qed

text \<open>The triggers reach L1, and they are confirmed there.\<close>

definition triggers_sent :: "l1_env \<Rightarrow> bool" where
  "triggers_sent V \<longleftrightarrow> env_pending_nonce V \<noteq> None \<and> (\<forall>n c. env_send_trigger V n c \<noteq> None)"

definition triggers_confirmed :: "l1_env \<Rightarrow> bool" where
  "triggers_confirmed V \<longleftrightarrow> triggers_sent V \<and> (\<forall>n c tx. env_send_trigger V n c = Some tx \<longrightarrow> (\<exists>l1. env_receipt V tx = Inr l1))"

lemma trigger_loop_sent:
  "\<forall>n c. env_send_trigger V n c \<noteq> None \<Longrightarrow> \<exists>acts hs. trigger_loop V cs n = (acts, Some hs) \<and>
     (\<forall>h \<in> set hs. \<exists>n c. env_send_trigger V n c = Some h)"
proof (induction cs arbitrary: n)
  case (Cons c cs)
  obtain h where h: "env_send_trigger V n c = Some h" using Cons.prems by fastforce
  from Cons.IH [OF Cons.prems] obtain acts hs where "trigger_loop V cs (n + 1) = (acts, Some hs)"
    "\<forall>h \<in> set hs. \<exists>n c. env_send_trigger V n c = Some h" by blast
  with h show ?case by auto
qed simp

lemma after_send_awaits:
  assumes "triggers_sent V"
  shows "\<exists>t hs. same_driver s t \<and> after_send V tx blocks p s = await_receipt V tx hs blocks p t \<and>
    (triggers_confirmed V \<longrightarrow> verify_trigger_receipts V hs = AllConfirmed (length hs))"
proof -
  define s1 where "s1 = (if pq_entries p \<noteq> [] then forward_queued_l1_txs V s else s)"
  have s1: "same_driver s s1" by (simp add: s1_def same_driver_forward same_driver_refl)
  let ?ts = "List.map_filter trigger (pq_groups p)"
  show ?thesis
  proof (cases "?ts = []")
    case True
    then have "after_send V tx blocks p s = await_receipt V tx [] blocks p s1"
      by (simp add: after_send_def s1_def Let_def)
    with s1 show ?thesis by (intro exI [of _ s1] exI [of _ "[]"]) (simp add: verify_trigger_receipts_def)
  next
    case False
    obtain n where n: "env_pending_nonce V = Some n" using assms by (auto simp: triggers_sent_def)
    obtain acts hs where loop: "trigger_loop V (trigger_calls V (cfg_rollup_id (config (derivation (nd_driver s1)))) ?ts) n = (acts, Some hs)"
      "\<forall>h \<in> set hs. \<exists>n c. env_send_trigger V n c = Some h"
      using trigger_loop_sent assms by (metis triggers_sent_def)
    obtain t where send: "send_l2_to_l1_triggers V ?ts s1 = (Some hs, t)"
      using n loop(1) by (simp add: send_l2_to_l1_triggers_def)
    have "after_send V tx blocks p s = await_receipt V tx hs blocks p t"
      using False send by (simp add: after_send_def s1_def [symmetric] Let_def)
    moreover have "verify_trigger_receipts V hs = AllConfirmed (length hs)" if "triggers_confirmed V"
    proof -
      have none: "\<forall>h \<in> set hs. \<exists>l1. env_receipt V h = Inr l1" using that loop(2) by (metis triggers_confirmed_def)
      have "filter (\<lambda>h. case env_receipt V h of Inl _ \<Rightarrow> True | Inr _ \<Rightarrow> False) hs = []"
        using none by (auto simp: filter_empty_conv)
      then show ?thesis unfolding verify_trigger_receipts_def Let_def by simp
    qed
    ultimately show ?thesis using same_driver_triggers [OF send s1] by blast
  qed
qed

lemma check_true:
  assumes "check_pre_state_root V root blocks d = (True, d')"
  shows "d' = d \<or> d' = d\<lparr>consecutive_flush_mismatches := 0, consecutive_rewind_cycles := 0\<rparr>"
proof (cases blocks)
  case Nil
  with assms show ?thesis by (simp add: check_pre_state_root_def)
next
  case (Cons b bs)
  have "\<not> fst (check_pre_state_root V root blocks d)" if "pb_pre_state_root b \<noteq> root"
    using that by (simp add: Cons check_pre_state_root_def Let_def split: option.split)
  with assms have "pb_pre_state_root b = root" by fastforce
  with assms Cons show ?thesis by (auto simp: check_pre_state_root_def)
qed

text \<open>
  The driver that a batch leaves behind when it was sent: the one of the precheck with the batch
  and the entries taken out, the hold armed, and possibly the forward queue emptied.
\<close>

definition sent_from :: "driver \<Rightarrow> pending_block list \<Rightarrow> entry_verification_hold \<Rightarrow> driver \<Rightarrow> bool" where
  "sent_from d blocks h d' \<longleftrightarrow> pending_submissions (queues d) = blocks @ pending_submissions (queues d') \<and>
     drv_hold d' = h \<and> derivation d' = derivation d \<and> drv_mode d' = drv_mode d \<and> drv_anchor d' = drv_anchor d \<and>
     drv_head d' = drv_head d \<and> pending_sibling_reorg d' = pending_sibling_reorg d"

lemma sent_from_flush:
  assumes "take_batch d = (blocks, d1)" and "check_pre_state_root V root blocks d1 = (True, d2)"
    and "submits_as V hint blocks (s\<lparr>nd_driver := d2\<rparr>) plan h s1" and "same_driver s1 t"
  shows "sent_from d blocks h (nd_driver t)" and "nd_submission_failed t = nd_submission_failed s"
    and "nd_journal t = nd_journal s" and "nd_stages t = nd_stages s"
proof -
  have s1: "s1 = s\<lparr>nd_driver := d2\<lparr>queues := (queues d2)\<lparr>drv_pending_l1 := empty_pending\<rparr>, drv_hold := h\<rparr>,
      nd_trace := nd_trace s @ [Sent_Batch h blocks (pq_entries (drv_pending_l1 (queues d2))) hint]\<rparr>"
    using assms(3) by (simp add: submits_as_def Let_def)
  have "drv_head d1 = drv_head d \<and> pending_sibling_reorg d1 = pending_sibling_reorg d"
    using assms(1) by (auto simp: take_batch_def Let_def)
  then show "sent_from d blocks h (nd_driver t)"
    using take_batch_result [OF assms(1)] check_true [OF assms(2)] assms(4)
    by (auto simp: same_driver_def s1 sent_from_def)
qed (use assms(3,4) in \<open>simp_all add: same_driver_def submits_as_def Let_def\<close>)

section \<open>Properties\<close>

text \<open>
  C10: a flush sends at most one batch, first, under an armed hold. The batch is a front part of
  the pending queue of at most \<open>MAX_BATCH_SIZE\<close> blocks with one L1 context, its first block
  starts from the root on L1, it carries all pending entries, and when it carries entries the
  hold is armed for its last block at that moment. After it come the forwarded transactions
  and then the triggers, with consecutive nonces.
\<close>

theorem flush_sends_one_batch:
  assumes "Sent_Batch h blocks es hint \<in> set (nd_trace (flush_to_l1 V bid s))" and "nd_trace s = []"
  shows "\<exists>root d rest fs acts.
    flush_precheck (env_has_proposer V) (env_cooling_down V) (env_on_chain_root V) (nd_driver s) = (Proceed root, d) \<and>
    pending_submissions (queues d) = blocks @ rest \<and> length blocks \<le> MAX_BATCH_SIZE \<and>
    (\<forall>b \<in> set blocks. pb_l1_context_block b = pb_l1_context_block (hd blocks)) \<and>
    (blocks \<noteq> [] \<longrightarrow> pb_pre_state_root (hd blocks) = root) \<and> es = pq_entries (drv_pending_l1 (queues d)) \<and>
    (blocks \<noteq> [] \<and> es \<noteq> [] \<longrightarrow> armed_for h = Some (pb_l2_block_number (last blocks))) \<and>
    nd_trace (flush_to_l1 V bid s) = Sent_Batch h blocks es hint # map Forwarded fs @ acts \<and> triggers_only acts"
proof (cases rule: flush_cases [of V bid s])
  case Quiet
  with assms show ?thesis by simp
next
  case (Submits root d bs d1 d2)
  note facts = take_batch_result [OF Submits(2)] check_passes [OF Submits(3)]
  obtain h' fs acts where trace: "nd_trace (flush_to_l1 V bid s) =
      Sent_Batch h' bs (pq_entries (drv_pending_l1 (queues d2))) (bid d2) # map Forwarded fs @ acts" "triggers_only acts"
    "bs \<noteq> [] \<and> pq_entries (drv_pending_l1 (queues d2)) \<noteq> [] \<longrightarrow> armed_for h' = Some (pb_l2_block_number (last bs))"
    using submit_batch_trace [of V "bid d2" bs "s\<lparr>nd_driver := d2\<rparr>"] by (auto simp: Submits(4) assms(2))
  have "Sent_Batch h blocks es hint \<notin> set (map Forwarded fs @ acts)"
    using trace(2) by (auto simp: triggers_only_def)
  with assms(1) have "h = h'" "blocks = bs" "es = pq_entries (drv_pending_l1 (queues d2))" "hint = bid d2"
    by (auto simp: trace(1))
  with facts trace Submits(1) show ?thesis by metis
qed

text \<open>A toy L1 that accepts everything and consumes the one entry of the batch.\<close>

definition toy_l1 :: l1_env where
  "toy_l1 = \<lparr>env_abi = toy_abi, env_has_proposer = True, env_cooling_down = False, env_on_chain_root = Some 2499,
     env_send = (\<lambda>_ _ _. Some 9), env_pending_nonce = Some 5, env_send_trigger = (\<lambda>_ _. Some 8),
     env_enc_execute_l2tx = (\<lambda>_ bs. bs), env_receipt = (\<lambda>_. Inr 31),
     env_consumed_logs = (\<lambda>_. Some [\<lparr>log_address = 2, topics = [1, 7], log_data = []\<rparr>]),
     env_decode_action = (\<lambda>_. None), env_refreshed_root = Some 2501, env_local_root = (\<lambda>_. None), env_db_ok = True\<rparr>"

definition flush_node :: "nat node" where
  "flush_node = \<lparr>nd_driver = flush_driver\<lparr>queues := (queues flush_driver)\<lparr>drv_pending_l1 :=
        append_group [sample_entry] Chained None empty_pending, pending_l1_forward_txs := [[1]]\<rparr>\<rparr>,
     nd_journal = \<lparr>tx_journal = toy_journal, pending_reinjection = [], js_db = None\<rparr>, nd_stages = Map.empty,
     nd_submission_failed = False, nd_trace = []\<rparr>"

lemma toy_precheck:
  "flush_precheck True False (Some 2499) (nd_driver flush_node) = (Proceed 2499, nd_driver flush_node)"
  by (simp add: flush_precheck_def flush_node_def flush_driver_def toy_driver_def nothing_pending_def trim_confirmed_def Let_def
      rposition_def carries_root_def check_stale_anchor_def saturating_add_def word_less_nat_alt append_group_def pending_is_empty_def)

lemma toy_batch:
  "take_batch (nd_driver flush_node) = (pending_submissions (queues flush_driver),
     (nd_driver flush_node)\<lparr>queues := (queues (nd_driver flush_node))\<lparr>pending_submissions := []\<rparr>\<rparr>)"
  by (simp add: take_batch_def flush_node_def flush_driver_def MAX_BATCH_SIZE_def Let_def)

lemma toy_flush:
  assumes "env_has_proposer V" "\<not> env_cooling_down V" "env_on_chain_root V = Some 2499"
  shows "flush_to_l1 V bid flush_node =
    (let d = (nd_driver flush_node)\<lparr>queues := (queues (nd_driver flush_node))\<lparr>pending_submissions := []\<rparr>\<rparr> in
     submit_batch V (bid d) (pending_submissions (queues flush_driver)) (flush_node\<lparr>nd_driver := d\<rparr>))"
  using assms by (simp add: flush_to_l1_def toy_precheck toy_batch Let_def)
    (simp add: check_pre_state_root_def flush_driver_def flush_node_def toy_driver_def)

lemma toy_pending [simp]:
  "drv_pending_l1 (queues (nd_driver flush_node)) = \<lparr>pq_entries = [sample_entry], pq_groups = [\<lparr>start = 0, mode = Chained, trigger = None\<rparr>]\<rparr>"
  "drv_hold (nd_driver flush_node) = Clear" "nd_trace flush_node = []" "nd_submission_failed flush_node = False"
  "pending_l1_forward_txs (queues (nd_driver flush_node)) = [[1]]"
  by (simp_all add: flush_node_def flush_driver_def append_group_def empty_pending_def)

theorem flush_sends_one_batch_witness:
  "\<exists>h blocks acts. nd_trace (flush_to_l1 toy_l1 (\<lambda>_. None) flush_node) = Sent_Batch h blocks [sample_entry] None # Forwarded [1] # acts \<and>
     length blocks = 2 \<and> armed_for h = Some 2501 \<and> triggers_only acts"
proof -
  let ?blocks = "pending_submissions (queues flush_driver)"
  have blocks: "?blocks \<noteq> []" "length ?blocks = 2" "pb_l2_block_number (last ?blocks) = 2501" by (simp_all add: flush_driver_def)
  have "flush_to_l1 toy_l1 (\<lambda>_. None) flush_node =
      (let d = (nd_driver flush_node)\<lparr>queues := (queues (nd_driver flush_node))\<lparr>pending_submissions := []\<rparr>\<rparr> in
       submit_batch toy_l1 None ?blocks (flush_node\<lparr>nd_driver := d\<rparr>))"
    by (subst toy_flush) (simp_all add: toy_l1_def Let_def)
  then have run: "nd_trace (flush_to_l1 toy_l1 (\<lambda>_. None) flush_node) = [Sent_Batch (Armed 2501 0) ?blocks [sample_entry] None, Forwarded [1]]"
    by (simp add: toy_l1_def submit_batch_def submit_via_def new_collected_def last_opt_def after_send_def blocks
        forward_queued_l1_txs_def await_receipt_def verify_trigger_receipts_def Let_def List.map_filter_simps)
  show ?thesis
    using flush_sends_one_batch [of "Armed 2501 0" ?blocks "[sample_entry]" None toy_l1 "\<lambda>_. None" flush_node]
    by (auto simp: run blocks)
qed

text \<open>
  C11: what a failed submission does, where the triggers of a sent batch can be sent too. When the call that sends the batch fails, or L1 has no
  receipt for it in time, nothing is lost: every block that was pending after the precheck is
  pending again in the same order, the deferred entries are back, the hold is released, and
  derivation, mode, anchor, journal and checkpoint are untouched, so the next flush can send the
  same batch. When the receipt says that the batch reverted, everything pending is dropped
  instead, and the driver derives again from the anchor in sync mode.
\<close>

theorem failed_submission_outcome:
  assumes "t = flush_to_l1 V bid s" and "nd_trace s = []" and "Sent_Batch h blocks es hint \<in> set (nd_trace t)"
    and "triggers_sent V"
  shows "\<exists>root d. flush_precheck (env_has_proposer V) (env_cooling_down V) (env_on_chain_root V) (nd_driver s) = (Proceed root, d) \<and>
    (env_send V blocks es hint = None \<or> (\<exists>tx. env_send V blocks es hint = Some tx \<and> env_receipt V tx = Inl Receipt_Unavailable) \<longrightarrow>
      nd_submission_failed t \<and> pending_submissions (queues (nd_driver t)) = pending_submissions (queues d) \<and>
      pq_entries (drv_pending_l1 (queues (nd_driver t))) = pq_entries (drv_pending_l1 (queues d)) \<and>
      drv_hold (nd_driver t) = Clear \<and> derivation (nd_driver t) = derivation d \<and> drv_mode (nd_driver t) = drv_mode d \<and>
      drv_anchor (nd_driver t) = drv_anchor d \<and> nd_journal t = nd_journal s \<and> nd_stages t = nd_stages s) \<and>
    (\<forall>tx. env_send V blocks es hint = Some tx \<and> env_receipt V tx = Inl Receipt_Reverted \<longrightarrow>
      queues_dropped (nd_driver t) \<and> drv_hold (nd_driver t) = Clear \<and> drv_mode (nd_driver t) = Sync \<and>
      last_derived_l2_block (derivation (nd_driver t)) = (case drv_anchor d of None \<Rightarrow> 0 | Some a \<Rightarrow> anchor_l2 a) \<and>
      nd_submission_failed t = nd_submission_failed s)"
proof -
  from assms(1-3) obtain root d d1 d2 where
    pre: "flush_precheck (env_has_proposer V) (env_cooling_down V) (env_on_chain_root V) (nd_driver s) = (Proceed root, d)"
    and take: "take_batch d = (blocks, d1)" and check: "check_pre_state_root V root blocks d1 = (True, d2)"
    and t: "t = submit_batch V hint blocks (s\<lparr>nd_driver := d2\<rparr>)" and es: "es = pq_entries (drv_pending_l1 (queues d2))"
    by (auto elim: flush_sent)
  have es_d: "es = pq_entries (drv_pending_l1 (queues d))"
    using take_batch_result [OF take] check_passes [OF check] es by simp
  obtain plan h' s1 where sub: "submits_as V hint blocks (s\<lparr>nd_driver := d2\<rparr>) plan h' s1" using submit_batch_cases by blast
  then have run: "t = (case submit_via V hint plan of
      Send_Failed bs q \<Rightarrow> restore_batch bs q s1 | Sent tx \<Rightarrow> after_send V tx blocks (drv_pending_l1 (queues d2)) s1)"
    and plan: "fp_blocks (plan_of plan) = blocks" "pq_entries (fp_pending_l1 (plan_of plan)) = es"
    by (simp_all add: submits_as_def Let_def t es)
  have via: "submit_via V hint plan = (case env_send V blocks es hint of
      None \<Rightarrow> Send_Failed blocks (fp_pending_l1 (plan_of plan)) | Some tx \<Rightarrow> Sent tx)"
    by (simp add: submit_via_def plan Let_def split: option.split)
  note sent = sent_from_flush [OF take check sub]
  have restored: "nd_submission_failed (restore_batch blocks q u) \<and>
      pending_submissions (queues (nd_driver (restore_batch blocks q u))) = pending_submissions (queues d)"
    if "same_driver s1 u" for q u using sent(1) [OF that] by (simp add: sent_from_def)
  have dropped: "queues_dropped (anchor_rewind f e)" "last_derived_l2_block (derivation (anchor_rewind (\<lambda>l2. l2) e)) =
      (case drv_anchor e of None \<Rightarrow> 0 | Some a \<Rightarrow> anchor_l2 a)" for f e
    using hard.drops by (simp_all add: anchor_rewind_def split: option.split)
  show ?thesis
  proof (cases "env_send V blocks es hint")
    case None
    then have "t = restore_batch blocks (fp_pending_l1 (plan_of plan)) s1" by (simp add: run via)
    then show ?thesis using pre None sent [OF same_driver_refl] plan(2) es_d
      by (intro exI [of _ root] exI [of _ d]) (simp add: sent_from_def)
  next
    case (Some tx)
    then obtain u hs where u: "same_driver s1 u" "t = await_receipt V tx hs blocks (drv_pending_l1 (queues d2)) u"
      using after_send_awaits [OF assms(4), of s1 tx blocks "drv_pending_l1 (queues d2)"] by (auto simp: run via)
    then show ?thesis using pre Some sent [OF u(1)] es es_d dropped
      by (intro exI [of _ root] exI [of _ d]) (auto simp: await_receipt_def sent_from_def)
  qed
qed

text \<open>
  The hold does not wedge the builder. If the hold is armed after a flush that began without
  one, the batch was sent and confirmed in an L1 block, and no consumption event of a batch with
  entries was seen there: only then is there something left for derivation to decide.
\<close>

theorem hold_survives_only_undecided:
  assumes "drv_hold (nd_driver s) = Clear" and "drv_hold (nd_driver (flush_to_l1 V bid s)) = Armed n k"
  shows "\<exists>h blocks es hint tx l1. Sent_Batch h blocks es hint \<in> set (nd_trace (flush_to_l1 V bid s)) \<and> es \<noteq> [] \<and>
    env_send V blocks es hint = Some tx \<and> env_receipt V tx = Inr l1 \<and> consumed_in_block V l1 = []"
proof (cases rule: flush_cases [of V bid s])
  case Quiet
  with assms show ?thesis by simp
next
  case (Submits root d blocks d1 d2)
  let ?s = "s\<lparr>nd_driver := d2\<rparr>"
  let ?p = "drv_pending_l1 (queues d2)"
  obtain plan h s1 where sub: "submits_as V (bid d2) blocks ?s plan h s1" using submit_batch_cases by blast
  have clear: "drv_hold d2 = Clear"
    using precheck_hold [OF Submits(1) assms(1)] take_batch_result [OF Submits(2)] check_passes [OF Submits(3)] by simp
  from sub have run: "flush_to_l1 V bid s = (case submit_via V (bid d2) plan of
      Send_Failed bs q \<Rightarrow> restore_batch bs q s1 | Sent tx \<Rightarrow> after_send V tx blocks ?p s1)"
    and plan: "fp_blocks (plan_of plan) = blocks" "pq_entries (fp_pending_l1 (plan_of plan)) = pq_entries ?p"
    and hold: "pq_entries ?p = [] \<longrightarrow> h = Clear" and s1: "drv_hold (nd_driver s1) = h"
    by (simp_all add: submits_as_def Let_def Submits(4) clear)
  obtain tx where tx: "submit_via V (bid d2) plan = Sent tx"
    using assms(2) run by (cases "submit_via V (bid d2) plan") simp_all
  then have send: "env_send V blocks (pq_entries ?p) (bid d2) = Some tx"
    using plan by (simp add: submit_via_def Let_def split: option.splits)
  from after_send_hold [of V tx blocks ?p s1] assms(2) run tx
  obtain l1 where l1: "env_receipt V tx = Inr l1" "h \<noteq> Clear" "pq_entries ?p \<noteq> [] \<longrightarrow> consumed_in_block V l1 = []"
    by (auto simp: s1)
  obtain h' fs acts where "nd_trace (submit_batch V (bid d2) blocks ?s) =
      nd_trace s @ Sent_Batch h' blocks (pq_entries ?p) (bid d2) # map Forwarded fs @ acts"
    using submit_batch_trace [of V "bid d2" blocks ?s] by auto
  then have "Sent_Batch h' blocks (pq_entries ?p) (bid d2) \<in> set (nd_trace (flush_to_l1 V bid s))"
    by (simp add: Submits(4))
  with l1 send hold show ?thesis by blast
qed

lemma toy_run:
  assumes "env_has_proposer V" "\<not> env_cooling_down V" "env_on_chain_root V = Some 2499"
  shows "\<exists>s1. flush_to_l1 V (\<lambda>_. None) flush_node =
      (case env_send V (pending_submissions (queues flush_driver)) [sample_entry] None of
         None \<Rightarrow> restore_batch (pending_submissions (queues flush_driver)) (drv_pending_l1 (queues (nd_driver flush_node))) s1
       | Some tx \<Rightarrow> after_send V tx (pending_submissions (queues flush_driver)) (drv_pending_l1 (queues (nd_driver flush_node))) s1) \<and>
    drv_hold (nd_driver s1) = Armed 2501 0 \<and> \<not> nd_submission_failed s1 \<and> pending_sibling_reorg (nd_driver s1) = None \<and>
    l2_head_number (drv_head (nd_driver s1)) = 3000 \<and>
    nd_trace s1 = [Sent_Batch (Armed 2501 0) (pending_submissions (queues flush_driver)) [sample_entry] None]"
proof -
  let ?blocks = "pending_submissions (queues flush_driver)"
  have blocks: "?blocks \<noteq> []" "pb_l2_block_number (last ?blocks) = 2501" by (simp_all add: flush_driver_def)
  let ?d = "(nd_driver flush_node)\<lparr>queues := (queues (nd_driver flush_node))\<lparr>pending_submissions := [], drv_pending_l1 := empty_pending\<rparr>,
      drv_hold := Armed 2501 0\<rparr>"
  let ?s1 = "flush_node\<lparr>nd_driver := ?d, nd_trace := [Sent_Batch (Armed 2501 0) ?blocks [sample_entry] None]\<rparr>"
  have "flush_to_l1 V (\<lambda>_. None) flush_node =
      (case env_send V ?blocks [sample_entry] None of
         None \<Rightarrow> restore_batch ?blocks (drv_pending_l1 (queues (nd_driver flush_node))) ?s1
       | Some tx \<Rightarrow> after_send V tx ?blocks (drv_pending_l1 (queues (nd_driver flush_node))) ?s1)"
    by (subst toy_flush [OF assms])
      (simp add: submit_batch_def submit_via_def new_collected_def last_opt_def blocks Let_def split: option.split)
  moreover have "pending_sibling_reorg (nd_driver ?s1) = None" "l2_head_number (drv_head (nd_driver ?s1)) = 3000"
    by (simp_all add: flush_node_def flush_driver_def toy_driver_def)
  ultimately show ?thesis by (intro exI [of _ ?s1]) simp
qed

theorem failed_submission_outcome_witness:
  "pending_submissions (queues (nd_driver (flush_to_l1 (toy_l1\<lparr>env_send := \<lambda>_ _ _. None\<rparr>) (\<lambda>_. None) flush_node))) =
     pending_submissions (queues flush_driver)"
proof -
  let ?V = "toy_l1\<lparr>env_send := \<lambda>_ _ _. None\<rparr>" and ?blocks = "pending_submissions (queues flush_driver)"
  obtain s1 where "flush_to_l1 ?V (\<lambda>_. None) flush_node =
      restore_batch ?blocks (drv_pending_l1 (queues (nd_driver flush_node))) s1"
    "nd_trace s1 = [Sent_Batch (Armed 2501 0) ?blocks [sample_entry] None]"
    using toy_run [of ?V] by (auto simp: toy_l1_def)
  then have "Sent_Batch (Armed 2501 0) ?blocks [sample_entry] None \<in> set (nd_trace (flush_to_l1 ?V (\<lambda>_. None) flush_node))" by simp
  moreover have "triggers_sent ?V" by (simp add: triggers_sent_def toy_l1_def)
  ultimately show ?thesis
    using failed_submission_outcome [OF refl toy_pending(3), of "Armed 2501 0" ?blocks "[sample_entry]" None ?V "\<lambda>_. None"]
    by (simp add: toy_l1_def toy_precheck) (simp add: flush_node_def)
qed

theorem hold_survives_only_undecided_witness:
  "\<exists>tx l1. env_send (toy_l1\<lparr>env_consumed_logs := \<lambda>_. None, env_refreshed_root := None\<rparr>)
      (pending_submissions (queues flush_driver)) [sample_entry] None = Some tx \<and>
    env_receipt toy_l1 tx = Inr l1 \<and>
    drv_hold (nd_driver (flush_to_l1 (toy_l1\<lparr>env_consumed_logs := \<lambda>_. None, env_refreshed_root := None\<rparr>) (\<lambda>_. None) flush_node)) = Armed 2501 0"
proof -
  let ?V = "toy_l1\<lparr>env_consumed_logs := \<lambda>_. None, env_refreshed_root := None\<rparr>"
  let ?blocks = "pending_submissions (queues flush_driver)"
  obtain s1 where s1: "flush_to_l1 ?V (\<lambda>_. None) flush_node = after_send ?V 9 ?blocks (drv_pending_l1 (queues (nd_driver flush_node))) s1"
    "drv_hold (nd_driver s1) = Armed 2501 0"
    using toy_run [of ?V] by (auto simp: toy_l1_def)
  have "drv_hold (nd_driver (forward_queued_l1_txs ?V s1)) = Armed 2501 0"
    using forward_trace [of ?V s1] s1(2) by auto
  then have hold: "drv_hold (nd_driver (flush_to_l1 ?V (\<lambda>_. None) flush_node)) = Armed 2501 0"
    unfolding s1(1)
    by (simp add: after_send_def await_receipt_def verify_trigger_receipts_def check_consumption_def consumed_in_block_def
        List.map_filter_simps Let_def toy_l1_def)
  from hold_survives_only_undecided [OF _ this] hold show ?thesis by (auto simp: toy_l1_def)
qed

lemma batch_confirmed_driver:
  assumes "blocks \<noteq> []"
  shows "nd_driver (batch_confirmed V blocks l1 s) =
      (nd_driver s)\<lparr>drv_anchor := Some \<lparr>anchor_l2 = pb_l2_block_number (last blocks), anchor_l1 = l1\<rparr>\<rparr>"
    and "nd_journal (batch_confirmed V blocks l1 s) =
      prune_tx_journal (env_db_ok V) (pb_l2_block_number (last blocks)) (nd_journal s)"
  using assms by (simp_all add: batch_confirmed_def last_opt_def Let_def)

lemma real_entries_anchor [simp]: "real_entries V (d\<lparr>drv_anchor := a\<rparr>) es = real_entries V d es"
  by (simp add: real_entries_def)

lemma tx_journal_prune [simp]:
  "tx_journal (prune_tx_journal ok n j) = filter (\<lambda>e. n < je_l2_block_number e) (tx_journal j)"
  by (simp add: prune_tx_journal_def save_tx_journal_def Let_def)

text \<open>The check of the entries of a batch whose last block has just become the anchor.\<close>

lemma consumption_decides:
  assumes "drv_anchor d = Some \<lparr>anchor_l2 = n, anchor_l1 = l1\<rparr>" and "armed_for (drv_hold d) = Some n" and "pending_sibling_reorg d = None"
  shows "check_consumption V l1 es d =
    (let consumed = consumed_in_block V l1; real = real_entries V d es in
     if consumed \<noteq> [] then
       (if all_consumed consumed real then d\<lparr>drv_hold := Clear\<rparr>
        else rewind_to_re_derive (saturating_sub n 1) (saturating_sub l1 1) d)
     else if real = [] then d
     else case env_refreshed_root V of
         None \<Rightarrow> d
       | Some root \<Rightarrow>
           if reorg_depth_exceeded (saturating_sub (l2_head_number (drv_head d)) n) REORG_SAFETY_THRESHOLD then d\<lparr>drv_hold := Clear\<rparr>
           else d\<lparr>pending_sibling_reorg := Some \<lparr>req_target = n, req_root = root\<rparr>, drv_hold := Clear\<rparr>)"
  using assms by (simp add: check_consumption_def anchor_rewind_def anchor_depth_def clear_def Let_def split: option.split)

text \<open>
  C12: what becomes of a batch with entries that L1 confirmed together with its triggers, and of the
  hold. Its last block becomes the
  L1-confirmed anchor and the journal keeps only later blocks. If every entry of the batch that
  can emit an event was consumed in the L1 block, only the hold is released; if events were seen
  but some entry has none, everything pending is dropped and the driver derives again from below
  the entry block. Without any event, a batch none of whose entries can emit one keeps the hold
  armed for derivation to decide; otherwise the hold is released and a sibling reorg to the root
  on L1 is requested (not requested beyond the safety depth), or, when the root cannot be read,
  the hold stays. So the hold is released exactly when events were seen or the root was read.
\<close>

theorem confirmed_batch_outcome:
  assumes "t = flush_to_l1 V bid s" and "nd_trace s = []" and "Sent_Batch h blocks es hint \<in> set (nd_trace t)"
    and "blocks \<noteq> []" and "es \<noteq> []" and "triggers_confirmed V"
    and "env_send V blocks es hint = Some tx" and "env_receipt V tx = Inr l1" and "n = pb_l2_block_number (last blocks)"
  shows "\<exists>root d. flush_precheck (env_has_proposer V) (env_cooling_down V) (env_on_chain_root V) (nd_driver s) = (Proceed root, d) \<and>
    (let consumed = consumed_in_block V l1; real = real_entries V d es; e = nd_driver t in
     \<not> nd_submission_failed t \<and> drv_anchor e = Some \<lparr>anchor_l2 = n, anchor_l1 = l1\<rparr> \<and>
     tx_journal (nd_journal t) = filter (\<lambda>j. n < je_l2_block_number j) (tx_journal (nd_journal s)) \<and>
     (drv_hold e = Clear \<longleftrightarrow> consumed \<noteq> [] \<or> real \<noteq> [] \<and> env_refreshed_root V \<noteq> None) \<and>
     (drv_hold e \<noteq> Clear \<longrightarrow> armed_for (drv_hold e) = Some n) \<and>
     (if consumed \<noteq> [] \<and> \<not> all_consumed consumed real
      then queues_dropped e \<and> drv_mode e = Sync \<and> last_derived_l2_block (derivation e) = saturating_sub n 1 \<and>
        (\<exists>r. pending_rewind_target e = Some r \<and> r \<le> saturating_sub n 1)
      else pending_submissions (queues d) = blocks @ pending_submissions (queues e) \<and> derivation e = derivation d \<and>
        drv_mode e = drv_mode d \<and>
        pending_sibling_reorg e = (case env_refreshed_root V of
            Some r \<Rightarrow> if consumed = [] \<and> real \<noteq> [] \<and>
                \<not> reorg_depth_exceeded (saturating_sub (l2_head_number (drv_head d)) n) REORG_SAFETY_THRESHOLD
              then Some \<lparr>req_target = n, req_root = r\<rparr> else None
          | None \<Rightarrow> None)))"
proof -
  from assms(1-3) obtain root d d1 d2 where
    pre: "flush_precheck (env_has_proposer V) (env_cooling_down V) (env_on_chain_root V) (nd_driver s) = (Proceed root, d)"
    and take: "take_batch d = (blocks, d1)" and check: "check_pre_state_root V root blocks d1 = (True, d2)"
    and t: "t = submit_batch V hint blocks (s\<lparr>nd_driver := d2\<rparr>)" and es: "es = pq_entries (drv_pending_l1 (queues d2))"
    by (metis flush_sent)
  let ?p = "drv_pending_l1 (queues d2)"
  have none: "pending_sibling_reorg d = None" using flush_precheck_proceeds [OF pre] by (elim conjE)
  obtain plan h' s1 where sub: "submits_as V hint blocks (s\<lparr>nd_driver := d2\<rparr>) plan h' s1" using submit_batch_cases by blast
  then have run: "t = (case submit_via V hint plan of
      Send_Failed bs q \<Rightarrow> restore_batch bs q s1 | Sent tx \<Rightarrow> after_send V tx blocks ?p s1)"
    and plan: "fp_blocks (plan_of plan) = blocks" "pq_entries (fp_pending_l1 (plan_of plan)) = es"
    and armed: "armed_for h' = Some n"
    using assms(4,5,9) by (simp_all add: submits_as_def Let_def t es)
  have "submit_via V hint plan = Sent tx" by (simp add: submit_via_def plan assms(7) Let_def)
  then obtain u hs where u: "same_driver s1 u" "t = await_receipt V tx hs blocks ?p u"
    "verify_trigger_receipts V hs = AllConfirmed (length hs)"
    using after_send_awaits [of V s1 tx blocks ?p] assms(6) run by (auto simp: triggers_confirmed_def)
  note sent = sent_from_flush [OF take check sub u(1)]
  let ?d = "(nd_driver u)\<lparr>drv_anchor := Some \<lparr>anchor_l2 = n, anchor_l1 = l1\<rparr>\<rparr>"
  have t: "t = upd_driver (check_consumption V l1 es) (batch_confirmed V blocks l1 u)"
    using u(2,3) assms(5,8) es by (simp add: await_receipt_def Let_def)
  have d: "nd_driver t = check_consumption V l1 es ?d" by (simp add: t batch_confirmed_driver assms(4,9))
  have real: "real_entries V ?d es = real_entries V d es" using sent(1) by (simp add: real_entries_def sent_from_def)
  note dec = consumption_decides [of ?d n l1 V es, unfolded real, folded d]
  have rest: "\<not> nd_submission_failed t" "tx_journal (nd_journal t) = filter (\<lambda>j. n < je_l2_block_number j) (tx_journal (nd_journal s))"
    using sent(3) by (simp_all add: t upd_driver_def batch_confirmed_driver assms(4,9))
  have keep: "drv_anchor (rewind_to_re_derive r l x) = drv_anchor x" for r l x
    by (simp add: rewind_to_re_derive_def set_rewind_target_def Let_def)
  show ?thesis
    using pre rest dec sent(1) none armed min_target_le hard.drops keep
    by (intro exI [of _ root] exI [of _ d]) (auto simp: sent_from_def Let_def split: option.split)
qed

theorem confirmed_batch_outcome_witness:
  "let e = nd_driver (flush_to_l1 toy_l1 (\<lambda>_. None) flush_node)
   in drv_hold e = Clear \<and> drv_anchor e = Some \<lparr>anchor_l2 = 2501, anchor_l1 = 31\<rparr>"
proof -
  let ?blocks = "pending_submissions (queues flush_driver)"
  obtain s1 where s1: "flush_to_l1 toy_l1 (\<lambda>_. None) flush_node = after_send toy_l1 9 ?blocks (drv_pending_l1 (queues (nd_driver flush_node))) s1"
    "nd_trace s1 = [Sent_Batch (Armed 2501 0) ?blocks [sample_entry] None]"
    using toy_run [of toy_l1] by (auto simp: toy_l1_def)
  then have "Sent_Batch (Armed 2501 0) ?blocks [sample_entry] None \<in> set (nd_trace (flush_to_l1 toy_l1 (\<lambda>_. None) flush_node))"
    using after_send_trace [of toy_l1 9 ?blocks "drv_pending_l1 (queues (nd_driver flush_node))" s1] by auto
  moreover have "?blocks \<noteq> []" "2501 = pb_l2_block_number (last ?blocks)" by (simp_all add: flush_driver_def)
  moreover have "triggers_confirmed toy_l1" "env_send toy_l1 ?blocks [sample_entry] None = Some 9" "env_receipt toy_l1 9 = Inr 31"
    by (simp_all add: triggers_confirmed_def triggers_sent_def toy_l1_def)
  moreover have "consumed_in_block toy_l1 31 \<noteq> []"
    by (simp add: consumed_in_block_def toy_l1_def parse_execution_consumed_logs_def push_placeholder_def Let_def)
  ultimately show ?thesis
    using confirmed_batch_outcome [OF refl toy_pending(3), of "Armed 2501 0" ?blocks "[sample_entry]" None toy_l1 "\<lambda>_. None" 9 31 2501]
    unfolding Let_def by blast
qed

text \<open>
  A failed log query passes for a batch without consumption. Where the logs of the L1 block
  show every entry consumed, the hold is released; when the query for the same logs fails
  instead, a sibling reorg of the confirmed block is requested, although the code's comment
  says that this branch is reached only after a successful query.
\<close>

theorem failed_log_query_requests_reorg:
  assumes "env_consumed_logs V l1 = Some logs" and "parse_execution_consumed_logs (env_decode_action V) logs \<noteq> []"
    and "all_consumed (parse_execution_consumed_logs (env_decode_action V) logs) (real_entries V d es)"
    and "real_entries V d es \<noteq> []" and "env_refreshed_root V = Some root" and "drv_anchor d = Some a"
    and "\<not> reorg_depth_exceeded (anchor_depth a d) REORG_SAFETY_THRESHOLD" and "pending_sibling_reorg d = None"
  shows "check_consumption V l1 es d = d\<lparr>drv_hold := Clear\<rparr> \<and>
    check_consumption (V\<lparr>env_consumed_logs := \<lambda>_. None\<rparr>) l1 es d =
      d\<lparr>pending_sibling_reorg := Some \<lparr>req_target = anchor_l2 a, req_root = root\<rparr>, drv_hold := Clear\<rparr>"
proof -
  have "real_entries (V\<lparr>env_consumed_logs := \<lambda>_. None\<rparr>) d es = real_entries V d es" by (simp add: real_entries_def)
  with assms show ?thesis by (simp add: check_consumption_def consumed_in_block_def clear_def Let_def)
qed

lemma toy_real: "real_entries toy_l1 d [sample_entry] = [sample_entry]"
  by (simp add: real_entries_def sample_entry_def ZERO_HASH_def compute_revert_continue_hash_def hash_of_def
      revert_continue_action_def toy_l1_def toy_abi_def to_sol_action_def be_word_def Let_def)

lemma toy_consumed:
  "parse_execution_consumed_logs (\<lambda>_. None) [\<lparr>log_address = 2, topics = [1, 7], log_data = []\<rparr>] = [(ActionHash 7, [placeholder_action])]"
  by (simp add: parse_execution_consumed_logs_def push_placeholder_def Let_def)

theorem failed_log_query_requests_reorg_witness:
  "let d = (nd_driver flush_node)\<lparr>drv_anchor := Some \<lparr>anchor_l2 = 2999, anchor_l1 = 31\<rparr>\<rparr>
   in check_consumption (toy_l1\<lparr>env_consumed_logs := \<lambda>_. None\<rparr>) 31 [sample_entry] d =
      d\<lparr>pending_sibling_reorg := Some \<lparr>req_target = 2999, req_root = 2501\<rparr>, drv_hold := Clear\<rparr>"
  unfolding Let_def
  by (rule conjunct2 [OF failed_log_query_requests_reorg, where a1 = "\<lparr>anchor_l2 = 2999, anchor_l1 = 31\<rparr>" and
          logs1 = "[\<lparr>log_address = 2, topics = [1, 7], log_data = []\<rparr>]",
        simplified l1_confirmed_anchor.simps])
    (simp_all add: toy_real, simp_all add: toy_l1_def toy_consumed all_consumed_def sample_entry_def
      reorg_depth_exceeded_def anchor_depth_def REORG_SAFETY_THRESHOLD_def saturating_sub_def flush_node_def flush_driver_def
      toy_driver_def word_less_nat_alt word_le_nat_alt Let_def)

text \<open>
  The batch outbids the user transactions it must precede. With a bid percentage that is not
  negative, the fee of a hint is above the price of every queued call and the fee of every
  forwarded transaction, unless it is already the largest number; without a hint there is
  nothing queued or nothing that pays.
\<close>

theorem overbid_beats_queue:
  assumes "0 \<le> pct"
  shows "case compute_gas_overbid pct prices fees of
      None \<Rightarrow> \<forall>p \<in> set (prices @ map fst fees). p = 0
    | Some g \<Rightarrow> \<forall>p \<in> set (prices @ map fst fees). p < max_fee_per_gas g \<or> max_fee_per_gas g = - 1"
proof -
  have le: "p \<le> foldr max ps 0" if "p \<in> set ps" for p :: u128 and ps
    using that by (induction ps) (auto simp: le_max_iff_disj)
  have up: "v < apply_pct pct v \<or> apply_pct pct v = - 1" if "v \<noteq> 0" for v
  proof -
    define b where "b = (let bump = saturating_mul v (word_of_int pct) div 100 in if bump = 0 \<and> v > 0 then 1 else bump)"
    have "b \<noteq> 0" using that by (simp add: b_def Let_def word_gt_0)
    then have "0 < unat b" by (simp add: unat_gt_0)
    have "apply_pct pct v = saturating_add v b" using assms by (simp add: apply_pct_def b_def Let_def)
    then show ?thesis
    proof (cases "unat v + unat b < 2 ^ 128")
      case True
      then have "unat (saturating_add v b) = unat v + unat b" by (simp add: unat_saturating_add)
      with \<open>0 < unat b\<close> \<open>apply_pct pct v = saturating_add v b\<close> show ?thesis by (simp add: word_less_nat_alt)
    next
      case False
      with \<open>apply_pct pct v = saturating_add v b\<close> show ?thesis by (simp add: saturating_add_def)
    qed
  qed
  let ?m = "foldr max (prices @ map fst fees) 0"
  show ?thesis
  proof (cases "?m = 0 \<or> prices = [] \<and> fees = []")
    case True
    then have "\<forall>p \<in> set (prices @ map fst fees). p = 0"
      using le [of _ "prices @ map fst fees"] by (metis append_is_Nil_conv empty_iff list.set(1) map_is_Nil_conv word_le_0_iff)
    moreover have "compute_gas_overbid pct prices fees = None" using True by (auto simp: compute_gas_overbid_def Let_def)
    ultimately have "compute_gas_overbid pct prices fees = None" "\<forall>p \<in> set (prices @ map fst fees). p = 0" by blast+
    then show ?thesis by simp
  next
    case False
    then obtain g where g: "compute_gas_overbid pct prices fees = Some g" "max_fee_per_gas g = apply_pct pct ?m"
      by (auto simp: compute_gas_overbid_def Let_def)
    have "p < apply_pct pct ?m \<or> apply_pct pct ?m = - 1" if "p \<in> set (prices @ map fst fees)" for p
      using le [OF that] up [of ?m] False by (auto intro: le_less_trans)
    then show ?thesis by (simp add: g)
  qed
qed

theorem overbid_beats_queue_witness:
  "case compute_gas_overbid 10 [5, 700] [(1000, 3)] of None \<Rightarrow> False | Some g \<Rightarrow> max_fee_per_gas g = 1100"
proof -
  have "compute_gas_overbid 10 [5, 700] [(1000, 3)] \<noteq> None"
    using overbid_beats_queue [of 10 "[5, 700]" "[(1000, 3)]"] by (auto split: option.splits)
  then show ?thesis by (simp add: compute_gas_overbid_def apply_pct_def saturating_mul_def saturating_add_def max_def Let_def)
qed

end
