(* ===== verification/Builder_Step.thy ===== *)
theory Builder_Step
  imports Flush Block_Filtering Queue_Drain
begin

text \<open>
  The builder's tick (\<open>driver/step_builder.rs\<close>) and the fullnode's tick (\<open>step_fullnode\<close> of
  \<open>driver/mod.rs\<close>): deriving and verifying L1 blocks, the target of a tick, the loop that builds
  blocks, finalizing their entries and the flushes between. The outside world is one record of
  parameters. What reads the L2 state depends on the head's hash, the pool on the L2 transactions
  that the drain has injected, what asks L1 during the loop on the block being built. A flush is
  given the head and whether it is the one at the end of the tick.
\<close>

section \<open>The world and the builder\<close>

record ('s, 'tx, 'e, 'pl) world =
  w_abi :: abi
  w_decoders :: decoders
  w_l1_node :: l1_node
  w_engine :: "('e, 'pl) engine_client"
  w_payload :: "built_block \<Rightarrow> 'pl"
  w_exec :: "b256 \<Rightarrow> ('s, 'tx) executor"
  w_env :: "b256 \<Rightarrow> bytes list \<Rightarrow> 'tx block_env"
  w_config :: builder_config
  w_bundle_path :: bool
  w_sig :: b256
  w_headers :: "u64 \<Rightarrow> verify_error + local_header option"
  w_l1_number :: "u64 \<Rightarrow> u64 option"
  w_l1_hash :: "u64 \<Rightarrow> unit + b256 option"
  w_posted_logs :: "u64 \<Rightarrow> u64 \<Rightarrow> derive_error + (u64 option \<times> event_log) list"
  w_dec_posted :: "bytes \<Rightarrow> sol_execution_entry list option"
  w_flush_env :: "u64 \<Rightarrow> bool \<Rightarrow> l1_env"
  w_bid :: "driver \<Rightarrow> gas_price_hint option"
  w_overflow_checks :: bool
  w_selectors :: "bytes list"
  w_db_ok :: bool

record 'tx builder =
  bl_node :: "'tx node"
  bl_nonce :: u64
  bl_calls :: "queued_cross_chain_call list"
  bl_l2_calls :: "queued_l2_to_l1_call list"

datatype builder_error =
    BE_Derive derive_error
  | BE_Verify verify_error
  | BE_Exec exec_error
  | BE_Engine engine_error
  | BE_Step step_error
  | BE_L1
  | BE_Timestamp u64
  | BE_Panic panic

definition drv :: "'tx builder \<Rightarrow> driver" where
  "drv b = nd_driver (bl_node b)"

definition set_drv :: "driver \<Rightarrow> 'tx builder \<Rightarrow> 'tx builder" where
  "set_drv d b = b\<lparr>bl_node := (bl_node b)\<lparr>nd_driver := d\<rparr>\<rparr>"

definition has_signer :: "('s, 'tx, 'e, 'pl) world \<Rightarrow> bool" where
  "has_signer W \<longleftrightarrow> be_signer (w_env W 0 []) \<noteq> None"

text \<open>\<open>build_and_insert_block\<close> on the executor of the current head.\<close>

definition insert_block :: "('s, 'tx, 'e, 'pl) world \<Rightarrow> u64 \<Rightarrow> u64 \<Rightarrow> l1_block_info \<Rightarrow> bytes \<Rightarrow> 'tx builder \<Rightarrow> 'e
    \<Rightarrow> (engine_error + built_block) \<times> 'tx builder \<times> 'e" where
  "insert_block W n ts info txs b e =
     (let h = drv_head (drv b);
          build = (\<lambda>parent. case build_derived_block (w_exec W (head_hash h)) parent ts info txs of
            Inl _ \<Rightarrow> None | Inr built \<Rightarrow> Some (built, w_payload W built))
      in case build_and_insert_block (w_engine W) build n h e of
           (r, h', e') \<Rightarrow> (r, set_drv ((drv b)\<lparr>drv_head := h'\<rparr>) b, e'))"

definition filter_block :: "('s, 'tx, 'e, 'pl) world \<Rightarrow> derived_block \<Rightarrow> 'tx builder \<Rightarrow> (exec_error + bytes) \<times> 'tx builder" where
  "filter_block W blk b =
     (let h = head_hash (drv_head (drv b)) in
      case apply_deferred_filtering (w_exec W h) (w_sig W) (cross_chain_manager_address (w_config W)) (w_env W h [])
          (w_config W) (has_signer W) blk (bl_nonce b) of
        (r, n) \<Rightarrow> (r, b\<lparr>bl_nonce := n\<rparr>))"

section \<open>Catching up with L1\<close>

text \<open>A derived block that is not there yet is filtered and inserted.\<close>

definition apply_derived :: "('s, 'tx, 'e, 'pl) world \<Rightarrow> derived_block \<Rightarrow> 'tx builder \<Rightarrow> 'e
    \<Rightarrow> (builder_error + built_block) \<times> 'tx builder \<times> 'e" where
  "apply_derived W blk b e =
     (case filter_block W blk b of
        (Inl err, b') \<Rightarrow> (Inl (BE_Exec err), b', e)
      | (Inr txs, b') \<Rightarrow>
          (case insert_block W (l2_block_number blk) (l2_timestamp blk) (l1_info blk) txs b' e of
             (Inl err, b'', e') \<Rightarrow> (Inl (BE_Engine err), b'', e')
           | (Inr built, b'', e') \<Rightarrow> (Inr built, b'', e')))"

definition verify_local :: "('s, 'tx, 'e, 'pl) world \<Rightarrow> derived_block \<Rightarrow> 'tx builder \<Rightarrow> (builder_error + unit) \<times> 'tx builder" where
  "verify_local W blk b =
     (case verify_local_block_matches_l1 (w_headers W) blk (drv b) of
        (Inl err, d) \<Rightarrow> (Inl (BE_Verify err), set_drv d b)
      | (Inr _, d) \<Rightarrow> (Inr (), set_drv d b))"

fun verify_blocks :: "('s, 'tx, 'e, 'pl) world \<Rightarrow> derived_block list \<Rightarrow> 'tx builder \<Rightarrow> 'e
    \<Rightarrow> (builder_error + unit) \<times> 'tx builder \<times> 'e" where
  "verify_blocks W [] b e = (Inr (), b, e)"
| "verify_blocks W (blk # blks) b e =
     (if pending_rewind_target (drv b) \<noteq> None \<or> pending_sibling_reorg (drv b) \<noteq> None then (Inr (), b, e)
      else if l2_block_number blk \<le> l2_head_number (drv_head (drv b)) then
        (case verify_local W blk b of
           (Inl err, b') \<Rightarrow> (Inl err, b', e)
         | (Inr _, b') \<Rightarrow> verify_blocks W blks b' e)
      else
        (case apply_derived W blk b e of
           (Inl err, b', e') \<Rightarrow> (Inl err, b', e')
         | (Inr _, b', e') \<Rightarrow> verify_blocks W blks b' e'))"

definition commit_and_checkpoint :: "('s, 'tx, 'e, 'pl) world \<Rightarrow> derived_batch \<Rightarrow> 'tx builder \<Rightarrow> (builder_error + unit) \<times> 'tx builder" where
  "commit_and_checkpoint W batch b =
     (case maybe_save_checkpoint (w_db_ok W) (commit_derivation batch (drv b)) of
        (Inl err, d) \<Rightarrow> (Inl (BE_Step err), set_drv d b)
      | (Inr _, d) \<Rightarrow> (Inr (), set_drv d b))"

definition derive_and_verify_from_l1 :: "('s, 'tx, 'e, 'pl) world \<Rightarrow> u64 \<Rightarrow> 'tx builder \<Rightarrow> 'e
    \<Rightarrow> (builder_error + unit) \<times> 'tx builder \<times> 'e" where
  "derive_and_verify_from_l1 W latest b e =
     (if last_processed_l1_block (derivation (drv b)) < latest then
        (case derive_next_batch (w_abi W) (w_decoders W) (w_l1_node W) latest (derivation (drv b)) of
           Inl err \<Rightarrow> (Inl (BE_Derive err), b, e)
         | Inr batch \<Rightarrow>
             (case verify_blocks W (batch_blocks batch) b e of
                (Inl err, b', e') \<Rightarrow> (Inl err, b', e')
              | (Inr _, b', e') \<Rightarrow>
                  if pending_rewind_target (drv b') \<noteq> None \<or> pending_sibling_reorg (drv b') \<noteq> None
                  then (Inr (), b', e')
                  else (case commit_and_checkpoint W batch b' of (r, b'') \<Rightarrow> (r, b'', e'))))
      else (Inr (), b, e))"

section \<open>The fullnode's tick\<close>

definition forget_preconfirmed :: "u64 \<Rightarrow> 'tx builder \<Rightarrow> 'tx builder" where
  "forget_preconfirmed n b =
     (let d = drv b in set_drv (d\<lparr>queues := (queues d)\<lparr>preconfirmed_hashes := (preconfirmed_hashes (queues d))(n := None)\<rparr>\<rparr>) b)"

fun fullnode_blocks :: "('s, 'tx, 'e, 'pl) world \<Rightarrow> derived_block list \<Rightarrow> 'tx builder \<Rightarrow> 'e
    \<Rightarrow> (builder_error + unit) \<times> 'tx builder \<times> 'e" where
  "fullnode_blocks W [] b e = (Inr (), b, e)"
| "fullnode_blocks W (blk # blks) b e =
     (if l2_block_number blk \<le> l2_head_number (drv_head (drv b)) then
        (case verify_local W blk b of
           (Inl err, b') \<Rightarrow> (Inl err, b', e)
         | (Inr _, b') \<Rightarrow> fullnode_blocks W blks b' e)
      else
        (case apply_derived W blk b e of
           (Inl err, b', e') \<Rightarrow> (Inl err, b', e')
         | (Inr _, b', e') \<Rightarrow> fullnode_blocks W blks (forget_preconfirmed (l2_block_number blk) b') e'))"

definition step_fullnode :: "('s, 'tx, 'e, 'pl) world \<Rightarrow> u64 \<Rightarrow> 'tx builder \<Rightarrow> 'e
    \<Rightarrow> (builder_error + unit) \<times> 'tx builder \<times> 'e" where
  "step_fullnode W latest b e =
     (case derive_next_batch (w_abi W) (w_decoders W) (w_l1_node W) latest (derivation (drv b)) of
        Inl err \<Rightarrow> (Inl (BE_Derive err), b, e)
      | Inr batch \<Rightarrow>
          if batch_blocks batch = [] then
            (Inr (), if pending_rewind_target (drv b) = None then set_drv (commit_derivation batch (drv b)) b else b, e)
          else
            (case fullnode_blocks W (batch_blocks batch) b e of
               (Inl err, b', e') \<Rightarrow> (Inl err, b', e')
             | (Inr _, b', e') \<Rightarrow>
                 if pending_rewind_target (drv b') = None
                 then (case commit_and_checkpoint W batch b' of (r, b'') \<Rightarrow> (r, b'', e'))
                 else (Inr (), b', e')))"

section \<open>The target of a tick\<close>

definition MAX_CATCHUP_BLOCKS :: u64 where
  "MAX_CATCHUP_BLOCKS = 10000"

definition BUNDLE_PATH_PENDING_CAP :: u64 where
  "BUNDLE_PATH_PENDING_CAP = REORG_SAFETY_THRESHOLD - 1"

definition l2_block_number_of :: "'a rollup_config_scheme \<Rightarrow> u64 \<Rightarrow> u64" where
  "l2_block_number_of c l1 = saturating_sub l1 (deployment_l1_block c)"

record builder_tick_context =
  effective_target :: u64
  current_l1 :: l1_block_info

definition effective_target_of :: "('s, 'tx, 'e, 'pl) world \<Rightarrow> u64 \<Rightarrow> driver \<Rightarrow> u64" where
  "effective_target_of W latest d =
     (let head = l2_head_number (drv_head d);
          capped = min (l2_block_number_of (w_config W) latest) (saturating_add head MAX_CATCHUP_BLOCKS);
          pending_room = saturating_sub BUNDLE_PATH_PENDING_CAP (of_nat (length (pending_submissions (queues d))))
      in if w_bundle_path W then min capped (saturating_add head pending_room) else capped)"

definition compute_tick_context :: "('s, 'tx, 'e, 'pl) world \<Rightarrow> u64 \<Rightarrow> driver \<Rightarrow> builder_error + builder_tick_context option" where
  "compute_tick_context W latest d =
     (if latest \<le> deployment_l1_block (w_config W) then Inr None
      else
        let target = effective_target_of W latest d in
        if l2_head_number (drv_head d) \<ge> target then Inr None
        else case w_l1_hash W latest of
            Inl _ \<Rightarrow> Inl BE_L1
          | Inr None \<Rightarrow> Inl BE_L1
          | Inr (Some h) \<Rightarrow>
              if is_blocking_build (drv_hold d) then Inr None
              else Inr (Some \<lparr>effective_target = target, current_l1 = \<lparr>info_number = latest, info_hash = h\<rparr>\<rparr>))"

section \<open>Finalizing the entries of a block\<close>

definition set_current_state :: "b256 \<Rightarrow> cross_chain_execution_entry \<Rightarrow> cross_chain_execution_entry" where
  "set_current_state root e = (case state_deltas e of
     [] \<Rightarrow> e | d # ds \<Rightarrow> e\<lparr>state_deltas := d\<lparr>current_state := root\<rparr> # ds\<rparr>)"

definition override_range :: "nat \<Rightarrow> nat \<Rightarrow> b256 \<Rightarrow> cross_chain_execution_entry list \<Rightarrow> panic + cross_chain_execution_entry list" where
  "override_range from to root es =
     (if from < to \<and> length es < to then Inl IndexOutOfBounds
      else Inr (map (\<lambda>(i, e). if from \<le> i \<and> i < to then set_current_state root e else e) (enumerate 0 es)))"

text \<open>The loop over the independent groups; \<open>k\<close> counts the groups.\<close>

fun override_independent :: "b256 list \<Rightarrow> nat \<Rightarrow> pending_l1_group list \<Rightarrow> cross_chain_execution_entry list
    \<Rightarrow> panic + cross_chain_execution_entry list" where
  "override_independent roots k [] es = Inr es"
| "override_independent roots k (g # gs) es =
     (if mode g = Chained then override_independent roots (Suc k) gs es
      else if length roots \<le> k then Inr es
      else case override_range (start g) (case gs of [] \<Rightarrow> length es | g' # _ \<Rightarrow> start g') (roots ! k) es of
          Inl p \<Rightarrow> Inl p
        | Inr es' \<Rightarrow> override_independent roots (Suc k) gs es')"

definition attach_deltas :: "abi \<Rightarrow> u64 \<Rightarrow> b256 list \<Rightarrow> pending_l1_queue \<Rightarrow> panic + pending_l1_queue" where
  "attach_deltas A rollup roots q =
     (if pending_is_empty q \<or> roots = [] then Inr q
      else case attach_generic_state_deltas A (pq_entries q) roots rollup (starts q) of
          Inl p \<Rightarrow> Inl p
        | Inr es \<Rightarrow>
            (case override_independent roots 0 (pq_groups q) es of
               Inl p \<Rightarrow> Inl p
             | Inr es' \<Rightarrow> Inr (q\<lparr>pq_entries := es'\<rparr>)))"

text \<open>The clean root, the intermediate roots and the queue; a failed root computation drops the queue.\<close>

definition finalize_block_entries :: "('s, 'tx) executor \<Rightarrow> abi \<Rightarrow> b256 \<Rightarrow> builder_config \<Rightarrow> u64 \<Rightarrow> u64 \<Rightarrow> l1_block_info
    \<Rightarrow> built_block \<Rightarrow> cross_chain_execution_entry list \<Rightarrow> pending_l1_queue
    \<Rightarrow> panic + clean_state_root \<times> b256 list \<times> pending_l1_queue" where
  "finalize_block_entries X A sig c n ts info built rpc_entries q =
     (let has_entries = (rpc_entries \<noteq> [] \<or> (\<exists>g \<in> set (pq_groups q). trigger g \<noteq> None));
          (clean, roots, q1) =
            (if has_entries then
               (case compute_intermediate_roots X sig (cross_chain_manager_address c) (saturating_sub n 1) ts info
                   (built_state_root built) (encoded_transactions built) of
                  Inr roots \<Rightarrow> (CleanStateRoot (hd roots), roots, q)
                | Inl _ \<Rightarrow> (CleanStateRoot (built_state_root built), [], clear_pending q))
             else (CleanStateRoot (built_state_root built), [], q))
      in case attach_deltas A (cfg_rollup_id c) roots q1 of
           Inl p \<Rightarrow> Inl p
         | Inr q2 \<Rightarrow> Inr (clean, roots, q2))"

section \<open>The build loop\<close>

definition L1_REFRESH_INTERVAL :: u64 where
  "L1_REFRESH_INTERVAL = 50"

definition MAX_PENDING_SUBMISSIONS :: nat where
  "MAX_PENDING_SUBMISSIONS = 1000"

definition MAX_PENDING_CROSS_CHAIN_ENTRIES :: nat where
  "MAX_PENDING_CROSS_CHAIN_ENTRIES = 1000"

record build_loop =
  lp_l1 :: l1_block_info
  lp_entries :: "cross_chain_execution_entry list"
  lp_rpc_count :: nat
  lp_since_refresh :: u64
  lp_in_batch :: nat

definition upd_derivation :: "(pipeline \<Rightarrow> pipeline) \<Rightarrow> 'tx builder \<Rightarrow> 'tx builder" where
  "upd_derivation f b = set_drv ((drv b)\<lparr>derivation := f (derivation (drv b))\<rparr>) b"

definition fetch_entries :: "('s, 'tx, 'e, 'pl) world \<Rightarrow> u64 \<Rightarrow> 'tx builder
    \<Rightarrow> (derive_error + cross_chain_execution_entry list) \<times> 'tx builder" where
  "fetch_entries W up_to b =
     (case fetch_execution_entries_for_builder (w_posted_logs W) (w_dec_posted W) up_to (derivation (drv b)) of
        (r, p) \<Rightarrow> (r, upd_derivation (\<lambda>_. p) b))"

text \<open>The refresh at the head of an iteration; every failure keeps the old context.\<close>

definition refresh_l1 :: "('s, 'tx, 'e, 'pl) world \<Rightarrow> build_loop \<Rightarrow> 'tx builder \<Rightarrow> build_loop \<times> 'tx builder" where
  "refresh_l1 W ls b =
     (let ls1 = ls\<lparr>lp_since_refresh := saturating_add (lp_since_refresh ls) 1\<rparr> in
      if lp_since_refresh ls1 > L1_REFRESH_INTERVAL then
        (case w_l1_number W (l2_head_number (drv_head (drv b))) of
           None \<Rightarrow> (ls1, b)
         | Some n \<Rightarrow>
             if n > info_number (lp_l1 ls1) then
               (case w_l1_hash W n of
                  Inr (Some h) \<Rightarrow>
                    let ls2 = ls1\<lparr>lp_l1 := \<lparr>info_number = n, info_hash = h\<rparr>, lp_since_refresh := 0\<rparr> in
                    (case fetch_entries W n b of
                       (Inr es, b') \<Rightarrow> (ls2\<lparr>lp_entries := es, lp_rpc_count := 0\<rparr>, b')
                     | (Inl _, b') \<Rightarrow> (ls2, b'))
                | _ \<Rightarrow> (ls1, b))
             else (ls1, b))
      else (ls1, b))"

text \<open>Whether the block takes the waiting entries.\<close>

definition assigns_entries :: "u64 \<Rightarrow> u64 \<Rightarrow> build_loop \<Rightarrow> bool" where
  "assigns_entries target n ls \<longleftrightarrow> n \<ge> target \<or> saturating_add (lp_since_refresh ls) 1 > L1_REFRESH_INTERVAL"

definition take_entries :: "u64 \<Rightarrow> u64 \<Rightarrow> build_loop
    \<Rightarrow> cross_chain_execution_entry list \<times> cross_chain_execution_entry list \<times> build_loop" where
  "take_entries target n ls =
     (if assigns_entries target n ls then
        let es = lp_entries ls; rpc = min (lp_rpc_count ls) (length es)
        in (es, drop (length es - rpc) es, ls\<lparr>lp_entries := [], lp_rpc_count := 0\<rparr>)
      else ([], [], ls))"

definition to_queues :: "'tx builder \<Rightarrow> rpc_queues" where
  "to_queues b = \<lparr>queued_cross_chain_calls = bl_calls b, queued_l2_to_l1_calls = bl_l2_calls b,
     pending_l1 = drv_pending_l1 (queues (drv b))\<rparr>"

definition set_pending_l1 :: "pending_l1_queue \<Rightarrow> 'tx builder \<Rightarrow> 'tx builder" where
  "set_pending_l1 q b = set_drv ((drv b)\<lparr>queues := (queues (drv b))\<lparr>drv_pending_l1 := q\<rparr>\<rparr>) b"

definition of_queues :: "rpc_queues \<Rightarrow> 'tx builder \<Rightarrow> 'tx builder" where
  "of_queues s b = (set_pending_l1 (pending_l1 s) b)\<lparr>bl_calls := queued_cross_chain_calls s,
     bl_l2_calls := queued_l2_to_l1_calls s\<rparr>"

text \<open>A failed build: the drain is rolled back and the driver goes to sync mode.\<close>

definition abandon_build :: "queue_drain_result \<Rightarrow> 'tx builder \<Rightarrow> 'tx builder" where
  "abandon_build dr b =
     (let b1 = of_queues (rollback_queue_drain dr (to_queues b)) b
      in set_drv ((drv b1)\<lparr>drv_mode := Sync, synced := False\<rparr>) b1)"

definition journal_block :: "('s, 'tx, 'e, 'pl) world \<Rightarrow> u64 \<Rightarrow> bytes \<Rightarrow> 'tx builder \<Rightarrow> 'tx builder" where
  "journal_block W n txs b = b\<lparr>bl_node := (bl_node b)\<lparr>nd_journal :=
     journal_block_transactions (w_db_ok W) n txs (nd_journal (bl_node b))\<rparr>\<rparr>"

definition queue_block :: "u64 \<Rightarrow> built_block \<Rightarrow> clean_state_root \<Rightarrow> b256 list \<Rightarrow> u64 \<Rightarrow> build_loop \<Rightarrow> 'tx builder
    \<Rightarrow> build_loop \<times> 'tx builder" where
  "queue_block n built clean roots l1 ls b =
     (let d = drv b; pending = pending_submissions (queues d) in
      if length pending < MAX_PENDING_SUBMISSIONS then
        (ls\<lparr>lp_in_batch := lp_in_batch ls + 1\<rparr>,
         set_drv (d\<lparr>queues := (queues d)\<lparr>pending_submissions := pending @
           [\<lparr>pb_l2_block_number = n, pb_pre_state_root = pre_state_root built, pb_state_root = built_state_root built,
             pb_clean_state_root = clean, pb_encoded_transactions = encoded_transactions built,
             pb_intermediate_roots = roots, pb_l1_context_block = l1\<rparr>]\<rparr>\<rparr>) b)
      else (ls, b))"

definition flush :: "('s, 'tx, 'e, 'pl) world \<Rightarrow> bool \<Rightarrow> 'tx builder \<Rightarrow> 'tx builder" where
  "flush W at_end b = b\<lparr>bl_node :=
     flush_to_l1 (w_flush_env W (l2_head_number (drv_head (drv b))) at_end) (w_bid W) (bl_node b)\<rparr>"

definition recovery_pending :: "driver \<Rightarrow> bool" where
  "recovery_pending d \<longleftrightarrow> pending_rewind_target d \<noteq> None \<or> is_armed (drv_hold d) \<or>
     pending_sibling_reorg d \<noteq> None \<or> pending_anchor_refresh d \<noteq> None"

text \<open>The flush of a full batch inside the loop: whether the loop goes on.\<close>

definition catchup_flush :: "('s, 'tx, 'e, 'pl) world \<Rightarrow> build_loop \<Rightarrow> 'tx builder \<Rightarrow> bool \<times> build_loop \<times> 'tx builder" where
  "catchup_flush W ls b =
     (if lp_in_batch ls \<ge> MAX_BATCH_SIZE then
        let b' = flush W False b in
        if recovery_pending (drv b') then (False, ls, b') else (True, ls\<lparr>lp_in_batch := 0\<rparr>, b')
      else (True, ls, b))"

text \<open>What follows the insertion of a block.\<close>

definition after_build :: "('s, 'tx, 'e, 'pl) world \<Rightarrow> u64 \<Rightarrow> u64 \<Rightarrow> bytes \<Rightarrow> cross_chain_execution_entry list \<Rightarrow> built_block
    \<Rightarrow> b256 \<Rightarrow> build_loop \<Rightarrow> 'tx builder \<Rightarrow> panic + bool \<times> build_loop \<times> 'tx builder" where
  "after_build W n ts txs rpc_entries built parent_hash ls b =
     (let b1 = journal_block W n txs b;
          q = trim_entries_from_front MAX_PENDING_CROSS_CHAIN_ENTRIES (drv_pending_l1 (queues (drv b1)))
      in case finalize_block_entries (w_exec W parent_hash) (w_abi W) (w_sig W) (w_config W) n ts (lp_l1 ls) built rpc_entries q of
           Inl p \<Rightarrow> Inl p
         | Inr (clean, roots, q') \<Rightarrow>
             (case queue_block n built clean roots (info_number (lp_l1 ls)) ls (set_pending_l1 q' b1) of
                (ls', b2) \<Rightarrow> Inr (catchup_flush W ls' b2)))"

text \<open>One block with the entries it was assigned. \<open>held\<close>: the L2 transactions injected into the pool.\<close>

definition build_block :: "('s, 'tx, 'e, 'pl) world \<Rightarrow> u64 \<Rightarrow> u64 \<Rightarrow> queue_drain_result \<Rightarrow> cross_chain_execution_entry list
    \<Rightarrow> cross_chain_execution_entry list \<Rightarrow> build_loop \<Rightarrow> 'tx builder \<Rightarrow> 'e
    \<Rightarrow> (builder_error + bool) \<times> build_loop \<times> 'tx builder \<times> 'e" where
  "build_block W n ts dr es rpc_es ls b e =
     (let parent_hash = head_hash (drv_head (drv b));
          (r, nonce) = build_builder_protocol_txs (w_env W parent_hash (held_l2_txs dr)) (w_config W) n (lp_l1 ls) es
            (2 ^ 64 - 1) (bl_nonce b);
          b1 = b\<lparr>bl_nonce := nonce\<rparr>
      in case r of
           Inl _ \<Rightarrow> (Inr False, ls, abandon_build dr b1, e)
         | Inr txs \<Rightarrow>
             (case insert_block W n ts (lp_l1 ls) txs b1 e of
                (Inl _, b2, e') \<Rightarrow> (Inr False, ls, abandon_build dr b2, e')
              | (Inr built, b2, e') \<Rightarrow>
                  (case after_build W n ts txs rpc_es built parent_hash ls b2 of
                     Inl p \<Rightarrow> (Inl (BE_Panic p), ls, b2, e')
                   | Inr (go_on, ls', b3) \<Rightarrow> (Inr go_on, ls', b3, e'))))"

text \<open>One iteration: whether the loop goes on.\<close>

definition build_one :: "('s, 'tx, 'e, 'pl) world \<Rightarrow> u64 \<Rightarrow> queue_drain_result \<Rightarrow> build_loop \<Rightarrow> 'tx builder \<Rightarrow> 'e
    \<Rightarrow> (builder_error + bool) \<times> build_loop \<times> 'tx builder \<times> 'e" where
  "build_one W target dr ls b e =
     (let (ls1, b1) = refresh_l1 W ls b;
          n = saturating_add (l2_head_number (drv_head (drv b1))) 1
      in case l2_timestamp_checked (rollup_config.truncate (w_config W)) n of
           None \<Rightarrow> (Inl (BE_Timestamp n), ls1, b1, e)
         | Some ts \<Rightarrow>
             (let (es, rpc_es, ls2) = take_entries target n ls1 in build_block W n ts dr es rpc_es ls2 b1 e))"

section \<open>The head through a flush and an iteration\<close>

lemma anchor_rewind_head [simp]: "drv_head (anchor_rewind f d) = drv_head d"
  by (simp add: anchor_rewind_def split: option.split)

lemma precheck_head: "flush_precheck p c r d = (res, d') \<Longrightarrow> drv_head d' = drv_head d"
  by (auto simp: flush_precheck_def check_stale_anchor_def dispatch_sibling_reorg_def trim_confirmed_def Let_def
      split: if_splits option.splits list.splits prod.splits)

lemma check_head: "check_pre_state_root V r bs d = (ok, d') \<Longrightarrow> drv_head d' = drv_head d"
  by (auto simp: check_pre_state_root_def requeue_def Let_def split: if_splits option.splits list.splits)

lemma take_batch_head: "take_batch d = (bs, d') \<Longrightarrow> drv_head d' = drv_head d"
  by (auto simp: take_batch_def Let_def)

lemma consumption_head [simp]: "drv_head (check_consumption V n es d) = drv_head d"
  by (simp add: check_consumption_def Let_def split: option.split)

lemma batch_confirmed_head [simp]: "drv_head (nd_driver (batch_confirmed V bs n s)) = drv_head (nd_driver s)"
  by (simp add: batch_confirmed_def Let_def split: option.split)

lemma await_head [simp]: "drv_head (nd_driver (await_receipt V h ts bs p s)) = drv_head (nd_driver s)"
  by (simp add: await_receipt_def Let_def restore_batch_def requeue_def upd_driver_def
      split: sum.split receipt_error.split trigger_execution_result.split)

lemma forward_head [simp]: "drv_head (nd_driver (forward_queued_l1_txs V s)) = drv_head (nd_driver s)"
  by (simp add: forward_queued_l1_txs_def Let_def)

lemma triggers_head: "send_l2_to_l1_triggers V ts s = (r, s') \<Longrightarrow> drv_head (nd_driver s') = drv_head (nd_driver s)"
  by (auto simp: send_l2_to_l1_triggers_def split: option.splits prod.splits)

lemma after_send_head [simp]: "drv_head (nd_driver (after_send V h bs p s)) = drv_head (nd_driver s)"
  by (auto simp: after_send_def Let_def dest!: triggers_head split: prod.split option.split)

lemma submit_head [simp]: "drv_head (nd_driver (submit_batch V hint bs s)) = drv_head (nd_driver s)"
  by (auto simp: submit_batch_def Let_def restore_batch_def requeue_def split: prod.split send_result.split)

lemma flush_to_l1_head [simp]: "drv_head (nd_driver (flush_to_l1 V bid s)) = drv_head (nd_driver s)"
  by (auto simp: flush_to_l1_def dest!: precheck_head check_head take_batch_head
      split: prod.split flush_precheck_result.split bool.split)

lemma drv_simps [simp]:
  "drv (set_drv d b) = d" "drv (b\<lparr>bl_nonce := k\<rparr>) = drv b" "drv (b\<lparr>bl_calls := cs\<rparr>) = drv b"
  "drv (b\<lparr>bl_l2_calls := ws\<rparr>) = drv b" "bl_calls (set_drv d b) = bl_calls b" "bl_l2_calls (set_drv d b) = bl_l2_calls b"
  "bl_nonce (set_drv d b) = bl_nonce b"
  by (simp_all add: drv_def set_drv_def)

lemma flush_head [simp]: "drv_head (drv (flush W x b)) = drv_head (drv b)"
  by (simp add: flush_def drv_def)

lemma set_pending_head [simp]: "drv_head (drv (set_pending_l1 q b)) = drv_head (drv b)"
  by (simp add: set_pending_l1_def)

lemma journal_drv [simp]: "drv (journal_block W n txs b) = drv b"
  by (simp add: journal_block_def drv_def)

lemma queue_block_head: "queue_block n built clean roots l1 ls b = (ls', b') \<Longrightarrow> drv_head (drv b') = drv_head (drv b)"
  by (auto simp: queue_block_def Let_def split: if_splits)

lemma catchup_flush_head: "catchup_flush W ls b = (go, ls', b') \<Longrightarrow> drv_head (drv b') = drv_head (drv b)"
  by (auto simp: catchup_flush_def Let_def split: if_splits)

lemma after_build_head:
  "after_build W n ts txs rs built h ls b = Inr (go, ls', b') \<Longrightarrow> drv_head (drv b') = drv_head (drv b)"
  by (auto simp: after_build_def Let_def dest!: queue_block_head catchup_flush_head split: sum.splits prod.splits)

lemma refresh_head: "refresh_l1 W ls b = (ls', b') \<Longrightarrow> drv_head (drv b') = drv_head (drv b)"
  by (auto simp: refresh_l1_def fetch_entries_def upd_derivation_def Let_def
      split: if_splits option.splits sum.splits prod.splits)

lemma of_queues_head [simp]: "drv_head (drv (of_queues s b)) = drv_head (drv b)"
  by (simp add: of_queues_def)

lemma abandon_head [simp]: "drv_head (drv (abandon_build dr b)) = drv_head (drv b)"
  by (simp add: abandon_build_def Let_def)

lemma insert_block_head:
  "insert_block W n ts info txs b e = (r, b', e') \<Longrightarrow>
     (case r of Inl _ \<Rightarrow> drv_head (drv b') = drv_head (drv b)
      | Inr built \<Rightarrow> n = saturating_add (l2_head_number (drv_head (drv b))) 1 \<and> l2_head_number (drv_head (drv b')) = n \<and>
          head_hash (drv_head (drv b')) = built_hash built)"
  by (auto simp: insert_block_def Let_def dest!: build_and_insert_cases split: prod.splits sum.splits)

text \<open>An iteration leaves the head where it is or moves it by one; the loop only goes on after a block.\<close>

lemma build_block_head:
  assumes "build_block W n ts dr es rs ls b e = (r, ls', b', e')"
  shows "drv_head (drv b') = drv_head (drv b) \<and> r = Inr False \<or>
    n = saturating_add (l2_head_number (drv_head (drv b))) 1 \<and> l2_head_number (drv_head (drv b')) = n"
  using assms
  by (auto simp: build_block_def Let_def dest!: insert_block_head after_build_head split: prod.splits sum.splits)

lemma build_one_head:
  assumes "build_one W target dr ls b e = (r, ls', b', e')"
  shows "drv_head (drv b') = drv_head (drv b) \<and> r \<noteq> Inr True \<or>
    l2_head_number (drv_head (drv b')) = saturating_add (l2_head_number (drv_head (drv b))) 1"
  using assms
  by (auto simp: build_one_def Let_def dest!: refresh_head build_block_head split: prod.splits option.splits)

lemma saturating_add_one: "n < m \<Longrightarrow> unat (saturating_add n (1 :: u64)) = Suc (unat n)"
  using unsigned_less [of m, where ?'a = nat] by (simp add: unat_saturating_add word_less_nat_alt)

function builder_loop :: "('s, 'tx, 'e, 'pl) world \<Rightarrow> u64 \<Rightarrow> queue_drain_result \<Rightarrow> build_loop \<Rightarrow> 'tx builder \<Rightarrow> 'e
    \<Rightarrow> (builder_error + bool) \<times> build_loop \<times> 'tx builder \<times> 'e" where
  "builder_loop W target dr ls b e =
     (if l2_head_number (drv_head (drv b)) < target then
        (case build_one W target dr ls b e of
           (r, ls', b', e') \<Rightarrow> if r = Inr True then builder_loop W target dr ls' b' e' else (r, ls', b', e'))
      else (Inr True, ls, b, e))"
  by pat_completeness auto

termination
  by (relation "measure (\<lambda>(W, target, dr, ls, b, e). unat target - unat (l2_head_number (drv_head (drv b))))")
    (auto dest!: sym [of "(_, _)" "build_one _ _ _ _ _ _"] build_one_head simp: saturating_add_one word_less_nat_alt)

declare builder_loop.simps [simp del]

section \<open>The tick\<close>

definition depth_gate :: "driver \<Rightarrow> bool" where
  "depth_gate d \<longleftrightarrow> (case pending_sibling_reorg d of None \<Rightarrow> False
     | Some req \<Rightarrow> reorg_depth_exceeded (saturating_sub (l2_head_number (drv_head d)) (req_target req)) REORG_SAFETY_THRESHOLD)"

text \<open>Draining, building, forwarding and the flush at the end.\<close>

definition forward_l1_txs :: "bytes list \<Rightarrow> 'tx builder \<Rightarrow> 'tx builder" where
  "forward_l1_txs txs b =
     (let d = drv b in
      set_drv (d\<lparr>queues := (queues d)\<lparr>pending_l1_forward_txs := pending_l1_forward_txs (queues d) @ txs\<rparr>\<rparr>) b)"

definition build_tick :: "('s, 'tx, 'e, 'pl) world \<Rightarrow> builder_tick_context \<Rightarrow> 'tx builder \<Rightarrow> 'e
    \<Rightarrow> (builder_error + unit) \<times> 'tx builder \<times> 'e" where
  "build_tick W t b e =
     (case fetch_entries W (info_number (current_l1 t)) b of
        (Inl err, b1) \<Rightarrow> (Inl (BE_Derive err), b1, e)
      | (Inr fetched, b1) \<Rightarrow>
          (case drain_rpc_queues (w_overflow_checks W) (w_selectors W) fetched (to_queues b1) of
             Inl p \<Rightarrow> (Inl (BE_Panic p), b1, e)
           | Inr (dr, qs) \<Rightarrow>
               let ls = \<lparr>lp_l1 = current_l1 t, lp_entries = builder_execution_entries dr, lp_rpc_count = rpc_entry_count dr,
                     lp_since_refresh = 0, lp_in_batch = 0\<rparr>
               in (case builder_loop W (effective_target t) dr ls (of_queues qs b1) e of
                     (Inl err, ls', b2, e') \<Rightarrow> (Inl err, b2, e')
                   | (Inr completed, ls', b2, e') \<Rightarrow>
                       (Inr (), if completed then flush W True (forward_l1_txs (queued_l1_txs dr) b2) else b2, e'))))"

definition step_builder :: "('s, 'tx, 'e, 'pl) world \<Rightarrow> u64 \<Rightarrow> 'tx builder \<Rightarrow> 'e
    \<Rightarrow> (builder_error + unit) \<times> 'tx builder \<times> 'e" where
  "step_builder W latest b e =
     (if depth_gate (drv b) then (Inr (), b, e)
      else case derive_and_verify_from_l1 W latest b e of
          (Inl err, b1, e1) \<Rightarrow> (Inl err, b1, e1)
        | (Inr _, b1, e1) \<Rightarrow>
            if pending_rewind_target (drv b1) \<noteq> None then (Inr (), b1, e1)
            else case compute_tick_context W latest (drv b1) of
                Inl err \<Rightarrow> (Inl err, b1, e1)
              | Inr None \<Rightarrow> (Inr (), flush W True b1, e1)
              | Inr (Some t) \<Rightarrow> build_tick W t b1 e1)"

end
