(* ===== verification/Builder_Tick.thy ===== *)
theory Builder_Tick
  imports Builder_Step
begin

text \<open>
  What a builder's tick promises: where it builds to, how many blocks may wait for L1, what
  becomes of the entries it fetched and drained, and which deltas its entries carry.
\<close>

section \<open>The backlog of unconfirmed blocks\<close>

abbreviation waiting :: "driver \<Rightarrow> nat" where
  "waiting d \<equiv> length (pending_submissions (queues d))"

lemma waiting_rewind [simp]: "pending_submissions (queues (rewind_to_re_derive t r d)) = []"
  by (simp add: rewind_to_re_derive_def set_rewind_target_def set_last_derived_l2_block_def clear_internal_state_def
      clear_recovery_state_def Let_def)

lemma waiting_plan [simp]: "pending_submissions (queues (apply_sibling_reorg_plan p d)) = []"
  by (simp add: apply_sibling_reorg_plan_def apply_sibling_reorg_plan_fields_def clear_internal_state_def
      clear_recovery_state_def Let_def)

lemma waiting_generic [simp]: "pending_submissions (queues (generic_mismatch b d)) = []"
  by (simp add: generic_mismatch_def set_rewind_target_def clear_internal_state_def clear_recovery_state_def Let_def)

lemma waiting_release [simp]: "queues (release_hold_for n d) = queues d"
  by (simp add: release_hold_for_def)

lemma waiting_mismatch: "handle_mismatch b d = (r, d') \<Longrightarrow> waiting d' \<le> waiting d"
  by (auto simp: handle_mismatch_def Let_def split: verify_mismatch_action.splits prod.splits deferral_result.splits)

lemma waiting_verify: "verify_local_block_matches_l1 hs blk d = (r, d') \<Longrightarrow> waiting d' \<le> waiting d"
  by (auto simp: verify_local_block_matches_l1_def classify_and_apply_verification_def Let_def dest!: waiting_mismatch
      split: if_splits sum.splits option.splits prod.splits)

lemma waiting_dispatch [simp]: "pending_submissions (queues (dispatch_sibling_reorg req d)) = []"
  by (simp add: dispatch_sibling_reorg_def clear_internal_state_def clear_recovery_state_def Let_def split: prod.split)

lemma waiting_trim: "waiting (trim_confirmed r d) \<le> waiting d"
  by (simp add: trim_confirmed_def Let_def split: option.split)

lemma check_stale_queues [simp]: "queues (snd (check_stale_anchor r d)) = queues d"
  by (simp add: check_stale_anchor_def Let_def split: option.split list.split)

lemma waiting_precheck: "waiting (snd (flush_precheck p c r d)) \<le> waiting d"
  using waiting_trim by (simp add: flush_precheck_def Let_def split: option.split)

lemma waiting_anchor_rewind [simp]: "pending_submissions (queues (anchor_rewind f d)) = []"
  by (simp add: anchor_rewind_def split: option.split)

lemma waiting_take: "take_batch d = (bs, d1) \<Longrightarrow> length bs + waiting d1 = waiting d"
  by (auto simp: take_batch_def Let_def)

lemma waiting_check: "check_pre_state_root V r bs d = (ok, d') \<Longrightarrow> waiting d' \<le> (if ok then waiting d else length bs + waiting d)"
  by (auto simp: check_pre_state_root_def requeue_def Let_def split: if_splits option.splits list.splits)

lemma waiting_consumption: "waiting (check_consumption V n es d) \<le> waiting d"
  by (simp add: check_consumption_def Let_def split: option.split)

lemma waiting_confirmed [simp]: "queues (nd_driver (batch_confirmed V bs n s)) = queues (nd_driver s)"
  by (simp add: batch_confirmed_def Let_def split: option.split)

lemma waiting_await: "waiting (nd_driver (await_receipt V h ts bs p s)) \<le> length bs + waiting (nd_driver s)"
  using waiting_consumption [of V _ "pq_entries p" "nd_driver (batch_confirmed V bs _ s)"]
  by (auto simp: await_receipt_def Let_def restore_batch_def requeue_def upd_driver_def le_SucI trans_le_add2
      split: sum.split receipt_error.split trigger_execution_result.split)

lemma waiting_forward [simp]: "waiting (nd_driver (forward_queued_l1_txs V s)) = waiting (nd_driver s)"
  by (simp add: forward_queued_l1_txs_def Let_def)

lemma waiting_triggers: "send_l2_to_l1_triggers V ts s = (r, s') \<Longrightarrow> waiting (nd_driver s') = waiting (nd_driver s)"
  by (auto simp: send_l2_to_l1_triggers_def split: option.splits prod.splits)

lemma waiting_after_send: "waiting (nd_driver (after_send V h bs p s)) \<le> length bs + waiting (nd_driver s)"
  using waiting_await [of V h _ bs p "if pq_entries p \<noteq> [] then forward_queued_l1_txs V s else s"]
  by (auto simp: after_send_def Let_def upd_driver_def dest!: waiting_triggers split: prod.split option.split
      intro: order_trans [OF waiting_await])

lemma restore_waiting [simp]: "waiting (nd_driver (restore_batch bs p s)) = length bs + waiting (nd_driver s)"
  by (simp add: restore_batch_def requeue_def Let_def)

lemma waiting_submit: "waiting (nd_driver (submit_batch V hint bs s)) \<le> length bs + waiting (nd_driver s)"
proof -
  have plan: "fp_blocks (plan_of plan) = bs" if "arm_hold (new_collected bs p) h = (plan, h')" for p h plan h'
    using that by (auto simp: new_collected_def)
  show ?thesis
    using waiting_after_send [of V _ bs]
    by (auto simp: submit_batch_def Let_def submit_via_def new_blocks_only_def dest!: plan
        split: prod.split send_result.split option.split intro: order_trans [OF waiting_after_send])
qed

lemma waiting_flush: "waiting (nd_driver (flush_to_l1 V bid s)) \<le> waiting (nd_driver s)"
proof -
  obtain res d where pre: "flush_precheck (env_has_proposer V) (env_cooling_down V) (env_on_chain_root V) (nd_driver s) = (res, d)"
    by fastforce
  have d: "waiting d \<le> waiting (nd_driver s)" using waiting_precheck [of "env_has_proposer V"] pre by (metis snd_conv)
  obtain bs d1 where take: "take_batch d = (bs, d1)" by fastforce
  show ?thesis
  proof (cases res)
    case (Proceed r)
    obtain ok d2 where check: "check_pre_state_root V r bs d1 = (ok, d2)" by fastforce
    show ?thesis
      using waiting_take [OF take] waiting_check [OF check] d pre take check Proceed
        waiting_submit [of V "bid d2" bs "s\<lparr>nd_driver := d2\<rparr>"]
      by (cases ok) (simp_all add: flush_to_l1_def)
  qed (use pre d in \<open>simp add: flush_to_l1_def\<close>)
qed

lemma waiting_flush_step: "waiting (drv (flush W x b)) \<le> waiting (drv b)"
  by (simp add: flush_def drv_def waiting_flush)

text \<open>The queue of the pending blocks in the rest of a tick: at most one more per block built.\<close>

lemma waiting_set_pending [simp]: "pending_submissions (queues (drv (set_pending_l1 q b))) = pending_submissions (queues (drv b))"
  by (simp add: set_pending_l1_def)

lemma waiting_of_queues [simp]: "pending_submissions (queues (drv (of_queues s b))) = pending_submissions (queues (drv b))"
  by (simp add: of_queues_def)

lemma waiting_abandon [simp]: "pending_submissions (queues (drv (abandon_build dr b))) = pending_submissions (queues (drv b))"
  by (simp add: abandon_build_def Let_def)

lemma waiting_insert: "insert_block W n ts info txs b e = (r, b', e') \<Longrightarrow> queues (drv b') = queues (drv b)"
  by (auto simp: insert_block_def Let_def split: prod.splits)

lemma insert_frame:
  "insert_block W n ts info txs b e = (r, b', e') \<Longrightarrow> queues (drv b') = queues (drv b) \<and>
     (case r of Inl _ \<Rightarrow> drv_head (drv b') = drv_head (drv b)
      | Inr built \<Rightarrow> n = saturating_add (l2_head_number (drv_head (drv b))) 1 \<and> l2_head_number (drv_head (drv b')) = n)"
  using insert_block_head [of W n ts info txs b e r b' e'] waiting_insert [of W n ts info txs b e r b' e']
  by (auto split: sum.splits)

lemma waiting_fetch: "fetch_entries W n b = (r, b') \<Longrightarrow> queues (drv b') = queues (drv b)"
  by (auto simp: fetch_entries_def upd_derivation_def split: prod.splits)

lemma waiting_refresh: "refresh_l1 W ls b = (ls', b') \<Longrightarrow> queues (drv b') = queues (drv b)"
  by (auto simp: refresh_l1_def Let_def dest!: waiting_fetch split: if_splits option.splits sum.splits prod.splits)

lemma refresh_frame:
  "refresh_l1 W ls b = (ls', b') \<Longrightarrow> drv_head (drv b') = drv_head (drv b) \<and> queues (drv b') = queues (drv b)"
  using waiting_refresh refresh_head by blast

lemma waiting_queue_block: "queue_block n built clean roots l1 ls b = (ls', b') \<Longrightarrow> waiting (drv b') \<le> Suc (waiting (drv b))"
  by (auto simp: queue_block_def Let_def split: if_splits)

lemma waiting_catchup: "catchup_flush W ls b = (go, ls', b') \<Longrightarrow> waiting (drv b') \<le> waiting (drv b)"
  by (auto simp: catchup_flush_def Let_def waiting_flush_step split: if_splits)

lemma waiting_after_build:
  "after_build W n ts txs rs built h ls b = Inr (go, ls', b') \<Longrightarrow> waiting (drv b') \<le> Suc (waiting (drv b))"
  by (fastforce simp: after_build_def Let_def dest!: waiting_queue_block waiting_catchup split: sum.splits prod.splits)

lemma after_build_frame:
  "after_build W n ts txs rs built h ls b = Inr (go, ls', b') \<Longrightarrow>
     drv_head (drv b') = drv_head (drv b) \<and> waiting (drv b') \<le> Suc (waiting (drv b))"
  by (rule conjI [OF after_build_head waiting_after_build])

lemma waiting_build_block:
  assumes "build_block W n ts dr es rs ls b e = (r, ls', b', e')"
  shows "waiting (drv b') \<le> waiting (drv b) \<or>
    l2_head_number (drv_head (drv b')) = n \<and> n = saturating_add (l2_head_number (drv_head (drv b))) 1 \<and>
    waiting (drv b') \<le> Suc (waiting (drv b))"
  using assms
  by (auto simp: build_block_def Let_def dest!: after_build_frame insert_frame split: prod.splits sum.splits)

lemma waiting_build_one:
  assumes "build_one W target dr ls b e = (r, ls', b', e')"
  shows "waiting (drv b') \<le> waiting (drv b) \<or>
    l2_head_number (drv_head (drv b')) = saturating_add (l2_head_number (drv_head (drv b))) 1 \<and>
    waiting (drv b') \<le> Suc (waiting (drv b))"
  using assms
  by (auto simp: build_one_def Let_def dest!: refresh_frame waiting_build_block split: prod.splits option.splits)

text \<open>The loop moves the head up to its target at most.\<close>

lemma builder_loop_bounds:
  assumes "builder_loop W target dr ls b e = (r, ls', b', e')"
  shows "unat (l2_head_number (drv_head (drv b))) \<le> unat (l2_head_number (drv_head (drv b'))) \<and>
    unat (l2_head_number (drv_head (drv b'))) \<le> max (unat (l2_head_number (drv_head (drv b)))) (unat target) \<and>
    (r = Inr True \<longrightarrow> target \<le> l2_head_number (drv_head (drv b'))) \<and>
    waiting (drv b') \<le> waiting (drv b) + (unat (l2_head_number (drv_head (drv b'))) - unat (l2_head_number (drv_head (drv b))))"
  using assms
proof (induction W target dr ls b e rule: builder_loop.induct)
  case (1 W target dr ls b e)
  let ?h = "l2_head_number (drv_head (drv b))"
  show ?case
  proof (cases "?h < target")
    case True
    obtain r1 ls1 b1 e1 where one: "build_one W target dr ls b e = (r1, ls1, b1, e1)" by (metis prod_cases4)
    let ?h1 = "l2_head_number (drv_head (drv b1))"
    note suc = saturating_add_one [OF True]
    have le: "Suc (unat ?h) \<le> unat target" using True by (simp add: word_less_nat_alt)
    show ?thesis
    proof (cases "r1 = Inr True")
      case True
      then have h1: "?h1 = saturating_add ?h 1" using build_one_head [OF one] by auto
      have rest: "builder_loop W target dr ls1 b1 e1 = (r, ls', b', e')"
        using "1.prems" \<open>?h < target\<close> one True by (simp add: builder_loop.simps [of W target dr ls b e])
      from "1.IH" [OF \<open>?h < target\<close> one [symmetric] refl refl True rest] waiting_build_one [OF one] suc le h1
      show ?thesis by auto
    next
      case False
      then have "r = r1" "b' = b1"
        using "1.prems" \<open>?h < target\<close> one by (auto simp: builder_loop.simps [of W target dr ls b e])
      then show ?thesis using build_one_head [OF one] waiting_build_one [OF one] suc le False by auto
    qed
  next
    case False
    then have "r = Inr True" "b' = b" using "1.prems" by (simp_all add: builder_loop.simps [of W target dr ls b e])
    then show ?thesis using False by (simp add: not_less)
  qed
qed

section \<open>Lemmas on the target\<close>

lemma compute_tick_contextD:
  assumes "compute_tick_context W latest d = Inr (Some t)"
  shows "deployment_l1_block (w_config W) < latest" "effective_target_of W latest d = effective_target t"
    "l2_head_number (drv_head d) < effective_target t" "\<not> is_blocking_build (drv_hold d)"
    "info_number (current_l1 t) = latest" "w_l1_hash W latest = Inr (Some (info_hash (current_l1 t)))"
  using assms by (auto simp: compute_tick_context_def Let_def split: if_splits sum.splits option.splits)

lemma effective_target_le:
  "effective_target_of W latest d \<le> l2_block_number_of (w_config W) latest"
  "effective_target_of W latest d \<le> saturating_add (l2_head_number (drv_head d)) MAX_CATCHUP_BLOCKS"
  "w_bundle_path W \<Longrightarrow> effective_target_of W latest d \<le> saturating_add (l2_head_number (drv_head d))
     (saturating_sub BUNDLE_PATH_PENDING_CAP (of_nat (waiting d)))"
  by (simp_all add: effective_target_of_def Let_def min.coboundedI1 min.coboundedI2)

lemma room_bound:
  fixes head :: u64
  assumes "x \<le> saturating_add head (saturating_sub BUNDLE_PATH_PENDING_CAP (of_nat n))" and "head < x" and "n < 2 ^ 64"
  shows "n + (unat x - unat head) \<le> 47"
proof -
  have cap: "unat BUNDLE_PATH_PENDING_CAP = 47" by (simp add: BUNDLE_PATH_PENDING_CAP_def REORG_SAFETY_THRESHOLD_def)
  have "unat x \<le> unat head + (47 - n)"
    using assms(1,3) by (simp add: word_le_nat_alt unat_saturating_add unat_saturating_sub cap unat_of_nat min_le_iff_disj)
  moreover have "unat head < unat x" using assms(2) by (simp add: word_less_nat_alt)
  ultimately show ?thesis by linarith
qed

lemma tick_backlog:
  assumes "compute_tick_context W latest d = Inr (Some t)" and "w_bundle_path W" and "waiting d < 2 ^ 64"
  shows "waiting d + (unat (effective_target t) - unat (l2_head_number (drv_head d))) \<le> 47"
  using compute_tick_contextD [OF assms(1)] room_bound [OF effective_target_le(3) [OF assms(2), of latest d] _ assms(3)] by simp

text \<open>
  The target of a tick. A tick builds only when L1 is past the deployment block, the head is
  below the target and no hold blocks it. Its target is at most the block number that the L1
  head stands for and at most 10000 blocks ahead; on the bundle path the blocks that wait for L1 together with
  those still to build are at most 47, one less than the depth a recovery may have.
\<close>

theorem tick_target_bounds:
  assumes "compute_tick_context W latest d = Inr (Some t)"
  shows "deployment_l1_block (w_config W) < latest \<and> \<not> is_blocking_build (drv_hold d) \<and>
    l2_head_number (drv_head d) < effective_target t \<and>
    effective_target t \<le> latest - deployment_l1_block (w_config W) \<and>
    unat (effective_target t) - unat (l2_head_number (drv_head d)) \<le> 10000 \<and>
    (w_bundle_path W \<and> waiting d < 2 ^ 64 \<longrightarrow>
       waiting d + (unat (effective_target t) - unat (l2_head_number (drv_head d))) < unat REORG_SAFETY_THRESHOLD)"
proof -
  note D = compute_tick_contextD [OF assms]
  let ?h = "l2_head_number (drv_head d)"
  have l2: "l2_block_number_of (w_config W) latest = latest - deployment_l1_block (w_config W)"
    using D by (simp add: l2_block_number_of_def saturating_sub_def less_imp_le)
  have t: "effective_target t \<le> latest - deployment_l1_block (w_config W)"
    "effective_target t \<le> saturating_add ?h MAX_CATCHUP_BLOCKS"
    using D l2 effective_target_le(1,2) [of W latest d] by simp_all
  have "unat (effective_target t) \<le> unat ?h + 10000"
    using t(2) by (simp add: word_le_nat_alt unat_saturating_add MAX_CATCHUP_BLOCKS_def)
  moreover have "waiting d + (unat (effective_target t) - unat ?h) < unat REORG_SAFETY_THRESHOLD"
    if "w_bundle_path W" "waiting d < 2 ^ 64"
    using tick_backlog [OF assms that] by (simp add: REORG_SAFETY_THRESHOLD_def)
  moreover have "?h < effective_target t" "deployment_l1_block (w_config W) < latest" "\<not> is_blocking_build (drv_hold d)"
    using D by simp_all
  ultimately show ?thesis using t(1) by (auto simp: diff_le_eq)
qed

section \<open>The whole tick\<close>

lemma waiting_apply_derived: "apply_derived W blk b e = (r, b', e') \<Longrightarrow> queues (drv b') = queues (drv b)"
  by (auto simp: apply_derived_def filter_block_def Let_def dest!: insert_frame split: prod.splits sum.splits)

lemma waiting_verify_local: "verify_local W blk b = (r, b') \<Longrightarrow> waiting (drv b') \<le> waiting (drv b)"
  by (auto simp: verify_local_def dest!: waiting_verify split: prod.splits sum.splits)

lemma waiting_verify_blocks: "verify_blocks W blks b e = (r, b', e') \<Longrightarrow> waiting (drv b') \<le> waiting (drv b)"
proof (induction blks arbitrary: b e)
  case (Cons blk blks)
  obtain v b1 where v: "verify_local W blk b = (v, b1)" by fastforce
  obtain a b2 e2 where a: "apply_derived W blk b e = (a, b2, e2)" by (metis prod_cases3)
  show ?case
    using Cons.prems v a waiting_verify_local [OF v] waiting_apply_derived [OF a] Cons.IH [of b1 e] Cons.IH [of b2 e2]
    by (auto split: if_splits sum.splits)
qed simp

lemma waiting_commit: "commit_and_checkpoint W batch b = (r, b') \<Longrightarrow> queues (drv b') = queues (drv b)"
  by (auto simp: commit_and_checkpoint_def maybe_save_checkpoint_def commit_derivation_def Let_def
      split: prod.splits sum.splits if_splits)

lemma waiting_derive: "derive_and_verify_from_l1 W latest b e = (r, b', e') \<Longrightarrow> waiting (drv b') \<le> waiting (drv b)"
  by (auto simp: derive_and_verify_from_l1_def dest!: waiting_commit waiting_verify_blocks
      split: prod.splits sum.splits if_splits)

lemma waiting_forward_txs [simp]: "pending_submissions (queues (drv (forward_l1_txs txs b))) = pending_submissions (queues (drv b))"
  by (simp add: forward_l1_txs_def Let_def)

lemma fetch_frame: "fetch_entries W n b = (r, b') \<Longrightarrow> queues (drv b') = queues (drv b) \<and> drv_head (drv b') = drv_head (drv b)"
  by (auto simp: fetch_entries_def upd_derivation_def split: prod.splits)

lemma waiting_build_tick:
  assumes "build_tick W t b e = (r, b', e')"
    and "l2_head_number (drv_head (drv b)) < effective_target t"
  shows "waiting (drv b') \<le> waiting (drv b) + (unat (effective_target t) - unat (l2_head_number (drv_head (drv b))))"
proof -
  obtain f b1 where f: "fetch_entries W (info_number (current_l1 t)) b = (f, b1)" by fastforce
  note frame = fetch_frame [OF f]
  show ?thesis
  proof (cases f)
    case (Inr fetched)
    show ?thesis
    proof (cases "drain_rpc_queues (w_overflow_checks W) (w_selectors W) fetched (to_queues b1)")
      case (Inr y)
      obtain dr qs where y: "y = (dr, qs)" by fastforce
      let ?ls = "\<lparr>lp_l1 = current_l1 t, lp_entries = builder_execution_entries dr, lp_rpc_count = rpc_entry_count dr,
        lp_since_refresh = 0, lp_in_batch = 0\<rparr>"
      obtain r2 ls2 b2 e2 where l: "builder_loop W (effective_target t) dr ?ls (of_queues qs b1) e = (r2, ls2, b2, e2)"
        by (metis prod_cases4)
      have le: "waiting (drv b2) \<le> waiting (drv b) + (unat (effective_target t) - unat (l2_head_number (drv_head (drv b))))"
        using builder_loop_bounds [OF l] frame assms(2) by (auto simp: word_less_nat_alt)
      have "b' = b2 \<or> b' = flush W True (forward_l1_txs (queued_l1_txs dr) b2)"
        using assms(1) f \<open>f = Inr fetched\<close> Inr y l by (auto simp: build_tick_def Let_def split: sum.splits if_splits)
      then show ?thesis
        using le waiting_flush_step [of W True "forward_l1_txs (queued_l1_txs dr) b2"] by auto
    qed (use assms(1) f \<open>f = Inr fetched\<close> frame in \<open>auto simp: build_tick_def\<close>)
  qed (use assms(1) f frame in \<open>auto simp: build_tick_def\<close>)
qed

text \<open>
  C14: On the bundle path at most 47 blocks wait for L1. Whatever a tick of the builder does, catching up,
  verifying, building, flushing inside its loop and at its end, with all their failures, the
  number of blocks that wait for L1 stays below \<open>REORG_SAFETY_THRESHOLD\<close>, so that a refresh
  of the oldest one is always within the depth a recovery may have.
\<close>

theorem bundle_backlog_bounded:
  assumes "w_bundle_path W" and "step_builder W latest b e = (r, b', e')"
    and "waiting (drv b) < unat REORG_SAFETY_THRESHOLD"
  shows "waiting (drv b') < unat REORG_SAFETY_THRESHOLD"
proof (cases "depth_gate (drv b)")
  case False
  have th: "unat REORG_SAFETY_THRESHOLD = 48" by (simp add: REORG_SAFETY_THRESHOLD_def)
  obtain r1 b1 e1 where d: "derive_and_verify_from_l1 W latest b e = (r1, b1, e1)" by (metis prod_cases3)
  have b1: "waiting (drv b1) < 48" using waiting_derive [OF d] assms(3) th by simp
  show ?thesis
  proof (cases "\<exists>t. isl r1 = False \<and> pending_rewind_target (drv b1) = None \<and> compute_tick_context W latest (drv b1) = Inr (Some t)")
    case True
    then obtain t where t: "\<not> isl r1" "pending_rewind_target (drv b1) = None" "compute_tick_context W latest (drv b1) = Inr (Some t)"
      by auto
    then have "build_tick W t b1 e1 = (r, b', e')"
      using assms(2) False d by (auto simp: step_builder_def split: sum.splits)
    from waiting_build_tick [OF this] compute_tick_contextD [OF t(3)] tick_backlog [OF t(3) assms(1)] b1
    show ?thesis by (auto simp: th)
  next
    case no: False
    then have "b' = b1 \<or> b' = flush W True b1"
      using assms(2) False d by (auto simp: step_builder_def split: sum.splits if_splits option.splits)
    then show ?thesis using b1 th waiting_flush_step [of W True b1] by auto
  qed
qed (use assms in \<open>simp add: step_builder_def\<close>)

section \<open>The entries that wait for a block\<close>

text \<open>One iteration of the loop that goes on, as a step on the loop's state and the builder.\<close>

inductive iteration :: "('s, 'tx, 'e, 'pl) world \<Rightarrow> u64 \<Rightarrow> queue_drain_result
    \<Rightarrow> build_loop \<times> 'tx builder \<times> 'e \<Rightarrow> build_loop \<times> 'tx builder \<times> 'e \<Rightarrow> bool"
  for W :: "('s, 'tx, 'e, 'pl) world" and target dr where
  "l2_head_number (drv_head (drv b)) < target \<Longrightarrow> build_one W target dr ls b e = (Inr True, ls', b', e') \<Longrightarrow>
     iteration W target dr (ls, b, e) (ls', b', e')"

inductive_cases iterationE: "iteration W target dr (ls, b, e) (ls', b', e')"

text \<open>Once a refresh may come, no entry waits.\<close>

definition none_waits :: "build_loop \<Rightarrow> bool" where
  "none_waits ls \<longleftrightarrow> (lp_since_refresh ls \<ge> L1_REFRESH_INTERVAL \<longrightarrow> lp_entries ls = [])"

lemma refresh_keeps_entries:
  assumes "refresh_l1 W ls b = (ls', b')" and "none_waits ls"
  shows "lp_entries ls = [] \<or> lp_entries ls' = lp_entries ls"
proof (cases "lp_since_refresh ls \<ge> L1_REFRESH_INTERVAL")
  case False
  then have "\<not> saturating_add (lp_since_refresh ls) 1 > L1_REFRESH_INTERVAL"
    by (simp add: word_less_nat_alt word_le_nat_alt unat_saturating_add L1_REFRESH_INTERVAL_def)
  then show ?thesis using assms(1) by (auto simp: refresh_l1_def Let_def)
qed (use assms(2) in \<open>simp add: none_waits_def\<close>)

lemma take_entries_none_waits:
  assumes "take_entries target n ls = (es, rpc, ls')"
  shows "none_waits ls'" and "target \<le> n \<Longrightarrow> lp_entries ls' = []" and "es @ lp_entries ls' = lp_entries ls"
proof -
  have "lp_entries ls' = []" if "L1_REFRESH_INTERVAL \<le> lp_since_refresh ls'"
  proof -
    have "lp_since_refresh ls' = lp_since_refresh ls" using assms by (auto simp: take_entries_def Let_def split: if_splits)
    with that have "saturating_add (lp_since_refresh ls) 1 > L1_REFRESH_INTERVAL"
      using unat_u64_lt [of "lp_since_refresh ls"]
      by (simp add: word_less_nat_alt word_le_nat_alt unat_saturating_add L1_REFRESH_INTERVAL_def)
    then show ?thesis using assms by (auto simp: take_entries_def assigns_entries_def Let_def)
  qed
  then show "none_waits ls'" by (simp add: none_waits_def)
  show "target \<le> n \<Longrightarrow> lp_entries ls' = []" and "es @ lp_entries ls' = lp_entries ls"
    using assms by (auto simp: take_entries_def assigns_entries_def Let_def split: if_splits)
qed

lemma after_build_entries:
  "after_build W n ts txs rs built h ls b = Inr (go, ls', b') \<Longrightarrow>
     lp_entries ls' = lp_entries ls \<and> lp_since_refresh ls' = lp_since_refresh ls"
  by (auto simp: after_build_def catchup_flush_def queue_block_def Let_def split: sum.splits prod.splits if_splits)

lemma build_block_entries:
  "build_block W n ts dr es rs ls b e = (Inr True, ls', b', e') \<Longrightarrow>
     lp_entries ls' = lp_entries ls \<and> lp_since_refresh ls' = lp_since_refresh ls"
  by (auto simp: build_block_def Let_def dest: after_build_entries split: sum.splits prod.splits)

lemma iteration_none_waits:
  assumes "iteration W target dr (ls, b, e) (ls', b', e')"
  shows "none_waits ls' \<and> (target \<le> l2_head_number (drv_head (drv b')) \<longrightarrow> lp_entries ls' = [])"
proof -
  have one: "build_one W target dr ls b e = (Inr True, ls', b', e')" using assms by (rule iterationE)
  obtain ls1 b1 where r: "refresh_l1 W ls b = (ls1, b1)" by fastforce
  let ?n = "saturating_add (l2_head_number (drv_head (drv b))) 1"
  obtain es rpc ls2 where t: "take_entries target ?n ls1 = (es, rpc, ls2)" by (metis prod_cases3)
  obtain ts where "build_block W ?n ts dr es rpc ls2 b1 e = (Inr True, ls', b', e')"
    using one r refresh_head [OF r] t by (auto simp: build_one_def Let_def split: option.splits)
  then have ls': "lp_entries ls' = lp_entries ls2 \<and> lp_since_refresh ls' = lp_since_refresh ls2"
    by (rule build_block_entries)
  have "l2_head_number (drv_head (drv b')) = ?n" using build_one_head [OF one] by simp
  with ls' take_entries_none_waits [OF t] show ?thesis by (auto simp: none_waits_def)
qed

interpretation waits: step_invariant "iteration W target dr" "\<lambda>(ls, b, e). none_waits ls" for W target dr
  by unfold_locales (auto simp: split_paired_all dest: iteration_none_waits)

text \<open>The iterations that \<open>builder_loop\<close> runs.\<close>

lemma builder_loop_iterations:
  assumes "builder_loop W target dr ls b e = (r, ls', b', e')"
  shows "\<exists>s. (iteration W target dr)\<^sup>*\<^sup>* (ls, b, e) s \<and>
    (r = Inr True \<longrightarrow> s = (ls', b', e') \<and> target \<le> l2_head_number (drv_head (drv b')))"
  using assms
proof (induction W target dr ls b e rule: builder_loop.induct)
  case (1 W target dr ls b e)
  show ?case
  proof (cases "l2_head_number (drv_head (drv b)) < target")
    case True
    obtain r1 ls1 b1 e1 where one: "build_one W target dr ls b e = (r1, ls1, b1, e1)" by (metis prod_cases4)
    show ?thesis
    proof (cases "r1 = Inr True")
      case t: True
      have rest: "builder_loop W target dr ls1 b1 e1 = (r, ls', b', e')"
        using "1.prems" True one t by (simp add: builder_loop.simps [of W target dr ls b e])
      have "iteration W target dr (ls, b, e) (ls1, b1, e1)" using True one t by (simp add: iteration.intros)
      with "1.IH" [OF True one [symmetric] refl refl t rest] show ?thesis
        by (metis converse_rtranclp_into_rtranclp)
    next
      case False
      then show ?thesis
        using "1.prems" True one by (auto simp: builder_loop.simps [of W target dr ls b e])
    qed
  next
    case False
    then show ?thesis using "1.prems" by (auto simp: builder_loop.simps [of W target dr ls b e])
  qed
qed

text \<open>What a step gives to its block: the front of the entries that wait, all of them at the target.\<close>

lemma iteration_gives:
  assumes "iteration W target dr (ls, b, e) (ls', b', e')" and "refresh_l1 W ls b = (ls1, b1)"
    and "n = saturating_add (l2_head_number (drv_head (drv b))) 1"
  shows "\<exists>es ts txs nonce built b2 e2. es @ lp_entries ls' = lp_entries ls1 \<and> (target \<le> n \<longrightarrow> lp_entries ls' = []) \<and>
    build_builder_protocol_txs (w_env W (head_hash (drv_head (drv b1))) (held_l2_txs dr)) (w_config W) n (lp_l1 ls1) es
      (2 ^ 64 - 1) (bl_nonce b1) = (Inr txs, nonce) \<and>
    insert_block W n ts (lp_l1 ls1) txs (b1\<lparr>bl_nonce := nonce\<rparr>) e = (Inr built, b2, e2)"
proof -
  have one: "build_one W target dr ls b e = (Inr True, ls', b', e')" using assms(1) by (rule iterationE)
  obtain es rpc ls2 where t: "take_entries target n ls1 = (es, rpc, ls2)" by (metis prod_cases3)
  obtain ts where run: "build_block W n ts dr es rpc ls2 b1 e = (Inr True, ls', b', e')"
    using one assms(2,3) refresh_head [OF assms(2)] t by (auto simp: build_one_def Let_def split: option.splits)
  have l1: "lp_l1 ls2 = lp_l1 ls1" using t by (auto simp: take_entries_def Let_def split: if_splits)
  have "lp_entries ls' = lp_entries ls2" using build_block_entries [OF run] by (rule conjunct1)
  with take_entries_none_waits(2,3) [OF t] have "es @ lp_entries ls' = lp_entries ls1" "target \<le> n \<longrightarrow> lp_entries ls' = []"
    by simp_all
  moreover obtain txs nonce built b2 e2 where
    "build_builder_protocol_txs (w_env W (head_hash (drv_head (drv b1))) (held_l2_txs dr)) (w_config W) n (lp_l1 ls1) es
      (2 ^ 64 - 1) (bl_nonce b1) = (Inr txs, nonce)"
    "insert_block W n ts (lp_l1 ls1) txs (b1\<lparr>bl_nonce := nonce\<rparr>) e = (Inr built, b2, e2)"
    using run by (auto simp: build_block_def Let_def l1 split: prod.splits sum.splits)
  ultimately show ?thesis by blast
qed


section \<open>The deltas of a block's entries\<close>

text \<open>The groups after \<open>attach_generic_state_deltas\<close>, one list each.\<close>

fun group_results :: "abi \<Rightarrow> u64 \<Rightarrow> b256 list \<Rightarrow> cross_chain_execution_entry list list
    \<Rightarrow> cross_chain_execution_entry list list" where
  "group_results A rollup (x # y # roots) (g # gs) =
     group_result (RollupId (ucast rollup)) (entry_root A x y rollup (length g) (is_revert_slice g)) 0 g
     # group_results A rollup (y # roots) gs"
| "group_results A rollup roots gs = gs"

lemma concat_group_results: "concat (group_results A rollup roots gs) = groups_result A rollup roots gs"
  by (induction A rollup roots gs rule: group_results.induct) simp_all

lemma map_length_group_results [simp]: "map length (group_results A rollup roots gs) = map length gs"
  by (induction A rollup roots gs rule: group_results.induct) simp_all

lemma length_group_results [simp]: "length (group_results A rollup roots gs) = length gs"
  by (induction A rollup roots gs rule: group_results.induct) simp_all

lemma group_results_nth:
  "length roots = length gs + 1 \<Longrightarrow> k < length gs \<Longrightarrow>
     group_results A rollup roots gs ! k = group_result (RollupId (ucast rollup))
       (entry_root A (roots ! k) (roots ! Suc k) rollup (length (gs ! k)) (is_revert_slice (gs ! k))) 0 (gs ! k)"
proof (induction A rollup roots gs arbitrary: k rule: group_results.induct)
  case (1 A rollup x y roots g gs)
  then show ?case by (cases k) simp_all
qed auto

lemma starts_of_length: "map length gs = map length hs \<Longrightarrow> starts_of n gs = starts_of n hs"
proof (induction gs arbitrary: n hs)
  case (Cons g gs)
  then show ?case by (cases hs) auto
qed simp

lemma override_range_append:
  "override_range (length pre) (length pre + length g) root (pre @ g @ post) = Inr (pre @ map (set_current_state root) g @ post)"
proof -
  have same: "map (\<lambda>(i, e). if a \<le> i \<and> i < b then f e else e) (enumerate n xs) = xs"
    if "n + length xs \<le> a \<or> b \<le> n" for a b n xs and f :: "cross_chain_execution_entry \<Rightarrow> cross_chain_execution_entry"
    using that by (induction xs arbitrary: n) auto
  have all: "map (\<lambda>(i, e). if a \<le> i \<and> i < b then f e else e) (enumerate n xs) = map f xs"
    if "a \<le> n" "n + length xs \<le> b" for a b n xs and f :: "cross_chain_execution_entry \<Rightarrow> cross_chain_execution_entry"
    using that by (induction xs arbitrary: n) auto
  show ?thesis by (simp add: override_range_def enumerate_append_eq same all)
qed

lemma set_current_state_idem [simp]: "set_current_state r (set_current_state r e) = set_current_state r e"
  by (auto simp: set_current_state_def split: list.split)

text \<open>The override of the independent groups, group by group.\<close>

lemma override_independent_result:
  assumes "map start pgs = starts_of (length pre) ess" and "length pgs = length ess" and "k + length ess \<le> length roots"
  shows "override_independent roots k pgs (pre @ concat ess) =
    Inr (pre @ concat (map2 (\<lambda>(g, r) es. if mode g = Chained then es else map (set_current_state r) es)
      (zip pgs (drop k roots)) ess))"
  using assms
proof (induction pgs arbitrary: k pre ess)
  case (Cons g gs)
  from Cons.prems(2) obtain es ess' where ess: "ess = es # ess'" by (cases ess) auto
  have k: "k < length roots" using Cons.prems(3) ess by simp
  then obtain rs where d: "drop k roots = roots ! k # drop (Suc k) roots" by (simp add: Cons_nth_drop_Suc)
  have st: "start g = length pre" "map start gs = starts_of (length pre + length es) ess'" using Cons.prems(1) ess by auto
  have stop: "(case gs of [] \<Rightarrow> length (pre @ es @ concat ess') | g' # _ \<Rightarrow> start g') = length pre + length es"
  proof (cases gs)
    case Nil
    then have "ess' = []" using Cons.prems(2) ess by simp
    with Nil show ?thesis by simp
  next
    case (Cons g' gs')
    then show ?thesis using st(2) by (cases ess') auto
  qed
  let ?es = "if mode g = Chained then es else map (set_current_state (roots ! k)) es"
  have len: "length (pre @ ?es) = length pre + length es" by simp
  have IH: "override_independent roots (Suc k) gs ((pre @ ?es) @ concat ess') =
    Inr ((pre @ ?es) @ concat (map2 (\<lambda>(g, r) es. if mode g = Chained then es else map (set_current_state r) es)
      (zip gs (drop (Suc k) roots)) ess'))"
    using Cons.prems(2,3) ess st(2) len by (intro Cons.IH) auto
  have ov: "override_range (length pre) (length pre + length es) (roots ! k) (pre @ es @ concat ess') =
      Inr (pre @ map (set_current_state (roots ! k)) es @ concat ess')"
    by (rule override_range_append)
  show ?case
    using IH k d stop st(1) ov by (cases "mode g = Chained") (simp_all add: ess del: length_append)
qed simp

lemma pending_is_empty_groups: "partitioned q gs \<Longrightarrow> \<forall>g \<in> set gs. g \<noteq> [] \<Longrightarrow> gs \<noteq> [] \<Longrightarrow> \<not> pending_is_empty q"
  by (cases gs) (auto simp: partitioned_def pending_is_empty_def)

lemma attach_deltas_result:
  assumes "partitioned q gs" and "\<forall>g \<in> set gs. g \<noteq> []" and "gs \<noteq> []" and "length roots = length gs + 1"
  shows "attach_deltas A rollup roots q = Inr (q\<lparr>pq_entries :=
    concat (map2 (\<lambda>(g, r) es. if mode g = Chained then es else map (set_current_state r) es)
      (zip (pq_groups q) roots) (group_results A rollup roots gs))\<rparr>)"
proof -
  have p: "pq_entries q = concat gs" "starts q = starts_of 0 gs" using assms(1) by (simp_all add: partitioned_def)
  have a: "attach_generic_state_deltas A (pq_entries q) roots rollup (starts q) = Inr (concat (group_results A rollup roots gs))"
    using attach_groups_result [OF assms(4), of A rollup "[]"] p
    by (simp add: attach_generic_state_deltas_def concat_group_results)
  have n: "length (pq_groups q) = length gs" using arg_cong [OF p(2), of length] by (simp add: starts_def)
  have o: "override_independent roots 0 (pq_groups q) ([] @ concat (group_results A rollup roots gs)) =
    Inr ([] @ concat (map2 (\<lambda>(g, r) es. if mode g = Chained then es else map (set_current_state r) es)
      (zip (pq_groups q) (drop 0 roots)) (group_results A rollup roots gs)))"
    using p(2) n assms(4) starts_of_length [of "group_results A rollup roots gs" gs 0]
    by (intro override_independent_result) (simp_all add: starts_def)
  have "roots \<noteq> []" using assms(4) by auto
  then show ?thesis
    using a o pending_is_empty_groups [OF assms(1-3)] by (simp add: attach_deltas_def)
qed

text \<open>What the two steps leave of one group: \<open>f\<close> is the override of an independent group.\<close>

abbreviation final_groups :: "abi \<Rightarrow> u64 \<Rightarrow> b256 list \<Rightarrow> pending_l1_group list \<Rightarrow> cross_chain_execution_entry list list
    \<Rightarrow> cross_chain_execution_entry list list" where
  "final_groups A rollup roots pgs gs \<equiv>
     map2 (\<lambda>(g, r) es. if mode g = Chained then es else map (set_current_state r) es) (zip pgs roots)
       (group_results A rollup roots gs)"

lemma group_result_one: "e \<in> set (group_result rid root i es) \<Longrightarrow> \<exists>d. state_deltas e = [d]"
  by (induction es arbitrary: i) auto

lemma set_current_state_one:
  assumes "\<exists>d. state_deltas e = [d]"
  shows "without_deltas (set_current_state r e) = without_deltas e"
    and "map current_state (state_deltas (set_current_state r e)) = [r]"
  using assms by (auto simp: set_current_state_def without_deltas_def existing_ether_delta_def)

lemma final_group:
  assumes "length roots = length gs + 1" and "length pgs = length gs" and "k < length gs" and "gs ! k \<noteq> []"
    and "es = final_groups A rollup roots pgs gs ! k"
  shows "map without_deltas es = map without_deltas (gs ! k)"
    and "mode (pgs ! k) = Chained \<Longrightarrow> chained (roots ! k) es (roots ! Suc k)"
    and "mode (pgs ! k) \<noteq> Chained \<Longrightarrow> e \<in> set es \<Longrightarrow> map current_state (state_deltas e) = [roots ! k]"
proof -
  let ?root = "entry_root A (roots ! k) (roots ! Suc k) rollup (length (gs ! k)) (is_revert_slice (gs ! k))"
  let ?g = "group_result (RollupId (ucast rollup)) ?root 0 (gs ! k)"
  have es: "es = (if mode (pgs ! k) = Chained then ?g else map (set_current_state (roots ! k)) ?g)"
    using assms(1-3,5) by (simp add: group_results_nth)
  have keep: "map (without_deltas \<circ> set_current_state (roots ! k)) ?g = map without_deltas ?g"
    by (rule map_cong [OF refl]) (simp add: set_current_state_one(1) [OF group_result_one])
  show "map without_deltas es = map without_deltas (gs ! k)" unfolding es using keep by simp
  show "chained (roots ! k) es (roots ! Suc k)" if "mode (pgs ! k) = Chained"
    using that chained_group_result [of ?root 0 "RollupId (ucast rollup)" "gs ! k"] assms(4)
    by (simp add: es entry_root_ends)
  show "map current_state (state_deltas e) = [roots ! k]" if "mode (pgs ! k) \<noteq> Chained" "e \<in> set es"
    using that by (auto simp: es set_current_state_one(2) [OF group_result_one])
qed

text \<open>
  C16: the deltas with which a block's entries go to L1. When the groups of the queue are in order
  and there is one root more than groups, finalizing a block does not panic: the clean root is
  the first root, hashes, actions and ether deltas stay, a chained group leads from its root to
  the next one, and every entry of an independent group starts from the root before the group.
  When the roots cannot be computed, the queue is dropped and the block counts as clean.
\<close>

theorem finalized_entries:
  assumes "partitioned q gs" and "\<forall>g \<in> set gs. g \<noteq> []" and "gs \<noteq> []"
    and "rpc_entries \<noteq> [] \<or> (\<exists>g \<in> set (pq_groups q). trigger g \<noteq> None)"
  shows "case compute_intermediate_roots X sig (cross_chain_manager_address c) (saturating_sub n 1) ts info
      (built_state_root built) (encoded_transactions built) of
      Inl _ \<Rightarrow> finalize_block_entries X A sig c n ts info built rpc_entries q =
        Inr (CleanStateRoot (built_state_root built), [], clear_pending q)
    | Inr roots \<Rightarrow> length roots = length gs + 1 \<longrightarrow>
        (\<exists>ess. finalize_block_entries X A sig c n ts info built rpc_entries q =
             Inr (CleanStateRoot (hd roots), roots, q\<lparr>pq_entries := concat ess\<rparr>) \<and>
           length ess = length gs \<and>
           (\<forall>k < length gs. map without_deltas (ess ! k) = map without_deltas (gs ! k) \<and>
              (mode (pq_groups q ! k) = Chained \<longrightarrow> chained (roots ! k) (ess ! k) (roots ! Suc k)) \<and>
              (mode (pq_groups q ! k) \<noteq> Chained \<longrightarrow>
                 (\<forall>e \<in> set (ess ! k). map current_state (state_deltas e) = [roots ! k]))))"
proof (cases "compute_intermediate_roots X sig (cross_chain_manager_address c) (saturating_sub n 1) ts info
      (built_state_root built) (encoded_transactions built)")
  case (Inl err)
  then show ?thesis
    using assms(4) by (auto simp: finalize_block_entries_def attach_deltas_def pending_is_empty_def clear_pending_def)
next
  case (Inr roots)
  let ?ess = "final_groups A (cfg_rollup_id c) roots (pq_groups q) gs"
  have ng: "length (pq_groups q) = length gs"
    using assms(1) by (simp add: partitioned_def starts_def) (metis length_map length_starts_of)
  show ?thesis
  proof (cases "length roots = length gs + 1")
    case len: True
    have fin: "finalize_block_entries X A sig c n ts info built rpc_entries q =
        Inr (CleanStateRoot (hd roots), roots, q\<lparr>pq_entries := concat ?ess\<rparr>)"
      using Inr assms(4) attach_deltas_result [OF assms(1-3) len, of A "cfg_rollup_id c"]
      by (auto simp: finalize_block_entries_def)
    have "gs ! k \<noteq> []" if "k < length gs" for k using assms(2) that by auto
    then show ?thesis using Inr fin ng final_group [OF len ng _ _ refl] by (auto intro!: exI [of _ ?ess])
  qed (simp add: Inr)
qed

text \<open>
  C17: what a failed build costs. The rollback of a drain puts the calls of the RPC queues back, but
  neither the entries that the tick fetched from L1 nor the cursor that the fetch moved: until
  that cursor is rolled back, fetching again up to the same L1 block finds nothing, whatever
  was found the first time.
\<close>

theorem failed_build_forgets_fetched_entries:
  assumes "fetch_entries W up_to b = (Inr es, b1)" and "es \<noteq> []"
    and "up_to - max (builder_execution_l1_block (derivation (drv b))) (last_execution_l1_block (derivation (drv b))) \<le> MAX_LOG_RANGE"
    and "derivation (drv b2) = derivation (drv b1)"
  shows "fst (fetch_entries W up_to (abandon_build dr b2)) = Inr []"
proof -
  let ?p = "derivation (drv b)"
  let ?m = "max (builder_execution_l1_block ?p) (last_execution_l1_block ?p)"
  have d: "derivation (drv (abandon_build dr b2)) = derivation (drv b2)"
    by (simp add: abandon_build_def of_queues_def set_pending_l1_def Let_def)
  have lt: "?m < up_to" and moved: "derivation (drv b1) = ?p\<lparr>builder_execution_l1_block :=
      min up_to (saturating_add (saturating_add ?m 1) (MAX_LOG_RANGE - 1))\<rparr>"
    using assms(1,2)
    by (auto simp: fetch_entries_def fetch_execution_entries_for_builder_def upd_derivation_def Let_def not_le
        split: if_splits sum.splits)
  have "up_to \<le> saturating_add (saturating_add ?m 1) (MAX_LOG_RANGE - 1)"
    using assms(3) lt unat_u64_lt [of up_to]
    by (simp add: word_le_nat_alt word_less_nat_alt unat_saturating_add unat_sub MAX_LOG_RANGE_def le_diff_conv)
  then have "builder_execution_l1_block (derivation (drv b2)) = up_to"
    using moved assms(4) by (simp add: min_absorb1)
  then show ?thesis
    using d by (simp add: fetch_entries_def fetch_execution_entries_for_builder_def)
qed

section \<open>The calls of the RPC queue through the loop\<close>

lemma refresh_calls: "refresh_l1 W ls b = (ls', b') \<Longrightarrow> bl_calls b' = bl_calls b"
  by (auto simp: refresh_l1_def fetch_entries_def upd_derivation_def Let_def
      split: if_splits option.splits sum.splits prod.splits)

lemma after_build_calls: "after_build W n ts txs rs built h ls b = Inr (go, ls', b') \<Longrightarrow>
    bl_calls b' = bl_calls b \<and> (go \<or> recovery_pending (drv b'))"
  by (auto simp: after_build_def catchup_flush_def queue_block_def journal_block_def set_pending_l1_def flush_def Let_def
      split: sum.splits prod.splits if_splits)

lemma insert_calls: "insert_block W n ts info txs b e = (r, b', e') \<Longrightarrow> bl_calls b' = bl_calls b"
  by (auto simp: insert_block_def Let_def split: prod.splits)

text \<open>Why the loop stops early: a failed build, or a flush inside the loop that calls for a recovery.\<close>

definition stopped_by :: "queue_drain_result \<Rightarrow> queued_cross_chain_call list \<Rightarrow> 'tx builder \<Rightarrow> bool" where
  "stopped_by dr calls b \<longleftrightarrow> (\<exists>b3. b = abandon_build dr b3 \<and> bl_calls b3 = calls) \<or> recovery_pending (drv b) \<and> bl_calls b = calls"

lemma build_one_calls:
  assumes "build_one W target dr ls b e = (Inr go, ls', b', e')"
  shows "if go then bl_calls b' = bl_calls b else stopped_by dr (bl_calls b) b'"
proof -
  obtain ls1 b1 where r: "refresh_l1 W ls b = (ls1, b1)" by fastforce
  obtain n ts es rpc ls2 where run: "build_block W n ts dr es rpc ls2 b1 e = (Inr go, ls', b', e')"
    using assms r by (auto simp: build_one_def Let_def split: option.splits prod.splits)
  have "if go then bl_calls b' = bl_calls b1 else stopped_by dr (bl_calls b1) b'"
    using run by (auto simp: build_block_def Let_def stopped_by_def dest!: after_build_calls insert_calls
        split: prod.splits sum.splits)
  then show ?thesis unfolding refresh_calls [OF r] .
qed

lemma builder_loop_calls:
  assumes "builder_loop W target dr ls b e = (Inr go, ls', b', e')"
  shows "if go then bl_calls b' = bl_calls b else stopped_by dr (bl_calls b) b'"
  using assms
proof (induction W target dr ls b e rule: builder_loop.induct)
  case (1 W target dr ls b e)
  obtain r1 ls1 b1 e1 where one: "build_one W target dr ls b e = (r1, ls1, b1, e1)" by (metis prod_cases4)
  consider "\<not> l2_head_number (drv_head (drv b)) < target" | "l2_head_number (drv_head (drv b)) < target" "r1 \<noteq> Inr True"
    | "l2_head_number (drv_head (drv b)) < target" "r1 = Inr True" by blast
  then show ?case
  proof cases
    case 3
    have "builder_loop W target dr ls1 b1 e1 = (Inr go, ls', b', e')"
      using "1.prems" one 3 by (simp add: builder_loop.simps [of W target dr ls b e])
    from "1.IH" [OF 3(1) one [symmetric] refl refl 3(2) this] build_one_calls one 3(2) show ?thesis by fastforce
  qed (use "1.prems" one build_one_calls in \<open>fastforce simp: builder_loop.simps [of W target dr ls b e]\<close>)+
qed

section \<open>A small world\<close>

definition tick_world :: "(nat, 8 word, unit, unit) world" where
  "tick_world = \<lparr>w_abi = hash_by_value, w_decoders = toy_decoders, w_l1_node = toy_node [], w_engine = noop_engine,
     w_payload = (\<lambda>_. ()), w_exec = (\<lambda>_. toy_executor), w_env = (\<lambda>_ _. toy_env), w_config = toy_builder,
     w_bundle_path = True, w_sig = 1, w_headers = (\<lambda>_. Inr None), w_l1_number = (\<lambda>_. None), w_l1_hash = (\<lambda>_. Inr (Some 4)),
     w_posted_logs = (\<lambda>_ _. Inr []), w_dec_posted = (\<lambda>_. None), w_flush_env = (\<lambda>_ _. toy_l1\<lparr>env_cooling_down := True\<rparr>),
     w_bid = (\<lambda>_. None), w_overflow_checks = False, w_selectors = [], w_db_ok = True\<rparr>"

definition tick_builder :: "8 word builder" where
  "tick_builder = \<lparr>bl_node = \<lparr>nd_driver = toy_driver\<lparr>drv_head := toy_head\<lparr>l2_head_number := 4\<rparr>, drv_hold := Clear,
        derivation := (new_pipeline toy_config)\<lparr>last_processed_l1_block := 5\<rparr>\<rparr>,
      nd_journal = \<lparr>tx_journal = [], pending_reinjection = [], js_db = None\<rparr>, nd_stages = Map.empty,
      nd_submission_failed = False, nd_trace = []\<rparr>, bl_nonce = 0, bl_calls = [], bl_l2_calls = []\<rparr>"

lemma tick_context: "compute_tick_context tick_world 5 (drv tick_builder) =
    Inr (Some \<lparr>effective_target = 5, current_l1 = \<lparr>info_number = 5, info_hash = 4\<rparr>\<rparr>)"
  by (simp add: compute_tick_context_def tick_world_def tick_builder_def drv_def toy_builder_def toy_driver_def toy_head_def
      effective_target_of_def l2_block_number_of_def saturating_sub_def saturating_add_def MAX_CATCHUP_BLOCKS_def
      BUNDLE_PATH_PENDING_CAP_def REORG_SAFETY_THRESHOLD_def is_blocking_build_def Let_def min_def)

theorem tick_target_bounds_witness:
  "unat (5 :: u64) - unat (l2_head_number (drv_head (drv tick_builder))) \<le> 10000"
  using tick_target_bounds [OF tick_context] by simp

theorem bundle_backlog_bounded_witness:
  "waiting (drv (fst (snd (step_builder tick_world 5 tick_builder ())))) < 48"
proof -
  obtain r b' e' where run: "step_builder tick_world 5 tick_builder () = (r, b', e')" by (metis prod_cases3)
  have "waiting (drv tick_builder) < unat REORG_SAFETY_THRESHOLD"
    by (simp add: tick_builder_def drv_def toy_driver_def REORG_SAFETY_THRESHOLD_def)
  from bundle_backlog_bounded [OF _ run this] run show ?thesis by (simp add: tick_world_def REORG_SAFETY_THRESHOLD_def)
qed

definition waiting_deposit :: build_loop where
  "waiting_deposit = \<lparr>lp_l1 = \<lparr>info_number = 5, info_hash = 4\<rparr>, lp_entries = deposit_entries, lp_rpc_count = 0,
     lp_since_refresh = 0, lp_in_batch = 0\<rparr>"

definition no_drain :: queue_drain_result where
  "no_drain = \<lparr>builder_execution_entries = [], rpc_entry_count = 0, queued_l1_txs = [], held_l2_txs = [],
     pre_drain_l1_len = 0, pre_drain_l1_groups = 0, calls_for_repush = [], l2_to_l1_for_repush = []\<rparr>"

lemma tick_refresh: "refresh_l1 tick_world waiting_deposit tick_builder = (waiting_deposit\<lparr>lp_since_refresh := 1\<rparr>, tick_builder)"
  by (simp add: refresh_l1_def waiting_deposit_def saturating_add_def L1_REFRESH_INTERVAL_def)

lemma toy_exec_total: "\<exists>s'. exec_loop toy_executor s txs = Inr s'"
  by (induction txs arbitrary: s) (simp_all add: toy_executor_def)

lemma toy_build_total: "\<exists>built. build_derived_block toy_executor parent ts info txs = Inr built"
proof -
  obtain s' where "exec_loop toy_executor 0 txs = Inr s'" using toy_exec_total by blast
  then have "\<exists>blk. execute_block toy_executor parent ts info txs = Inr blk"
    by (cases txs) (simp_all add: execute_block_def toy_executor_def)
  then show ?thesis by (auto simp: build_derived_block_def)
qed

lemma tick_insert: "\<exists>built b2. insert_block tick_world 5 ts info txs (tick_builder\<lparr>bl_nonce := k\<rparr>) () = (Inr built, b2, ())"
proof -
  obtain built where "build_derived_block toy_executor 4 ts info txs = Inr built" using toy_build_total by blast
  then show ?thesis
    by (simp add: insert_block_def build_and_insert_block_def tick_world_def tick_builder_def drv_def noop_new_payload
        update_fork_choice_def noop_engine_accepts saturating_add_def Let_def)
qed

lemma tick_after_build:
  assumes "queues (drv b) = queues toy_driver"
  shows "\<exists>ls' b'. after_build tick_world n ts txs [] built h (waiting_deposit\<lparr>lp_entries := [], lp_since_refresh := 1\<rparr>) b = Inr (True, ls', b')"
  using assms
  by (simp add: after_build_def finalize_block_entries_def attach_deltas_def queue_block_def set_pending_l1_def catchup_flush_def
      toy_driver_def trim_entries_from_front_def empty_pending_def waiting_deposit_def MAX_PENDING_SUBMISSIONS_def MAX_BATCH_SIZE_def Let_def)

lemma tick_iteration: "\<exists>ls' b'. iteration tick_world 5 no_drain (waiting_deposit, tick_builder, ()) (ls', b', ())"
proof -
  have w: "w_env tick_world h l = toy_env" "w_config tick_world = toy_builder" for h l by (simp_all add: tick_world_def)
  have n: "bl_nonce tick_builder = 0" "saturating_add (l2_head_number (drv_head (drv tick_builder))) 1 = 5"
    by (simp_all add: tick_builder_def drv_def saturating_add_def)
  have take: "take_entries 5 5 (waiting_deposit\<lparr>lp_since_refresh := 1\<rparr>) =
      (deposit_entries, [], waiting_deposit\<lparr>lp_entries := [], lp_since_refresh := 1\<rparr>)"
    by (simp add: take_entries_def assigns_entries_def waiting_deposit_def)
  have "\<exists>ls' b'. build_one tick_world 5 no_drain waiting_deposit tick_builder () = (Inr True, ls', b', ())"
  proof -
    obtain built b2 where i: "insert_block tick_world 5 6 \<lparr>info_number = 5, info_hash = 4\<rparr> [1, 1, 10] (tick_builder\<lparr>bl_nonce := 3\<rparr>) () =
        (Inr built, b2, ())" using tick_insert by blast
    then have "queues (drv b2) = queues toy_driver" using waiting_insert [OF i] by (simp add: tick_builder_def drv_def)
    from tick_after_build [OF this] obtain ls' b' where
      "after_build tick_world 5 6 [1, 1, 10] [] built (head_hash (drv_head (drv tick_builder)))
         (waiting_deposit\<lparr>lp_entries := [], lp_since_refresh := 1\<rparr>) b2 = Inr (True, ls', b')" by blast
    moreover have "l2_timestamp_checked (rollup_config.truncate toy_builder) 5 = Some 6"
      by (simp add: l2_timestamp_checked_def toy_builder_def rollup_config.truncate_def checked_add_def checked_mul_def)
    ultimately show ?thesis using i
      by (simp add: build_one_def tick_refresh n w take)
        (simp add: build_block_def n w toy_build waiting_deposit_def)
  qed
  moreover have "l2_head_number (drv_head (drv tick_builder)) < 5" by (simp add: tick_builder_def drv_def)
  ultimately show ?thesis by (meson iteration.intros)
qed


theorem finalized_entries_witness:
  "\<exists>ess. finalize_block_entries toy_executor hash_by_value 1 (toy_builder\<lparr>cross_chain_manager_address := 2\<rparr>) 1 12
      \<lparr>info_number = 3, info_hash = 4\<rparr>
      \<lparr>built_hash = 0, pre_state_root = 0, built_state_root = 61, tx_count = 0, encoded_transactions = [1, 10, 20, 30]\<rparr>
      [sample_entry]
      (append_groups [([sample_entry], Chained, None), ([sample_entry, sample_entry], Independent, None), ([sample_entry], Chained, None)]
        empty_pending) =
    Inr (CleanStateRoot 1, [1, 11, 31, 61],
      \<lparr>pq_entries = concat ess, pq_groups = [\<lparr>start = 0, mode = Chained, trigger = None\<rparr>,
         \<lparr>start = 1, mode = Independent, trigger = None\<rparr>, \<lparr>start = 3, mode = Chained, trigger = None\<rparr>]\<rparr>) \<and>
    chained 1 (ess ! 0) 11 \<and> (\<forall>e \<in> set (ess ! 1). map current_state (state_deltas e) = [11]) \<and> chained 31 (ess ! 2) 61"
proof -
  let ?q = "append_groups [([sample_entry], Chained, None), ([sample_entry, sample_entry], Independent, None), ([sample_entry], Chained, None)]
        empty_pending"
  let ?gs = "[[sample_entry], [sample_entry, sample_entry], [sample_entry]]"
  let ?built = "\<lparr>built_hash = 0, pre_state_root = 0, built_state_root = 61, tx_count = 0, encoded_transactions = [1, 10, 20, 30]\<rparr>"
  have p: "partitioned ?q ?gs" using partitioned_append_groups [OF partitioned_empty, of "[([sample_entry], Chained, None),
      ([sample_entry, sample_entry], Independent, None), ([sample_entry], Chained, None)]"] by simp
  have q: "?q = \<lparr>pq_entries = concat ?gs, pq_groups = [\<lparr>start = 0, mode = Chained, trigger = None\<rparr>,
         \<lparr>start = 1, mode = Independent, trigger = None\<rparr>, \<lparr>start = 3, mode = Chained, trigger = None\<rparr>]\<rparr>"
    by (simp add: append_group_def empty_pending_def)
  have roots: "compute_intermediate_roots toy_executor 1 2 (saturating_sub 1 1) 12 \<lparr>info_number = 3, info_hash = 4\<rparr> 61 [1, 10, 20, 30] =
      Inr [1, 11, 31, 61]"
    by (simp add: toy_executor_def compute_intermediate_roots_def trial_execute_for_receipts_def identify_trigger_tx_indices_def
        emits_consumed_def filter_block_by_trigger_prefix_def filter_txs_def compute_state_root_with_entries_def execute_block_def)
  from finalized_entries [OF p, where rpc_entries = "[sample_entry]" and X = toy_executor and sig = 1 and
      c = "toy_builder\<lparr>cross_chain_manager_address := 2\<rparr>" and n = 1 and ts = 12 and
      info = "\<lparr>info_number = 3, info_hash = 4\<rparr>" and built = ?built and A = hash_by_value] roots
  obtain ess where "finalize_block_entries toy_executor hash_by_value 1 (toy_builder\<lparr>cross_chain_manager_address := 2\<rparr>) 1 12
      \<lparr>info_number = 3, info_hash = 4\<rparr> ?built [sample_entry] ?q = Inr (CleanStateRoot 1, [1, 11, 31, 61], ?q\<lparr>pq_entries := concat ess\<rparr>)"
    and "\<forall>k < 3. (mode (pq_groups ?q ! k) = Chained \<longrightarrow> chained ([1, 11, 31, 61] ! k) (ess ! k) ([1, 11, 31, 61] ! Suc k)) \<and>
      (mode (pq_groups ?q ! k) \<noteq> Chained \<longrightarrow> (\<forall>e \<in> set (ess ! k). map current_state (state_deltas e) = [[1, 11, 31, 61] ! k]))"
    by (auto simp: numeral_3_eq_3)
  then show ?thesis unfolding q by (intro exI [of _ ess]) (auto simp: numeral_3_eq_3 numeral_2_eq_2 All_less_Suc)
qed

definition posting_world :: "(nat, 8 word, unit, unit) world" where
  "posting_world = tick_world\<lparr>w_posted_logs := (\<lambda>_ _. Inr [(Some 3, \<lparr>log_address = 9, topics = [], log_data = []\<rparr>)]),
     w_dec_posted := (\<lambda>_. Some [entry_to_sol sample_entry])\<rparr>"

definition posting_builder :: "8 word builder" where
  "posting_builder = upd_derivation (\<lambda>_. new_pipeline (toy_config\<lparr>rollups_address := 9\<rparr>)) tick_builder"

theorem failed_build_forgets_fetched_entries_witness:
  "\<exists>es b1. fetch_entries posting_world 5 posting_builder = (Inr es, b1) \<and> es \<noteq> [] \<and>
     fst (fetch_entries posting_world 5 (abandon_build \<lparr>builder_execution_entries = es, rpc_entry_count = 0, queued_l1_txs = [],
       held_l2_txs = [], pre_drain_l1_len = 0, pre_drain_l1_groups = 0, calls_for_repush = [], l2_to_l1_for_repush = []\<rparr> b1)) = Inr []"
proof -
  have "relevant_entry 1 (entry_to_sol sample_entry)"
    by (simp add: relevant_entry_def entry_to_sol_def delta_to_sol_def sample_entry_def)
  then obtain es b1 where f: "fetch_entries posting_world 5 posting_builder = (Inr es, b1)" and ne: "es \<noteq> []"
    by (simp add: List.map_filter_simps en.dec_enc fetch_entries_def posting_world_def posting_builder_def tick_world_def upd_derivation_def
        fetch_execution_entries_for_builder_def new_pipeline_def toy_config_def Let_def parse_batch_posted_logs_def)
  show ?thesis
    using failed_build_forgets_fetched_entries [OF f ne _ refl] f ne
    by (auto simp: posting_builder_def upd_derivation_def new_pipeline_def toy_config_def MAX_LOG_RANGE_def)
qed

end
