(* ===== verification/Table_Builder.thy ===== *)
theory Table_Builder
  imports Call_Entries
begin

text \<open>
  The continuation tables (\<open>table_builder.rs\<close>): from the cross-chain calls that the composer
  detected in a transaction to the entries loaded into the L2 table and posted to L1, in both
  directions, with reentrant calls, return calls and partial reverts. The two recursive
  helpers follow the parent links of the detected calls; in the model they take fuel.
\<close>

section \<open>Detected calls\<close>

datatype call_direction = L1ToL2 | L2ToL1

record detected_call =
  dc_direction :: call_direction
  dc_action :: cross_chain_action
  dc_parent :: parent_link
  dc_is_continuation :: bool
  dc_depth :: nat
  dc_delivery_return_data :: bytes
  dc_l2_return_data :: bytes
  dc_l2_delivery_failed :: bool
  dc_scope :: scope_path
  dc_iteration :: nat
  dc_in_reverted_frame :: bool

record continuation_entries =
  ce_l2 :: "cross_chain_execution_entry list"
  ce_l1 :: "cross_chain_execution_entry list"
  ce_mode :: entry_group_mode

definition result_void :: "rollup_id \<Rightarrow> cross_chain_action" where
  "result_void rid = result_action rid [] False"

text \<open>The RESULT of a call: void when it returned nothing and did not fail.\<close>

definition result_of :: "rollup_id \<Rightarrow> bytes \<Rightarrow> bool \<Rightarrow> cross_chain_action" where
  "result_of rid data flag = (if data = [] \<and> \<not> flag then result_void rid else result_action rid data flag)"

definition l2_result :: "rollup_id \<Rightarrow> detected_call \<Rightarrow> cross_chain_action" where
  "l2_result our c = result_of our (dc_l2_return_data c) (dc_l2_delivery_failed c)"

definition delivery_result :: "rollup_id \<Rightarrow> detected_call \<Rightarrow> cross_chain_action" where
  "delivery_result rid c = result_of rid (dc_delivery_return_data c) (dc_l2_delivery_failed c)"

abbreviation plain_entry :: "action_hash \<Rightarrow> cross_chain_action \<Rightarrow> cross_chain_execution_entry" where
  "plain_entry h a \<equiv> \<lparr>state_deltas = [], action_hash = h, next_action = a\<rparr>"

section \<open>Calls with their positions\<close>

definition indexed :: "(detected_call \<Rightarrow> bool) \<Rightarrow> detected_call list \<Rightarrow> (nat \<times> detected_call) list" where
  "indexed P calls = filter (\<lambda>(i, c). P c) (enumerate 0 calls)"

definition find_children :: "detected_call list \<Rightarrow> nat \<Rightarrow> (nat \<times> detected_call) list" where
  "find_children detected parent_idx = indexed (\<lambda>c. dc_parent c = Child (AbsoluteCallIndex parent_idx)) detected"

definition l1_children :: "detected_call list \<Rightarrow> nat \<Rightarrow> (nat \<times> detected_call) list" where
  "l1_children calls idx = indexed (\<lambda>c. dc_parent c = Child (AbsoluteCallIndex idx) \<and> dc_direction c = L2ToL1) calls"

definition l1_to_l2_calls :: "detected_call list \<Rightarrow> (nat \<times> detected_call) list" where
  "l1_to_l2_calls calls = indexed (\<lambda>c. dc_direction c = L1ToL2) calls"

section \<open>Ordering for the consumption on chain\<close>

definition same_hash :: "action_hash \<Rightarrow> cross_chain_execution_entry list \<Rightarrow> cross_chain_execution_entry list" where
  "same_hash h es = filter (\<lambda>e. action_hash e = h) es"

definition multi_group_hashes :: "cross_chain_execution_entry list \<Rightarrow> action_hash list" where
  "multi_group_hashes es = sort_key hash_as_b256
     (filter (\<lambda>h. length (same_hash h es) \<ge> 2) (remdups (map action_hash es)))"

fun reorder_group :: "cross_chain_execution_entry list \<Rightarrow> cross_chain_execution_entry list" where
  "reorder_group [] = []"
| "reorder_group (e # es) = (if length (e # es) \<ge> 3 then e # rev es else e # es)"

definition reorder_for_swap_and_pop :: "cross_chain_execution_entry list \<Rightarrow> cross_chain_execution_entry list" where
  "reorder_for_swap_and_pop es =
     (if \<exists>e \<in> set es. length (same_hash (action_hash e) es) \<ge> 3
      then concat (map (\<lambda>h. reorder_group (same_hash h es)) (multi_group_hashes es)) @
           filter (\<lambda>e. length (same_hash (action_hash e) es) = 1) es
      else es)"

section \<open>From L1 to L2\<close>

definition has_partial_revert :: "detected_call list \<Rightarrow> bool" where
  "has_partial_revert calls \<longleftrightarrow>
     (let cs = l1_to_l2_calls calls in
      (\<exists>(i, c) \<in> set cs. dc_in_reverted_frame c) \<and> (\<exists>(i, c) \<in> set cs. \<not> dc_in_reverted_frame c) \<and>
      \<not> (\<exists>(i, c) \<in> set cs. l1_children calls i \<noteq> []))"

definition is_reentrant :: "detected_call list \<Rightarrow> bool" where
  "is_reentrant calls \<longleftrightarrow>
     (let cs = l1_to_l2_calls calls in length cs > 1 \<and> successively (<) (map (dc_depth \<circ> snd) cs))"

text \<open>The reentrant model: all child entries, then the results from the innermost level outwards.\<close>

fun reentrant_children :: "abi \<Rightarrow> rollup_id \<Rightarrow> detected_call list \<Rightarrow> (nat \<times> detected_call) list
    \<Rightarrow> cross_chain_execution_entry list" where
  "reentrant_children A our calls [] = []"
| "reentrant_children A our calls ((i, c) # rest) =
     map (\<lambda>(_, child). plain_entry (hash_of A (dc_action child))
         (case rest of
            (_, next) # _ \<Rightarrow>
              \<lparr>action_type = Call, rollup_id = our, destination = destination (dc_action next),
               call_value = call_value (dc_action next), call_data = call_data (dc_action next), failed = False,
               source_address = source_address (dc_action next), source_rollup = MAINNET, scope = from_index 0\<rparr>
          | [] \<Rightarrow> delivery_result MAINNET child)) (l1_children calls i)
     @ reentrant_children A our calls rest"

fun reentrant_results :: "abi \<Rightarrow> rollup_id \<Rightarrow> detected_call list \<Rightarrow> nat option \<Rightarrow> (nat \<times> detected_call) list
    \<Rightarrow> cross_chain_execution_entry list" where
  "reentrant_results A our calls outer [] = []"
| "reentrant_results A our calls outer ((i, c) # rest) =
     reentrant_results A our calls (Some i) rest @
     [plain_entry (hash_of A (l2_result our c))
        (case outer of
           None \<Rightarrow> l2_result our c
         | Some j \<Rightarrow>
             (case l1_children calls j of
                (_, child) # _ \<Rightarrow> delivery_result MAINNET child
              | [] \<Rightarrow> result_void our))]"

text \<open>The continuation model: the children of a call, then the link from its result to the next call.\<close>

fun continuation_l2 :: "abi \<Rightarrow> rollup_id \<Rightarrow> detected_call list \<Rightarrow> (nat \<times> detected_call) list
    \<Rightarrow> cross_chain_execution_entry list" where
  "continuation_l2 A our calls [] = []"
| "continuation_l2 A our calls ((i, c) # rest) =
     map (\<lambda>(_, child). plain_entry (hash_of A (dc_action child)) (delivery_result MAINNET child)) (l1_children calls i)
     @ plain_entry (hash_of A (l2_result our c)) (case rest of [] \<Rightarrow> l2_result our c | (_, next) # _ \<Rightarrow> dc_action next)
     # continuation_l2 A our calls rest"

definition insert_after :: "nat \<Rightarrow> 'a \<Rightarrow> 'a list \<Rightarrow> 'a list" where
  "insert_after idx x xs = take (Suc idx) xs @ x # drop (Suc idx) xs"

definition void_last :: "cross_chain_execution_entry list \<Rightarrow> cross_chain_execution_entry list" where
  "void_last es =
     (if es \<noteq> [] \<and> action_type (next_action (last es)) = Result
      then butlast es @ [(last es)\<lparr>next_action := (next_action (last es))\<lparr>call_data := []\<rparr>\<rparr>]
      else es)"

definition insert_l2_revert :: "abi \<Rightarrow> rollup_id \<Rightarrow> (nat \<times> detected_call) list \<Rightarrow> cross_chain_execution_entry list
    \<Rightarrow> cross_chain_execution_entry list" where
  "insert_l2_revert A our cs es =
     (case position (\<lambda>(_, c). \<not> dc_in_reverted_frame c) cs of
        None \<Rightarrow> es
      | Some non_rev_pos \<Rightarrow>
          let first = dc_action (snd (cs ! non_rev_pos)) in
          (case position (\<lambda>e. action_type (next_action e) = Call \<and> destination (next_action e) = destination first \<and>
                call_data (next_action e) = call_data first \<and> source_address (next_action e) = source_address first) es of
             None \<Rightarrow> es
           | Some idx \<Rightarrow>
               let first_reverted = (case position (\<lambda>(_, c). dc_in_reverted_frame c) cs of None \<Rightarrow> 0 | Some p \<Rightarrow> p);
                   continuation_call = next_action (es ! idx);
                   es' = es[idx := (es ! idx)\<lparr>next_action := revert_action our (from_index (of_nat first_reverted))\<rparr>]
               in void_last (insert_after idx
                    (plain_entry (compute_revert_continue_hash A our)
                      (continuation_call\<lparr>scope := from_index (of_nat non_rev_pos)\<rparr>)) es')))"

text \<open>The entries on L1: one per call, with its value, and one per child for the way back.\<close>

definition call_ether_delta :: "u256 \<Rightarrow> i256" where
  "call_ether_delta v = (if v = 0 then 0 else i256_from_u256 v)"

definition call_entry :: "abi \<Rightarrow> rollup_id \<Rightarrow> detected_call list \<Rightarrow> nat \<times> detected_call \<Rightarrow> cross_chain_execution_entry" where
  "call_entry A our calls ic =
     (case ic of (i, c) \<Rightarrow>
       \<lparr>state_deltas = [zero_delta our (call_ether_delta (call_value (dc_action c)))],
        action_hash = hash_of A (dc_action c),
        next_action = (case l1_children calls i of
            [] \<Rightarrow> l2_result our c
          | (_, child) # _ \<Rightarrow> (dc_action child)\<lparr>scope :=
              if as_slice (dc_scope child) = [] then from_index 0 else dc_scope child\<rparr>)\<rparr>)"

definition resolution_entries :: "abi \<Rightarrow> rollup_id \<Rightarrow> detected_call list \<Rightarrow> nat \<times> detected_call
    \<Rightarrow> cross_chain_execution_entry list" where
  "resolution_entries A our calls ic =
     (case ic of (i, c) \<Rightarrow>
       map (\<lambda>(_, child). plain_entry (hash_of A (delivery_result (rollup_id (dc_action child)) child)) (l2_result our c))
         (l1_children calls i))"

definition build_continuation_entries :: "abi \<Rightarrow> detected_call list \<Rightarrow> rollup_id \<Rightarrow> continuation_entries" where
  "build_continuation_entries A calls our =
     (if calls = [] then \<lparr>ce_l2 = [], ce_l1 = [], ce_mode = Chained\<rparr>
      else
        let cs = l1_to_l2_calls calls;
            l2 = (if is_reentrant calls then reentrant_children A our calls cs @ reentrant_results A our calls None cs
              else continuation_l2 A our calls cs);
            l2' = (if has_partial_revert calls \<and> l2 \<noteq> [] then insert_l2_revert A our cs l2 else l2);
            l1 = (if is_reentrant calls
              then map (call_entry A our calls) cs @ concat (map (resolution_entries A our calls) (rev cs))
              else concat (map (\<lambda>ic. call_entry A our calls ic # resolution_entries A our calls ic) cs))
        in \<lparr>ce_l2 = reorder_for_swap_and_pop l2', ce_l1 = l1, ce_mode = mode_from_bool (has_partial_revert calls)\<rparr>)"

section \<open>From the raw calls of the L1 composer\<close>

record l1_detected_call =
  lc_destination :: address
  lc_data :: bytes
  lc_value :: u256
  lc_source_address :: address
  lc_l2_return_data :: bytes
  lc_call_success :: bool
  lc_parent :: parent_link
  lc_target_rollup_id :: "u64 option"
  lc_scope :: scope_path
  lc_iteration :: nat
  lc_l1_trace_depth :: nat
  lc_in_reverted_frame :: bool

definition default_call_success :: bool where
  "default_call_success = True"

definition is_l2_to_l1_child :: "l1_detected_call \<Rightarrow> bool" where
  "is_l2_to_l1_child c \<longleftrightarrow> lc_target_rollup_id c = Some 0 \<and> lc_parent c \<noteq> Root"

definition raw_action :: "rollup_id \<Rightarrow> rollup_id \<Rightarrow> address \<Rightarrow> u256 \<Rightarrow> bytes \<Rightarrow> address \<Rightarrow> cross_chain_action" where
  "raw_action target source_rid dest v data src =
     \<lparr>action_type = Call, rollup_id = target, destination = dest, call_value = v, call_data = data, failed = False,
      source_address = src, source_rollup = source_rid, scope = scope_root\<rparr>"

text \<open>\<open>n\<close>: the L1-to-L2 calls so far.\<close>

fun analyze_calls :: "rollup_id \<Rightarrow> nat \<Rightarrow> l1_detected_call list \<Rightarrow> detected_call list" where
  "analyze_calls our n [] = []"
| "analyze_calls our n (c # cs) =
     (if is_l2_to_l1_child c then
        \<lparr>dc_direction = L2ToL1,
         dc_action = raw_action MAINNET our (lc_destination c) (lc_value c) (lc_data c) (lc_source_address c),
         dc_parent = lc_parent c, dc_is_continuation = False, dc_depth = 1,
         dc_delivery_return_data = lc_l2_return_data c, dc_l2_return_data = [],
         dc_l2_delivery_failed = (\<not> lc_call_success c), dc_scope = lc_scope c, dc_iteration = lc_iteration c,
         dc_in_reverted_frame = lc_in_reverted_frame c\<rparr> # analyze_calls our n cs
      else
        \<lparr>dc_direction = L1ToL2,
         dc_action = raw_action our MAINNET (lc_destination c) (lc_value c) (lc_data c) (lc_source_address c),
         dc_parent = Root, dc_is_continuation = (n > 0), dc_depth = lc_l1_trace_depth c,
         dc_delivery_return_data = [], dc_l2_return_data = lc_l2_return_data c,
         dc_l2_delivery_failed = (\<not> lc_call_success c), dc_scope = scope_root, dc_iteration = lc_iteration c,
         dc_in_reverted_frame = lc_in_reverted_frame c\<rparr> # analyze_calls our (Suc n) cs)"

definition analyze_continuation_calls :: "l1_detected_call list \<Rightarrow> u64 \<Rightarrow> detected_call list" where
  "analyze_continuation_calls calls our_rollup_id = analyze_calls (RollupId (ucast our_rollup_id)) 0 calls"

end
