(* ===== verification/Withdrawal_Tables.thy ===== *)
theory Withdrawal_Tables
  imports Table_Builder
begin

text \<open>
  The other direction of \<open>table_builder.rs\<close>: L2 transactions whose calls go to L1
  (\<open>build_l2_to_l1_continuation_entries\<close>), with return calls to any depth. The code's two
  recursive functions descend along parent links without a bound; here they take fuel, and
  \<open>None\<close> is running out of it.
\<close>

section \<open>From the raw calls of the L2 composer\<close>

record l2_detected_call =
  ld_destination :: address
  ld_data :: bytes
  ld_value :: u256
  ld_source_address :: address
  ld_delivery_return_data :: bytes
  ld_delivery_failed :: bool
  ld_scope :: scope_path
  ld_in_reverted_frame :: bool

record l2_return_call =
  rc_destination :: address
  rc_data :: bytes
  rc_value :: u256
  rc_source_address :: address
  rc_parent :: parent_link
  rc_l2_return_data :: bytes
  rc_l2_delivery_failed :: bool
  rc_scope :: scope_path

definition root_call :: "rollup_id \<Rightarrow> nat \<times> l2_detected_call \<Rightarrow> detected_call" where
  "root_call our ic = (case ic of (i, c) \<Rightarrow>
     \<lparr>dc_direction = L2ToL1,
      dc_action = raw_action MAINNET our (ld_destination c) (ld_value c) (ld_data c) (ld_source_address c),
      dc_parent = Root, dc_is_continuation = (i > 0), dc_depth = 0,
      dc_delivery_return_data = ld_delivery_return_data c, dc_l2_return_data = [],
      dc_l2_delivery_failed = ld_delivery_failed c, dc_scope = ld_scope c, dc_iteration = 0,
      dc_in_reverted_frame = ld_in_reverted_frame c\<rparr>)"

definition return_call :: "rollup_id \<Rightarrow> nat \<Rightarrow> l2_return_call \<Rightarrow> detected_call" where
  "return_call our last_idx rc =
     \<lparr>dc_direction = L2ToL1,
      dc_action = raw_action our MAINNET (rc_destination rc) (rc_value rc) (rc_data rc) (rc_source_address rc),
      dc_parent = Child (AbsoluteCallIndex
        (case child_index (rc_parent rc) of None \<Rightarrow> last_idx | Some i \<Rightarrow> index_as_usize i)),
      dc_is_continuation = False, dc_depth = 1,
      dc_delivery_return_data = [], dc_l2_return_data = rc_l2_return_data rc,
      dc_l2_delivery_failed = rc_l2_delivery_failed rc, dc_scope = rc_scope rc, dc_iteration = 0,
      dc_in_reverted_frame = False\<rparr>"

definition analyze_l2_to_l1_continuation_calls :: "l2_detected_call list \<Rightarrow> l2_return_call list \<Rightarrow> u64 \<Rightarrow> detected_call list" where
  "analyze_l2_to_l1_continuation_calls l2_calls return_calls our_rollup_id =
     (if l2_calls = [] then []
      else
        let our = RollupId (ucast our_rollup_id)
        in map (root_call our) (enumerate 0 l2_calls) @ map (return_call our (length l2_calls - 1)) return_calls)"

section \<open>The builder with the mandatory scope return\<close>

record l2_to_l1_continuation_entries =
  wt_l2 :: "cross_chain_execution_entry list"
  wt_l1 :: "cross_chain_execution_entry list"

record continuation_builder =
  cb_l2 :: "cross_chain_execution_entry list"
  cb_l1 :: "cross_chain_execution_entry list"
  cb_scope_return :: "scope_path option"

definition new_builder :: continuation_builder where
  "new_builder = \<lparr>cb_l2 = [], cb_l1 = [], cb_scope_return = None\<rparr>"

definition with_scope_return :: "scope_path \<Rightarrow> continuation_builder \<Rightarrow> continuation_builder" where
  "with_scope_return s b = b\<lparr>cb_scope_return := Some s\<rparr>"

definition add_l2_entry :: "cross_chain_execution_entry \<Rightarrow> continuation_builder \<Rightarrow> continuation_builder" where
  "add_l2_entry e b = b\<lparr>cb_l2 := cb_l2 b @ [e]\<rparr>"

definition add_l1_entry :: "cross_chain_execution_entry \<Rightarrow> continuation_builder \<Rightarrow> continuation_builder" where
  "add_l1_entry e b = b\<lparr>cb_l1 := cb_l1 b @ [e]\<rparr>"

definition with_l2_entries :: "cross_chain_execution_entry list \<Rightarrow> continuation_builder \<Rightarrow> continuation_builder" where
  "with_l2_entries es b = b\<lparr>cb_l2 := es\<rparr>"

definition with_l1_entries :: "cross_chain_execution_entry list \<Rightarrow> continuation_builder \<Rightarrow> continuation_builder" where
  "with_l1_entries es b = b\<lparr>cb_l1 := es\<rparr>"

definition build_entries :: "continuation_builder \<Rightarrow> panic + l2_to_l1_continuation_entries" where
  "build_entries b =
     (if cb_scope_return b = None then Inl AssertionFailed else Inr \<lparr>wt_l2 = cb_l2 b, wt_l1 = cb_l1 b\<rparr>)"

section \<open>The L2 table\<close>

text \<open>A return call into L2 for the child at a position among its siblings.\<close>

definition call_return :: "rollup_id \<Rightarrow> nat \<Rightarrow> detected_call \<Rightarrow> cross_chain_action" where
  "call_return our pos child =
     (case address_pair_for (orientation_from_child (rollup_id (dc_action child)) our)
         (destination (dc_action child)) (source_address (dc_action child)) of
        (dest, src) \<Rightarrow>
          \<lparr>action_type = Call, rollup_id = our, destination = dest, call_value = 0, call_data = call_data (dc_action child),
           failed = False, source_address = src, source_rollup = MAINNET,
           scope = (if as_slice (dc_scope child) = [] then from_index (of_nat pos) else dc_scope child)\<rparr>)"

text \<open>The entries of one call with children, without those of its descendants.\<close>

definition scope_entries :: "abi \<Rightarrow> rollup_id \<Rightarrow> detected_call \<Rightarrow> detected_call list \<Rightarrow> cross_chain_execution_entry list" where
  "scope_entries A our c children =
     plain_entry (hash_of A (dc_action c)) (call_return our 0 (hd children))
     # map (\<lambda>(pos, prev, child). plain_entry (hash_of A (l2_result our prev)) (call_return our pos child))
         (enumerate 1 (zip children (tl children)))
     @ [plain_entry (hash_of A (l2_result our (last children))) (delivery_result MAINNET c)]"

fun generate_l2_entries :: "abi \<Rightarrow> rollup_id \<Rightarrow> detected_call list \<Rightarrow> nat \<Rightarrow> nat \<times> detected_call
    \<Rightarrow> cross_chain_execution_entry list option" where
  "generate_l2_entries A our detected 0 ic = None"
| "generate_l2_entries A our detected (Suc fuel) ic =
     (case ic of (i, c) \<Rightarrow>
       let children = find_children detected i in
       if children = [] then Some [plain_entry (hash_of A (dc_action c)) (delivery_result MAINNET c)]
       else map_option (\<lambda>ess. scope_entries A our c (map snd children) @ concat ess)
         (those (map (generate_l2_entries A our detected fuel)
           (filter (\<lambda>(j, _). find_children detected j \<noteq> []) children))))"

section \<open>The deferred entries on L1\<close>

definition child_trigger :: "rollup_id \<Rightarrow> detected_call \<Rightarrow> cross_chain_action" where
  "child_trigger our child =
     (case address_pair_for (orientation_from_child (rollup_id (dc_action child)) our)
         (destination (dc_action child)) (source_address (dc_action child)) of
        (dest, src) \<Rightarrow>
          \<lparr>action_type = Call, rollup_id = our, destination = dest, call_value = call_value (dc_action child),
           call_data = call_data (dc_action child), failed = False, source_address = src, source_rollup = MAINNET,
           scope = scope_root\<rparr>)"

text \<open>The RESULT of a child: of its execution on L2 for a return call, else of its delivery on L1.\<close>

definition child_result :: "rollup_id \<Rightarrow> detected_call \<Rightarrow> cross_chain_action" where
  "child_result our child =
     (case orientation_from_child (rollup_id (dc_action child)) our of
        Return \<Rightarrow> result_of our (dc_l2_return_data child) (dc_l2_delivery_failed child)
      | Forward \<Rightarrow> result_of MAINNET (dc_delivery_return_data child) (dc_l2_delivery_failed child))"

definition child_execution :: "rollup_id \<Rightarrow> detected_call \<Rightarrow> cross_chain_action" where
  "child_execution our child =
     \<lparr>action_type = Call, rollup_id = MAINNET, destination = destination (dc_action child),
      call_value = call_value (dc_action child), call_data = call_data (dc_action child), failed = False,
      source_address = source_address (dc_action child), source_rollup = our,
      scope = (if as_slice (dc_scope child) = [] then from_index 0 else dc_scope child)\<rparr>"

text \<open>The entries of one child; \<open>below\<close> gives those of its own children.\<close>

definition child_entries :: "abi \<Rightarrow> rollup_id \<Rightarrow> detected_call list
    \<Rightarrow> ((nat \<times> detected_call) list \<Rightarrow> cross_chain_execution_entry list option)
    \<Rightarrow> nat \<times> detected_call \<Rightarrow> cross_chain_execution_entry list option" where
  "child_entries A our detected below ic =
     (case ic of (i, child) \<Rightarrow>
       let grandchildren = find_children detected i in
       if grandchildren = []
       then Some [plain_entry (hash_of A (child_trigger our child)) (child_result our child)]
       else map_option (\<lambda>es. plain_entry (hash_of A (child_trigger our child)) (child_execution our child) # es @
           [plain_entry (hash_of A (child_result our child)) (result_void our)])
         (below grandchildren))"

fun push_reentrant_child_entries :: "abi \<Rightarrow> rollup_id \<Rightarrow> detected_call list \<Rightarrow> nat \<Rightarrow> (nat \<times> detected_call) list
    \<Rightarrow> cross_chain_execution_entry list option" where
  "push_reentrant_child_entries A our detected 0 children = (if children = [] then Some [] else None)"
| "push_reentrant_child_entries A our detected (Suc fuel) children =
     map_option concat (those (map (child_entries A our detected (push_reentrant_child_entries A our detected fuel)) children))"

definition root_calls :: "detected_call list \<Rightarrow> (nat \<times> detected_call) list" where
  "root_calls detected = indexed (\<lambda>c. dc_parent c = Root) detected"

definition partial_revert_roots :: "detected_call list \<Rightarrow> bool" where
  "partial_revert_roots detected \<longleftrightarrow>
     (\<exists>(i, c) \<in> set (root_calls detected). dc_in_reverted_frame c) \<and>
     (\<exists>(i, c) \<in> set (root_calls detected). \<not> dc_in_reverted_frame c)"

definition has_any_nested :: "detected_call list \<Rightarrow> bool" where
  "has_any_nested detected \<longleftrightarrow> (\<exists>(i, c) \<in> set (root_calls detected). find_children detected i \<noteq> [])"

definition use_sibling_scopes :: "detected_call list \<Rightarrow> bool" where
  "use_sibling_scopes detected \<longleftrightarrow> length (root_calls detected) > 1 \<and> \<not> has_any_nested detected"

text \<open>The last part of a scope replaced by a position.\<close>

definition sibling_scope :: "nat \<Rightarrow> scope_path \<Rightarrow> u256 list" where
  "sibling_scope pos s = (if as_slice s = [] then [of_nat pos] else butlast (as_slice s) @ [of_nat pos])"

definition delivery_scope :: "detected_call list \<Rightarrow> nat \<Rightarrow> detected_call \<Rightarrow> u256 list" where
  "delivery_scope detected pos c =
     (if use_sibling_scopes detected then sibling_scope pos (dc_scope c)
      else if as_slice (dc_scope c) = [] then []
      else if \<not> has_any_nested detected then as_slice (dc_scope c)
      else [])"

definition delivery_call :: "rollup_id \<Rightarrow> detected_call \<Rightarrow> u256 list \<Rightarrow> cross_chain_action" where
  "delivery_call our c sc =
     \<lparr>action_type = Call, rollup_id = MAINNET, destination = destination (dc_action c),
      call_value = call_value (dc_action c), call_data = call_data (dc_action c), failed = False,
      source_address = source_address (dc_action c), source_rollup = our, scope = from_parts sc\<rparr>"

definition l2tx_trigger :: "rollup_id \<Rightarrow> bytes \<Rightarrow> cross_chain_action" where
  "l2tx_trigger our tx =
     \<lparr>action_type = L2Tx, rollup_id = our, destination = 0, call_value = 0, call_data = tx, failed = False,
      source_address = 0, source_rollup = MAINNET, scope = scope_root\<rparr>"

text \<open>What follows the result of the call at \<open>pos\<close>: the next call or the terminal result.\<close>

definition next_hop :: "rollup_id \<Rightarrow> detected_call list \<Rightarrow> nat \<Rightarrow> (nat \<times> detected_call) list \<Rightarrow> cross_chain_action" where
  "next_hop our detected pos rest =
     (case rest of
        (_, next) # _ \<Rightarrow> delivery_call our next (if use_sibling_scopes detected then [of_nat (Suc pos)] else [])
      | [] \<Rightarrow> result_action our [] False)"

definition resolution :: "abi \<Rightarrow> rollup_id \<Rightarrow> detected_call list \<Rightarrow> nat \<Rightarrow> detected_call \<Rightarrow> (nat \<times> detected_call) list
    \<Rightarrow> cross_chain_execution_entry" where
  "resolution A our detected pos c rest =
     \<lparr>state_deltas = [zero_delta our (delivery_ether_delta (call_value (dc_action c)))],
      action_hash = hash_of A (delivery_result MAINNET c), next_action = next_hop our detected pos rest\<rparr>"

fun root_entries :: "abi \<Rightarrow> rollup_id \<Rightarrow> detected_call list \<Rightarrow> bytes \<Rightarrow> nat \<Rightarrow> (nat \<times> detected_call) list
    \<Rightarrow> cross_chain_execution_entry list option" where
  "root_entries A our detected tx pos [] = Some []"
| "root_entries A our detected tx pos ((i, c) # rest) =
     (let children = find_children detected i;
          reentrant = push_reentrant_child_entries A our detected (length detected) children;
          here =
            (if pos = 0 then
               map_option (\<lambda>es. \<lparr>state_deltas = [zero_delta our 0], action_hash = hash_of A (l2tx_trigger our tx),
                   next_action = delivery_call our c (delivery_scope detected pos c)\<rparr>
                 # es @ [resolution A our detected pos c rest]) reentrant
             else if children \<noteq> [] then map_option (\<lambda>es. es @ [resolution A our detected pos c rest]) reentrant
             else if length (root_calls detected) > 1 then Some [resolution A our detected pos c rest]
             else Some [])
      in case here of None \<Rightarrow> None
         | Some es \<Rightarrow> map_option (\<lambda>es'. es @ es') (root_entries A our detected tx (Suc pos) rest))"

text \<open>A transaction that reverts ends in REVERT, with \<open>REVERT_CONTINUE\<close> leading to the terminal result.\<close>

definition continue_entry :: "abi \<Rightarrow> rollup_id \<Rightarrow> cross_chain_action \<Rightarrow> cross_chain_execution_entry" where
  "continue_entry A our a =
     \<lparr>state_deltas = [zero_delta our 0], action_hash = compute_revert_continue_hash A our, next_action = a\<rparr>"

definition append_tx_revert :: "abi \<Rightarrow> rollup_id \<Rightarrow> tx_outcome \<Rightarrow> cross_chain_execution_entry list
    \<Rightarrow> cross_chain_execution_entry list" where
  "append_tx_revert A our outcome es =
     (if outcome = Outcome_Revert \<and> es \<noteq> [] \<and> action_type (next_action (last es)) = Result \<and>
         rollup_id (next_action (last es)) = our
      then butlast es @ [(last es)\<lparr>next_action := revert_action our (from_index 0)\<rparr>,
             continue_entry A our (next_action (last es))]
      else es)"

definition insert_l1_revert :: "abi \<Rightarrow> rollup_id \<Rightarrow> (nat \<times> detected_call) list \<Rightarrow> cross_chain_execution_entry list
    \<Rightarrow> cross_chain_execution_entry list" where
  "insert_l1_revert A our roots es =
     (case position (\<lambda>(_, c). \<not> dc_in_reverted_frame c) roots of
        None \<Rightarrow> es
      | Some non_rev_pos \<Rightarrow>
          (case position (\<lambda>e. action_type (next_action e) = Call \<and>
                as_slice (scope (next_action e)) = sibling_scope non_rev_pos (dc_scope (snd (roots ! non_rev_pos)))) es of
             None \<Rightarrow> es
           | Some idx \<Rightarrow>
               insert_after idx (continue_entry A our (next_action (es ! idx)))
                 (es[idx := (es ! idx)\<lparr>next_action := revert_action our (from_index 0)\<rparr>])))"

definition build_l2_to_l1_continuation_entries :: "abi \<Rightarrow> detected_call list \<Rightarrow> rollup_id \<Rightarrow> bytes \<Rightarrow> tx_outcome
    \<Rightarrow> l2_to_l1_continuation_entries option" where
  "build_l2_to_l1_continuation_entries A detected our tx outcome =
     (if detected = [] then Some \<lparr>wt_l2 = [], wt_l1 = []\<rparr>
      else
        let roots = root_calls detected; partial = partial_revert_roots detected in
        case (those (map (generate_l2_entries A our detected (length detected))
                (filter (\<lambda>(i, c). \<not> (partial \<and> dc_in_reverted_frame c)) roots)),
              root_entries A our detected tx 0 roots) of
          (Some l2, Some l1) \<Rightarrow>
            let l1' = append_tx_revert A our outcome l1;
                l1'' = (if partial \<and> l1' \<noteq> [] then insert_l1_revert A our roots l1' else l1')
            in Some \<lparr>wt_l2 = reorder_for_swap_and_pop (concat l2), wt_l1 = reorder_for_swap_and_pop l1''\<rparr>
        | _ \<Rightarrow> None)"

end
