(* ===== verification/Table_Consumption.thy ===== *)
theory Table_Consumption
  imports Table_Builder "HOL-Library.Multiset"
begin

text \<open>
  What the tables of \<open>Table_Builder\<close> do when they are consumed: the order of entries under
  swap-and-pop, chains of void calls, the L1 entries of the calls, agreement with the builder
  of a single call, and partial reverts.
\<close>

section \<open>The order on chain\<close>

text \<open>
  How the manager on L2 consumes an entry, as the comments of \<open>reorder_for_swap_and_pop\<close>
  describe it and its tests simulate it: the first entry with the hash is taken and the last
  entry of the table moves into its place.
\<close>

definition consume_execution :: "action_hash \<Rightarrow> cross_chain_execution_entry list
    \<Rightarrow> (cross_chain_execution_entry \<times> cross_chain_execution_entry list) option" where
  "consume_execution h table =
     map_option (\<lambda>i. (table ! i, butlast (table[i := last table]))) (position (\<lambda>e. action_hash e = h) table)"

fun consume_all :: "action_hash list \<Rightarrow> cross_chain_execution_entry list
    \<Rightarrow> (cross_chain_execution_entry list \<times> cross_chain_execution_entry list) option" where
  "consume_all [] table = Some ([], table)"
| "consume_all (h # hs) table =
     (case consume_execution h table of
        None \<Rightarrow> None
      | Some (e, rest) \<Rightarrow> map_option (\<lambda>(es, left). (e # es, left)) (consume_all hs rest))"

lemma consume_all_append:
  "consume_all hs table = Some (es, mid) \<Longrightarrow>
   consume_all (hs @ hs') table = map_option (\<lambda>(es', left). (es @ es', left)) (consume_all hs' mid)"
  by (induction hs arbitrary: table es) (auto split: option.splits simp: option.map_comp comp_def case_prod_unfold option.map_ident)

lemma consume_group:
  "\<forall>x \<in> set (e # xs). action_hash x = h \<Longrightarrow>
   consume_all (replicate (Suc (length xs)) h) (e # rev xs) = Some (e # xs, [])"
proof (induction xs arbitrary: e)
  case (Cons x xs)
  then show ?case
    by (simp add: consume_execution_def butlast_append)
qed (simp add: consume_execution_def)

lemma position_append:
  "position P (xs @ ys) = (case position P xs of Some i \<Rightarrow> Some i | None \<Rightarrow> map_option ((+) (length xs)) (position P ys))"
  by (induction xs; cases "position P ys") (auto split: option.splits)

lemma position_None: "\<forall>x \<in> set xs. \<not> P x \<Longrightarrow> position P xs = None"
  by (induction xs) auto

lemma position_Some: "\<exists>x \<in> set xs. P x \<Longrightarrow> \<exists>i. position P xs = Some i"
  by (induction xs) auto

lemma mset_swap_remove:
  "i < length xs \<Longrightarrow> add_mset (xs ! i) (mset (butlast (xs[i := last xs]))) = mset xs"
proof -
  assume i: "i < length xs"
  then have ne: "xs \<noteq> []" by auto
  let ?ys = "xs[i := last xs]"
  have "last ?ys = last xs" using ne i by (cases "i = length xs - 1") (auto simp: last_conv_nth)
  then have "mset ?ys = add_mset (last xs) (mset (butlast ?ys))"
    using ne by (metis append_butlast_last_id list_update_nonempty mset.simps(1) mset.simps(2) union_mset_add_mset_right mset_append add_cancel_left_right)
  moreover have "add_mset (xs ! i) (mset ?ys) = add_mset (last xs) (mset xs)"
    using i by (simp add: mset_update)
  ultimately show ?thesis by simp
qed

lemma consume_from_tail:
  assumes front: "\<forall>e \<in> set front. action_hash e \<noteq> h" and mem: "e \<in> set tail" "action_hash e = h"
    and uniq: "distinct (map action_hash tail)"
  shows "\<exists>tail'. consume_execution h (front @ tail) = Some (e, front @ tail') \<and> mset tail = add_mset e (mset tail')"
proof -
  obtain i where pos: "position (\<lambda>e. action_hash e = h) tail = Some i" using mem position_Some [of tail "\<lambda>e. action_hash e = h"] by auto
  have i: "i < length tail" "action_hash (tail ! i) = h" using position_SomeD [OF pos] by auto
  have e: "tail ! i = e" using i mem uniq by (metis distinct_map inj_on_def nth_mem)
  have "tail \<noteq> []" using i by auto
  then have "consume_execution h (front @ tail) = Some (e, front @ butlast (tail[i := last tail]))"
    using front e by (simp add: consume_execution_def position_append position_None pos nth_append list_update_append butlast_append)
  then show ?thesis using mset_swap_remove [OF i(1)] e by metis
qed

lemma consume_singletons:
  assumes "distinct hs" "distinct (map action_hash tail)" "set hs = action_hash ` set tail"
    "\<forall>e \<in> set front. action_hash e \<notin> set hs" "\<forall>e \<in> set tail. f (action_hash e) = e"
  shows "consume_all hs (front @ tail) = Some (map f hs, front)"
  using assms
proof (induction hs arbitrary: tail)
  case (Cons h hs)
  then obtain e where e: "e \<in> set tail" "action_hash e = h" by (metis image_iff list.set_intros(1))
  have "\<exists>tail'. consume_execution h (front @ tail) = Some (e, front @ tail') \<and> mset tail = add_mset e (mset tail')"
    using Cons.prems e by (intro consume_from_tail) auto
  then obtain tail' where t: "consume_execution h (front @ tail) = Some (e, front @ tail')"
    "mset tail = add_mset e (mset tail')" by blast
  have "mset (map action_hash tail) = mset (map action_hash (e # tail'))" using t(2) by simp
  then have "distinct (map action_hash (e # tail'))" using Cons.prems(2) mset_eq_imp_distinct_iff by blast
  then have d: "distinct (map action_hash tail')" "h \<notin> action_hash ` set tail'" using e by auto
  have s: "set tail = insert e (set tail')" using t(2) by (metis set_mset_add_mset_insert set_mset_mset)
  have "insert h (set hs) = insert h (action_hash ` set tail')" "h \<notin> set hs" using Cons.prems(1,3) s e by auto
  then have "set hs = action_hash ` set tail'" using d(2) by (metis insert_ident)
  then have "consume_all hs (front @ tail') = Some (map f hs, front)"
    using Cons.prems s d by (intro Cons.IH) auto
  then show ?case using t e Cons.prems(5) by auto
qed simp


lemma same_hash_self [simp]: "x \<in> set (same_hash h es) \<longleftrightarrow> x \<in> set es \<and> action_hash x = h"
  by (auto simp: same_hash_def)

lemma same_hash_nonempty: "e \<in> set es \<Longrightarrow> length (same_hash (action_hash e) es) \<ge> 1"
  by (metis One_nat_def Suc_leI length_pos_if_in_set same_hash_self)

lemma set_multi_group_hashes:
  "set (multi_group_hashes es) = {h. length (same_hash h es) \<ge> 2}"
proof -
  have "h \<in> action_hash ` set es" if "length (same_hash h es) \<ge> 2" for h
    using that by (metis image_eqI length_0_conv list.set_intros(1) neq_Nil_conv not_numeral_le_zero same_hash_self)
  then show ?thesis by (auto simp: multi_group_hashes_def)
qed

lemma distinct_multi_group_hashes: "distinct (multi_group_hashes es)"
  by (simp add: multi_group_hashes_def)

lemma mset_reorder_group: "mset (reorder_group es) = mset es"
  by (cases es) auto

lemma count_same_hash: "count (mset (same_hash h es)) x = (if action_hash x = h then count (mset es) x else 0)"
  by (simp add: same_hash_def)

lemma count_groups:
  "distinct hs \<Longrightarrow> count (mset (concat (map (\<lambda>h. reorder_group (same_hash h es)) hs))) x =
     (if action_hash x \<in> set hs then count (mset es) x else 0)"
  by (induction hs) (auto simp: mset_reorder_group count_same_hash)

text \<open>
  Reordering neither loses nor duplicates an entry.
\<close>

theorem reorder_permutes: "mset (reorder_for_swap_and_pop es) = mset es"
proof (rule multiset_eqI)
  fix x
  have "length (same_hash (action_hash x) es) \<ge> 2 \<or> length (same_hash (action_hash x) es) = 1 \<or> x \<notin> set es"
    using same_hash_nonempty [of x es] by linarith
  then show "count (mset (reorder_for_swap_and_pop es)) x = count (mset es) x"
    by (auto simp: reorder_for_swap_and_pop_def count_groups distinct_multi_group_hashes set_multi_group_hashes not_in_iff)
qed

lemma distinct_set_singleton: "distinct xs \<Longrightarrow> set xs = {x} \<Longrightarrow> xs = [x]"
  by (cases xs rule: remdups_adj.cases) auto

lemma reorder_one_group:
  assumes "length (same_hash h es) \<ge> 3"
    "\<forall>e \<in> set es. action_hash e \<noteq> h \<longrightarrow> length (same_hash (action_hash e) es) = 1"
  shows "reorder_for_swap_and_pop es = reorder_group (same_hash h es) @ filter (\<lambda>e. action_hash e \<noteq> h) es"
proof -
  have "g = h" if "length (same_hash g es) \<ge> 2" for g
  proof -
    from that obtain e where "e \<in> set es" "action_hash e = g"
      by (metis length_0_conv list.set_intros(1) neq_Nil_conv not_numeral_le_zero same_hash_self)
    then show ?thesis using assms(2) that by (metis Suc_1 Suc_n_not_le_n)
  qed
  then have "set (multi_group_hashes es) = {h}" using assms(1) by (auto simp: set_multi_group_hashes)
  then have "multi_group_hashes es = [h]" using distinct_multi_group_hashes by (metis distinct_set_singleton)
  moreover obtain e where "e \<in> set es" "action_hash e = h"
    using assms(1) by (metis length_0_conv list.set_intros(1) neq_Nil_conv not_numeral_le_zero same_hash_self)
  ultimately show ?thesis using assms by (auto simp: reorder_for_swap_and_pop_def intro!: filter_cong)
qed


lemma distinct_hashes:
  "\<forall>e \<in> set es. length (same_hash (action_hash e) es) = 1 \<Longrightarrow> distinct (map action_hash es)"
proof (induction es)
  case (Cons u es)
  then have "same_hash (action_hash u) es = []" by (simp add: same_hash_def)
  then have u: "action_hash u \<notin> action_hash ` set es" by (auto simp: same_hash_def filter_empty_conv)
  have "length (same_hash (action_hash e) es) = 1" if "e \<in> set es" for e
  proof -
    have "action_hash u \<noteq> action_hash e" using u that by auto
    moreover have "length (same_hash (action_hash e) (u # es)) = 1" using Cons.prems that by simp
    ultimately show ?thesis by (simp add: same_hash_def)
  qed
  then show ?case using Cons.IH u by simp
qed simp

lemma same_hash_single: "length (same_hash (action_hash e) es) = 1 \<Longrightarrow> e \<in> set es \<Longrightarrow> same_hash (action_hash e) es = [e]"
  by (metis One_nat_def length_0_conv length_Suc_conv same_hash_self set_ConsD list.set(1) empty_iff)

text \<open>
  C24: the contract of \<open>reorder_for_swap_and_pop\<close>: with one group of at least three entries
  among entries of unique hashes, any order that consumes the unique entries first and then
  the group takes the group in its original order and empties the table.
\<close>

theorem singletons_first_then_fifo:
  assumes group: "length (same_hash h es) \<ge> 3"
    and others: "\<forall>e \<in> set es. action_hash e \<noteq> h \<longrightarrow> length (same_hash (action_hash e) es) = 1"
    and hs: "distinct hs" "set hs = action_hash ` set es - {h}"
  shows "consume_all (hs @ replicate (length (same_hash h es)) h) (reorder_for_swap_and_pop es) =
    Some (concat (map (\<lambda>g. same_hash g es) hs) @ same_hash h es, [])"
proof -
  define U where "U = filter (\<lambda>e. action_hash e \<noteq> h) es"
  have U: "same_hash g U = same_hash g es" if "g \<noteq> h" for g
    using that by (auto simp: U_def same_hash_def intro: filter_cong)
  have "length (same_hash (action_hash e) U) = 1" if "e \<in> set U" for e
    using that others U by (auto simp: U_def)
  then have dist: "distinct (map action_hash U)" by (intro distinct_hashes) blast
  have f: "hd (same_hash (action_hash e) es) = e" if "e \<in> set U" for e
  proof -
    have "e \<in> set es" "action_hash e \<noteq> h" using that by (auto simp: U_def)
    then show ?thesis using others same_hash_single by (metis list.sel(1))
  qed
  obtain e xs where g: "same_hash h es = e # xs" using group by (cases "same_hash h es") auto
  have gh: "\<forall>x \<in> set (e # xs). action_hash x = h" using g by (metis same_hash_self)
  have re: "reorder_for_swap_and_pop es = (e # rev xs) @ U"
    using reorder_one_group [OF group others] group g by (simp add: U_def)
  have "consume_all hs ((e # rev xs) @ U) = Some (map (\<lambda>g. hd (same_hash g es)) hs, e # rev xs)"
    using hs gh dist f by (intro consume_singletons) (auto simp: U_def)
  moreover have "map (\<lambda>g. hd (same_hash g es)) hs = concat (map (\<lambda>g. same_hash g es) hs)"
  proof -
    have "same_hash g es = [hd (same_hash g es)]" if "g \<in> set hs" for g
    proof -
      from that hs obtain x where "x \<in> set es" "action_hash x = g" "g \<noteq> h" by auto
      then show ?thesis using others same_hash_single by (metis list.sel(1))
    qed
    then have "map (\<lambda>g. same_hash g es) hs = map (\<lambda>g. [hd (same_hash g es)]) hs" by (intro map_cong) auto
    then show ?thesis by (metis concat_map_singleton)
  qed
  ultimately show ?thesis
    using consume_group [OF gh] by (simp add: re g consume_all_append)
qed


definition numbered :: "b256 \<Rightarrow> u256 \<Rightarrow> cross_chain_execution_entry" where
  "numbered h v = plain_entry (ActionHash h) ((result_void MAINNET)\<lparr>call_value := v\<rparr>)"

theorem singletons_first_then_fifo_witness:
  "consume_all [ActionHash 3, ActionHash 2, ActionHash 1, ActionHash 1, ActionHash 1]
     (reorder_for_swap_and_pop [numbered 1 0, numbered 2 50, numbered 1 1, numbered 3 60, numbered 1 2]) =
   Some ([numbered 3 60, numbered 2 50, numbered 1 0, numbered 1 1, numbered 1 2], [])"
  using singletons_first_then_fifo [of "ActionHash 1" "[numbered 1 0, numbered 2 50, numbered 1 1, numbered 3 60, numbered 1 2]"
      "[ActionHash 3, ActionHash 2]"]
  by (auto simp: same_hash_def numbered_def insert_commute)

section \<open>Calls to L2\<close>

lemma indexed_all: "\<forall>c \<in> set cs. P c \<Longrightarrow> indexed P cs = enumerate 0 cs"
  by (force simp: indexed_def in_set_enumerate_eq intro!: filter_True)

lemma indexed_none: "\<forall>c \<in> set cs. \<not> P c \<Longrightarrow> indexed P cs = []"
  by (force simp: indexed_def filter_empty_conv in_set_enumerate_eq)

lemma only_l1_to_l2:
  assumes "\<forall>c \<in> set calls. dc_direction c = L1ToL2"
  shows "l1_to_l2_calls calls = enumerate 0 calls" "l1_children calls i = []"
  using assms by (auto simp: l1_to_l2_calls_def l1_children_def intro!: indexed_all indexed_none)

lemma continuation_without_children:
  assumes "\<forall>i. l1_children calls i = []" "cs \<noteq> []"
  shows "map action_hash (continuation_l2 A our calls cs) = map (\<lambda>(_, c). hash_of A (l2_result our c)) cs"
    "map next_action (continuation_l2 A our calls cs) = map (dc_action \<circ> snd) (tl cs) @ [l2_result our (snd (last cs))]"
proof -
  show "map action_hash (continuation_l2 A our calls cs) = map (\<lambda>(_, c). hash_of A (l2_result our c)) cs"
    using assms(1) by (induction cs) auto
  show "map next_action (continuation_l2 A our calls cs) = map (dc_action \<circ> snd) (tl cs) @ [l2_result our (snd (last cs))]"
    using assms(2) by (induction cs rule: induct_list012) (auto simp: assms(1))
qed

lemma reorder_small: "length es < 3 \<Longrightarrow> reorder_for_swap_and_pop es = es"
  unfolding reorder_for_swap_and_pop_def same_hash_def by (metis length_filter_le not_le le_trans)

lemma reorder_same_hash:
  assumes "\<forall>e \<in> set (e # es). action_hash e = h"
  shows "reorder_for_swap_and_pop (e # es) = e # rev es"
proof -
  have g: "same_hash h (e # es) = e # es" using assms by (auto simp: same_hash_def)
  show ?thesis
  proof (cases "length (e # es) \<ge> 3")
    case True
    then have "reorder_for_swap_and_pop (e # es) = reorder_group (e # es) @ filter (\<lambda>e. action_hash e \<noteq> h) (e # es)"
      using assms reorder_one_group [of h "e # es"] by (simp add: g)
    then show ?thesis using True assms by (auto simp: filter_empty_conv)
  next
    case False
    then have "es = [] \<or> (\<exists>x. es = [x])" by (cases es rule: remdups_adj.cases) auto
    moreover have "reorder_for_swap_and_pop (e # es) = e # es" using False by (intro reorder_small) simp
    ultimately show ?thesis by auto
  qed
qed

text \<open>
  The L2 table of any number of void calls without children: answering each
  return in turn leads to the next call and, after the last one, to the void result.
\<close>

theorem void_chain_is_followed:
  assumes "calls \<noteq> []" and dir: "\<forall>c \<in> set calls. dc_direction c = L1ToL2"
    and void: "\<forall>c \<in> set calls. dc_l2_return_data c = [] \<and> \<not> dc_l2_delivery_failed c"
    and "\<not> is_reentrant calls" "\<not> has_partial_revert calls"
  shows "\<exists>es. consume_all (replicate (length calls) (hash_of A (result_void our))) (ce_l2 (build_continuation_entries A calls our)) = Some (es, []) \<and>
    map next_action es = map dc_action (tl calls) @ [result_void our]"
proof -
  let ?h = "hash_of A (result_void our)"
  let ?es = "continuation_l2 A our calls (enumerate 0 calls)"
  have res: "l2_result our c = result_void our" if "c \<in> set calls" for c
    using void that by (simp add: l2_result_def result_of_def)
  have n0: "enumerate 0 calls \<noteq> []" using assms(1) by (metis length_enumerate length_0_conv)
  have hashes: "map action_hash ?es = map (\<lambda>(_, c). hash_of A (l2_result our c)) (enumerate 0 calls)"
    and nexts: "map next_action ?es = map (dc_action \<circ> snd) (tl (enumerate 0 calls)) @ [l2_result our (snd (last (enumerate 0 calls)))]"
    using continuation_without_children [OF _ n0] only_l1_to_l2 [OF dir] by auto
  have "map action_hash ?es = replicate (length calls) ?h"
    using res by (auto simp: hashes list_eq_iff_nth_eq nth_enumerate_eq)
  then have len: "length ?es = length calls" and set: "action_hash ` set ?es \<subseteq> {?h}"
    by (metis length_map length_replicate, metis set_map set_replicate_conv_if empty_subsetI order_refl)
  obtain e xs where es: "?es = e # xs" using len assms(1) by (cases ?es) auto
  have all: "\<forall>x \<in> set (e # xs). action_hash x = ?h" and n: "length calls = Suc (length xs)"
    using set len by (auto simp: es)
  have "ce_l2 (build_continuation_entries A calls our) = e # rev xs"
    using assms es reorder_same_hash [OF all] by (simp add: build_continuation_entries_def only_l1_to_l2 [OF dir])
  moreover have "map next_action (e # xs) = map dc_action (tl calls) @ [result_void our]"
  proof -
    have "map snd (tl (enumerate 0 calls)) = tl calls" by (metis map_snd_enumerate map_tl)
    moreover have "snd (last (enumerate 0 calls)) = last calls" using n0 by (metis last_map map_snd_enumerate)
    ultimately show ?thesis using nexts es res assms(1) by (metis last_in_set map_map)
  qed
  ultimately show ?thesis using consume_group [OF all] n by metis
qed


text \<open>A toy hash that tells the kinds of actions apart and reads the value of a call.\<close>

definition toy_abi :: abi where
  "toy_abi = \<lparr>keccak = (\<lambda>bs. of_nat (length bs)),
     enc_action = (\<lambda>a. (if sol_actionType a = action_type_to_sol L2Tx then [0, 0] else replicate (unat (sol_value a)) 0)),
     enc_deltas = (\<lambda>_. []), enc_words = (\<lambda>_. [])\<rparr>"

definition toy_call :: "call_direction \<Rightarrow> parent_link \<Rightarrow> u256 \<Rightarrow> detected_call" where
  "toy_call dir parent v =
     \<lparr>dc_direction = dir,
      dc_action = (if dir = L1ToL2 then raw_action (RollupId 1) MAINNET 7 v [] 8 else raw_action MAINNET (RollupId 1) 7 v [] 8),
      dc_parent = parent, dc_is_continuation = False, dc_depth = 3, dc_delivery_return_data = [], dc_l2_return_data = [],
      dc_l2_delivery_failed = False, dc_scope = scope_root, dc_iteration = 0, dc_in_reverted_frame = False\<rparr>"

theorem void_chain_is_followed_witness:
  "\<exists>es. consume_all (replicate 3 (hash_of toy_abi (result_void (RollupId 1))))
      (ce_l2 (build_continuation_entries toy_abi [toy_call L1ToL2 Root 4, toy_call L1ToL2 Root 5, toy_call L1ToL2 Root 6] (RollupId 1))) =
      Some (es, []) \<and>
    map next_action es = [dc_action (toy_call L1ToL2 Root 5), dc_action (toy_call L1ToL2 Root 6), result_void (RollupId 1)]"
  using void_chain_is_followed [of "[toy_call L1ToL2 Root 4, toy_call L1ToL2 Root 5, toy_call L1ToL2 Root 6]" toy_abi "RollupId 1"]
  by (auto simp: toy_call_def is_reentrant_def has_partial_revert_def l1_to_l2_calls_def indexed_def eval_nat_numeral)

text \<open>Both layouts of the L1 entries hold the same entries, and the deltas are those of the calls.\<close>

lemma resolution_no_deltas: "e \<in> set (resolution_entries A our calls ic) \<Longrightarrow> state_deltas e = []"
  by (auto simp: resolution_entries_def split: prod.splits)

lemma call_entry_simps [simp]:
  "state_deltas (call_entry A our calls ic) = [zero_delta our (call_ether_delta (call_value (dc_action (snd ic))))]"
  "action_hash (call_entry A our calls ic) = hash_of A (dc_action (snd ic))"
  by (auto simp: call_entry_def split: prod.splits)

lemma only_calls_have_deltas:
  "filter (\<lambda>e. state_deltas e \<noteq> []) (concat (map (resolution_entries A our calls) cs)) = []"
  "filter (\<lambda>e. state_deltas e \<noteq> []) (concat (map (\<lambda>ic. call_entry A our calls ic # resolution_entries A our calls ic) cs)) =
     map (call_entry A our calls) cs"
proof -
  show "filter (\<lambda>e. state_deltas e \<noteq> []) (concat (map (resolution_entries A our calls) cs)) = []"
    by (auto simp: filter_empty_conv dest: resolution_no_deltas)
  show "filter (\<lambda>e. state_deltas e \<noteq> []) (concat (map (\<lambda>ic. call_entry A our calls ic # resolution_entries A our calls ic) cs)) =
     map (call_entry A our calls) cs"
    by (induction cs) (auto simp: filter_empty_conv dest: resolution_no_deltas)
qed

text \<open>
  On L1 exactly the calls carry a delta, in order, each under its own hash and with its own value.
\<close>

theorem every_call_carries_its_value:
  "map (\<lambda>e. (action_hash e, map ether_delta (state_deltas e))) (filter (\<lambda>e. state_deltas e \<noteq> []) (ce_l1 (build_continuation_entries A calls our))) =
   map (\<lambda>(_, c). (hash_of A (dc_action c), [call_ether_delta (call_value (dc_action c))])) (l1_to_l2_calls calls)"
  by (auto simp: build_continuation_entries_def only_calls_have_deltas Let_def zero_delta_def comp_def l1_to_l2_calls_def indexed_def
      filter_id_conv [THEN iffD2])

text \<open>
  The two layouts of the L1 entries, reentrant and interleaved, hold the same entries.
\<close>

theorem l1_layouts_agree:
  "mset (ce_l1 (build_continuation_entries A calls our)) =
     mset (map (call_entry A our calls) (l1_to_l2_calls calls)) + (\<Sum>ic\<leftarrow>l1_to_l2_calls calls. mset (resolution_entries A our calls ic))"
proof -
  have "mset (concat (map f (rev cs))) = (\<Sum>ic\<leftarrow>cs. mset (f ic))" for f :: "nat \<times> detected_call \<Rightarrow> cross_chain_execution_entry list" and cs
    by (induction cs) auto
  moreover have "mset (concat (map (\<lambda>ic. g ic # f ic) cs)) = mset (map g cs) + (\<Sum>ic\<leftarrow>cs. mset (f ic))"
    for f and g :: "nat \<times> detected_call \<Rightarrow> cross_chain_execution_entry" and cs
    by (induction cs) auto
  ultimately show ?thesis
    by (auto simp: build_continuation_entries_def Let_def l1_to_l2_calls_def indexed_def)
qed

text \<open>
  A single call: the continuation builder gives the RESULT entry of the pair builder on L2 and,
  up to the delta, the converted pair on L1.
\<close>

theorem single_call_matches_pair:
  assumes "\<not> is_l2_to_l1_child c"
    and "d = analyze_continuation_calls [c] our" "rid = RollupId (ucast our)"
    and "build_cross_chain_call_entries A rid (lc_destination c) (lc_data c) (lc_value c) (lc_source_address c) MAINNET
      (lc_call_success c) (lc_l2_return_data c) = (call, result)"
  shows "ce_l2 (build_continuation_entries A d rid) = [result] \<and>
    map (\<lambda>e. e\<lparr>state_deltas := []\<rparr>) (ce_l1 (build_continuation_entries A d rid)) = convert_pairs_to_l1_entries [call, result] \<and>
    ce_mode (build_continuation_entries A d rid) = Chained"
  using assms
  by (auto simp: build_continuation_entries_def analyze_continuation_calls_def build_cross_chain_call_entries_def l1_to_l2_calls_def
      l1_children_def indexed_def is_reentrant_def has_partial_revert_def reorder_small l2_result_def result_of_def result_void_def
      call_entry_def resolution_entries_def raw_action_def mode_from_bool_def Let_def)


lemma set_reorder [simp]: "set (reorder_for_swap_and_pop es) = set es"
  by (metis reorder_permutes set_mset_mset)

text \<open>
  Two void calls of which the first calls back to L1: consuming the child's entry moves the
  last entry to the front, so the return of the first call is answered by the terminal result and
  the entry that leads to the second call is left over. The group has two entries, for which
  the reordering is a no-op.
\<close>

theorem child_of_first_call_breaks_chain:
  assumes dir: "dc_direction a = L1ToL2" "dc_direction c = L2ToL1" "dc_direction b = L1ToL2"
    and parent: "dc_parent c = Child (AbsoluteCallIndex 0)" and siblings: "dc_depth b \<le> dc_depth a"
    and void: "\<forall>x \<in> {a, b}. dc_l2_return_data x = [] \<and> \<not> dc_l2_delivery_failed x"
    and hashes: "hash_of A (dc_action c) \<noteq> hash_of A (result_void our)"
  shows "consume_all [hash_of A (dc_action c), hash_of A (result_void our)] (ce_l2 (build_continuation_entries A [a, c, b] our)) =
    Some ([plain_entry (hash_of A (dc_action c)) (delivery_result MAINNET c), plain_entry (hash_of A (result_void our)) (result_void our)],
      [plain_entry (hash_of A (result_void our)) (dc_action b)])"
proof -
  have cs: "l1_to_l2_calls [a, c, b] = [(0, a), (2, b)]" using dir by (simp add: l1_to_l2_calls_def indexed_def)
  have ch: "l1_children [a, c, b] i = (if i = 0 then [(1, c)] else [])" for i
    using dir parent by (auto simp: l1_children_def indexed_def)
  have res: "l2_result our a = result_void our" "l2_result our b = result_void our"
    using void by (simp_all add: l2_result_def result_of_def)
  let ?es = "[plain_entry (hash_of A (dc_action c)) (delivery_result MAINNET c), plain_entry (hash_of A (result_void our)) (dc_action b),
    plain_entry (hash_of A (result_void our)) (result_void our)]"
  have "reorder_for_swap_and_pop ?es = ?es"
    using hashes by (simp add: reorder_for_swap_and_pop_def same_hash_def)
  then have "ce_l2 (build_continuation_entries A [a, c, b] our) = ?es"
    using siblings by (simp add: build_continuation_entries_def cs ch res is_reentrant_def has_partial_revert_def)
  then show ?thesis using hashes by (simp add: consume_execution_def)
qed

theorem child_of_first_call_breaks_chain_witness:
  "consume_all [ActionHash 9, ActionHash 0] (ce_l2 (build_continuation_entries toy_abi
      [toy_call L1ToL2 Root 4, toy_call L2ToL1 (Child (AbsoluteCallIndex 0)) 9, toy_call L1ToL2 Root 5] (RollupId 1))) =
    Some ([plain_entry (ActionHash 9) (result_void MAINNET), plain_entry (ActionHash 0) (result_void (RollupId 1))],
      [plain_entry (ActionHash 0) (dc_action (toy_call L1ToL2 Root 5))])"
  using child_of_first_call_breaks_chain [of "toy_call L1ToL2 Root 4" "toy_call L2ToL1 (Child (AbsoluteCallIndex 0)) 9"
      "toy_call L1ToL2 Root 5" toy_abi "RollupId 1"]
  by (simp add: toy_call_def toy_abi_def hash_of_def to_sol_action_def raw_action_def result_void_def result_action_def
      delivery_result_def result_of_def)

lemma results_are_results [simp]:
  "action_type (l2_result our c) = Result" "action_type (delivery_result rid c) = Result" "action_type (result_void rid) = Result"
  by (simp_all add: l2_result_def delivery_result_def result_of_def result_void_def result_action_def)

lemma outer_result [simp]:
  "action_type (case outer of None \<Rightarrow> l2_result our c
     | Some j \<Rightarrow> (case l1_children calls j of (_, child) # _ \<Rightarrow> delivery_result MAINNET child | [] \<Rightarrow> result_void our)) = Result"
  by (simp split: option.split list.split prod.split)

lemma reentrant_results_are_results:
  "\<forall>e \<in> set (reentrant_results A our calls outer cs). action_type (next_action e) = Result"
proof (induction cs arbitrary: outer)
  case (Cons ic cs)
  obtain i c where ic: "ic = (i, c)" by (cases ic)
  show ?case using Cons.IH [of "Some i"] by (simp add: ic)
qed simp

lemma l2_chain_hops:
  "\<forall>i. l1_children calls i = [] \<Longrightarrow> e \<in> set (continuation_l2 A our calls cs) \<Longrightarrow>
   action_type (next_action e) = Result \<or> next_action e \<in> dc_action ` set (tl (map snd cs))"
  by (induction cs rule: induct_list012) auto

lemma bex_enumerate: "(\<exists>(i, c) \<in> set (enumerate n xs). P c) \<longleftrightarrow> (\<exists>c \<in> set xs. P c)"
proof -
  have "set xs = snd ` set (enumerate n xs)" by (metis map_snd_enumerate set_map)
  then show ?thesis by force
qed

lemma no_reentrant_children: "\<forall>i. l1_children calls i = [] \<Longrightarrow> reentrant_children A our calls cs = []"
  by (induction cs) auto

text \<open>
  When the first call survives and a later one is reverted, no REVERT is inserted although the
  group is marked independent: the builder looks for an entry that leads to the first call.
\<close>

theorem later_reverted_call_is_not_undone:
  assumes dir: "\<forall>c \<in> set (c0 # cs). dc_direction c = L1ToL2 \<and> action_type (dc_action c) = Call"
    and order: "\<not> dc_in_reverted_frame c0" "\<exists>c \<in> set cs. dc_in_reverted_frame c"
    and different: "\<forall>c \<in> set cs. (destination (dc_action c), call_data (dc_action c), source_address (dc_action c)) \<noteq>
      (destination (dc_action c0), call_data (dc_action c0), source_address (dc_action c0))"
  shows "ce_mode (build_continuation_entries A (c0 # cs) our) = Independent \<and>
    (\<forall>e \<in> set (ce_l2 (build_continuation_entries A (c0 # cs) our)). action_type (next_action e) \<noteq> Revert)"
proof -
  let ?calls = "c0 # cs" and ?cs = "enumerate 0 (c0 # cs)"
  define l2 where "l2 = (if is_reentrant ?calls then reentrant_children A our ?calls ?cs @ reentrant_results A our ?calls None ?cs
    else continuation_l2 A our ?calls ?cs)"
  have all: "\<forall>c \<in> set ?calls. dc_direction c = L1ToL2" using dir by blast
  have ch: "l1_children ?calls i = []" for i by (rule only_l1_to_l2(2) [OF all])
  have only: "l1_to_l2_calls ?calls = ?cs" by (rule only_l1_to_l2(1) [OF all])
  have none: "\<forall>i. l1_children ?calls i = []" using ch by simp
  have hops: "action_type (next_action e) = Result \<or> next_action e \<in> dc_action ` set cs" if "e \<in> set l2" for e
  proof (cases "is_reentrant ?calls")
    case True
    then have "e \<in> set (reentrant_results A our ?calls None ?cs)" using that none by (simp add: l2_def no_reentrant_children)
    then show ?thesis using reentrant_results_are_results by blast
  next
    case False
    then have "e \<in> set (continuation_l2 A our ?calls ?cs)" using that by (simp add: l2_def)
    then show ?thesis using l2_chain_hops [OF none] by (metis map_snd_enumerate list.sel(3))
  qed
  have "insert_l2_revert A our ?cs l2 = l2"
  proof -
    have "\<not> (action_type (next_action e) = Call \<and> destination (next_action e) = destination (dc_action c0) \<and>
        call_data (next_action e) = call_data (dc_action c0) \<and> source_address (next_action e) = source_address (dc_action c0))"
      if "e \<in> set l2" for e
      using hops [OF that] different by auto
    then show ?thesis using order(1) by (simp add: insert_l2_revert_def position_None)
  qed
  moreover have "has_partial_revert ?calls"
    unfolding has_partial_revert_def Let_def only bex_enumerate using order ch by simp
  ultimately have "ce_l2 (build_continuation_entries A ?calls our) = reorder_for_swap_and_pop l2 \<and>
      ce_mode (build_continuation_entries A ?calls our) = Independent"
    unfolding build_continuation_entries_def Let_def only l2_def [symmetric] by (simp add: mode_from_bool_def)
  moreover have "action_type (next_action e) \<noteq> Revert" if "e \<in> set l2" for e
    using hops [OF that] dir by auto
  ultimately show ?thesis by simp
qed

text \<open>
  When the last reverted call and the surviving call are the same call, the boundary is put one call too
  early: the reverted call runs after the revert, in the scope of the surviving one.
\<close>

theorem same_target_revert_boundary:
  assumes dir: "\<forall>c \<in> {x, y, z}. dc_direction c = L1ToL2 \<and> action_type (dc_action c) = Call"
    and flat: "dc_depth y \<le> dc_depth x" and frames: "dc_in_reverted_frame x" "dc_in_reverted_frame y" "\<not> dc_in_reverted_frame z"
    and same: "dc_action z = dc_action y"
  shows "{plain_entry (hash_of A (l2_result our x)) (revert_action our (from_index 0)),
      plain_entry (compute_revert_continue_hash A our) ((dc_action y)\<lparr>scope := from_index 2\<rparr>),
      plain_entry (hash_of A (l2_result our y)) (dc_action z)} \<subseteq> set (ce_l2 (build_continuation_entries A [x, y, z] our))"
proof -
  have cs: "l1_to_l2_calls [x, y, z] = [(0, x), (1, y), (2, z)]" and ch: "l1_children [x, y, z] i = []" for i
    using dir by (auto simp: l1_to_l2_calls_def l1_children_def indexed_def)
  show ?thesis
    using dir flat frames same
    by (simp add: build_continuation_entries_def cs ch is_reentrant_def has_partial_revert_def insert_l2_revert_def insert_after_def
        void_last_def Let_def)
qed


text \<open>
  A reverted call followed by a surviving one: the documented three entries, the plain L1 entries, independent.
\<close>

theorem partial_revert_of_first_call:
  assumes dir: "\<forall>c \<in> {a, b}. dc_direction c = L1ToL2 \<and> action_type (dc_action c) = Call"
    and flat: "dc_depth b \<le> dc_depth a" and frames: "dc_in_reverted_frame a" "\<not> dc_in_reverted_frame b"
    and hashes: "compute_revert_continue_hash A our \<noteq> hash_of A (l2_result our a)"
  shows "build_continuation_entries A [a, b] our =
    \<lparr>ce_l2 = [plain_entry (hash_of A (l2_result our a)) (revert_action our (from_index 0)),
        plain_entry (compute_revert_continue_hash A our) ((dc_action b)\<lparr>scope := from_index 1\<rparr>),
        plain_entry (hash_of A (l2_result our b)) ((l2_result our b)\<lparr>call_data := []\<rparr>)],
     ce_l1 = [call_entry A our [a, b] (0, a), call_entry A our [a, b] (1, b)], ce_mode = Independent\<rparr>"
proof -
  have cs: "l1_to_l2_calls [a, b] = [(0, a), (1, b)]" and ch: "l1_children [a, b] i = []" for i
    using dir by (auto simp: l1_to_l2_calls_def l1_children_def indexed_def)
  show ?thesis
    using dir flat frames hashes
    by (simp add: build_continuation_entries_def cs ch is_reentrant_def has_partial_revert_def insert_l2_revert_def insert_after_def
        void_last_def Let_def resolution_entries_def mode_from_bool_def reorder_for_swap_and_pop_def same_hash_def)
qed

end
