(* ===== verification/Withdrawal_Chains.thy ===== *)
theory Withdrawal_Chains
  imports Withdrawal_Tables Table_Consumption State_Deltas
begin

text \<open>
  What the tables of \<open>Withdrawal_Tables\<close> promise: the construction ends, ether is accounted once, calls
  without children form one chain, and where partial reverts and state deltas go wrong.
\<close>

section \<open>Termination\<close>

fun depth_from_root :: "detected_call list \<Rightarrow> nat \<Rightarrow> nat \<Rightarrow> bool" where
  "depth_from_root det 0 j = (j < length det \<and> dc_parent (det ! j) = Root)"
| "depth_from_root det (Suc n) j =
     (j < length det \<and> (\<exists>i. dc_parent (det ! j) = Child (AbsoluteCallIndex i) \<and> depth_from_root det n i))"

lemma in_indexed: "(i, c) \<in> set (indexed P cs) \<longleftrightarrow> i < length cs \<and> c = cs ! i \<and> P (cs ! i)"
  by (auto simp: indexed_def in_set_enumerate_eq)

lemma depth_unique: "depth_from_root det n j \<Longrightarrow> depth_from_root det m j \<Longrightarrow> n = m"
proof (induction n arbitrary: j m)
  case 0
  then show ?case by (cases m) auto
next
  case (Suc n)
  then show ?case by (cases m) auto
qed

lemma depth_levels: "depth_from_root det n j \<Longrightarrow> m \<le> n \<Longrightarrow> \<exists>i < length det. depth_from_root det m i"
proof (induction n arbitrary: j)
  case (Suc n)
  then show ?case by (cases "m = Suc n") (auto simp del: depth_from_root.simps(1) dest: le_SucE)
qed auto

lemma depth_bounded: "depth_from_root det n j \<Longrightarrow> n < length det"
proof -
  assume d: "depth_from_root det n j"
  then have "\<forall>m \<in> {..n}. \<exists>i. i < length det \<and> depth_from_root det m i" using depth_levels by fastforce
  then obtain f where f: "\<forall>m \<in> {..n}. f m < length det \<and> depth_from_root det m (f m)" by (metis bchoice)
  then have "inj_on f {..n}" by (metis depth_unique inj_onI)
  moreover have "f ` {..n} \<subseteq> {..<length det}" using f by auto
  ultimately have "card {..n} \<le> card {..<length det}" using card_inj_on_le by blast
  then show ?thesis by simp
qed

lemma depth_child: "depth_from_root det n i \<Longrightarrow> (j, c) \<in> set (find_children det i) \<Longrightarrow> depth_from_root det (Suc n) j"
  by (auto simp: find_children_def in_indexed)

lemma those_map_Some: "(\<forall>x \<in> set xs. f x \<noteq> None) \<longleftrightarrow> those (map f xs) \<noteq> None"
  by (induction xs) (auto split: option.splits)

lemma generate_terminates:
  "depth_from_root det n i \<Longrightarrow> length det \<le> fuel + n \<Longrightarrow> generate_l2_entries A our det fuel (i, c) \<noteq> None"
proof (induction fuel arbitrary: n i c)
  case 0
  then show ?case using depth_bounded by fastforce
next
  case (Suc fuel)
  let ?cs = "filter (\<lambda>(j, _). find_children det j \<noteq> []) (find_children det i)"
  have "generate_l2_entries A our det fuel jc \<noteq> None" if "jc \<in> set ?cs" for jc
  proof -
    obtain j d where jc: "jc = (j, d)" by (cases jc)
    then have "depth_from_root det (Suc n) j" using that depth_child [OF Suc.prems(1)] by auto
    moreover have "length det \<le> fuel + Suc n" using Suc.prems(2) by simp
    ultimately show ?thesis using Suc.IH jc by blast
  qed
  then have "those (map (generate_l2_entries A our det fuel) ?cs) \<noteq> None" using those_map_Some by blast
  then show ?case by (auto simp: Let_def)
qed

lemma push_terminates:
  "\<forall>(j, c) \<in> set children. depth_from_root det n j \<Longrightarrow> length det \<le> fuel + n \<Longrightarrow>
   push_reentrant_child_entries A our det fuel children \<noteq> None"
proof (induction fuel arbitrary: n children)
  case 0
  then show ?case using depth_bounded by (cases children) fastforce+
next
  case (Suc fuel)
  have "child_entries A our det (push_reentrant_child_entries A our det fuel) jc \<noteq> None" if "jc \<in> set children" for jc
  proof -
    obtain j d where jc: "jc = (j, d)" by (cases jc)
    then have "depth_from_root det n j" using that Suc.prems(1) by auto
    then have "push_reentrant_child_entries A our det fuel (find_children det j) \<noteq> None"
      using Suc.prems(2) by (intro Suc.IH [where n = "Suc n"]) (auto dest: depth_child)
    then show ?thesis by (auto simp: jc child_entries_def Let_def)
  qed
  then have "those (map (child_entries A our det (push_reentrant_child_entries A our det fuel)) children) \<noteq> None"
    using those_map_Some by blast
  then show ?case by simp
qed

lemma root_depth: "(i, c) \<in> set (root_calls det) \<Longrightarrow> depth_from_root det 0 i"
  by (simp add: root_calls_def in_indexed)

lemma reentrant_terminates:
  "(i, c) \<in> set (root_calls det) \<Longrightarrow> push_reentrant_child_entries A our det (length det) (find_children det i) \<noteq> None"
proof -
  assume "(i, c) \<in> set (root_calls det)"
  then have "depth_from_root det 0 i" by (rule root_depth)
  then have "\<forall>(j, d) \<in> set (find_children det i). depth_from_root det (Suc 0) j" using depth_child by blast
  then show ?thesis by (rule push_terminates) simp
qed

lemma root_entries_terminate:
  "set roots \<subseteq> set (root_calls det) \<Longrightarrow> root_entries A our det tx pos roots \<noteq> None"
proof (induction roots arbitrary: pos)
  case (Cons ic roots)
  obtain i c where ic: "ic = (i, c)" by (cases ic)
  then have "(i, c) \<in> set (root_calls det)" using Cons.prems by auto
  then obtain es where es: "push_reentrant_child_entries A our det (length det) (find_children det i) = Some es"
    using reentrant_terminates by blast
  obtain rest where "root_entries A our det tx (Suc pos) roots = Some rest" using Cons by (metis insert_subset list.simps(15) not_None_eq)
  then show ?case by (auto simp: ic es Let_def)
qed simp

lemma tables_total: "\<exists>t. build_l2_to_l1_continuation_entries A det our tx outcome = Some t"
proof (cases "det = []")
  case False
  let ?roots = "filter (\<lambda>(i, c). \<not> (partial_revert_roots det \<and> dc_in_reverted_frame c)) (root_calls det)"
  have "generate_l2_entries A our det (length det) ic \<noteq> None" if "ic \<in> set ?roots" for ic
  proof -
    obtain i c where ic: "ic = (i, c)" by (cases ic)
    then have "depth_from_root det 0 i" using that root_depth by auto
    then show ?thesis using generate_terminates [of det 0 i "length det"] ic by simp
  qed
  then have "\<forall>ic \<in> set ?roots. generate_l2_entries A our det (length det) ic \<noteq> None" by blast
  then have "those (map (generate_l2_entries A our det (length det)) ?roots) \<noteq> None" by (rule iffD1 [OF those_map_Some])
  then obtain l2 where "those (map (generate_l2_entries A our det (length det)) ?roots) = Some l2" by (rule not_None_eq [THEN iffD1, THEN exE])
  moreover obtain l1 where "root_entries A our det tx 0 (root_calls det) = Some l1"
    using root_entries_terminate by (metis not_None_eq order_refl)
  ultimately show ?thesis using False by (simp add: build_l2_to_l1_continuation_entries_def Let_def)
qed (simp add: build_l2_to_l1_continuation_entries_def)


text \<open>
  C25: the recursions along the parent links end for every list of detected calls, cyclic links
  included: each call has one parent and no cycle is reachable from a root, so a descent is at
  most as long as the list.
\<close>

theorem continuation_tables_total: "\<exists>t. build_l2_to_l1_continuation_entries A det our tx outcome = Some t"
  by (rule tables_total)

section \<open>Ether\<close>

text \<open>The ether that the entries account for (in \<open>i256\<close>, where the sum wraps).\<close>

definition ether_of :: "cross_chain_execution_entry list \<Rightarrow> i256" where
  "ether_of es = (\<Sum>e\<leftarrow>es. \<Sum>d\<leftarrow>state_deltas e. ether_delta d)"

lemma ether_of_simps [simp]:
  "ether_of [] = 0" "ether_of (e # es) = (\<Sum>d\<leftarrow>state_deltas e. ether_delta d) + ether_of es"
  "ether_of (es @ fs) = ether_of es + ether_of fs"
  by (simp_all add: ether_of_def)

lemma ether_of_mset: "mset es = mset fs \<Longrightarrow> ether_of es = ether_of fs"
proof -
  assume "mset es = mset fs"
  then have "mset (map (\<lambda>e. \<Sum>d\<leftarrow>state_deltas e. ether_delta d) es) = mset (map (\<lambda>e. \<Sum>d\<leftarrow>state_deltas e. ether_delta d) fs)"
    by simp
  from arg_cong [where f = sum_mset, OF this] show ?thesis unfolding ether_of_def by (simp only: sum_mset_sum_list)
qed

lemma ether_of_no_deltas: "\<forall>e \<in> set es. state_deltas e = [] \<Longrightarrow> ether_of es = 0"
  by (induction es) auto

lemma ether_of_update: "i < length es \<Longrightarrow> state_deltas e = state_deltas (es ! i) \<Longrightarrow> ether_of (es[i := e]) = ether_of es"
  by (induction es arbitrary: i) (auto simp: nth_Cons' split: nat.splits)

lemma ether_of_insert_after: "ether_of (insert_after i e es) = (\<Sum>d\<leftarrow>state_deltas e. ether_delta d) + ether_of es"
proof -
  have "ether_of es = ether_of (take (Suc i) es) + ether_of (drop (Suc i) es)" by (metis append_take_drop_id ether_of_simps(3))
  then show ?thesis by (simp add: insert_after_def)
qed

lemma zero_delta_ether [simp]: "ether_delta (zero_delta rid v) = v"
  by (simp add: zero_delta_def)

lemma ether_of_append_tx_revert: "ether_of (append_tx_revert A our outcome es) = ether_of es"
proof (cases "es = []")
  case False
  then have "ether_of es = ether_of (butlast es) + (\<Sum>d\<leftarrow>state_deltas (last es). ether_delta d)"
    by (metis append_butlast_last_id ether_of_simps add_0_right)
  then show ?thesis by (simp add: append_tx_revert_def continue_entry_def)
qed (simp add: append_tx_revert_def)

lemma ether_of_insert_l1_revert: "ether_of (insert_l1_revert A our roots es) = ether_of es"
  by (auto simp: insert_l1_revert_def ether_of_insert_after continue_entry_def Let_def ether_of_update
      dest!: position_SomeD split: option.splits)

lemma those_map_SomeD: "those (map f xs) = Some ys \<Longrightarrow> y \<in> set ys \<Longrightarrow> \<exists>x \<in> set xs. f x = Some y"
  by (induction xs arbitrary: ys) (auto split: option.splits)

lemma push_member:
  assumes "push_reentrant_child_entries A our det (Suc fuel) children = Some es" "e \<in> set es"
  shows "\<exists>ic \<in> set children. \<exists>fs. child_entries A our det (push_reentrant_child_entries A our det fuel) ic = Some fs \<and> e \<in> set fs"
proof -
  obtain ess where "those (map (child_entries A our det (push_reentrant_child_entries A our det fuel)) children) = Some ess" "es = concat ess"
    using assms(1) by auto
  then show ?thesis using assms(2) those_map_SomeD by fastforce
qed

lemma push_no_deltas:
  "push_reentrant_child_entries A our det fuel children = Some es \<Longrightarrow> e \<in> set es \<Longrightarrow> state_deltas e = []"
proof (induction fuel arbitrary: children es e)
  case (Suc fuel)
  obtain i c fs where fs: "child_entries A our det (push_reentrant_child_entries A our det fuel) (i, c) = Some fs" "e \<in> set fs"
    using push_member [OF Suc.prems] by (metis surj_pair)
  then show ?case using Suc.IH by (auto simp: child_entries_def Let_def split: if_splits)
qed (auto split: if_splits)

lemma ether_of_roots:
  "root_entries A our det tx pos roots = Some es \<Longrightarrow> pos > 0 \<longrightarrow> length (root_calls det) > 1 \<Longrightarrow>
   length roots > 1 \<longrightarrow> length (root_calls det) > 1 \<Longrightarrow>
   ether_of es = (\<Sum>(i, c)\<leftarrow>roots. delivery_ether_delta (call_value (dc_action c)))"
proof (induction roots arbitrary: pos es)
  case (Cons ic roots)
  obtain i c where ic: "ic = (i, c)" by (cases ic)
  have zero: "ether_of fs = 0" if "push_reentrant_child_entries A our det (length det) (find_children det i) = Some fs" for fs
    using that push_no_deltas ether_of_no_deltas by blast
  show ?case
    using Cons.prems Cons.IH [of "Suc pos"] zero
    by (auto simp: ic Let_def resolution_def split: if_splits option.splits)
qed simp

lemma ether_of_tables:
  assumes "build_l2_to_l1_continuation_entries A det our tx outcome = Some t"
  shows "ether_of (wt_l1 t) = (\<Sum>(i, c)\<leftarrow>root_calls det. delivery_ether_delta (call_value (dc_action c)))"
proof (cases "det = []")
  case True
  then show ?thesis using assms by (auto simp: build_l2_to_l1_continuation_entries_def root_calls_def indexed_def)
next
  case False
  obtain l1 where l1: "root_entries A our det tx 0 (root_calls det) = Some l1"
    using root_entries_terminate by (metis not_None_eq order_refl)
  have "ether_of (wt_l1 t) = ether_of (append_tx_revert A our outcome l1)"
    using assms False l1
    by (auto simp: build_l2_to_l1_continuation_entries_def Let_def ether_of_insert_l1_revert
        ether_of_mset [OF reorder_permutes] split: option.splits if_splits)
  then show ?thesis using ether_of_roots [OF l1] by (simp add: ether_of_append_tx_revert)
qed


text \<open>
  C26: whatever the nesting and the reverts, the L1 entries account for the ether of every root call
  exactly once, and for that of no child.
\<close>

theorem ether_leaves_once:
  "map_option (\<lambda>t. ether_of (wt_l1 t)) (build_l2_to_l1_continuation_entries A det our tx outcome) =
   Some (\<Sum>(i, c)\<leftarrow>root_calls det. delivery_ether_delta (call_value (dc_action c)))"
  using tables_total [of A det our tx outcome] ether_of_tables by fastforce

section \<open>Calls without children\<close>

fun sibling_resolutions :: "abi \<Rightarrow> rollup_id \<Rightarrow> detected_call list \<Rightarrow> nat \<Rightarrow> detected_call list \<Rightarrow> cross_chain_execution_entry list" where
  "sibling_resolutions A our det pos [] = []"
| "sibling_resolutions A our det pos (c # cs) =
     resolution A our det pos c (enumerate (Suc pos) cs) # sibling_resolutions A our det (Suc pos) cs"

lemma only_roots:
  assumes "\<forall>c \<in> set det. dc_parent c = Root"
  shows "find_children det i = []" "root_calls det = enumerate 0 det"
proof -
  show "find_children det i = []" unfolding find_children_def using assms by (intro indexed_none) simp
  show "root_calls det = enumerate 0 det" unfolding root_calls_def using assms by (intro indexed_all) simp
qed

lemma only_roots_plain:
  assumes "\<forall>c \<in> set det. dc_parent c = Root"
  shows "has_any_nested det = False" "use_sibling_scopes det \<longleftrightarrow> length det > 1"
  using only_roots [OF assms] by (simp_all add: has_any_nested_def use_sibling_scopes_def)

lemma no_children_no_entries [simp]: "push_reentrant_child_entries A our det fuel [] = Some []"
  by (cases fuel) simp_all

lemma root_entries_siblings:
  assumes "\<forall>c \<in> set det. dc_parent c = Root" "length det > 1" "pos > 0"
  shows "root_entries A our det tx pos (enumerate pos cs) = Some (sibling_resolutions A our det pos cs)"
  using assms(3) by (induction cs arbitrary: pos) (use assms(2) in \<open>auto simp: only_roots [OF assms(1)] Let_def\<close>)

definition trigger_entry :: "abi \<Rightarrow> rollup_id \<Rightarrow> detected_call list \<Rightarrow> bytes \<Rightarrow> cross_chain_execution_entry" where
  "trigger_entry A our det tx = \<lparr>state_deltas = [zero_delta our 0], action_hash = hash_of A (l2tx_trigger our tx),
     next_action = delivery_call our (hd det) (delivery_scope det 0 (hd det))\<rparr>"

lemma root_entries_all_siblings:
  assumes "\<forall>c \<in> set det. dc_parent c = Root" "det \<noteq> []"
  shows "root_entries A our det tx 0 (root_calls det) = Some (trigger_entry A our det tx # sibling_resolutions A our det 0 det)"
proof -
  obtain c cs where det: "det = c # cs" using assms(2) by (cases det) auto
  have "root_entries A our det tx (Suc 0) (enumerate (Suc 0) cs) = Some (sibling_resolutions A our det (Suc 0) cs)"
  proof (cases "cs = []")
    case False
    then have "length det > 1" by (cases cs) (simp_all add: det)
    then show ?thesis using root_entries_siblings [OF assms(1)] by blast
  qed simp
  moreover have "root_calls det = (0, c) # enumerate (Suc 0) cs" using only_roots [OF assms(1)] by (simp add: det)
  moreover have "sibling_resolutions A our det 0 det = resolution A our det 0 c (enumerate (Suc 0) cs) # sibling_resolutions A our det (Suc 0) cs"
    and "hd det = c" by (simp_all add: det)
  ultimately show ?thesis by (simp add: Let_def only_roots(1) [OF assms(1)] trigger_entry_def)
qed

lemma those_map_total: "(\<And>x. x \<in> set xs \<Longrightarrow> \<exists>y. f x = Some y) \<Longrightarrow> \<exists>ys. those (map f xs) = Some ys"
  by (induction xs) (force split: option.splits)+

lemma build_siblings:
  assumes "\<forall>c \<in> set det. dc_parent c = Root" "det \<noteq> []" "\<not> partial_revert_roots det" "outcome \<noteq> Outcome_Revert"
  shows "\<exists>t. build_l2_to_l1_continuation_entries A det our tx outcome = Some t \<and>
    wt_l1 t = reorder_for_swap_and_pop (trigger_entry A our det tx # sibling_resolutions A our det 0 det)"
proof -
  obtain t where t: "build_l2_to_l1_continuation_entries A det our tx outcome = Some t" using tables_total by blast
  then have "wt_l1 t = reorder_for_swap_and_pop (trigger_entry A our det tx # sibling_resolutions A our det 0 det)"
    using assms by (auto simp: build_l2_to_l1_continuation_entries_def Let_def root_entries_all_siblings append_tx_revert_def
        split: option.splits)
  with t show ?thesis by blast
qed

lemma sibling_hashes:
  "map action_hash (sibling_resolutions A our det pos cs) = map (\<lambda>c. hash_of A (delivery_result MAINNET c)) cs"
  by (induction cs arbitrary: pos) (simp_all add: resolution_def)

lemma sibling_nexts:
  assumes "use_sibling_scopes det" "cs \<noteq> []"
  shows "map next_action (sibling_resolutions A our det pos cs) =
    map (\<lambda>(k, c). delivery_call our c [of_nat k]) (enumerate (Suc pos) (tl cs)) @ [result_action our [] False]"
  using assms(2) by (induction cs arbitrary: pos rule: induct_list012) (auto simp: resolution_def next_hop_def assms(1))

lemma sibling_ether:
  "map (\<lambda>e. map ether_delta (state_deltas e)) (sibling_resolutions A our det pos cs) = map (\<lambda>c. [delivery_ether_delta (call_value (dc_action c))]) cs"
  by (induction cs arbitrary: pos) (simp_all add: resolution_def)


lemma sibling_nexts_all:
  assumes "\<forall>c \<in> set det. dc_parent c = Root" "det \<noteq> []"
  shows "map next_action (sibling_resolutions A our det 0 det) =
    map (\<lambda>(k, c). delivery_call our c [of_nat k]) (enumerate 1 (tl det)) @ [result_action our [] False]"
proof (cases "length det > 1")
  case True
  then show ?thesis using sibling_nexts [of det det A our 0] assms only_roots_plain(2) [OF assms(1)] by simp
next
  case False
  then obtain c where "det = [c]" using assms(2) by (cases det rule: remdups_adj.cases) auto
  then show ?thesis by (simp add: resolution_def next_hop_def)
qed

lemma toy_call_simps [simp]:
  "dc_parent (toy_call d p v) = p" "\<not> dc_in_reverted_frame (toy_call d p v)" "dc_delivery_return_data (toy_call d p v) = []"
  "\<not> dc_l2_delivery_failed (toy_call d p v)" "call_value (dc_action (toy_call d p v)) = v"
  "delivery_result rid (toy_call d p v) = result_void rid"
  by (simp_all add: toy_call_def raw_action_def delivery_result_def result_of_def)

lemma toy_keccak: "keccak toy_abi (b256_bytes x @ b256_bytes y @ u64_be_bytes r @ u64_be_bytes j) = 80"
  by (simp add: toy_abi_def b256_bytes_def u64_be_bytes_def)

lemma toy_hashes [simp]:
  "hash_of toy_abi (l2tx_trigger rid tx) = ActionHash 2" "hash_of toy_abi (result_void rid) = ActionHash 0"
  "compute_revert_continue_hash toy_abi rid = ActionHash 0"
  by (simp_all add: toy_abi_def hash_of_def to_sol_action_def l2tx_trigger_def result_void_def result_action_def
      compute_revert_continue_hash_def revert_continue_action_def)

text \<open>
  L2-to-L1 calls without children: before the reordering the L1 entries lead from the transaction to
  the first call, from the result of each call to the next one and from the last to the
  terminal result, and the result of each call takes its value from the rollup.
\<close>

theorem withdrawals_form_one_chain:
  assumes roots: "\<forall>c \<in> set det. dc_parent c = Root" and "det \<noteq> []" "\<not> partial_revert_roots det" "outcome \<noteq> Outcome_Revert"
  shows "\<exists>t es. build_l2_to_l1_continuation_entries A det our tx outcome = Some t \<and> wt_l1 t = reorder_for_swap_and_pop es \<and>
    map action_hash es = hash_of A (l2tx_trigger our tx) # map (\<lambda>c. hash_of A (delivery_result MAINNET c)) det \<and>
    (\<forall>k < length det. \<exists>sc. next_action (es ! k) = delivery_call our (det ! k) sc) \<and>
    next_action (last es) = result_action our [] False \<and>
    map (\<lambda>e. map ether_delta (state_deltas e)) es = [0] # map (\<lambda>c. [delivery_ether_delta (call_value (dc_action c))]) det"
proof -
  let ?es = "trigger_entry A our det tx # sibling_resolutions A our det 0 det"
  obtain t where t: "build_l2_to_l1_continuation_entries A det our tx outcome = Some t" "wt_l1 t = reorder_for_swap_and_pop ?es"
    using build_siblings [OF assms] by blast
  have nexts: "map next_action ?es = delivery_call our (hd det) (delivery_scope det 0 (hd det)) #
      map (\<lambda>(k, c). delivery_call our c [of_nat k]) (enumerate 1 (tl det)) @ [result_action our [] False]"
    using sibling_nexts_all [OF roots assms(2)] by (simp add: trigger_entry_def)
  have len: "length ?es = Suc (length det)" using arg_cong [where f = length, OF sibling_hashes [of A our det 0 det]] by simp
  have hops: "\<exists>sc. next_action (?es ! k) = delivery_call our (det ! k) sc" if "k < length det" for k
  proof -
    have eq: "next_action (?es ! k) = (delivery_call our (hd det) (delivery_scope det 0 (hd det)) #
      map (\<lambda>(k, c). delivery_call our c [of_nat k]) (enumerate 1 (tl det)) @ [result_action our [] False]) ! k"
      using nexts that len by (metis less_SucI nth_map)
    show ?thesis
    proof (cases k)
      case 0
      then show ?thesis using eq assms(2) by (auto simp: hd_conv_nth)
    next
      case (Suc j)
      then show ?thesis using eq that by (auto simp: nth_append nth_enumerate_eq nth_tl)
    qed
  qed
  have end_: "next_action (last ?es) = result_action our [] False"
  proof -
    have "next_action (last ?es) = last (map next_action ?es)" by (rule last_map [symmetric]) simp
    also have "\<dots> = result_action our [] False" unfolding nexts by simp
    finally show ?thesis .
  qed
  have hashes: "map action_hash ?es = hash_of A (l2tx_trigger our tx) # map (\<lambda>c. hash_of A (delivery_result MAINNET c)) det"
    by (simp add: trigger_entry_def sibling_hashes)
  have ether: "map (\<lambda>e. map ether_delta (state_deltas e)) ?es = [0] # map (\<lambda>c. [delivery_ether_delta (call_value (dc_action c))]) det"
    by (simp add: trigger_entry_def sibling_ether)
  show ?thesis using t hops end_ hashes ether by (intro exI [of _ t] exI [of _ ?es] conjI allI impI)
qed

theorem withdrawals_form_one_chain_witness:
  "\<exists>t es. build_l2_to_l1_continuation_entries toy_abi [toy_call L2ToL1 Root 4, toy_call L2ToL1 Root 5] (RollupId 1) [1] Outcome_Success = Some t \<and>
    wt_l1 t = reorder_for_swap_and_pop es \<and> map action_hash es = [ActionHash 2, ActionHash 0, ActionHash 0] \<and>
    (\<exists>sc. next_action (es ! 1) = delivery_call (RollupId 1) (toy_call L2ToL1 Root 5) sc) \<and>
    (\<exists>sc. next_action (es ! 0) = delivery_call (RollupId 1) (toy_call L2ToL1 Root 4) sc) \<and>
    next_action (last es) = result_action (RollupId 1) [] False \<and>
    map (\<lambda>e. map ether_delta (state_deltas e)) es = [[0], [- 4], [- 5]]"
  using withdrawals_form_one_chain [of "[toy_call L2ToL1 Root 4, toy_call L2ToL1 Root 5]" Outcome_Success toy_abi "RollupId 1" "[1]"]
  by (simp add: partial_revert_roots_def root_calls_def indexed_def delivery_ether_delta_def i256_from_u256_def All_less_Suc)

lemma void_result: "dc_delivery_return_data c = [] \<Longrightarrow> \<not> dc_l2_delivery_failed c \<Longrightarrow> delivery_result rid c = result_void rid"
  by (simp add: delivery_result_def result_of_def)

lemma attach_one_group:
  assumes "es \<noteq> []" "\<not> is_revert_slice es"
  shows "\<exists>es'. attach_generic_state_deltas A es [pre, post] rollup [0] = Inr es' \<and>
    action_hash (hd es') = action_hash (hd es) \<and> map current_state (state_deltas (hd es')) = [pre] \<and>
    action_hash (last es') = action_hash (last es) \<and>
    map current_state (state_deltas (last es')) = [entry_root A pre post rollup (length es) False (length es - 1)]"
proof -
  define root where "root = entry_root A pre post rollup (length es) False"
  define es' where "es' = attach_group (RollupId (ucast rollup)) root 0 (length es) es"
  have at: "attach_generic_state_deltas A es [pre, post] rollup [0] = Inr es'"
    using assms(2) by (simp add: attach_generic_state_deltas_def es'_def root_def Let_def)
  have len: "length es' = length es" by (simp add: es'_def attach_group_def)
  have nth: "es' ! i = with_delta (RollupId (ucast rollup)) (root i) (root (Suc i)) (es ! i)" if "i < length es" for i
    using that by (simp add: es'_def attach_group_def nth_enumerate_eq)
  have "es' \<noteq> []" using len assms(1) by auto
  then have "hd es' = with_delta (RollupId (ucast rollup)) (root 0) (root 1) (hd es)"
    and "last es' = with_delta (RollupId (ucast rollup)) (root (length es - 1)) (root (length es)) (last es)"
    using assms(1) nth [of 0] nth [of "length es - 1"] len by (simp_all add: hd_conv_nth last_conv_nth)
  then show ?thesis using at by (simp add: with_delta_def root_def entry_root_def)
qed

lemma reorder_marked:
  assumes "length rs \<ge> 3" "\<forall>e \<in> set rs. action_hash e = h" "action_hash x \<noteq> h"
  shows "\<exists>r. action_hash r = h \<and> (\<exists>mid. reorder_for_swap_and_pop (x # rs) = r # mid @ [x])"
proof -
  have g: "same_hash h (x # rs) = rs" and u: "same_hash (action_hash x) (x # rs) = [x]" and f: "filter (\<lambda>e. action_hash e \<noteq> h) (x # rs) = [x]"
    using assms by (auto simp: same_hash_def filter_empty_conv intro!: filter_True)
  obtain r rr where r: "rs = r # rr" using assms(1) by (cases rs) auto
  have "reorder_for_swap_and_pop (x # rs) = reorder_group rs @ [x]"
    using reorder_one_group [of h "x # rs"] g u f assms by auto
  then have "reorder_for_swap_and_pop (x # rs) = r # rev rr @ [x]" using assms(1) r by simp
  then show ?thesis using r assms(2) by auto
qed

text \<open>
  Three or more void calls to L1: reordering moves their equal results to the front, and attaching
  the state deltas gives the rollup's pre-state to a result, while the L2TX trigger, consumed
  first on L1, expects a synthetic state that only exists at the end of the chain.
\<close>

theorem void_withdrawals_start_last:
  assumes roots: "\<forall>c \<in> set det. dc_parent c = Root" and n: "length det \<ge> 3"
    and "\<not> partial_revert_roots det" "outcome \<noteq> Outcome_Revert"
    and void: "\<forall>c \<in> set det. dc_delivery_return_data c = [] \<and> \<not> dc_l2_delivery_failed c"
    and hash: "hash_of A (l2tx_trigger our tx) \<noteq> hash_of A (result_void MAINNET)"
  shows "\<exists>t es. build_l2_to_l1_continuation_entries A det our tx outcome = Some t \<and>
    attach_generic_state_deltas A (wt_l1 t) [pre, post] rollup [0] = Inr es \<and>
    action_hash (hd es) = hash_of A (result_void MAINNET) \<and> map current_state (state_deltas (hd es)) = [pre] \<and>
    action_hash (last es) = hash_of A (l2tx_trigger our tx) \<and>
    map current_state (state_deltas (last es)) = [entry_root A pre post rollup (Suc (length det)) False (length det)]"
proof -
  let ?h = "hash_of A (result_void MAINNET)" and ?tr = "trigger_entry A our det tx" and ?rs = "sibling_resolutions A our det 0 det"
  have "det \<noteq> []" using n by auto
  then obtain t where t: "build_l2_to_l1_continuation_entries A det our tx outcome = Some t"
    "wt_l1 t = reorder_for_swap_and_pop (?tr # ?rs)"
    using build_siblings [OF roots _ assms(3,4)] by blast
  have "map action_hash ?rs = map (\<lambda>_. ?h) det" using void void_result by (simp add: sibling_hashes cong: map_cong)
  then have rh: "\<forall>e \<in> set ?rs. action_hash e = ?h" and len: "length ?rs = length det"
    by (metis (mono_tags, lifting) ex_map_conv image_eqI list.set_map, metis length_map)
  have th: "action_hash ?tr = hash_of A (l2tx_trigger our tx)" by (simp add: trigger_entry_def)
  obtain r mid where r: "action_hash r = ?h" "wt_l1 t = r # mid @ [?tr]"
    using reorder_marked [OF _ rh, of ?tr] n len hash th t(2) by auto
  have perm: "set (wt_l1 t) = set (?tr # ?rs)" and "length (wt_l1 t) = Suc (length det)"
    using t(2) len by (simp_all add: mset_eq_length [OF reorder_permutes])
  moreover have "\<not> is_revert_slice (wt_l1 t)"
  proof -
    have "action_type (next_action e) \<noteq> Revert" if "e \<in> set ?rs" for e
    proof -
      from that have "next_action e \<in> set (map next_action ?rs)" by simp
      then show ?thesis unfolding sibling_nexts_all [OF roots \<open>det \<noteq> []\<close>]
        by (auto simp: delivery_call_def result_action_def)
    qed
    then show ?thesis using perm by (auto simp: is_revert_slice_def trigger_entry_def delivery_call_def)
  qed
  ultimately show ?thesis
    using attach_one_group [of "wt_l1 t" A pre post rollup] r th t(1) by auto
qed


theorem void_withdrawals_start_last_witness:
  "\<exists>t es. build_l2_to_l1_continuation_entries toy_abi
      [toy_call L2ToL1 Root 4, toy_call L2ToL1 Root 5, toy_call L2ToL1 Root 6] (RollupId 1) [1] Outcome_Success = Some t \<and>
    attach_generic_state_deltas toy_abi (wt_l1 t) [10, 20] 1 [0] = Inr es \<and>
    action_hash (hd es) = ActionHash 0 \<and> map current_state (state_deltas (hd es)) = [10] \<and>
    action_hash (last es) = ActionHash 2 \<and> map current_state (state_deltas (last es)) = [80]"
  using void_withdrawals_start_last [of "[toy_call L2ToL1 Root 4, toy_call L2ToL1 Root 5, toy_call L2ToL1 Root 6]" Outcome_Success toy_abi
      "RollupId 1" "[1]" 10 20 1]
  by (simp add: partial_revert_roots_def root_calls_def indexed_def entry_root_def toy_keccak)

section \<open>Partial reverts\<close>

text \<open>With return calls among the roots' children the boundary is not found.\<close>

definition outside_scopes :: "cross_chain_execution_entry \<Rightarrow> bool" where
  "outside_scopes e \<longleftrightarrow> action_type (next_action e) \<noteq> Revert \<and>
     (action_type (next_action e) = Call \<longrightarrow> as_slice (scope (next_action e)) = [])"

lemma child_result_is_result [simp]: "action_type (child_result our c) = Result"
  by (auto simp: child_result_def result_of_def result_void_def result_action_def split: call_orientation.split)

lemma leaf_children_outside:
  assumes "\<forall>(j, d) \<in> set children. find_children det j = []" "push_reentrant_child_entries A our det fuel children = Some es" "e \<in> set es"
  shows "outside_scopes e"
proof (cases fuel)
  case 0
  then show ?thesis using assms by (auto split: if_splits)
next
  case (Suc n)
  obtain j d fs where jd: "(j, d) \<in> set children" and fs: "child_entries A our det (push_reentrant_child_entries A our det n) (j, d) = Some fs" "e \<in> set fs"
    using push_member assms(2,3) Suc by (metis surj_pair)
  have "find_children det j = []" using assms(1) jd by auto
  then show ?thesis using fs by (auto simp: child_entries_def outside_scopes_def)
qed

lemma resolution_outside: "has_any_nested det \<Longrightarrow> outside_scopes (resolution A our det pos c rest)"
  by (auto simp: resolution_def outside_scopes_def next_hop_def delivery_call_def use_sibling_scopes_def result_action_def from_parts_def
      split: list.split)

lemma trigger_outside: "has_any_nested det \<Longrightarrow> outside_scopes \<lparr>state_deltas = ds, action_hash = h, next_action = delivery_call our c (delivery_scope det pos c)\<rparr>"
  by (simp add: outside_scopes_def delivery_call_def delivery_scope_def use_sibling_scopes_def from_parts_def)

lemma root_scopes_when_nested:
  assumes nested: "has_any_nested det" and leaves: "\<forall>(i, c) \<in> set roots. \<forall>(j, d) \<in> set (find_children det i). find_children det j = []"
    and "root_entries A our det tx pos roots = Some es" "e \<in> set es"
  shows "outside_scopes e"
  using leaves assms(3,4)
proof (induction roots arbitrary: pos es)
  case (Cons ic roots)
  obtain i c where ic: "ic = (i, c)" by (cases ic)
  have ch: "\<forall>(j, d) \<in> set (find_children det i). find_children det j = []" using Cons.prems(1) by (simp add: ic)
  obtain gs where gs: "root_entries A our det tx (Suc pos) roots = Some gs"
    using Cons.prems(2) by (auto simp: ic Let_def split: option.splits)
  obtain fs where fs: "push_reentrant_child_entries A our det (length det) (find_children det i) = Some fs"
    using Cons.prems(2) by (cases "find_children det i = []") (auto simp: ic Let_def split: if_splits option.splits)
  have "set es \<subseteq> set fs \<union> set gs \<union> {resolution A our det pos c roots, \<lparr>state_deltas = [zero_delta our 0],
        action_hash = hash_of A (l2tx_trigger our tx), next_action = delivery_call our c (delivery_scope det pos c)\<rparr>}"
    using Cons.prems(2) by (auto simp: ic Let_def gs fs split: if_splits)
  then show ?case
    using Cons.IH [OF _ gs] Cons.prems(1,3) leaf_children_outside [OF ch fs] resolution_outside [OF nested] trigger_outside [OF nested] by auto
qed simp

text \<open>
  A partial revert whose calls have return calls (one level deep): no entry leads to REVERT, since
  nested calls are delivered with an empty scope and the boundary is sought by a non-empty one.
\<close>

theorem nested_partial_revert_has_no_revert:
  assumes partial: "partial_revert_roots det" and nested: "has_any_nested det" and "outcome \<noteq> Outcome_Revert"
    and leaves: "\<forall>(i, c) \<in> set (root_calls det). \<forall>(j, d) \<in> set (find_children det i). find_children det j = []"
    and "build_l2_to_l1_continuation_entries A det our tx outcome = Some t"
  shows "\<forall>e \<in> set (wt_l1 t). action_type (next_action e) \<noteq> Revert"
proof -
  have "det \<noteq> []" using partial by (auto simp: partial_revert_roots_def root_calls_def indexed_def)
  obtain l1 where l1: "root_entries A our det tx 0 (root_calls det) = Some l1"
    using root_entries_terminate by (metis not_None_eq order_refl)
  have out: "outside_scopes e" if "e \<in> set l1" for e by (rule root_scopes_when_nested [OF nested leaves l1 that])
  have "insert_l1_revert A our (root_calls det) l1 = l1"
  proof -
    have "[] \<noteq> sibling_scope k s" for k s by (simp add: sibling_scope_def)
    then have "position (\<lambda>e. action_type (next_action e) = Call \<and> as_slice (scope (next_action e)) = sibling_scope k s) l1 = None" for k s
      using out by (intro position_None) (auto simp: outside_scopes_def)
    then show ?thesis by (simp add: insert_l1_revert_def split: option.split)
  qed
  then have "wt_l1 t = reorder_for_swap_and_pop l1"
    using assms(3,5) l1 \<open>det \<noteq> []\<close>
    by (auto simp: build_l2_to_l1_continuation_entries_def Let_def append_tx_revert_def split: option.splits if_splits)
  then show ?thesis using out by (auto simp: outside_scopes_def)
qed


text \<open>
  A partial revert whose surviving call has a scope of two or more parts: the link to it has the
  scope of its position alone, the boundary is sought under the full prefix, and no REVERT is inserted.
\<close>

theorem deep_partial_revert_has_no_revert:
  assumes roots: "dc_parent r0 = Root" "dc_parent r1 = Root" and frames: "dc_in_reverted_frame r0" "\<not> dc_in_reverted_frame r1"
    and deep: "length (as_slice (dc_scope r1)) \<ge> 2" and other: "as_slice (dc_scope r0) = [] \<or> butlast (as_slice (dc_scope r0)) \<noteq> butlast (as_slice (dc_scope r1))"
    and outcome: "outcome \<noteq> Outcome_Revert"
  shows "\<exists>t. build_l2_to_l1_continuation_entries A [r0, r1] our tx outcome = Some t \<and>
    (\<forall>e \<in> set (wt_l1 t). action_type (next_action e) \<noteq> Revert)"
proof -
  have all: "\<forall>c \<in> set [r0, r1]. dc_parent c = Root" using roots by simp
  let ?es = "trigger_entry A our [r0, r1] tx # sibling_resolutions A our [r0, r1] 0 [r0, r1]"
  obtain t where t: "build_l2_to_l1_continuation_entries A [r0, r1] our tx outcome = Some t" using tables_total by blast
  have l1: "root_entries A our [r0, r1] tx 0 (root_calls [r0, r1]) = Some ?es" by (rule root_entries_all_siblings [OF all]) simp
  have multi: "use_sibling_scopes [r0, r1]" using only_roots_plain(2) [OF all] by simp
  have partial: "partial_revert_roots [r0, r1]" using frames by (simp add: partial_revert_roots_def only_roots(2) [OF all])
  have ne: "as_slice (dc_scope r1) \<noteq> []" "butlast (as_slice (dc_scope r1)) \<noteq> []" using deep by (cases "as_slice (dc_scope r1)" rule: remdups_adj.cases; auto)+
  have "insert_l1_revert A our (root_calls [r0, r1]) ?es = ?es"
    using frames ne other multi
    by (auto simp: insert_l1_revert_def only_roots(2) [OF all] trigger_entry_def resolution_def delivery_call_def delivery_scope_def sibling_scope_def
        next_hop_def result_action_def from_parts_def append_eq_Cons_conv append_eq_append_conv2 split: if_splits)
  then have "wt_l1 t = reorder_for_swap_and_pop ?es"
    using t outcome l1 partial by (auto simp: build_l2_to_l1_continuation_entries_def Let_def append_tx_revert_def split: option.splits)
  then have "\<forall>e \<in> set (wt_l1 t). action_type (next_action e) \<noteq> Revert"
    by (auto simp: trigger_entry_def resolution_def delivery_call_def next_hop_def result_action_def)
  then show ?thesis using t by blast
qed

text \<open>
  A single call to L1: the continuation builder and the withdrawal builder give the same L1 entries and the same CALL
  entry on L2, except for a reverted transaction with an empty scope, where only the latter uses \<open>[0]\<close>.
\<close>

theorem single_withdrawal_matches:
  assumes det: "det = analyze_l2_to_l1_continuation_calls [c] [] our" and rid: "rid = RollupId (ucast our)"
    and scope: "outcome = Outcome_Revert \<longrightarrow> as_slice (ld_scope c) \<noteq> []"
    and hash: "hash_of A (l2tx_trigger rid tx) \<noteq> compute_revert_continue_hash A rid"
    and w: "w = build_l2_to_l1_call_entries A (ld_destination c) (ld_data c) (ld_value c) (ld_source_address c) our tx
      (ld_delivery_return_data c) (ld_delivery_failed c) (as_slice (ld_scope c)) outcome"
  shows "\<exists>t. build_l2_to_l1_continuation_entries A det rid tx outcome = Some t \<and>
    wt_l1 t = l1_deferred_entries w \<and> wt_l2 t = [hd (l2_table_entries w)]"
proof -
  define d where "d = root_call rid (0, c)"
  have det_d: "det = [d]" using det rid by (simp add: analyze_l2_to_l1_continuation_calls_def d_def)
  have fields: "dc_action d = raw_action MAINNET rid (ld_destination c) (ld_value c) (ld_data c) (ld_source_address c)"
    "dc_scope d = ld_scope c" "delivery_result MAINNET d = result_action MAINNET (ld_delivery_return_data c) (ld_delivery_failed c)"
    by (simp_all add: d_def root_call_def delivery_result_def result_of_def result_void_def)
  have all: "\<forall>x \<in> set [d]. dc_parent x = Root" by (simp add: d_def root_call_def)
  have roots: "root_calls [d] = [(0, d)]" and nested: "\<not> has_any_nested [d]" and single: "\<not> use_sibling_scopes [d]"
    using only_roots [OF all] only_roots_plain [OF all] by simp_all
  have partial: "\<not> partial_revert_roots [d]" by (simp add: partial_revert_roots_def roots)
  define E where "E = trigger_entry A rid [d] tx # sibling_resolutions A rid [d] 0 [d]"
  have E: "E = [\<lparr>state_deltas = [zero_delta rid 0], action_hash = hash_of A (l2tx_trigger rid tx), next_action = delivery_call rid d (as_slice (ld_scope c))\<rparr>,
      \<lparr>state_deltas = [zero_delta rid (delivery_ether_delta (ld_value c))], action_hash = hash_of A (delivery_result MAINNET d),
        next_action = result_action rid [] False\<rparr>]"
    by (auto simp: E_def trigger_entry_def delivery_scope_def single nested fields resolution_def next_hop_def raw_action_def)
  have l1: "root_entries A rid [d] tx 0 [(0, d)] = Some E" using root_entries_all_siblings [OF all] roots by (simp add: E_def)
  have l2: "generate_l2_entries A rid [d] (length [d]) (0, d) = Some [plain_entry (hash_of A (dc_action d)) (delivery_result MAINNET d)]"
    using only_roots(1) [OF all] by simp
  have build: "build_l2_to_l1_continuation_entries A [d] rid tx outcome =
      Some \<lparr>wt_l2 = [plain_entry (hash_of A (dc_action d)) (delivery_result MAINNET d)], wt_l1 = reorder_for_swap_and_pop (append_tx_revert A rid outcome E)\<rparr>"
    using l1 l2 partial by (simp add: build_l2_to_l1_continuation_entries_def roots Let_def reorder_small)
  have "reorder_for_swap_and_pop (append_tx_revert A rid outcome E) = append_tx_revert A rid outcome E"
    using hash by (auto simp: append_tx_revert_def E continue_entry_def result_action_def reorder_for_swap_and_pop_def same_hash_def)
  moreover have "append_tx_revert A rid outcome E = l1_deferred_entries w"
    using scope by (cases outcome) (auto simp: append_tx_revert_def E w build_l2_to_l1_call_entries_def Let_def fields rid l2tx_trigger_def delivery_call_def
        raw_action_def continue_entry_def result_action_def)
  moreover have "[plain_entry (hash_of A (dc_action d)) (delivery_result MAINNET d)] = [hd (l2_table_entries w)]"
    by (simp add: w build_l2_to_l1_call_entries_def Let_def fields raw_action_def rid)
  ultimately show ?thesis using build det_d by simp
qed

definition toy_withdrawal :: l2_detected_call where
  "toy_withdrawal = \<lparr>ld_destination = 7, ld_data = [1], ld_value = 4, ld_source_address = 8, ld_delivery_return_data = [3],
     ld_delivery_failed = False, ld_scope = from_index 2, ld_in_reverted_frame = False\<rparr>"

theorem single_withdrawal_matches_witness:
  "\<exists>t. build_l2_to_l1_continuation_entries toy_abi (analyze_l2_to_l1_continuation_calls [toy_withdrawal] [] 1) (RollupId 1) [1] Outcome_Revert = Some t \<and>
    wt_l1 t = l1_deferred_entries (build_l2_to_l1_call_entries toy_abi 7 [1] 4 8 1 [1] [3] False [2] Outcome_Revert)"
  using single_withdrawal_matches [OF refl refl, of Outcome_Revert toy_withdrawal toy_abi 1 "[1]", OF _ _ refl]
  by (auto simp: toy_withdrawal_def from_index_def)

end
