(* ===== verification/Trace_Walker.thy ===== *)
theory Trace_Walker
  imports Cross_Chain_Types
begin

text \<open>
  Detecting cross-chain calls in a \<open>callTracer\<close> trace (\<open>composer_rpc/trace\<close>): the typed trace
  node, the proxies that a transaction creates for itself, the resolution of a proxy's identity
  and the depth-first walk. Hex and address parsing, the selectors and the lookup of a proxy on
  chain belong to alloy and to the node; they are fields of \<open>trace_env\<close>.
\<close>

unbundle bit_operations_syntax

section \<open>Trace nodes (\<open>trace/types.rs\<close>)\<close>

datatype call_trace_node = Call_Trace_Node
  (tn_to: "string option") (tn_from: "string option") (tn_input: "string option") (tn_value: "string option")
  (tn_output: "string option") (tn_error: "string option") (tn_revert_reason: "string option")
  (tn_calls: "call_trace_node list option")

record proxy_info =
  original_address :: address
  original_rollup_id :: u64

text \<open>\<open>DetectedCall\<close> of \<open>trace/types.rs\<close>.\<close>

record traced_call =
  tc_destination :: address
  tc_calldata :: bytes
  tc_value :: u256
  tc_source_address :: address
  tc_trace_depth :: nat
  tc_output :: bytes
  tc_in_reverted_frame :: bool

record trace_env =
  parse_address :: "string \<Rightarrow> address option"
  hex_decode :: "string \<Rightarrow> bytes option"
  parse_u256_hex :: "string \<Rightarrow> u256 option"
  execute_cross_chain_call_selector :: bytes
  create_cross_chain_proxy_selector :: bytes
  manager_addresses :: "address list"
  lookup_proxy :: "address \<Rightarrow> proxy_info option"

text \<open>\<open>s.strip_prefix("0x").unwrap_or(s)\<close>.\<close>

definition strip_0x :: "string \<Rightarrow> string" where
  "strip_0x s = (if take 2 s = ''0x'' then drop 2 s else s)"

definition or_default :: "'a \<Rightarrow> 'a option \<Rightarrow> 'a" where
  "or_default d x = (case x of None \<Rightarrow> d | Some y \<Rightarrow> y)"

definition to_address :: "trace_env \<Rightarrow> call_trace_node \<Rightarrow> address option" where
  "to_address E n = Option.bind (tn_to n) (parse_address E)"

definition sender_address :: "trace_env \<Rightarrow> call_trace_node \<Rightarrow> address option" where
  "sender_address E n = Option.bind (tn_from n) (parse_address E)"

definition input_bytes :: "trace_env \<Rightarrow> call_trace_node \<Rightarrow> bytes" where
  "input_bytes E n = or_default [] (hex_decode E (strip_0x (or_default ''0x'' (tn_input n))))"

definition value_u256 :: "trace_env \<Rightarrow> call_trace_node \<Rightarrow> u256" where
  "value_u256 E n = or_default 0 (Option.bind (tn_value n) (\<lambda>s. parse_u256_hex E (strip_0x s)))"

definition output_bytes :: "trace_env \<Rightarrow> call_trace_node \<Rightarrow> bytes" where
  "output_bytes E n = (case tn_output n of None \<Rightarrow> [] | Some s \<Rightarrow> or_default [] (hex_decode E (strip_0x s)))"

definition has_error :: "call_trace_node \<Rightarrow> bool" where
  "has_error n \<longleftrightarrow> tn_error n \<noteq> None"

definition is_top_level_error :: "call_trace_node \<Rightarrow> bool" where
  "is_top_level_error n \<longleftrightarrow> tn_error n \<noteq> None \<or> tn_revert_reason n \<noteq> None"

definition children :: "call_trace_node \<Rightarrow> call_trace_node list" where
  "children n = or_default [] (tn_calls n)"

record trace_node =
  node_to :: address
  node_from :: address
  node_input :: bytes
  node_value :: u256

definition trace_node_from_typed :: "trace_env \<Rightarrow> call_trace_node \<Rightarrow> trace_node option" where
  "trace_node_from_typed E n =
     map_option (\<lambda>to. \<lparr>node_to = to, node_from = or_default 0 (sender_address E n),
       node_input = input_bytes E n, node_value = value_u256 E n\<rparr>) (to_address E n)"

definition parse_trace_node :: "trace_env \<Rightarrow> ('j \<Rightarrow> call_trace_node option) \<Rightarrow> 'j \<Rightarrow> trace_node option" where
  "parse_trace_node E parse j = Option.bind (parse j) (trace_node_from_typed E)"

definition has_selector :: "bytes \<Rightarrow> bytes \<Rightarrow> bool" where
  "has_selector input selector \<longleftrightarrow> length input \<ge> 4 \<and> take 4 input = selector"

section \<open>Proxies (\<open>trace/proxy.rs\<close>)\<close>

definition try_extract_ephemeral_proxy :: "trace_env \<Rightarrow> call_trace_node \<Rightarrow> bytes \<Rightarrow> (address \<times> proxy_info) option" where
  "try_extract_ephemeral_proxy E n input =
     (if length input < 68 then None
      else
        let original = be_word (take 20 (drop 16 input)) :: address;
            rollup = foldl (\<lambda>acc b. push_bit 8 acc OR ucast b) 0 (drop 24 (take 32 (drop 36 input))) :: u64;
            output = output_bytes E n
        in if length output < 32 then None
           else let proxy = be_word (take 20 (drop 12 output)) :: address
             in if proxy = 0 then None
                else Some (proxy, \<lparr>original_address = original, original_rollup_id = rollup\<rparr>))"

record walk_state =
  proxy_cache :: "address \<rightharpoonup> proxy_info option"
  ephemeral_proxies :: "address \<rightharpoonup> proxy_info"
  detected_calls :: "traced_call list"
  unresolved_proxies :: "address set"

definition resolve_proxy_info :: "trace_env \<Rightarrow> address \<Rightarrow> walk_state \<Rightarrow> proxy_info option \<times> walk_state" where
  "resolve_proxy_info E a s =
     (case proxy_cache s a of
        Some cached \<Rightarrow> (cached, s)
      | None \<Rightarrow>
          (case ephemeral_proxies s a of
             Some info \<Rightarrow> (Some info, s\<lparr>proxy_cache := (proxy_cache s)(a \<mapsto> Some info)\<rparr>)
           | None \<Rightarrow> (lookup_proxy E a, s\<lparr>proxy_cache := (proxy_cache s)(a \<mapsto> lookup_proxy E a)\<rparr>)))"

section \<open>The walk (\<open>trace/walker.rs\<close>)\<close>

definition has_execute_cross_chain_call_child :: "trace_env \<Rightarrow> call_trace_node \<Rightarrow> bool" where
  "has_execute_cross_chain_call_child E n \<longleftrightarrow>
     (\<exists>c \<in> set (children n). case to_address E c of
        None \<Rightarrow> False
      | Some a \<Rightarrow> a \<in> set (manager_addresses E) \<and> has_selector (input_bytes E c) (execute_cross_chain_call_selector E))"

definition creates_proxy :: "trace_env \<Rightarrow> trace_node \<Rightarrow> bool" where
  "creates_proxy E p \<longleftrightarrow>
     node_to p \<in> set (manager_addresses E) \<and> has_selector (node_input p) (create_cross_chain_proxy_selector E)"

definition record_proxy :: "trace_env \<Rightarrow> call_trace_node \<Rightarrow> trace_node \<Rightarrow> walk_state \<Rightarrow> walk_state" where
  "record_proxy E n p s =
     (case try_extract_ephemeral_proxy E n (node_input p) of
        None \<Rightarrow> s
      | Some (a, info) \<Rightarrow> s\<lparr>ephemeral_proxies := (ephemeral_proxies s)(a \<mapsto> info)\<rparr>)"

definition detect_call :: "trace_env \<Rightarrow> nat \<Rightarrow> bool \<Rightarrow> call_trace_node \<Rightarrow> trace_node \<Rightarrow> walk_state \<Rightarrow> walk_state" where
  "detect_call E depth reverted n p s =
     (case resolve_proxy_info E (node_to p) s of
        (Some info, s') \<Rightarrow>
          s'\<lparr>detected_calls := detected_calls s' @
            [\<lparr>tc_destination = original_address info, tc_calldata = node_input p, tc_value = node_value p,
              tc_source_address = node_from p, tc_trace_depth = depth, tc_output = output_bytes E n,
              tc_in_reverted_frame = reverted\<rparr>]\<rparr>
      | (None, s') \<Rightarrow> s'\<lparr>unresolved_proxies := insert (node_to p) (unresolved_proxies s')\<rparr>)"

text \<open>
  What \<open>walk_trace_tree_inner\<close> does at a node. Each of its branches then recurses into the
  children with the same arguments.
\<close>

definition visit_node :: "trace_env \<Rightarrow> nat \<Rightarrow> bool \<Rightarrow> call_trace_node \<Rightarrow> walk_state \<Rightarrow> walk_state" where
  "visit_node E depth reverted n s =
     (case trace_node_from_typed E n of
        None \<Rightarrow> s
      | Some p \<Rightarrow>
          if node_from p \<in> set (manager_addresses E) then s
          else if creates_proxy E p then record_proxy E n p s
          else if has_execute_cross_chain_call_child E n then detect_call E depth reverted n p s
          else s)"

lemma size_children: "size_list size (children n) < size n"
  by (cases n) (auto simp: children_def or_default_def split: option.splits)

lemma size_children_walk: "Suc (2 * size_list size (children n)) < 2 * size n"
  using size_children [of n] by simp

function walk_trace_tree_inner :: "trace_env \<Rightarrow> nat \<Rightarrow> bool \<Rightarrow> call_trace_node \<Rightarrow> walk_state \<Rightarrow> walk_state"
  and recurse_children :: "trace_env \<Rightarrow> nat \<Rightarrow> bool \<Rightarrow> call_trace_node list \<Rightarrow> walk_state \<Rightarrow> walk_state" where
  "walk_trace_tree_inner E depth reverted n s = recurse_children E depth reverted (children n) (visit_node E depth reverted n s)"
| "recurse_children E depth reverted [] s = s"
| "recurse_children E depth reverted (c # cs) s =
     recurse_children E depth reverted cs (walk_trace_tree_inner E (Suc depth) (reverted \<or> has_error c) c s)"
  by pat_completeness auto
termination
  by (relation "measure (case_sum (\<lambda>(_, _, _, n, _). 2 * size n) (\<lambda>(_, _, _, cs, _). 2 * size_list size cs + 1))")
    (auto simp: size_children_walk)

text \<open>
  The entry point. \<open>parse\<close> is the deserialization of a JSON value, \<open>raw_calls\<close> its \<open>calls\<close>
  array when it has one.
\<close>

definition walk_trace_tree :: "trace_env \<Rightarrow> ('j \<Rightarrow> call_trace_node option) \<Rightarrow> ('j \<Rightarrow> 'j list option) \<Rightarrow> 'j \<Rightarrow> walk_state \<Rightarrow> walk_state" where
  "walk_trace_tree E parse raw_calls j s =
     (case parse j of
        Some n \<Rightarrow> walk_trace_tree_inner E 0 False n s
      | None \<Rightarrow>
          (case raw_calls j of
             None \<Rightarrow> s
           | Some js \<Rightarrow> fold (\<lambda>c. walk_trace_tree_inner E 1 False c) (List.map_filter parse js) s))"

function extract_ephemeral_proxies_typed :: "trace_env \<Rightarrow> call_trace_node \<Rightarrow> (address \<rightharpoonup> proxy_info) \<Rightarrow> (address \<rightharpoonup> proxy_info)"
  and extract_children :: "trace_env \<Rightarrow> call_trace_node list \<Rightarrow> (address \<rightharpoonup> proxy_info) \<Rightarrow> (address \<rightharpoonup> proxy_info)" where
  "extract_ephemeral_proxies_typed E n m =
     extract_children E (children n)
       (case trace_node_from_typed E n of
          None \<Rightarrow> m
        | Some p \<Rightarrow>
            if creates_proxy E p then
              (case try_extract_ephemeral_proxy E n (node_input p) of None \<Rightarrow> m | Some (a, info) \<Rightarrow> m(a \<mapsto> info))
            else m)"
| "extract_children E [] m = m"
| "extract_children E (c # cs) m = extract_children E cs (extract_ephemeral_proxies_typed E c m)"
  by pat_completeness auto
termination
  by (relation "measure (case_sum (\<lambda>(_, n, _). 2 * size n) (\<lambda>(_, cs, _). 2 * size_list size cs + 1))")
    (auto simp: size_children_walk)

definition extract_ephemeral_proxies_from_trace :: "trace_env \<Rightarrow> ('j \<Rightarrow> call_trace_node option) \<Rightarrow> 'j \<Rightarrow> (address \<rightharpoonup> proxy_info) \<Rightarrow> (address \<rightharpoonup> proxy_info)" where
  "extract_ephemeral_proxies_from_trace E parse j m =
     (case parse j of None \<Rightarrow> m | Some n \<Rightarrow> extract_ephemeral_proxies_typed E n m)"


section \<open>The walk as a fold over the depth-first order\<close>

function depth_first :: "nat \<Rightarrow> bool \<Rightarrow> call_trace_node \<Rightarrow> (nat \<times> bool \<times> call_trace_node) list"
  and depth_first_list :: "nat \<Rightarrow> bool \<Rightarrow> call_trace_node list \<Rightarrow> (nat \<times> bool \<times> call_trace_node) list" where
  "depth_first depth reverted n = (depth, reverted, n) # depth_first_list depth reverted (children n)"
| "depth_first_list depth reverted [] = []"
| "depth_first_list depth reverted (c # cs) =
     depth_first (Suc depth) (reverted \<or> has_error c) c @ depth_first_list depth reverted cs"
  by pat_completeness auto
termination
  by (relation "measure (case_sum (\<lambda>(_, _, n). 2 * size n) (\<lambda>(_, _, cs). 2 * size_list size cs + 1))")
    (auto simp: size_children_walk)

definition visit :: "trace_env \<Rightarrow> nat \<times> bool \<times> call_trace_node \<Rightarrow> walk_state \<Rightarrow> walk_state" where
  "visit E v s = (case v of (depth, reverted, n) \<Rightarrow> visit_node E depth reverted n s)"

lemma walk_is_fold:
  "walk_trace_tree_inner E depth reverted n s = fold (visit E) (depth_first depth reverted n) s"
  "recurse_children E depth reverted cs s = fold (visit E) (depth_first_list depth reverted cs) s"
  by (induction E depth reverted n s and E depth reverted cs s rule: walk_trace_tree_inner_recurse_children.induct)
    (simp_all add: visit_def)

fun node_at :: "call_trace_node \<Rightarrow> nat list \<Rightarrow> call_trace_node option" where
  "node_at n [] = Some n"
| "node_at n (i # p) = (if i < length (children n) then node_at (children n ! i) p else None)"

fun error_below :: "call_trace_node \<Rightarrow> nat list \<Rightarrow> bool" where
  "error_below n [] = False"
| "error_below n (i # p) = (has_error (children n ! i) \<or> error_below (children n ! i) p)"

lemma in_depth_first:
  "(d, r, m) \<in> set (depth_first depth reverted n) \<longleftrightarrow>
     (\<exists>p. node_at n p = Some m \<and> d = depth + length p \<and> (r \<longleftrightarrow> reverted \<or> error_below n p))"
  "(d, r, m) \<in> set (depth_first_list depth reverted cs) \<longleftrightarrow>
     (\<exists>i p. i < length cs \<and> node_at (cs ! i) p = Some m \<and> d = Suc depth + length p \<and>
       (r \<longleftrightarrow> reverted \<or> has_error (cs ! i) \<or> error_below (cs ! i) p))"
proof (induction depth reverted n and depth reverted cs rule: depth_first_depth_first_list.induct)
  case (1 depth reverted n)
  show ?case
  proof
    assume "(d, r, m) \<in> set (depth_first depth reverted n)"
    then consider "d = depth" "r = reverted" "m = n" | "(d, r, m) \<in> set (depth_first_list depth reverted (children n))" by auto
    then show "\<exists>p. node_at n p = Some m \<and> d = depth + length p \<and> (r \<longleftrightarrow> reverted \<or> error_below n p)"
    proof cases
      case 1
      then show ?thesis by (intro exI [of _ "[]"]) simp
    next
      case 2
      then obtain i p where "i < length (children n)" "node_at (children n ! i) p = Some m" "d = Suc depth + length p"
        "r \<longleftrightarrow> reverted \<or> has_error (children n ! i) \<or> error_below (children n ! i) p"
        using "1.IH" by blast
      then show ?thesis by (intro exI [of _ "i # p"]) simp
    qed
  next
    assume "\<exists>p. node_at n p = Some m \<and> d = depth + length p \<and> (r \<longleftrightarrow> reverted \<or> error_below n p)"
    then obtain p where p: "node_at n p = Some m" "d = depth + length p" "r \<longleftrightarrow> reverted \<or> error_below n p" by blast
    show "(d, r, m) \<in> set (depth_first depth reverted n)"
    proof (cases p)
      case Nil
      then show ?thesis using p by simp
    next
      case (Cons i q)
      then show ?thesis using p "1.IH" by (auto split: if_splits)
    qed
  qed
next
  case (3 depth reverted c cs)
  have e: "(\<exists>i p. i < length (c # cs) \<and> P ((c # cs) ! i) p) \<longleftrightarrow> (\<exists>p. P c p) \<or> (\<exists>i p. i < length cs \<and> P (cs ! i) p)" for P
    using Ex_less_Suc2 [of "length cs" "\<lambda>i. \<exists>p. P ((c # cs) ! i) p"] by auto
  show ?case unfolding e [of "\<lambda>x p. node_at x p = Some m \<and> d = Suc depth + length p \<and> (r \<longleftrightarrow> reverted \<or> has_error x \<or> error_below x p)"]
    using 3 by (simp only: depth_first_list.simps set_append Un_iff add_Suc [symmetric] disj_assoc)
qed simp

section \<open>What the walk reports\<close>

definition is_proxy_call :: "trace_env \<Rightarrow> call_trace_node \<Rightarrow> trace_node \<Rightarrow> bool" where
  "is_proxy_call E n p \<longleftrightarrow>
     trace_node_from_typed E n = Some p \<and> node_from p \<notin> set (manager_addresses E) \<and> \<not> creates_proxy E p \<and>
     has_execute_cross_chain_call_child E n"

definition reports :: "trace_env \<Rightarrow> nat \<times> bool \<times> call_trace_node \<Rightarrow> trace_node \<Rightarrow> traced_call \<Rightarrow> bool" where
  "reports E v p c \<longleftrightarrow> (case v of (depth, reverted, n) \<Rightarrow>
     tc_calldata c = node_input p \<and> tc_value c = node_value p \<and> tc_source_address c = node_from p \<and>
     tc_trace_depth c = depth \<and> tc_output c = output_bytes E n \<and> tc_in_reverted_frame c = reverted)"

text \<open>The destination of a reported call is the identity that the cache holds for the called proxy.\<close>

definition names :: "(address \<rightharpoonup> proxy_info option) \<Rightarrow> trace_node \<Rightarrow> traced_call \<Rightarrow> bool" where
  "names cache p c \<longleftrightarrow> (\<exists>info. cache (node_to p) = Some (Some info) \<and> tc_destination c = original_address info)"

lemma visit_cases:
  "(\<exists>p. is_proxy_call E n p \<and> visit E (d, r, n) s = detect_call E d r n p s) \<or>
   (\<nexists>p. is_proxy_call E n p) \<and> detected_calls (visit E (d, r, n) s) = detected_calls s \<and>
     unresolved_proxies (visit E (d, r, n) s) = unresolved_proxies s \<and> proxy_cache (visit E (d, r, n) s) = proxy_cache s"
  by (auto simp: visit_def visit_node_def is_proxy_call_def record_proxy_def split: option.splits)

lemma resolve_keeps:
  "resolve_proxy_info E a s = (x, s') \<Longrightarrow> detected_calls s' = detected_calls s \<and> unresolved_proxies s' = unresolved_proxies s \<and>
     proxy_cache s' a = Some x"
  by (auto simp: resolve_proxy_info_def split: option.splits)

lemma detect_call_cases:
  "(\<exists>c. reports E (d, r, n) p c \<and> names (proxy_cache (detect_call E d r n p s)) p c \<and>
        detected_calls (detect_call E d r n p s) = detected_calls s @ [c]) \<and>
     unresolved_proxies (detect_call E d r n p s) = unresolved_proxies s \<or>
   detected_calls (detect_call E d r n p s) = detected_calls s \<and>
     unresolved_proxies (detect_call E d r n p s) = insert (node_to p) (unresolved_proxies s) \<and>
     proxy_cache (detect_call E d r n p s) (node_to p) = Some None"
  by (auto simp: detect_call_def reports_def names_def dest!: resolve_keeps split: prod.splits option.splits)

lemma cache_kept: "proxy_cache s a = Some x \<Longrightarrow> proxy_cache (visit E v s) a = Some x"
  by (auto simp: visit_def visit_node_def record_proxy_def detect_call_def resolve_proxy_info_def split: prod.splits option.splits)

lemma cache_kept_fold: "proxy_cache s a = Some x \<Longrightarrow> proxy_cache (fold (visit E) vs s) a = Some x"
  by (induction vs arbitrary: s) (simp_all add: cache_kept)

lemma visit_outcome:
  obtains (reported) p c where "\<forall>q. is_proxy_call E n q \<longleftrightarrow> q = p" "reports E (d, r, n) p c"
      "names (proxy_cache (visit E (d, r, n) s)) p c" "detected_calls (visit E (d, r, n) s) = detected_calls s @ [c]"
      "unresolved_proxies (visit E (d, r, n) s) = unresolved_proxies s"
    | (unresolved) p where "\<forall>q. is_proxy_call E n q \<longleftrightarrow> q = p" "detected_calls (visit E (d, r, n) s) = detected_calls s"
      "unresolved_proxies (visit E (d, r, n) s) = insert (node_to p) (unresolved_proxies s)"
      "proxy_cache (visit E (d, r, n) s) (node_to p) = Some None"
    | (other) "\<forall>q. \<not> is_proxy_call E n q" "detected_calls (visit E (d, r, n) s) = detected_calls s"
      "unresolved_proxies (visit E (d, r, n) s) = unresolved_proxies s"
proof (cases "\<exists>p. is_proxy_call E n p")
  case True
  then obtain p where p: "is_proxy_call E n p" by blast
  then have unique: "\<forall>q. is_proxy_call E n q \<longleftrightarrow> q = p" by (auto simp: is_proxy_call_def)
  have "visit E (d, r, n) s = detect_call E d r n p s" using visit_cases [of E n d r s] p unique by auto
  then show thesis using detect_call_cases [of E d r n p s] reported [OF unique] unresolved [OF unique] by auto
next
  case False
  then show thesis using visit_cases [of E n d r s] other by blast
qed

lemma fold_reports:
  "\<exists>cs. detected_calls (fold (visit E) vs s) = detected_calls s @ cs \<and>
     unresolved_proxies s \<subseteq> unresolved_proxies (fold (visit E) vs s) \<and>
     (\<forall>c \<in> set cs. \<exists>v \<in> set vs. \<exists>p. is_proxy_call E (snd (snd v)) p \<and> reports E v p c \<and>
        names (proxy_cache (fold (visit E) vs s)) p c) \<and>
     (\<forall>v \<in> set vs. \<forall>p. is_proxy_call E (snd (snd v)) p \<longrightarrow>
        proxy_cache (fold (visit E) vs s) (node_to p) = Some None \<or> (\<exists>c \<in> set cs. reports E v p c \<and> names (proxy_cache (fold (visit E) vs s)) p c))"
proof (induction vs arbitrary: s)
  case (Cons v vs)
  obtain d r n where v: "v = (d, r, n)" by (cases v)
  let ?s = "visit E (d, r, n) s"
  obtain cs where cs: "detected_calls (fold (visit E) vs ?s) = detected_calls ?s @ cs"
    and un: "unresolved_proxies ?s \<subseteq> unresolved_proxies (fold (visit E) vs ?s)"
    and sound: "\<forall>c \<in> set cs. \<exists>v \<in> set vs. \<exists>p. is_proxy_call E (snd (snd v)) p \<and> reports E v p c \<and>
        names (proxy_cache (fold (visit E) vs ?s)) p c"
    and complete: "\<forall>v \<in> set vs. \<forall>p. is_proxy_call E (snd (snd v)) p \<longrightarrow>
        proxy_cache (fold (visit E) vs ?s) (node_to p) = Some None \<or>
        (\<exists>c \<in> set cs. reports E v p c \<and> names (proxy_cache (fold (visit E) vs ?s)) p c)"
    using Cons.IH [of ?s] by blast
  show ?case
  proof (cases rule: visit_outcome [of E n d r s])
    case (reported p c)
    have "names (proxy_cache (fold (visit E) vs ?s)) p c" using reported(3) cache_kept_fold unfolding names_def by fast
    then show ?thesis using cs un sound complete reported(1,2,4,5) by (intro exI [of _ "c # cs"]) (auto simp: v)
  next
    case (unresolved p)
    then have "proxy_cache (fold (visit E) vs ?s) (node_to p) = Some None" using cache_kept_fold by blast
    then show ?thesis using cs un sound complete unresolved(1-3) by (intro exI [of _ cs]) (auto simp: v)
  next
    case other
    then show ?thesis using cs un sound complete by (intro exI [of _ cs]) (auto simp: v)
  qed
qed simp

lemma walk_reports:
  assumes "s' = walk_trace_tree_inner E 0 False n s"
  shows "\<exists>cs. detected_calls s' = detected_calls s @ cs \<and>
    (\<forall>c \<in> set cs. \<exists>q m p. node_at n q = Some m \<and> is_proxy_call E m p \<and> reports E (length q, error_below n q, m) p c \<and>
      names (proxy_cache s') p c) \<and>
    (\<forall>q m p. node_at n q = Some m \<and> is_proxy_call E m p \<longrightarrow>
      proxy_cache s' (node_to p) = Some None \<or> (\<exists>c \<in> set cs. reports E (length q, error_below n q, m) p c \<and> names (proxy_cache s') p c))"
proof -
  obtain cs where cs: "detected_calls s' = detected_calls s @ cs"
    and sound: "\<forall>c \<in> set cs. \<exists>v \<in> set (depth_first 0 False n). \<exists>p. is_proxy_call E (snd (snd v)) p \<and> reports E v p c \<and>
      names (proxy_cache s') p c"
    and complete: "\<forall>v \<in> set (depth_first 0 False n). \<forall>p. is_proxy_call E (snd (snd v)) p \<longrightarrow>
      proxy_cache s' (node_to p) = Some None \<or> (\<exists>c \<in> set cs. reports E v p c \<and> names (proxy_cache s') p c)"
    using fold_reports [of E "depth_first 0 False n" s] unfolding assms walk_is_fold by blast
  have mem: "(d, r, m) \<in> set (depth_first 0 False n) \<longleftrightarrow> (\<exists>q. node_at n q = Some m \<and> d = length q \<and> r = error_below n q)" for d r m
    by (subst in_depth_first) simp
  have "\<exists>q m p. node_at n q = Some m \<and> is_proxy_call E m p \<and> reports E (length q, error_below n q, m) p c \<and>
      names (proxy_cache s') p c" if c: "c \<in> set cs" for c
  proof -
    obtain v p where v: "v \<in> set (depth_first 0 False n)" "is_proxy_call E (snd (snd v)) p" "reports E v p c"
      "names (proxy_cache s') p c" using bspec [OF sound c] by blast
    obtain d r m where "v = (d, r, m)" by (cases v)
    then show ?thesis using v mem [of d r m] by auto
  qed
  moreover have "proxy_cache s' (node_to p) = Some None \<or> (\<exists>c \<in> set cs. reports E (length q, error_below n q, m) p c \<and> names (proxy_cache s') p c)"
    if "node_at n q = Some m" "is_proxy_call E m p" for q m p
  proof -
    have "(length q, error_below n q, m) \<in> set (depth_first 0 False n)" using mem that(1) by blast
    from bspec [OF complete this] show ?thesis using that(2) by simp
  qed
  ultimately show ?thesis using cs by blast
qed

section \<open>Cached lookups\<close>

definition creates_nothing :: "trace_env \<Rightarrow> call_trace_node \<Rightarrow> bool" where
  "creates_nothing E n \<longleftrightarrow> (\<forall>t. trace_node_from_typed E n = Some t \<longrightarrow> \<not> creates_proxy E t)"

text \<open>What the cache may hold for an address whose lookup fails.\<close>

definition absent :: "address \<Rightarrow> walk_state \<Rightarrow> bool" where
  "absent a s \<longleftrightarrow> ephemeral_proxies s = Map.empty \<and> proxy_cache s a \<in> {None, Some None}"

lemma absent_visit:
  assumes "absent a s" "creates_nothing E n" "lookup_proxy E a = None"
  shows "absent a (visit E (d, r, n) s)"
    and "is_proxy_call E n p \<Longrightarrow> node_to p = a \<Longrightarrow> proxy_cache (visit E (d, r, n) s) a = Some None"
  using assms by (auto simp: absent_def creates_nothing_def visit_def visit_node_def detect_call_def resolve_proxy_info_def
      is_proxy_call_def split: option.splits prod.splits if_splits)

lemma absent_fold:
  assumes "absent a s" "\<forall>v \<in> set vs. creates_nothing E (snd (snd v))" "lookup_proxy E a = None"
    "\<exists>v \<in> set vs. \<exists>p. is_proxy_call E (snd (snd v)) p \<and> node_to p = a"
  shows "proxy_cache (fold (visit E) vs s) a = Some None"
  using assms
proof (induction vs arbitrary: s)
  case (Cons v vs)
  obtain d r n where v: "v = (d, r, n)" by (cases v)
  have n: "creates_nothing E n" using Cons.prems(2) by (simp add: v)
  show ?case
  proof (cases "\<exists>p. is_proxy_call E n p \<and> node_to p = a")
    case True
    then show ?thesis using absent_visit(2) [OF Cons.prems(1) n Cons.prems(3)] cache_kept_fold by (auto simp: v)
  next
    case False
    then show ?thesis using Cons.IH [of "visit E v s"] absent_visit(1) [OF Cons.prems(1) n Cons.prems(3)] Cons.prems by (auto simp: v)
  qed
qed simp

lemma failed_lookup_cached:
  assumes "node_at n q = Some m" "is_proxy_call E m p" "lookup_proxy E (node_to p) = None" "absent (node_to p) s"
    "\<forall>q m. node_at n q = Some m \<longrightarrow> creates_nothing E m"
  shows "proxy_cache (walk_trace_tree_inner E 0 False n s) (node_to p) = Some None"
proof -
  have "(length q, error_below n q, m) \<in> set (depth_first 0 False n)" using assms(1) by (subst in_depth_first) auto
  then have "\<exists>v \<in> set (depth_first 0 False n). \<exists>p'. is_proxy_call E (snd (snd v)) p' \<and> node_to p' = node_to p"
    using assms(2) by force
  moreover have "\<forall>v \<in> set (depth_first 0 False n). creates_nothing E (snd (snd v))"
    using assms(5) in_depth_first(1) [of _ _ _ 0 False n] by fastforce
  ultimately show ?thesis unfolding walk_is_fold using absent_fold assms(3,4) by blast
qed

text \<open>A proxy that the cache holds as unknown is never detected again, whatever the chain answers later.\<close>

lemma known_non_proxy:
  assumes "proxy_cache s a = Some None" "\<forall>v \<in> set vs. \<forall>p. is_proxy_call E (snd (snd v)) p \<longrightarrow> node_to p = a"
  shows "detected_calls (fold (visit E) vs s) = detected_calls s"
  using assms
proof (induction vs arbitrary: s)
  case (Cons v vs)
  obtain d r n where v: "v = (d, r, n)" by (cases v)
  have "detected_calls (visit E v s) = detected_calls s"
    using visit_cases [of E n d r s] Cons.prems by (auto simp: v detect_call_def resolve_proxy_info_def)
  then show ?case using Cons.IH [of "visit E v s"] cache_kept [OF Cons.prems(1)] Cons.prems(2) by simp
qed simp

end
