(* ===== verification/Rpc_Common.thy ===== *)
theory Rpc_Common
  imports Trace_Walker
begin

text \<open>
  Reading JSON-RPC answers (\<open>composer_rpc/common.rs\<close>) and the two lookups of a proxy built on
  them (\<open>composer_rpc/model.rs\<close>). A request is its answer here: \<open>None\<close> when the transport or the
  decoding of the body failed. JSON values and the parsers of hex text are parameters.
\<close>

section \<open>Answers\<close>

text \<open>The operations on \<open>serde_json::Value\<close> that the code uses.\<close>

record 'j json_api =
  json_get :: "string \<Rightarrow> 'j \<Rightarrow> 'j option"
  json_index :: "nat \<Rightarrow> 'j \<Rightarrow> 'j option"
  json_array :: "'j \<Rightarrow> 'j list option"
  json_str :: "'j \<Rightarrow> string option"
  try_parse :: "'j \<Rightarrow> call_trace_node option"

record 'j json_rpc_response =
  rpc_result :: "'j option"
  rpc_error :: "'j option"

definition into_result :: "'j json_rpc_response \<Rightarrow> 'j option" where
  "into_result r = (if rpc_error r \<noteq> None then None else rpc_result r)"

definition result_str :: "'j json_api \<Rightarrow> 'j json_rpc_response \<Rightarrow> string option" where
  "result_str J r = Option.bind (rpc_result r) (json_str J)"

definition method_of :: "'j json_api \<Rightarrow> 'j \<Rightarrow> (string \<times> 'j list option) list" where
  "method_of J j =
     (case Option.bind (json_get J ''method'' j) (json_str J) of
        None \<Rightarrow> []
      | Some name \<Rightarrow> [(name, Option.bind (json_get J ''params'' j) (json_array J))])"

definition extract_methods :: "'j json_api \<Rightarrow> 'j \<Rightarrow> (string \<times> 'j list option) list" where
  "extract_methods J j =
     (case json_array J j of None \<Rightarrow> method_of J j | Some items \<Rightarrow> concat (map (method_of J) items))"

definition eth_call_view :: "'j json_api \<Rightarrow> 'j json_rpc_response option \<Rightarrow> string option" where
  "eth_call_view J answer =
     Option.bind answer (\<lambda>r. if rpc_error r \<noteq> None then None else result_str J r)"

section \<open>Words of an ABI answer\<close>

text \<open>The \<open>i\<close>-th 32-byte word in its hex form, 64 digits.\<close>

definition hex_word :: "nat \<Rightarrow> string \<Rightarrow> string" where
  "hex_word i s = take 64 (drop (64 * i) s)"

definition parse_address_from_abi_return :: "(string \<Rightarrow> bytes option) \<Rightarrow> string \<Rightarrow> address option" where
  "parse_address_from_abi_return decode hex_str =
     (let clean = strip_0x hex_str
      in if length clean < 64 then None
         else Option.bind (decode (hex_word 0 clean)) (\<lambda>bs.
                if length bs < 32 then None
                else let a = be_word (take 20 (drop 12 bs)) :: address in if a = 0 then None else Some a))"

text \<open>\<open>for b in &rid_bytes[start..] { rid = (rid << 8) | b }\<close>.\<close>

definition last_u64 :: "bytes \<Rightarrow> u64" where
  "last_u64 bs = be_word (drop (length bs - 8) bs)"

definition get_verification_key :: "(string \<Rightarrow> b256 option) \<Rightarrow> string option \<Rightarrow> b256 option" where
  "get_verification_key parse_b256 answer =
     Option.bind answer (\<lambda>h. let clean = strip_0x h
       in if length clean < 128 then None else parse_b256 (''0x'' @ hex_word 1 clean))"

definition get_rollup_state_root :: "(string \<Rightarrow> b256 option) \<Rightarrow> string option \<Rightarrow> b256 option" where
  "get_rollup_state_root parse_b256 answer =
     Option.bind answer (\<lambda>h. let clean = strip_0x h
       in if length clean < 192 then None else parse_b256 (''0x'' @ hex_word 2 clean))"

definition get_l1_block_context ::
    "'j json_api \<Rightarrow> (string \<Rightarrow> u64 option) \<Rightarrow> (string \<Rightarrow> b256 option) \<Rightarrow> 'j json_rpc_response option
     \<Rightarrow> (u64 \<times> b256 \<times> b256) option" where
  "get_l1_block_context J parse_hex parse_b256 answer =
     (let field = (\<lambda>block k. Option.bind (json_get J k block) (json_str J))
      in Option.bind (Option.bind answer into_result) (\<lambda>block.
         Option.bind (Option.bind (field block ''number'') (\<lambda>s. parse_hex (strip_0x s))) (\<lambda>number.
         Option.bind (Option.bind (field block ''hash'') parse_b256) (\<lambda>hash.
         Option.bind (Option.bind (field block ''parentHash'') parse_b256) (\<lambda>parent. Some (number, hash, parent))))))"

section \<open>The lookups of a proxy\<close>

text \<open>\<open>L1ProxyLookup\<close> asks the rollup contract through \<open>eth_call_view\<close>.\<close>

definition l1_lookup_proxy :: "'j json_api \<Rightarrow> (string \<Rightarrow> bytes option) \<Rightarrow> 'j json_rpc_response option \<Rightarrow> proxy_info option" where
  "l1_lookup_proxy J decode answer =
     Option.bind (eth_call_view J answer) (\<lambda>hex_data.
     Option.bind (parse_address_from_abi_return decode hex_data) (\<lambda>a.
       let clean = strip_0x hex_data
       in if length clean < 128 then None
          else Option.bind (decode (hex_word 1 clean)) (\<lambda>rid_bytes.
                 if length rid_bytes < 32 then None
                 else Some \<lparr>original_address = a, original_rollup_id = last_u64 rid_bytes\<rparr>)))"

definition detect_cross_chain_proxy_on_l2 ::
    "'j json_api \<Rightarrow> (string \<Rightarrow> bytes option) \<Rightarrow> 'j json_rpc_response option \<Rightarrow> (address \<times> u64) option" where
  "detect_cross_chain_proxy_on_l2 J decode answer =
     Option.bind answer (\<lambda>body. if rpc_error body \<noteq> None then None
       else Option.bind (result_str J body) (\<lambda>hex_data.
         let clean = strip_0x hex_data
         in if length clean < 128 then None
            else Option.bind (decode (hex_word 0 clean)) (\<lambda>addr_bytes.
              if length addr_bytes < 32 then None
              else let a = be_word (take 20 (drop 12 addr_bytes)) :: address
                in if a = 0 then None
                   else Option.bind (decode (hex_word 1 clean)) (\<lambda>rid_bytes.
                          if length rid_bytes < 32 then None else Some (a, last_u64 rid_bytes)))))"

definition l2_lookup_proxy :: "'j json_api \<Rightarrow> (string \<Rightarrow> bytes option) \<Rightarrow> 'j json_rpc_response option \<Rightarrow> proxy_info option" where
  "l2_lookup_proxy J decode answer =
     map_option (\<lambda>(a, rid). \<lparr>original_address = a, original_rollup_id = rid\<rparr>) (detect_cross_chain_proxy_on_l2 J decode answer)"

text \<open>Both sides read the same identity from the same answer.\<close>

theorem proxy_lookups_agree: "l1_lookup_proxy J decode answer = l2_lookup_proxy J decode answer"
  by (auto simp: l1_lookup_proxy_def l2_lookup_proxy_def detect_cross_chain_proxy_on_l2_def eth_call_view_def
      parse_address_from_abi_return_def Let_def split: option.splits Option.bind_splits)

text \<open>An error and no answer at all look like an address that is not a proxy.\<close>

lemma lookup_of_error:
  "answer = None \<or> (\<exists>r. answer = Some r \<and> rpc_error r \<noteq> None) \<Longrightarrow> l1_lookup_proxy J decode answer = None"
  by (auto simp: l1_lookup_proxy_def eth_call_view_def)

text \<open>A batch is the concatenation of its requests.\<close>

lemma extract_methods_batch:
  "json_array J j = Some (xs @ ys) \<Longrightarrow> json_array J j1 = Some xs \<Longrightarrow> json_array J j2 = Some ys \<Longrightarrow>
   extract_methods J j = extract_methods J j1 @ extract_methods J j2"
  by (simp add: extract_methods_def)

end
