(* ===== verification/Discovery.thy ===== *)
theory Discovery
  imports Rpc_Common Call_Discovery "HOL-Library.Multiset"
begin

text \<open>
  The iterative discovery of the cross-chain calls of a transaction (\<open>composer_rpc/model.rs\<close>,
  \<open>discover.rs\<close>, \<open>simulate.rs\<close>): trace the transaction, load the entries of the calls found so
  far, trace again until nothing new shows up, and correct the revert flags from the last trace.
  The \<open>Direction\<close> trait is a record of hooks here and its contract a locale; \<open>Directions\<close>
  interprets it for both directions. The simulation client, JSON values and the lookup of
  proxies are parameters; they may answer differently at every iteration.
\<close>

section \<open>Discovered calls (\<open>model.rs\<close>)\<close>

record discovered_call =
  dsc_destination :: address
  dsc_calldata :: bytes
  dsc_value :: u256
  dsc_source_address :: address
  dsc_parent :: parent_link
  dsc_trace_depth :: nat
  dsc_iteration :: nat
  dsc_in_reverted_frame :: bool
  dsc_delivery_return_data :: bytes
  dsc_delivery_failed :: bool
  dsc_target_rollup_id :: u64

record return_edge =
  re_destination :: address
  re_data :: bytes
  re_value :: u256
  re_source_address :: address
  re_parent :: parent_link
  re_return_data :: bytes
  re_delivery_failed :: bool
  re_scope :: scope_path

datatype promotion_decision = KeepSimple | PromoteToContinuation

record discovered_set =
  ds_calls :: "discovered_call list"
  ds_returns :: "return_edge list"
  ds_promotion :: promotion_decision
  ds_user_tx_reverted :: bool

fun rebase_link :: "nat \<Rightarrow> parent_link \<Rightarrow> parent_link" where
  "rebase_link offset Root = Root"
| "rebase_link offset (Child idx) = Child (AbsoluteCallIndex (index_as_usize idx + offset))"

definition rebase_parent_links :: "discovered_call list \<Rightarrow> nat \<Rightarrow> discovered_call list" where
  "rebase_parent_links calls offset = map (\<lambda>c. c\<lparr>dsc_parent := rebase_link offset (dsc_parent c)\<rparr>) calls"

definition rebase_return_parent_links :: "return_edge list \<Rightarrow> nat \<Rightarrow> return_edge list" where
  "rebase_return_parent_links returns offset = map (\<lambda>r. r\<lparr>re_parent := rebase_link offset (re_parent r)\<rparr>) returns"

definition from_trace_detected :: "traced_call \<Rightarrow> u64 \<Rightarrow> nat \<Rightarrow> discovered_call" where
  "from_trace_detected c target iteration =
     \<lparr>dsc_destination = tc_destination c, dsc_calldata = tc_calldata c, dsc_value = tc_value c,
      dsc_source_address = tc_source_address c, dsc_parent = Root, dsc_trace_depth = tc_trace_depth c,
      dsc_iteration = iteration, dsc_in_reverted_frame = tc_in_reverted_frame c,
      dsc_delivery_return_data = [], dsc_delivery_failed = False, dsc_target_rollup_id = target\<rparr>"

definition raw_calls :: "'j json_api \<Rightarrow> 'j \<Rightarrow> 'j list option" where
  "raw_calls J j = Option.bind (json_get J ''calls'' j) (json_array J)"

type_synonym proxy_cache = "address \<rightharpoonup> proxy_info option"

definition fresh_walk :: "proxy_cache \<Rightarrow> walk_state" where
  "fresh_walk cache = \<lparr>proxy_cache = cache, ephemeral_proxies = Map.empty, detected_calls = [], unresolved_proxies = {}\<rparr>"

definition walk_trace_to_discovered ::
    "'j json_api \<Rightarrow> trace_env \<Rightarrow> 'j \<Rightarrow> proxy_cache \<Rightarrow> u64 \<Rightarrow> nat \<Rightarrow> discovered_call list \<times> proxy_cache" where
  "walk_trace_to_discovered J E trace cache default_target iteration =
     (let s = walk_trace_tree E (try_parse J) (raw_calls J) trace (fresh_walk cache)
      in (map (\<lambda>c. from_trace_detected c default_target iteration) (detected_calls s), proxy_cache s))"

definition identity :: "discovered_call \<Rightarrow> call_key" where
  "identity c = (dsc_destination c, dsc_calldata c, dsc_value c, dsc_source_address c)"

definition dedup_discovered_calls :: "discovered_call list \<Rightarrow> discovered_call list \<Rightarrow> discovered_call list" where
  "dedup_discovered_calls new_calls existing = filter_new_by_count new_calls existing (\<lambda>a b. identity a = identity b)"

definition MAX_DISCOVERY_ITERATIONS :: nat where
  "MAX_DISCOVERY_ITERATIONS = 10"

text \<open>The loop of \<open>correct_in_reverted_frame\<close>; \<open>used\<close> marks the retraced calls already paired.\<close>

fun correct_loop :: "discovered_call list \<Rightarrow> bool list \<Rightarrow> discovered_call list \<Rightarrow> discovered_call list" where
  "correct_loop rs used [] = []"
| "correct_loop rs used (c # cs) =
     (case position (\<lambda>(i, r). \<not> used ! i \<and> identity r = identity c) (enumerate 0 rs) of
        Some idx \<Rightarrow> c\<lparr>dsc_in_reverted_frame := dsc_in_reverted_frame (rs ! idx)\<rparr> # correct_loop rs (used[idx := True]) cs
      | None \<Rightarrow> c # correct_loop rs used cs)"

definition correct_in_reverted_frame :: "discovered_call list \<Rightarrow> discovered_call list \<Rightarrow> discovered_call list" where
  "correct_in_reverted_frame calls rs =
     (if rs = [] \<or> length rs \<noteq> length calls then calls
      else correct_loop rs (replicate (length rs) False) calls)"

section \<open>The simulation strategy (\<open>simulate.rs\<close>)\<close>

datatype simulation_plan = Single | CombinedThenAnalytical

fun simulation_plan_for :: "discovered_call list \<Rightarrow> promotion_decision \<Rightarrow> simulation_plan" where
  "simulation_plan_for calls PromoteToContinuation = CombinedThenAnalytical"
| "simulation_plan_for calls KeepSimple = (if length calls > 1 then CombinedThenAnalytical else Single)"

section \<open>The discovery loop (\<open>discover.rs\<close>)\<close>

text \<open>The hooks of the \<open>Direction\<close> trait that the loop calls; \<open>'b\<close> is a retrace bundle.\<close>

record 'b direction_hooks =
  source_manager_addresses :: "address list"
  default_target_rollup_id :: u64
  enrich_calls_before_retrace :: "nat \<Rightarrow> discovered_call list \<Rightarrow> discovered_call list \<times> return_edge list"
  build_retrace_bundle :: "nat \<Rightarrow> discovered_call list \<Rightarrow> 'b option"

text \<open>What the loop asks of its surroundings at each iteration.\<close>

record ('b, 'j) discovery_env =
  json :: "'j json_api"
  tracing :: "nat \<Rightarrow> trace_env"
  trace_call_many :: "nat \<Rightarrow> 'b \<Rightarrow> 'j option"

record discovery_state =
  all_calls :: "discovered_call list"
  last_retrace_results :: "discovered_call list"
  user_tx_reverted :: bool
  accumulated_returns :: "return_edge list"
  known_proxies :: proxy_cache

datatype loop_exit = Bundle_Failed | Trace_Failed | Bad_Shape | Converged

text \<open>\<open>traces.get(0)\<close> must be an array of at least two traces; the second is the user's.\<close>

definition user_trace_of :: "'j json_api \<Rightarrow> 'j \<Rightarrow> 'j option" where
  "user_trace_of J traces =
     (case Option.bind (json_index J 0 traces) (json_array J) of
        Some arr \<Rightarrow> if length arr \<ge> 2 then Some (arr ! 1) else None
      | None \<Rightarrow> None)"

definition still_reverts :: "'j json_api \<Rightarrow> 'j \<Rightarrow> bool" where
  "still_reverts J t \<longleftrightarrow> or_default ''none'' (Option.bind (json_get J ''error'' t) (json_str J)) \<noteq> ''none''"

definition top_level_error :: "'j json_api \<Rightarrow> 'j \<Rightarrow> bool" where
  "top_level_error J t \<longleftrightarrow> json_get J ''error'' t \<noteq> None \<or> json_get J ''revertReason'' t \<noteq> None"

definition walk_source ::
    "('b, 'j) discovery_env \<Rightarrow> 'b direction_hooks \<Rightarrow> nat \<Rightarrow> 'j \<Rightarrow> proxy_cache \<Rightarrow> discovered_call list \<times> proxy_cache" where
  "walk_source W D iteration t cache =
     walk_trace_to_discovered (json W) ((tracing W iteration)\<lparr>manager_addresses := source_manager_addresses D\<rparr>) t cache
       (default_target_rollup_id D) iteration"

text \<open>The body after the retrace: walk it, remember it, keep what is new.\<close>

definition absorb_retrace ::
    "('b, 'j) discovery_env \<Rightarrow> 'b direction_hooks \<Rightarrow> nat \<Rightarrow> 'j \<Rightarrow> discovery_state \<Rightarrow> loop_exit option \<times> discovery_state" where
  "absorb_retrace W D iteration user_trace s =
     (let (new_detected, cache) = walk_source W D iteration user_trace (known_proxies s);
          new_calls = dedup_discovered_calls new_detected (all_calls s);
          s' = s\<lparr>user_tx_reverted := still_reverts (json W) user_trace, last_retrace_results := new_detected,
                 known_proxies := cache\<rparr>
      in if new_calls = [] then (Some Converged, s') else (None, s'\<lparr>all_calls := all_calls s @ new_calls\<rparr>))"

text \<open>One iteration. \<open>None\<close>: go on; \<open>Some\<close>: one of the four \<open>break\<close>s.\<close>

definition discovery_iteration ::
    "('b, 'j) discovery_env \<Rightarrow> 'b direction_hooks \<Rightarrow> nat \<Rightarrow> discovery_state \<Rightarrow> loop_exit option \<times> discovery_state" where
  "discovery_iteration W D iteration s =
     (let (calls, returns) = enrich_calls_before_retrace D iteration (all_calls s);
          s = s\<lparr>all_calls := calls, accumulated_returns := accumulated_returns s @ returns\<rparr>
      in case build_retrace_bundle D iteration calls of
           None \<Rightarrow> (Some Bundle_Failed, s)
         | Some bundle \<Rightarrow>
             (case trace_call_many W iteration bundle of
                None \<Rightarrow> (Some Trace_Failed, s)
              | Some traces \<Rightarrow>
                  (case user_trace_of (json W) traces of
                     None \<Rightarrow> (Some Bad_Shape, s)
                   | Some user_trace \<Rightarrow> absorb_retrace W D iteration user_trace s)))"

fun discovery_loop ::
    "('b, 'j) discovery_env \<Rightarrow> 'b direction_hooks \<Rightarrow> nat list \<Rightarrow> discovery_state \<Rightarrow> loop_exit option \<times> discovery_state" where
  "discovery_loop W D [] s = (None, s)"
| "discovery_loop W D (iteration # its) s =
     (case discovery_iteration W D iteration s of
        (None, s') \<Rightarrow> discovery_loop W D its s'
      | (Some e, s') \<Rightarrow> (Some e, s'))"

definition initial_state ::
    "('b, 'j) discovery_env \<Rightarrow> 'b direction_hooks \<Rightarrow> 'j \<Rightarrow> proxy_cache \<Rightarrow> discovered_call list option \<Rightarrow> discovery_state" where
  "initial_state W D initial_trace cache initial_calls =
     (let (calls, cache') = (case initial_calls of
            Some cs \<Rightarrow> (cs, cache)
          | None \<Rightarrow> walk_source W D 0 initial_trace cache)
      in \<lparr>all_calls = calls, last_retrace_results = [], user_tx_reverted = top_level_error (json W) initial_trace,
          accumulated_returns = [], known_proxies = cache'\<rparr>)"

definition discovery_run ::
    "('b, 'j) discovery_env \<Rightarrow> 'b direction_hooks \<Rightarrow> 'j \<Rightarrow> discovery_state \<Rightarrow> loop_exit option \<times> discovery_state" where
  "discovery_run W D initial_trace s =
     (if top_level_error (json W) initial_trace then discovery_loop W D [1..<Suc MAX_DISCOVERY_ITERATIONS] s else (None, s))"

text \<open>The result and the proxy cache that the caller keeps.\<close>

definition discover_until_stable ::
    "('b, 'j) discovery_env \<Rightarrow> 'b direction_hooks \<Rightarrow> 'j \<Rightarrow> proxy_cache \<Rightarrow> discovered_call list option
     \<Rightarrow> discovered_set \<times> proxy_cache" where
  "discover_until_stable W D initial_trace cache initial_calls =
     (let s = initial_state W D initial_trace cache initial_calls
      in if all_calls s = [] then
           (\<lparr>ds_calls = [], ds_returns = [], ds_promotion = KeepSimple, ds_user_tx_reverted = False\<rparr>, known_proxies s)
         else
           let s' = snd (discovery_run W D initial_trace s)
           in (\<lparr>ds_calls = correct_in_reverted_frame (all_calls s') (last_retrace_results s'),
                ds_returns = accumulated_returns s', ds_promotion = KeepSimple,
                ds_user_tx_reverted = user_tx_reverted s'\<rparr>, known_proxies s'))"

section \<open>The correction of the revert flags\<close>

text \<open>The flags of the calls with a given identity, in their order.\<close>

definition flags_of :: "call_key \<Rightarrow> discovered_call list \<Rightarrow> bool list" where
  "flags_of k cs = map dsc_in_reverted_frame (filter (\<lambda>c. identity c = k) cs)"

lemma flags_of_simps [simp]:
  "flags_of k [] = []"
  "flags_of k (c # cs) = (if identity c = k then dsc_in_reverted_frame c # flags_of k cs else flags_of k cs)"
  by (simp_all add: flags_of_def)

lemma identity_flag [simp]: "identity (c\<lparr>dsc_in_reverted_frame := b\<rparr>) = identity c"
  by (simp add: identity_def)

lemma unused_skip: "\<not> P (xs ! i) \<Longrightarrow> length used = length xs \<Longrightarrow> filter P (unused xs (used[i := True])) = filter P (unused xs used)"
proof (induction xs arbitrary: used i)
  case (Cons x xs)
  then obtain u us where "used = u # us" by (cases used) auto
  with Cons show ?case by (cases i) (auto simp: unused_def)
qed (simp add: unused_def)

lemma unused_first:
  "length used = length xs \<Longrightarrow> i < length xs \<Longrightarrow> \<not> used ! i \<Longrightarrow> P (xs ! i) \<Longrightarrow> \<forall>j < i. used ! j \<or> \<not> P (xs ! j) \<Longrightarrow>
   filter P (unused xs used) = xs ! i # filter P (unused xs (used[i := True]))"
proof (induction xs arbitrary: used i)
  case (Cons x xs)
  then obtain u us where "used = u # us" by (cases used) auto
  with Cons show ?case by (cases i) (auto simp: unused_def All_less_Suc2)
qed simp

lemma flags_unused_first:
  assumes "length used = length rs" "position (\<lambda>(i, r). \<not> used ! i \<and> identity r = identity c) (enumerate 0 rs) = Some idx"
  shows "flags_of k (unused rs used) =
    (if identity c = k then dsc_in_reverted_frame (rs ! idx) # flags_of k (unused rs (used[idx := True]))
     else flags_of k (unused rs (used[idx := True])))"
proof -
  have idx: "idx < length rs" "\<not> used ! idx" "identity (rs ! idx) = identity c"
    "\<forall>j < idx. used ! j \<or> identity (rs ! j) \<noteq> identity c"
    using position_SomeD [OF assms(2)] by (auto simp: nth_enumerate_eq)
  show ?thesis
  proof (cases "identity c = k")
    case True
    then show ?thesis using unused_first [OF assms(1) idx(1,2), of "\<lambda>c. identity c = k"] idx by (simp add: flags_of_def)
  next
    case False
    then show ?thesis using unused_skip [of "\<lambda>c. identity c = k" rs idx used] idx assms(1) by (simp add: flags_of_def)
  qed
qed

lemma flags_unused_none:
  assumes "length used = length rs" "position (\<lambda>(i, r). \<not> used ! i \<and> identity r = identity c) (enumerate 0 rs) = None"
  shows "flags_of (identity c) (unused rs used) = []"
proof -
  have "identity (rs ! i) \<noteq> identity c" if "i < length rs" "\<not> used ! i" for i
    using position_NoneD [OF assms(2), of "(i, rs ! i)"] that by (auto simp: in_set_enumerate_eq)
  then have "\<forall>r \<in> set (unused rs used). identity r \<noteq> identity c" using in_unused [OF assms(1)] by auto
  then show ?thesis by (simp add: flags_of_def filter_empty_conv)
qed

lemma correct_loop_flags:
  "length used = length rs \<Longrightarrow>
   flags_of k (correct_loop rs used cs) =
     take (length (flags_of k cs)) (flags_of k (unused rs used)) @ drop (length (flags_of k (unused rs used))) (flags_of k cs)"
proof (induction cs arbitrary: used)
  case (Cons c cs)
  show ?case
  proof (cases "position (\<lambda>(i, r). \<not> used ! i \<and> identity r = identity c) (enumerate 0 rs)")
    case None
    then show ?thesis using Cons flags_unused_none [OF Cons.prems None] by auto
  next
    case (Some idx)
    then show ?thesis using Cons.IH [of "used[idx := True]"] Cons.prems flags_unused_first [OF Cons.prems Some, of k] by simp
  qed
qed simp

definition without_flag :: "discovered_call \<Rightarrow> discovered_call" where
  "without_flag c = c\<lparr>dsc_in_reverted_frame := False\<rparr>"

lemma without_flag_update [simp]: "without_flag (c\<lparr>dsc_in_reverted_frame := b\<rparr>) = without_flag c"
  by (simp add: without_flag_def)

lemma correct_loop_rest: "map without_flag (correct_loop rs used cs) = map without_flag cs"
  by (induction cs arbitrary: used) (simp_all split: option.splits)

lemma correct_rest: "map without_flag (correct_in_reverted_frame calls rs) = map without_flag calls"
  by (simp add: correct_in_reverted_frame_def correct_loop_rest)

lemma length_flags: "length (flags_of k cs) = count (mset (map identity cs)) k"
  by (induction cs) auto

lemma correct_flags:
  assumes "mset (map identity calls) = mset (map identity rs)"
  shows "flags_of k (correct_in_reverted_frame calls rs) = flags_of k rs"
proof -
  have len: "length calls = length rs" using assms by (metis length_map size_mset)
  have same: "length (flags_of k calls) = length (flags_of k rs)" using assms by (simp only: length_flags)
  show ?thesis
  proof (cases "rs = []")
    case False
    then show ?thesis
      using correct_loop_flags [of "replicate (length rs) False" rs k calls] len same by (simp add: correct_in_reverted_frame_def)
  qed (use len in \<open>simp add: correct_in_reverted_frame_def\<close>)
qed

section \<open>The filter of known calls\<close>

lemma dedup_mset:
  "image_mset identity (mset (dedup_discovered_calls new_calls existing)) =
     image_mset identity (mset new_calls) - image_mset identity (mset existing)"
  "subseq (dedup_discovered_calls new_calls existing) new_calls"
  using filter_new_loop_result [of "replicate (length existing) False" existing identity "[]" new_calls]
  by (auto simp: dedup_discovered_calls_def filter_new_by_count_def)

lemma dedup_subset: "set (dedup_discovered_calls new_calls existing) \<subseteq> set new_calls"
  using list_emb_set [OF dedup_mset(2) [of new_calls existing]] by blast

lemma nothing_new: "dedup_discovered_calls new_calls existing = [] \<longleftrightarrow> mset (map identity new_calls) \<subseteq># mset (map identity existing)"
proof -
  have "dedup_discovered_calls new_calls existing = [] \<longleftrightarrow> image_mset identity (mset (dedup_discovered_calls new_calls existing)) = {#}"
    by simp
  then show ?thesis unfolding dedup_mset(1) by (simp add: Diff_eq_empty_iff_mset)
qed

section \<open>The loop for a direction\<close>

text \<open>What enrichment and correction may not change, and what enrichment alone may not change.\<close>

definition frame :: "discovered_call \<Rightarrow> discovered_call" where
  "frame c = c\<lparr>dsc_delivery_return_data := [], dsc_delivery_failed := False\<rparr>"

definition core :: "discovered_call \<Rightarrow> discovered_call" where
  "core c = without_flag (frame c)"

lemma frame_keeps [simp]:
  "dsc_in_reverted_frame (frame c) = dsc_in_reverted_frame c" "identity (frame c) = identity c"
  "dsc_iteration (frame c) = dsc_iteration c"
  by (simp_all add: frame_def identity_def)

lemma core_by_frame: "map frame xs = map frame ys \<Longrightarrow> map core xs = map core ys"
  by (auto simp: core_def list_eq_iff_nth_eq)

lemma identity_by_frame: "map frame xs = map frame ys \<Longrightarrow> map identity xs = map identity ys"
proof -
  assume "map frame xs = map frame ys"
  then have "map identity (map frame xs) = map identity (map frame ys)" by simp
  then show ?thesis by (simp add: comp_def)
qed

lemma core_by_flag: "map without_flag xs = map without_flag ys \<Longrightarrow> map core xs = map core ys"
proof -
  assume a: "map without_flag xs = map without_flag ys"
  have "core c = frame (without_flag c)" for c by (simp add: core_def frame_def without_flag_def)
  then have core: "map core zs = map frame (map without_flag zs)" for zs by (simp add: comp_def)
  show ?thesis unfolding core a ..
qed

text \<open>
  A call as the walk reports it, and the contract of the \<open>Direction\<close> trait: enrichment fills in delivery results and keeps the
  calls and their order.
\<close>

definition fresh :: "'b direction_hooks \<Rightarrow> discovered_call \<Rightarrow> bool" where
  "fresh D c \<longleftrightarrow> dsc_parent c = Root \<and> dsc_target_rollup_id c = default_target_rollup_id D \<and>
     dsc_delivery_return_data c = [] \<and> \<not> dsc_delivery_failed c"

locale direction =
  fixes D :: "'b direction_hooks"
  assumes enrich_keeps: "map frame (fst (enrich_calls_before_retrace D i cs)) = map frame cs"
begin

lemma iteration_extends:
  assumes "discovery_iteration W D i s = (e, s')"
  shows "\<exists>new. map frame (all_calls s') = map frame (all_calls s @ new) \<and> (e = None \<longleftrightarrow> new \<noteq> []) \<and>
    (\<forall>c \<in> set new. dsc_iteration c = i \<and> fresh D c)"
proof -
  obtain calls returns where enrich: "enrich_calls_before_retrace D i (all_calls s) = (calls, returns)" by fastforce
  have calls: "map frame calls = map frame (all_calls s)" using enrich_keeps [of i "all_calls s"] enrich by simp
  let ?s = "s\<lparr>all_calls := calls, accumulated_returns := accumulated_returns s @ returns\<rparr>"
  consider x where "e = Some x" "s' = ?s" | t where "absorb_retrace W D i t ?s = (e, s')"
    using assms enrich by (auto simp: discovery_iteration_def Let_def split: option.splits)
  then show ?thesis
  proof cases
    case 1
    then show ?thesis using calls by (intro exI [of _ "[]"]) simp
  next
    case (2 t)
    obtain det cache where walk: "walk_source W D i t (known_proxies ?s) = (det, cache)" by fastforce
    let ?new = "dedup_discovered_calls det calls"
    have "\<forall>c \<in> set det. dsc_iteration c = i \<and> fresh D c"
      using walk by (auto simp: walk_source_def walk_trace_to_discovered_def Let_def from_trace_detected_def fresh_def)
    then have tags: "\<forall>c \<in> set ?new. dsc_iteration c = i \<and> fresh D c"
      using dedup_subset [of det calls] by blast
    have "e = None \<longleftrightarrow> ?new \<noteq> []" "all_calls s' = calls @ ?new"
      using 2 walk by (auto simp: absorb_retrace_def Let_def split: if_splits)
    then show ?thesis using tags calls by (intro exI [of _ ?new]) simp
  qed
qed

lemma loop_extends:
  assumes "discovery_loop W D its s = (e, s')"
  shows "\<exists>new. map frame (all_calls s') = map frame (all_calls s @ new) \<and> (e = None \<longrightarrow> length its \<le> length new) \<and>
    (\<forall>c \<in> set new. dsc_iteration c \<in> set its \<and> fresh D c)"
  using assms
proof (induction its arbitrary: s)
  case (Cons i its)
  obtain x s1 where step: "discovery_iteration W D i s = (x, s1)" by fastforce
  obtain new1 where new1: "map frame (all_calls s1) = map frame (all_calls s @ new1)" "x = None \<longleftrightarrow> new1 \<noteq> []"
    "\<forall>c \<in> set new1. dsc_iteration c = i \<and> fresh D c" using iteration_extends [OF step] by blast
  show ?case
  proof (cases x)
    case (Some y)
    then show ?thesis using Cons.prems step new1 by (intro exI [of _ new1]) auto
  next
    case None
    then have rest: "discovery_loop W D its s1 = (e, s')" using Cons.prems step by simp
    obtain new2 where "map frame (all_calls s') = map frame (all_calls s1 @ new2)" "e = None \<longrightarrow> length its \<le> length new2"
      "\<forall>c \<in> set new2. dsc_iteration c \<in> set its \<and> fresh D c" using Cons.IH [OF rest] by blast
    moreover have "length new1 \<ge> 1" using new1(2) None by (cases new1) auto
    ultimately show ?thesis using new1 by (intro exI [of _ "new1 @ new2"]) auto
  qed
qed simp

text \<open>A loop that converged ends in a state whose last retrace reports known calls only.\<close>

lemma converged_covers:
  "discovery_loop W D its s = (Some Converged, s') \<Longrightarrow>
     mset (map identity (last_retrace_results s')) \<subseteq># mset (map identity (all_calls s'))"
proof (induction its arbitrary: s)
  case (Cons i its)
  obtain x s1 where step: "discovery_iteration W D i s = (x, s1)" by fastforce
  show ?case
  proof (cases x)
    case None
    then show ?thesis using Cons step by simp
  next
    case (Some y)
    then have "discovery_iteration W D i s = (Some Converged, s')" using Cons.prems step by simp
    then show ?thesis
      by (auto simp: discovery_iteration_def absorb_retrace_def nothing_new Let_def split: prod.splits option.splits if_splits)
  qed
qed simp

lemma discovery_core:
  assumes "discover_until_stable W D t cache init = (r, cache')"
  shows "\<exists>new. map core (ds_calls r) = map core (all_calls (initial_state W D t cache init) @ new) \<and>
    (\<forall>c \<in> set new. 1 \<le> dsc_iteration c \<and> dsc_iteration c \<le> MAX_DISCOVERY_ITERATIONS \<and> fresh D c)"
proof -
  let ?s = "initial_state W D t cache init"
  obtain e s' where run: "discovery_run W D t ?s = (e, s')" by fastforce
  obtain new where new: "map frame (all_calls s') = map frame (all_calls ?s @ new)"
    "\<forall>c \<in> set new. 1 \<le> dsc_iteration c \<and> dsc_iteration c \<le> MAX_DISCOVERY_ITERATIONS \<and> fresh D c"
  proof (cases "top_level_error (json W) t")
    case True
    then have "discovery_loop W D [1..<Suc MAX_DISCOVERY_ITERATIONS] ?s = (e, s')" using run by (simp add: discovery_run_def)
    from loop_extends [OF this] obtain new where new: "map frame (all_calls s') = map frame (all_calls ?s @ new)"
      "\<forall>c \<in> set new. dsc_iteration c \<in> set [1..<Suc MAX_DISCOVERY_ITERATIONS] \<and> fresh D c" by blast
    have "\<forall>c \<in> set new. 1 \<le> dsc_iteration c \<and> dsc_iteration c \<le> MAX_DISCOVERY_ITERATIONS \<and> fresh D c"
      using new(2) unfolding set_upt by auto
    from that [OF new(1) this] show thesis .
  next
    case False
    then show thesis using run that [of "[]"] by (simp add: discovery_run_def)
  qed
  show ?thesis
  proof (cases "all_calls ?s = []")
    case True
    then show ?thesis using assms by (intro exI [of _ "[]"]) (auto simp: discover_until_stable_def Let_def)
  next
    case False
    then have "ds_calls r = correct_in_reverted_frame (all_calls s') (last_retrace_results s')"
      using assms run by (auto simp: discover_until_stable_def Let_def)
    then have "map core (ds_calls r) = map core (all_calls s')" using core_by_flag correct_rest by metis
    then show ?thesis using new core_by_frame [OF new(1)] by (intro exI [of _ new]) simp
  qed
qed

lemma discovery_flags:
  assumes "discover_until_stable W D t cache init = (r, cache')" "all_calls (initial_state W D t cache init) \<noteq> []"
    "discovery_run W D t (initial_state W D t cache init) = (Some Converged, s')"
    "length (last_retrace_results s') = length (all_calls s')"
  shows "flags_of k (ds_calls r) = flags_of k (last_retrace_results s')"
proof -
  have "mset (map identity (last_retrace_results s')) \<subseteq># mset (map identity (all_calls s'))"
    using assms(3) converged_covers by (auto simp: discovery_run_def split: if_splits)
  then have "mset (map identity (last_retrace_results s')) = mset (map identity (all_calls s'))"
    using assms(4) by (metis length_map size_mset mset_subset_size subset_mset.le_imp_less_or_eq less_irrefl)
  then have "flags_of k (correct_in_reverted_frame (all_calls s') (last_retrace_results s')) = flags_of k (last_retrace_results s')"
    using correct_flags by metis
  then show ?thesis using assms by (auto simp: discover_until_stable_def Let_def)
qed

end

end
