(* ===== verification/Directions.thy ===== *)
theory Directions
  imports Discovery Table_Builder Protocol_Txs
begin

text \<open>
  The two directions of the composer (\<open>composer_rpc/direction.rs\<close>) and the entry builder
  facade they use (\<open>entry_builder.rs\<close>). The services that a direction asks over HTTP, the
  signer and the formatting of hex strings are parameters; both directions are
  interpretations of the locale of \<open>Discovery\<close>.
\<close>

section \<open>The entry builder (\<open>entry_builder.rs\<close>)\<close>

definition build_simple_pair ::
    "abi \<Rightarrow> rollup_id \<Rightarrow> address \<Rightarrow> bytes \<Rightarrow> u256 \<Rightarrow> address \<Rightarrow> rollup_id \<Rightarrow> bool \<Rightarrow> bytes
     \<Rightarrow> cross_chain_execution_entry \<times> cross_chain_execution_entry" where
  "build_simple_pair A rid dest data val src src_rollup call_success ret =
     build_cross_chain_call_entries A rid dest data val src src_rollup call_success ret"

definition build_l2_to_l1_entries ::
    "abi \<Rightarrow> address \<Rightarrow> bytes \<Rightarrow> u256 \<Rightarrow> address \<Rightarrow> u64 \<Rightarrow> bytes \<Rightarrow> bytes \<Rightarrow> bool \<Rightarrow> u256 list \<Rightarrow> tx_outcome
     \<Rightarrow> withdrawal_entries" where
  "build_l2_to_l1_entries A dest data val src rid rlp ret delivery_failed delivery_scope outcome =
     build_l2_to_l1_call_entries A dest data val src rid rlp ret delivery_failed delivery_scope outcome"

definition analyze_l1_to_l2_continuations :: "l1_detected_call list \<Rightarrow> u64 \<Rightarrow> detected_call list" where
  "analyze_l1_to_l2_continuations calls rid = analyze_continuation_calls calls rid"

definition build_continuations :: "abi \<Rightarrow> detected_call list \<Rightarrow> rollup_id \<Rightarrow> continuation_entries" where
  "build_continuations A calls rid = build_continuation_entries A calls rid"

definition pairs_to_l1_format :: "cross_chain_execution_entry list \<Rightarrow> cross_chain_execution_entry list" where
  "pairs_to_l1_format entries = convert_pairs_to_l1_entries entries"

definition encode_load_table :: "tx_encoders \<Rightarrow> cross_chain_execution_entry list \<Rightarrow> bytes" where
  "encode_load_table X entries = encode_load_execution_table_calldata X entries"

definition build_placeholder_entries ::
    "abi \<Rightarrow> address \<Rightarrow> bytes \<Rightarrow> u256 \<Rightarrow> address \<Rightarrow> rollup_id \<Rightarrow> rollup_id \<Rightarrow> bool \<Rightarrow> bytes
     \<Rightarrow> cross_chain_execution_entry list" where
  "build_placeholder_entries A dest data val src rid src_rollup call_success ret =
     (let (call_entry, result_entry) = build_simple_pair A rid dest data val src src_rollup call_success ret
      in [call_entry, result_entry])"

section \<open>Retrace bundles\<close>

record user_tx_context =
  ut_from :: string
  ut_to :: string
  ut_data :: string
  raw_tx_bytes :: bytes
  ut_value :: string

record bundle_tx =
  bt_from :: string
  bt_to :: string
  bt_data :: string
  bt_value :: "string option"
  bt_gas :: string

text \<open>The overrides are the block number and its time.\<close>

record trace_bundle =
  transactions :: "bundle_tx list"
  block_override :: "(string \<times> string) option"

record formats =
  show_address :: "address \<Rightarrow> string"
  hex_digits :: "bytes \<Rightarrow> string"
  hex_u64 :: "u64 \<Rightarrow> string"
  hex_u256 :: "u256 \<Rightarrow> string"

definition user_bundle_tx :: "user_tx_context \<Rightarrow> bundle_tx" where
  "user_bundle_tx u = \<lparr>bt_from = ut_from u, bt_to = ut_to u, bt_data = ut_data u, bt_value = Some (ut_value u),
     bt_gas = ''0x2faf080''\<rparr>"

section \<open>From L1 to L2\<close>

record l1_services =
  rollup_state_root :: "nat \<Rightarrow> b256 option"
  l1_block_context :: "nat \<Rightarrow> (u64 \<times> b256 \<times> b256) option"
  verification_key :: "nat \<Rightarrow> b256 option"
  unix_time :: "nat \<Rightarrow> u64"
  builder_key_address :: address
  sign_hash :: "b256 \<Rightarrow> bytes option"
  enc_post_batch :: "sol_execution_entry list \<Rightarrow> bytes \<Rightarrow> bytes \<Rightarrow> bytes"

record l1_to_l2 =
  l12_l2_ccm :: address
  l12_l1_ccm :: address
  l12_rollup_id :: u64

definition encode_post_batch_calldata :: "l1_services \<Rightarrow> cross_chain_execution_entry list \<Rightarrow> bytes \<Rightarrow> bytes \<Rightarrow> bytes" where
  "encode_post_batch_calldata V entries cd proof_bytes = enc_post_batch V (map entry_to_sol entries) cd proof_bytes"

definition l1_detected :: "discovered_call \<Rightarrow> l1_detected_call" where
  "l1_detected c =
     \<lparr>lc_destination = dsc_destination c, lc_data = dsc_calldata c, lc_value = dsc_value c,
      lc_source_address = dsc_source_address c, lc_l2_return_data = dsc_delivery_return_data c,
      lc_call_success = (\<not> dsc_delivery_failed c), lc_parent = dsc_parent c,
      lc_target_rollup_id = (if child_index (dsc_parent c) \<noteq> None \<and> dsc_target_rollup_id c = 0 then Some 0 else None),
      lc_scope = (if dsc_trace_depth c \<le> 1 then scope_root else from_parts (replicate (dsc_trace_depth c) 0)),
      lc_iteration = dsc_iteration c, lc_l1_trace_depth = dsc_trace_depth c,
      lc_in_reverted_frame = dsc_in_reverted_frame c\<rparr>"

definition retrace_pairs :: "abi \<Rightarrow> u64 \<Rightarrow> l1_detected_call list \<Rightarrow> cross_chain_execution_entry list" where
  "retrace_pairs A rid cs = pairs_to_l1_format (concat (map (\<lambda>c.
     let (call_entry, result_entry) = build_simple_pair A (RollupId (ucast rid)) (lc_destination c) (lc_data c) (lc_value c)
           (lc_source_address c) MAINNET (lc_call_success c) (lc_l2_return_data c)
     in [call_entry, result_entry]) cs))"

definition retrace_entries :: "abi \<Rightarrow> u64 \<Rightarrow> discovered_call list \<Rightarrow> cross_chain_execution_entry list" where
  "retrace_entries A rid calls =
     (let detected = map l1_detected calls;
          analyzed = analyze_l1_to_l2_continuations detected rid
      in if analyzed = [] then retrace_pairs A rid detected
         else ce_l1 (build_continuations A analyzed (RollupId (ucast rid))))"

definition with_root :: "b256 \<Rightarrow> cross_chain_execution_entry \<Rightarrow> cross_chain_execution_entry" where
  "with_root r e = e\<lparr>state_deltas := map (\<lambda>d. d\<lparr>current_state := r, new_state := r\<rparr>) (state_deltas e)\<rparr>"

text \<open>Ethereum's recovery id of a 65-byte signature.\<close>

definition adjust_recovery_id :: "bytes \<Rightarrow> bytes" where
  "adjust_recovery_id p = (if length p = 65 \<and> p ! 64 < 27 then p[64 := p ! 64 + 27] else p)"

definition l1_retrace_bundle ::
    "abi \<Rightarrow> formats \<Rightarrow> l1_services \<Rightarrow> l1_to_l2 \<Rightarrow> user_tx_context \<Rightarrow> nat \<Rightarrow> discovered_call list \<Rightarrow> trace_bundle option" where
  "l1_retrace_bundle A F V D u i calls =
     (let entries = retrace_entries A (l12_rollup_id D) calls
      in if entries = [] then None
         else
           let entries = map (with_root (or_default 0 (rollup_state_root V i))) entries
           in Option.bind (l1_block_context V i) (\<lambda>(block_number, block_hash, _).
              Option.bind (verification_key V i) (\<lambda>vk.
                let hashes = compute_entry_hashes A entries vk;
                    inputs = compute_public_inputs_hash A hashes [] block_hash (unix_time V i)
                in Option.bind (sign_hash V inputs) (\<lambda>sig.
                  let cd = encode_post_batch_calldata V entries [] (adjust_recovery_id sig)
                  in Some \<lparr>transactions =
                       [\<lparr>bt_from = show_address F (builder_key_address V), bt_to = show_address F (l12_l1_ccm D),
                         bt_data = ''0x'' @ hex_digits F cd, bt_value = None, bt_gas = ''0x1c9c380''\<rparr>,
                        user_bundle_tx u],
                     block_override = Some (hex_u64 F (block_number + 1), hex_u64 F (unix_time V i))\<rparr>))))"

text \<open>The trait's default: no enrichment.\<close>

definition l1_to_l2_hooks ::
    "abi \<Rightarrow> formats \<Rightarrow> l1_services \<Rightarrow> l1_to_l2 \<Rightarrow> user_tx_context \<Rightarrow> trace_bundle direction_hooks" where
  "l1_to_l2_hooks A F V D u =
     \<lparr>source_manager_addresses = [l12_l1_ccm D], default_target_rollup_id = 0,
      enrich_calls_before_retrace = (\<lambda>i calls. (calls, [])), build_retrace_bundle = l1_retrace_bundle A F V D u\<rparr>"

section \<open>From L2 to L1\<close>

record l2_to_l1 =
  l21_l1_ccm :: address
  l21_l2_ccm :: address
  l21_builder_address :: address
  l21_rollup_id :: u64

text \<open>
  \<open>debug_traceCallMany\<close> on L1 and the full delivery simulation (\<open>simulate_l1_delivery\<close> of
  \<open>delivery.rs\<close>), which gets the call, the scope and the raw transaction.
\<close>

record 'j l2_services =
  l1_trace_call_many :: "nat \<Rightarrow> trace_bundle \<Rightarrow> 'j option"
  delivery_json :: "'j json_api"
  decode_hex :: "string \<Rightarrow> bytes option"
  simulate_l1_delivery :: "nat \<Rightarrow> discovered_call \<Rightarrow> u256 list \<Rightarrow> bytes \<Rightarrow> (bytes \<times> bool \<times> return_edge list) option"

definition direct_call_bundle :: "formats \<Rightarrow> discovered_call \<Rightarrow> trace_bundle" where
  "direct_call_bundle F c =
     \<lparr>transactions = [\<lparr>bt_from = show_address F (dsc_source_address c), bt_to = show_address F (dsc_destination c),
        bt_data = ''0x'' @ hex_digits F (dsc_calldata c), bt_value = Some (''0x'' @ hex_u256 F (dsc_value c)),
        bt_gas = ''0x2faf080''\<rparr>],
      block_override = None\<rparr>"

definition protocol_errors :: "bytes list" where
  "protocol_errors = [[0xf9, 0xd3, 0x30, 0xad], [0xed, 0x6b, 0xc7, 0x50]]"

definition direct_trace :: "formats \<Rightarrow> 'j l2_services \<Rightarrow> nat \<Rightarrow> discovered_call \<Rightarrow> 'j option" where
  "direct_trace F V i c =
     Option.bind (l1_trace_call_many V i (direct_call_bundle F c)) (\<lambda>r.
     Option.bind (json_index (delivery_json V) 0 r) (\<lambda>b.
     Option.bind (json_array (delivery_json V) b) (\<lambda>arr. case arr of [] \<Rightarrow> None | t # _ \<Rightarrow> Some t)))"

text \<open>Step 1. The flag asks for the full simulation.\<close>

definition enrich_direct :: "formats \<Rightarrow> 'j l2_services \<Rightarrow> nat \<Rightarrow> discovered_call \<Rightarrow> discovered_call \<times> bool" where
  "enrich_direct F V i c =
     (case direct_trace F V i c of
        None \<Rightarrow> (c, False)
      | Some t \<Rightarrow>
          let J = delivery_json V; has_err = json_get J ''error'' t \<noteq> None
          in case Option.bind (json_get J ''output'' t) (json_str J) of
               Some out \<Rightarrow>
                 (case decode_hex V (strip_0x out) of
                    None \<Rightarrow> (c, False)
                  | Some bs \<Rightarrow>
                      if has_err \<and> length bs = 4 \<and> bs \<in> set protocol_errors then (c, True)
                      else (c\<lparr>dsc_delivery_return_data := bs, dsc_delivery_failed := has_err\<rparr>, False))
             | None \<Rightarrow> (if has_err then (c\<lparr>dsc_delivery_failed := True\<rparr>, False) else (c, False)))"

definition enrich_call ::
    "formats \<Rightarrow> 'j l2_services \<Rightarrow> user_tx_context \<Rightarrow> nat \<Rightarrow> discovered_call \<Rightarrow> discovered_call \<times> return_edge list" where
  "enrich_call F V u i c =
     (if dsc_delivery_return_data c \<noteq> [] \<or> dsc_delivery_failed c then (c, [])
      else case enrich_direct F V i c of
             (c', False) \<Rightarrow> (c', [])
           | (c', True) \<Rightarrow>
               (case simulate_l1_delivery V i c' (replicate (max (dsc_trace_depth c') 1) 0) (raw_tx_bytes u) of
                  None \<Rightarrow> (c', [])
                | Some (ret, has_failed, edges) \<Rightarrow>
                    (c'\<lparr>dsc_delivery_return_data := ret, dsc_delivery_failed := has_failed\<rparr>, edges)))"

definition enrich_calls ::
    "formats \<Rightarrow> 'j l2_services \<Rightarrow> user_tx_context \<Rightarrow> nat \<Rightarrow> discovered_call list \<Rightarrow> discovered_call list \<times> return_edge list" where
  "enrich_calls F V u i calls =
     (let rs = map (enrich_call F V u i) calls in (map fst rs, concat (map snd rs)))"

definition l2_retrace_table :: "abi \<Rightarrow> u64 \<Rightarrow> discovered_call list \<Rightarrow> cross_chain_execution_entry list" where
  "l2_retrace_table A rid calls = concat (map (\<lambda>c. l2_table_entries
     (build_l2_to_l1_entries A (dsc_destination c) (dsc_calldata c) (dsc_value c) (dsc_source_address c) rid []
        (dsc_delivery_return_data c) (dsc_delivery_failed c) [] Outcome_Success)) calls)"

definition l2_retrace_bundle ::
    "abi \<Rightarrow> tx_encoders \<Rightarrow> formats \<Rightarrow> l2_to_l1 \<Rightarrow> user_tx_context \<Rightarrow> nat \<Rightarrow> discovered_call list \<Rightarrow> trace_bundle option" where
  "l2_retrace_bundle A X F D u i calls =
     Some \<lparr>transactions =
         [\<lparr>bt_from = show_address F (l21_builder_address D), bt_to = show_address F (l21_l2_ccm D),
           bt_data = ''0x'' @ hex_digits F (encode_load_table X (l2_retrace_table A (l21_rollup_id D) calls)),
           bt_value = None, bt_gas = ''0x1c9c380''\<rparr>,
          user_bundle_tx u],
       block_override = None\<rparr>"

definition l2_to_l1_hooks ::
    "abi \<Rightarrow> tx_encoders \<Rightarrow> formats \<Rightarrow> 'j l2_services \<Rightarrow> l2_to_l1 \<Rightarrow> user_tx_context \<Rightarrow> trace_bundle direction_hooks" where
  "l2_to_l1_hooks A X F V D u =
     \<lparr>source_manager_addresses = [l21_l2_ccm D], default_target_rollup_id = 0,
      enrich_calls_before_retrace = enrich_calls F V u, build_retrace_bundle = l2_retrace_bundle A X F D u\<rparr>"

section \<open>Both directions keep the calls\<close>

lemma frame_delivery [simp]:
  "frame (c\<lparr>dsc_delivery_return_data := r, dsc_delivery_failed := f\<rparr>) = frame c"
  "frame (c\<lparr>dsc_delivery_return_data := r\<rparr>) = frame c"
  "frame (c\<lparr>dsc_delivery_failed := f\<rparr>) = frame c"
  by (simp_all add: frame_def)

lemma enrich_direct_frame: "frame (fst (enrich_direct F V i c)) = frame c"
  by (simp add: enrich_direct_def Let_def split: option.split)

lemma enrich_call_frame: "frame (fst (enrich_call F V u i c)) = frame c"
  using enrich_direct_frame [of F V i c] by (auto simp: enrich_call_def split: prod.splits bool.splits option.splits)

lemma enrich_calls_frame: "map frame (fst (enrich_calls F V u i calls)) = map frame calls"
  by (simp add: enrich_calls_def Let_def enrich_call_frame)

interpretation l1_direction: direction "l1_to_l2_hooks A F V D u"
  by unfold_locales (simp add: l1_to_l2_hooks_def)

interpretation l2_direction: direction "l2_to_l1_hooks A X F V D u"
  by unfold_locales (simp add: l2_to_l1_hooks_def enrich_calls_frame)

section \<open>The retrace bundles\<close>

lemma analyze_calls_Nil: "analyze_calls our n cs = [] \<longleftrightarrow> cs = []"
  by (cases cs) simp_all

text \<open>The branch for an empty analysis never contributes an entry.\<close>

lemma retrace_entries_analyzed:
  "retrace_entries A rid calls =
     ce_l1 (build_continuation_entries A (analyze_continuation_calls (map l1_detected calls) rid) (RollupId (ucast rid)))"
proof (cases calls)
  case Nil
  then show ?thesis
    by (simp add: retrace_entries_def analyze_l1_to_l2_continuations_def analyze_continuation_calls_def retrace_pairs_def
        pairs_to_l1_format_def build_continuation_entries_def)
next
  case (Cons c cs)
  then show ?thesis
    by (simp add: retrace_entries_def analyze_l1_to_l2_continuations_def analyze_continuation_calls_def analyze_calls_Nil
        build_continuations_def)
qed

lemma analyzed_head:
  assumes "dsc_parent c = Root"
  shows "\<exists>d ds. analyze_continuation_calls (map l1_detected (c # cs)) rid = d # ds \<and> dc_direction d = L1ToL2"
proof -
  have "\<not> is_l2_to_l1_child (l1_detected c)" using assms by (simp add: is_l2_to_l1_child_def l1_detected_def)
  then show ?thesis by (simp add: analyze_continuation_calls_def)
qed

lemma call_entry_posted:
  "dc_direction d = L1ToL2 \<Longrightarrow> Table_Builder.call_entry A our (d # ds) (0, d) \<in> set (ce_l1 (build_continuation_entries A (d # ds) our))"
  by (simp add: build_continuation_entries_def l1_to_l2_calls_def indexed_def Let_def)

lemma retrace_entries_nonempty:
  assumes "calls \<noteq> []" "dsc_parent (hd calls) = Root"
  shows "retrace_entries A rid calls \<noteq> []"
proof -
  obtain d ds where "analyze_continuation_calls (map l1_detected calls) rid = d # ds" "dc_direction d = L1ToL2"
    using analyzed_head [of "hd calls" "tl calls" rid] assms by auto
  then show ?thesis using call_entry_posted [of d A "RollupId (ucast rid)" ds] by (auto simp: retrace_entries_analyzed)
qed

definition l1_services_answer :: "l1_services \<Rightarrow> nat \<Rightarrow> bool" where
  "l1_services_answer V i \<longleftrightarrow> l1_block_context V i \<noteq> None \<and> verification_key V i \<noteq> None \<and> (\<forall>h. sign_hash V h \<noteq> None)"

lemma l1_bundle_built:
  assumes "calls \<noteq> []" "dsc_parent (hd calls) = Root" "l1_services_answer V i"
  shows "l1_retrace_bundle A F V D u i calls \<noteq> None"
proof -
  obtain n h p where "l1_block_context V i = Some (n, h, p)" using assms(3) by (auto simp: l1_services_answer_def)
  moreover obtain vk where "verification_key V i = Some vk" using assms(3) by (auto simp: l1_services_answer_def)
  ultimately show ?thesis using retrace_entries_nonempty [OF assms(1,2), of A] assms(3)
    by (simp add: l1_retrace_bundle_def l1_services_answer_def Let_def bind_eq_None_conv del: not_None_eq)
qed

definition responsive :: "('b, 'j) discovery_env \<Rightarrow> nat \<Rightarrow> bool" where
  "responsive W i \<longleftrightarrow> (\<forall>b. case trace_call_many W i b of None \<Rightarrow> False | Some traces \<Rightarrow> user_trace_of (json W) traces \<noteq> None)"

lemma l1_iteration_bundles:
  assumes "discovery_iteration W (l1_to_l2_hooks A F V D u) i s = (e, s')" "all_calls s \<noteq> []"
    "dsc_parent (hd (all_calls s)) = Root" "l1_services_answer V i"
  shows "e \<noteq> Some Bundle_Failed \<and> (responsive W i \<longrightarrow> e \<in> {None, Some Converged}) \<and>
    all_calls s' \<noteq> [] \<and> dsc_parent (hd (all_calls s')) = Root"
proof -
  obtain b where b: "l1_retrace_bundle A F V D u i (all_calls s) = Some b" using l1_bundle_built [OF assms(2-4), of A F D u] by blast
  have hooks: "enrich_calls_before_retrace (l1_to_l2_hooks A F V D u) i (all_calls s) = (all_calls s, [])"
    "build_retrace_bundle (l1_to_l2_hooks A F V D u) i (all_calls s) = Some b" using b by (simp_all add: l1_to_l2_hooks_def)
  have "responsive W i \<longrightarrow> (case trace_call_many W i b of None \<Rightarrow> False | Some traces \<Rightarrow> user_trace_of (json W) traces \<noteq> None)"
    by (simp add: responsive_def)
  then show ?thesis using assms(1-3) hooks
    by (auto simp: discovery_iteration_def absorb_retrace_def Let_def split: prod.splits option.splits if_splits)
qed

lemma l1_loop_bundles:
  "discovery_loop W (l1_to_l2_hooks A F V D u) its s = (e, s') \<Longrightarrow> all_calls s \<noteq> [] \<Longrightarrow> dsc_parent (hd (all_calls s)) = Root \<Longrightarrow>
   \<forall>i \<in> set its. l1_services_answer V i \<and> responsive W i \<Longrightarrow> e \<in> {None, Some Converged}"
proof (induction its arbitrary: s)
  case (Cons i its)
  obtain x s1 where step: "discovery_iteration W (l1_to_l2_hooks A F V D u) i s = (x, s1)" by fastforce
  have "x \<in> {None, Some Converged}" "all_calls s1 \<noteq> []" "dsc_parent (hd (all_calls s1)) = Root"
    using l1_iteration_bundles [OF step] Cons.prems by auto
  then show ?case using Cons step by (cases x) auto
qed simp

text \<open>The table of the L2 retrace: the CALL of every known call resolves to its delivery result.\<close>

definition l2_call_action :: "u64 \<Rightarrow> discovered_call \<Rightarrow> cross_chain_action" where
  "l2_call_action rid c = \<lparr>action_type = Call, rollup_id = MAINNET, destination = dsc_destination c,
     call_value = dsc_value c, call_data = dsc_calldata c, failed = False, source_address = dsc_source_address c,
     source_rollup = RollupId (ucast rid), scope = scope_root\<rparr>"

definition delivered :: "discovered_call \<Rightarrow> cross_chain_action" where
  "delivered c = result_action MAINNET (dsc_delivery_return_data c) (dsc_delivery_failed c)"

lemma l2_retrace_table_entries:
  "l2_retrace_table A rid calls = concat (map (\<lambda>c.
     [\<lparr>state_deltas = [], action_hash = hash_of A (l2_call_action rid c), next_action = delivered c\<rparr>,
      \<lparr>state_deltas = [], action_hash = hash_of A (delivered c), next_action = delivered c\<rparr>]) calls)"
  by (simp add: l2_retrace_table_def build_l2_to_l1_entries_def build_l2_to_l1_call_entries_def Let_def delivered_def l2_call_action_def)

end
