(* ===== verification/Discovery_Runs.thy ===== *)
theory Discovery_Runs
  imports Directions
begin

text \<open>
  What a discovery finds: the calls of one trace, the memory of failed lookups, the shape of
  the discovered set, the flags it adopts and the ways it ends.
\<close>

section \<open>One trace\<close>

definition discovered_at ::
    "trace_env \<Rightarrow> u64 \<Rightarrow> nat \<Rightarrow> call_trace_node \<Rightarrow> nat list \<Rightarrow> call_trace_node \<Rightarrow> trace_node \<Rightarrow> proxy_info \<Rightarrow> discovered_call" where
  "discovered_at E target iteration n q m p info =
     \<lparr>dsc_destination = original_address info, dsc_calldata = node_input p, dsc_value = node_value p,
      dsc_source_address = node_from p, dsc_parent = Root, dsc_trace_depth = length q, dsc_iteration = iteration,
      dsc_in_reverted_frame = error_below n q, dsc_delivery_return_data = [], dsc_delivery_failed = False,
      dsc_target_rollup_id = target\<rparr>"

lemma from_reported:
  "reports E (length q, error_below n q, m) p c \<Longrightarrow> names cache p c \<Longrightarrow>
   \<exists>info. cache (node_to p) = Some (Some info) \<and> from_trace_detected c target iteration = discovered_at E target iteration n q m p info"
  by (auto simp: reports_def names_def from_trace_detected_def discovered_at_def)

lemma walk_parsed:
  "try_parse J t = Some n \<Longrightarrow> walk_trace_to_discovered J E t cache target iteration =
     (let s = walk_trace_tree_inner E 0 False n (fresh_walk cache)
      in (map (\<lambda>c. from_trace_detected c target iteration) (detected_calls s), proxy_cache s))"
  by (simp add: walk_trace_to_discovered_def walk_trace_tree_def)

text \<open>
  C27: what a parseable trace yields is exactly the set of its proxy calls whose proxy resolved: each
  with its depth, its caller and input, and the flag that some node on the path to it, itself
  included, has an error. Every proxy that is called ends up in the cache.
\<close>

theorem walk_finds_proxy_calls:
  assumes "try_parse J t = Some n" "walk_trace_to_discovered J E t cache target iteration = (calls, cache')"
  shows "set calls = {discovered_at E target iteration n q m p info | q m p info.
           node_at n q = Some m \<and> is_proxy_call E m p \<and> cache' (node_to p) = Some (Some info)} \<and>
         (\<forall>q m p. node_at n q = Some m \<and> is_proxy_call E m p \<longrightarrow> cache' (node_to p) \<noteq> None)"
proof -
  let ?s = "walk_trace_tree_inner E 0 False n (fresh_walk cache)"
  have c: "calls = map (\<lambda>c. from_trace_detected c target iteration) (detected_calls ?s)" "cache' = proxy_cache ?s"
    using assms(2) walk_parsed [OF assms(1)] by (simp_all add: Let_def)
  obtain cs where cs: "detected_calls ?s = detected_calls (fresh_walk cache) @ cs"
    and sound: "\<forall>c \<in> set cs. \<exists>q m p. node_at n q = Some m \<and> is_proxy_call E m p \<and> reports E (length q, error_below n q, m) p c \<and>
      names cache' p c"
    and complete: "\<And>q m p. node_at n q = Some m \<Longrightarrow> is_proxy_call E m p \<Longrightarrow> cache' (node_to p) = Some None \<or>
      (\<exists>c \<in> set cs. reports E (length q, error_below n q, m) p c \<and> names cache' p c)"
    using walk_reports [of ?s E n "fresh_walk cache"] unfolding c(2) by blast
  have calls: "set calls = (\<lambda>c. from_trace_detected c target iteration) ` set cs" using c(1) cs by (simp add: fresh_walk_def)
  let ?R = "{discovered_at E target iteration n q m p info | q m p info.
           node_at n q = Some m \<and> is_proxy_call E m p \<and> cache' (node_to p) = Some (Some info)}"
  have "x \<in> ?R" if x: "x \<in> set calls" for x
  proof -
    obtain c where "c \<in> set cs" "x = from_trace_detected c target iteration" using x calls by blast
    then show ?thesis using sound from_reported by fastforce
  qed
  moreover have "x \<in> set calls" if x: "x \<in> ?R" for x
  proof -
    obtain q m p info where q: "x = discovered_at E target iteration n q m p info" "node_at n q = Some m" "is_proxy_call E m p"
      "cache' (node_to p) = Some (Some info)" using x by blast
    then obtain c where "c \<in> set cs" "reports E (length q, error_below n q, m) p c" "names cache' p c" using complete by fastforce
    then have "from_trace_detected c target iteration = x"
      using from_reported [of E q n m p c cache' target iteration] q(1,4) by auto
    then show ?thesis unfolding calls using \<open>c \<in> set cs\<close> by blast
  qed
  moreover have "cache' (node_to p) \<noteq> None" if "node_at n q = Some m" "is_proxy_call E m p" for q m p
    using complete [OF that] by (auto simp: names_def)
  ultimately show ?thesis by blast
qed

text \<open>
  A lookup that fails once hides the proxy for the rest of the discovery: the walk caches the
  failure, whatever its cause, and no later walk reports calls of that proxy, even when the
  chain would answer by then.
\<close>

theorem failed_lookup_hides_proxy:
  assumes "try_parse J t = Some n" "node_at n q = Some m" "is_proxy_call E m p" "lookup_proxy E (node_to p) = None"
    "cache (node_to p) = None" "\<forall>q m. node_at n q = Some m \<longrightarrow> creates_nothing E m"
    "walk_trace_to_discovered J E t cache target i = (calls, cache')"
    "try_parse J t' = Some n'" "\<forall>q m p'. node_at n' q = Some m \<and> is_proxy_call E' m p' \<longrightarrow> node_to p' = node_to p"
  shows "fst (walk_trace_to_discovered J E' t' cache' target i') = []"
proof -
  have "absent (node_to p) (fresh_walk cache)" using assms(5) by (simp add: absent_def fresh_walk_def)
  then have "proxy_cache (walk_trace_tree_inner E 0 False n (fresh_walk cache)) (node_to p) = Some None"
    using failed_lookup_cached assms(2-4,6) by blast
  then have known: "proxy_cache (fresh_walk cache') (node_to p) = Some None"
    using assms(7) walk_parsed [OF assms(1)] by (auto simp: Let_def fresh_walk_def)
  have "\<forall>v \<in> set (depth_first 0 False n'). \<forall>p'. is_proxy_call E' (snd (snd v)) p' \<longrightarrow> node_to p' = node_to p"
    using assms(9) in_depth_first(1) [of _ _ _ 0 False n'] by fastforce
  then have "detected_calls (walk_trace_tree_inner E' 0 False n' (fresh_walk cache')) = detected_calls (fresh_walk cache')"
    unfolding walk_is_fold by (rule known_non_proxy [OF known])
  also have "\<dots> = []" by (simp add: fresh_walk_def)
  finally show ?thesis using walk_parsed [OF assms(8)] by (simp add: Let_def)
qed

section \<open>Whole discoveries\<close>

definition well_formed_call :: "'b direction_hooks \<Rightarrow> discovered_call \<Rightarrow> bool" where
  "well_formed_call D c \<longleftrightarrow> dsc_parent c = Root \<and> dsc_target_rollup_id c = default_target_rollup_id D \<and>
     dsc_iteration c \<le> MAX_DISCOVERY_ITERATIONS"

lemma well_formed_core: "core c = core d \<Longrightarrow> well_formed_call D c \<longleftrightarrow> well_formed_call D d"
  by (cases c; cases d) (simp add: core_def frame_def without_flag_def well_formed_call_def)

lemma well_formed_by_core:
  assumes "map core xs = map core ys" "\<forall>c \<in> set ys. well_formed_call D c"
  shows "\<forall>c \<in> set xs. well_formed_call D c"
proof
  fix c assume "c \<in> set xs"
  then have "core c \<in> core ` set ys" using assms(1) by (metis image_eqI list.set_map)
  then obtain d where d: "d \<in> set ys" "core c = core d" by blast
  then show "well_formed_call D c" using bspec [OF assms(2) d(1)] well_formed_core [OF d(2)] by blast
qed

lemma initial_walk_well_formed:
  "\<forall>c \<in> set (all_calls (initial_state W D t cache None)). well_formed_call D c"
  by (auto simp: initial_state_def walk_source_def walk_trace_to_discovered_def Let_def from_trace_detected_def well_formed_call_def)

text \<open>
  A discovery from L2 to L1 keeps the calls it starts with, in their order, up to their delivery
  results and revert flags, and every call of the result is a root call for the default rollup
  found in one of the ten iterations at most.
\<close>

theorem discovered_set_well_formed:
  assumes "discover_until_stable W (l2_to_l1_hooks A X F V D u) t cache init = (r, cache')"
    "\<forall>cs. init = Some cs \<longrightarrow> (\<forall>c \<in> set cs. well_formed_call (l2_to_l1_hooks A X F V D u) c)"
  shows "(\<forall>c \<in> set (ds_calls r). well_formed_call (l2_to_l1_hooks A X F V D u) c) \<and>
    prefix (map core (all_calls (initial_state W (l2_to_l1_hooks A X F V D u) t cache init))) (map core (ds_calls r))"
proof -
  let ?D = "l2_to_l1_hooks A X F V D u"
  obtain new where new: "map core (ds_calls r) = map core (all_calls (initial_state W ?D t cache init) @ new)"
    "\<forall>c \<in> set new. 1 \<le> dsc_iteration c \<and> dsc_iteration c \<le> MAX_DISCOVERY_ITERATIONS \<and> fresh ?D c"
    using l2_direction.discovery_core [OF assms(1)] by blast
  have "\<forall>c \<in> set (all_calls (initial_state W ?D t cache init)). well_formed_call ?D c"
  proof (cases init)
    case None
    show ?thesis unfolding None by (rule initial_walk_well_formed)
  next
    case (Some cs)
    then show ?thesis using assms(2) by (simp add: initial_state_def)
  qed
  then have "\<forall>c \<in> set (all_calls (initial_state W ?D t cache init) @ new). well_formed_call ?D c"
    using new(2) by (auto simp: fresh_def well_formed_call_def)
  then show ?thesis using well_formed_by_core [OF new(1)] new(1) by simp
qed

text \<open>
  C28: when the discovery converged and the last retrace reports as many calls as are known, the calls
  of each identity get the revert flags of that retrace, in its order.
\<close>

theorem converged_flags_adopted:
  assumes "discover_until_stable W (l2_to_l1_hooks A X F V D u) t cache init = (r, cache')"
    "all_calls (initial_state W (l2_to_l1_hooks A X F V D u) t cache init) \<noteq> []"
    "discovery_run W (l2_to_l1_hooks A X F V D u) t (initial_state W (l2_to_l1_hooks A X F V D u) t cache init) = (Some Converged, s')"
    "length (last_retrace_results s') = length (all_calls s')"
  shows "flags_of k (ds_calls r) = flags_of k (last_retrace_results s')"
  using assms by (rule l2_direction.discovery_flags)

text \<open>
  C29: when the L1 services and the simulation client answer, an L1-to-L2 discovery of a reverting
  transaction converges or finds a new call in each of its ten iterations.
\<close>

theorem l1_discovery_ends:
  assumes "discovery_run W (l1_to_l2_hooks A F V D u) t s = (e, s')" "top_level_error (json W) t"
    "all_calls s \<noteq> []" "\<forall>c \<in> set (all_calls s). dsc_parent c = Root"
    "\<forall>i \<in> {1..MAX_DISCOVERY_ITERATIONS}. l1_services_answer V i \<and> responsive W i"
  shows "e = Some Converged \<and> mset (map identity (last_retrace_results s')) \<subseteq># mset (map identity (all_calls s')) \<or>
    e = None \<and> length (all_calls s) + MAX_DISCOVERY_ITERATIONS \<le> length (all_calls s')"
proof -
  let ?its = "[1..<Suc MAX_DISCOVERY_ITERATIONS]"
  have run: "discovery_loop W (l1_to_l2_hooks A F V D u) ?its s = (e, s')"
    using assms(1,2) by (simp add: discovery_run_def)
  have "set ?its = {1..MAX_DISCOVERY_ITERATIONS}" by auto
  then have "e \<in> {None, Some Converged}"
    using l1_loop_bundles [OF run assms(3)] assms(3,4,5) by simp
  then show ?thesis
  proof (elim insertE emptyE)
    assume "e = None"
    then obtain new where "map frame (all_calls s') = map frame (all_calls s @ new)" "length ?its \<le> length new"
      using l1_direction.loop_extends [OF run] by blast
    from this(1) have "length (all_calls s') = length (all_calls s) + length new" by (metis length_append length_map)
    moreover have "length ?its = MAX_DISCOVERY_ITERATIONS" by (simp only: length_upt diff_Suc_1)
    ultimately show ?thesis using \<open>e = None\<close> \<open>length ?its \<le> length new\<close> by simp
  next
    assume "e = Some Converged"
    then show ?thesis using l1_direction.converged_covers run by blast
  qed
qed

section \<open>A concrete chain\<close>

text \<open>
  A JSON value is a flag for \<open>error\<close> and a list of traces; an address is the length of its
  text; the manager is at 1 and the proxy of address 9 at 3.
\<close>

definition toy_json :: "(bool \<times> call_trace_node list) json_api" where
  "toy_json = \<lparr>json_get = (\<lambda>k (e, ns). if k = ''error'' \<and> e then Some (True, []) else None), json_index = (\<lambda>i j. Some j),
     json_array = (\<lambda>(e, ns). Some (map (\<lambda>n. (False, [n])) ns)), json_str = (\<lambda>_. None),
     try_parse = (\<lambda>(e, ns). case ns of [n] \<Rightarrow> Some n | _ \<Rightarrow> None)\<rparr>"

definition toy_trace_env :: "(address \<Rightarrow> proxy_info option) \<Rightarrow> trace_env" where
  "toy_trace_env lookup = \<lparr>parse_address = (\<lambda>s. Some (of_nat (length s))),
     hex_decode = (\<lambda>s. Some (if s = ''x'' then [1, 2, 3, 4] else [])), parse_u256_hex = (\<lambda>_. None),
     execute_cross_chain_call_selector = [1, 2, 3, 4], create_cross_chain_proxy_selector = [5, 6, 7, 8],
     manager_addresses = [1], lookup_proxy = lookup\<rparr>"

definition toy_lookup :: "address \<Rightarrow> proxy_info option" where
  "toy_lookup a = (if a = 3 then Some \<lparr>original_address = 9, original_rollup_id = 1\<rparr> else None)"

definition toy_node :: "string \<Rightarrow> string \<Rightarrow> bool \<Rightarrow> call_trace_node list \<Rightarrow> call_trace_node" where
  "toy_node to input failing cs =
     Call_Trace_Node (Some to) (Some ''aaaa'') (Some input) None None (if failing then Some ''e'' else None) None (Some cs)"

text \<open>A call of the proxy inside a transaction to address 5.\<close>

definition toy_trace :: "bool \<Rightarrow> call_trace_node" where
  "toy_trace failing = toy_node ''rrrrr'' [] failing [toy_node ''ppp'' [] failing [toy_node ''m'' ''0xx'' failing []]]"

definition toy_world :: "(nat \<Rightarrow> address \<Rightarrow> proxy_info option) \<Rightarrow> (trace_bundle, bool \<times> call_trace_node list) discovery_env" where
  "toy_world lookup = \<lparr>json = toy_json, tracing = (\<lambda>i. toy_trace_env (lookup i)),
     trace_call_many = (\<lambda>i b. Some (False, [toy_trace False, toy_trace False]))\<rparr>"

definition toy_formats :: formats where
  "toy_formats = \<lparr>show_address = (\<lambda>_. []), hex_digits = (\<lambda>_. []), hex_u64 = (\<lambda>_. []), hex_u256 = (\<lambda>_. [])\<rparr>"

definition toy_user :: user_tx_context where
  "toy_user = \<lparr>ut_from = [], ut_to = [], ut_data = [], raw_tx_bytes = [], ut_value = []\<rparr>"

definition toy_l2_services :: "(bool \<times> call_trace_node list) l2_services" where
  "toy_l2_services = \<lparr>l1_trace_call_many = (\<lambda>_ _. None), delivery_json = toy_json, decode_hex = (\<lambda>_. None),
     simulate_l1_delivery = (\<lambda>_ _ _ _. None)\<rparr>"

definition toy_l2_to_l1 :: l2_to_l1 where
  "toy_l2_to_l1 = \<lparr>l21_l1_ccm = 7, l21_l2_ccm = 1, l21_builder_address = 2, l21_rollup_id = 1\<rparr>"

abbreviation toy_l2_hooks :: "trace_bundle direction_hooks" where
  "toy_l2_hooks \<equiv> l2_to_l1_hooks hash_by_value toy_encoders toy_formats toy_l2_services toy_l2_to_l1 toy_user"

abbreviation toy_l2_world :: "(trace_bundle, bool \<times> call_trace_node list) discovery_env" where
  "toy_l2_world \<equiv> toy_world (\<lambda>_. toy_lookup)"

definition toy_result :: "discovered_set \<times> proxy_cache" where
  "toy_result = discover_until_stable toy_l2_world toy_l2_hooks (True, [toy_trace True]) Map.empty None"

definition toy_start :: discovery_state where
  "toy_start = initial_state toy_l2_world toy_l2_hooks (True, [toy_trace True]) Map.empty None"

definition toy_run :: "loop_exit option \<times> discovery_state" where
  "toy_run = discovery_run toy_l2_world toy_l2_hooks (True, [toy_trace True]) toy_start"

lemma toy_values:
  "map dsc_in_reverted_frame (ds_calls (fst toy_result)) = [False]" "map dsc_in_reverted_frame (all_calls toy_start) = [True]"
  "fst toy_run = Some Converged" "length (last_retrace_results (snd toy_run)) = 1" "length (all_calls (snd toy_run)) = 1"
  by code_simp+

theorem discovered_set_well_formed_witness:
  "list_all (well_formed_call toy_l2_hooks) (ds_calls (fst toy_result)) \<and>
   prefix (map core (all_calls toy_start)) (map core (ds_calls (fst toy_result))) \<and> ds_calls (fst toy_result) \<noteq> []"
proof -
  have "discover_until_stable toy_l2_world toy_l2_hooks (True, [toy_trace True]) Map.empty None = (fst toy_result, snd toy_result)"
    by (simp add: toy_result_def)
  from discovered_set_well_formed [OF this] show ?thesis using toy_values(1) by (auto simp: toy_start_def list_all_iff)
qed

theorem converged_flags_adopted_witness:
  "flags_of (9, [], 0, 4) (ds_calls (fst toy_result)) = flags_of (9, [], 0, 4) (last_retrace_results (snd toy_run)) \<and>
   flags_of (9, [], 0, 4) (ds_calls (fst toy_result)) = [False]"
proof -
  have a: "discover_until_stable toy_l2_world toy_l2_hooks (True, [toy_trace True]) Map.empty None = (fst toy_result, snd toy_result)"
    by (simp add: toy_result_def)
  have b: "discovery_run toy_l2_world toy_l2_hooks (True, [toy_trace True])
      (initial_state toy_l2_world toy_l2_hooks (True, [toy_trace True]) Map.empty None) = (Some Converged, snd toy_run)"
    using toy_values(3) by (metis prod.collapse toy_run_def toy_start_def)
  have c: "all_calls (initial_state toy_l2_world toy_l2_hooks (True, [toy_trace True]) Map.empty None) \<noteq> []"
    using toy_values(2) by (auto simp: toy_start_def)
  have "flags_of (9, [], 0, 4) (ds_calls (fst toy_result)) = flags_of (9, [], 0, 4) (last_retrace_results (snd toy_run))"
    by (rule converged_flags_adopted [OF a c b]) (simp add: toy_values(4,5))
  moreover have "flags_of (9, [], 0, 4) (ds_calls (fst toy_result)) = [False]" by code_simp
  ultimately show ?thesis by blast
qed

definition toy_l1_services :: l1_services where
  "toy_l1_services = \<lparr>rollup_state_root = (\<lambda>_. Some 1), l1_block_context = (\<lambda>_. Some (2, 3, 4)),
     verification_key = (\<lambda>_. Some 5), unix_time = (\<lambda>_. 6), builder_key_address = 7, sign_hash = (\<lambda>h. Some []),
     enc_post_batch = (\<lambda>_ _ _. [])\<rparr>"

abbreviation toy_l1_hooks :: "trace_bundle direction_hooks" where
  "toy_l1_hooks \<equiv> l1_to_l2_hooks hash_by_value toy_formats toy_l1_services
     \<lparr>l12_l2_ccm = 7, l12_l1_ccm = 1, l12_rollup_id = 1\<rparr> toy_user"

theorem l1_discovery_ends_witness:
  "fst (discovery_run toy_l2_world toy_l1_hooks (True, [toy_trace True]) toy_start) = Some Converged \<or>
   length (all_calls (snd (discovery_run toy_l2_world toy_l1_hooks (True, [toy_trace True]) toy_start))) \<ge> 11"
proof -
  have "top_level_error (json toy_l2_world) (True, [toy_trace True])" by code_simp
  moreover have "map dsc_parent (all_calls toy_start) = [Root]" by code_simp
  then have "all_calls toy_start \<noteq> []" "length (all_calls toy_start) = 1" "\<forall>c \<in> set (all_calls toy_start). dsc_parent c = Root" by auto
  moreover have "l1_services_answer toy_l1_services i \<and> responsive toy_l2_world i" for i
    by (simp add: l1_services_answer_def responsive_def toy_l1_services_def toy_world_def user_trace_of_def toy_json_def)
  ultimately show ?thesis
    using l1_discovery_ends [of toy_l2_world hash_by_value toy_formats toy_l1_services
        "\<lparr>l12_l2_ccm = 7, l12_l1_ccm = 1, l12_rollup_id = 1\<rparr>" toy_user "(True, [toy_trace True])" toy_start
        "fst (discovery_run toy_l2_world toy_l1_hooks (True, [toy_trace True]) toy_start)"
        "snd (discovery_run toy_l2_world toy_l1_hooks (True, [toy_trace True]) toy_start)"]
    by (auto simp: MAX_DISCOVERY_ITERATIONS_def)
qed

lemma toy_trace_nodes:
  "node_at (toy_trace b) q = Some m \<Longrightarrow> m \<in> snd ` snd ` set (depth_first 0 False (toy_trace b))"
proof -
  assume "node_at (toy_trace b) q = Some m"
  then have "(length q, error_below (toy_trace b) q, m) \<in> set (depth_first 0 False (toy_trace b))" by (subst in_depth_first) auto
  from imageI [OF imageI [OF this, of snd], of snd] show ?thesis by (simp only: snd_conv)
qed

theorem walk_finds_proxy_calls_witness:
  "set (fst (walk_trace_to_discovered toy_json (toy_trace_env toy_lookup) (True, [toy_trace True]) Map.empty 0 0)) =
     {discovered_at (toy_trace_env toy_lookup) 0 0 (toy_trace True) q m p info | q m p info.
       node_at (toy_trace True) q = Some m \<and> is_proxy_call (toy_trace_env toy_lookup) m p \<and>
       snd (walk_trace_to_discovered toy_json (toy_trace_env toy_lookup) (True, [toy_trace True]) Map.empty 0 0) (node_to p)
         = Some (Some info)} \<and>
   length (fst (walk_trace_to_discovered toy_json (toy_trace_env toy_lookup) (True, [toy_trace True]) Map.empty 0 0)) = 1"
proof -
  have parse: "try_parse toy_json (True, [toy_trace True]) = Some (toy_trace True)" by (simp add: toy_json_def)
  have "length (fst (walk_trace_to_discovered toy_json (toy_trace_env toy_lookup) (True, [toy_trace True]) Map.empty 0 0)) = 1"
    by code_simp
  with conjunct1 [OF walk_finds_proxy_calls [OF parse prod.collapse [symmetric]]] show ?thesis by (rule conjI)
qed

lemma toy_creates_nothing: "node_at (toy_trace b) q = Some m \<Longrightarrow> creates_nothing (toy_trace_env f) m"
  by (drule toy_trace_nodes)
    (auto simp: toy_trace_def toy_node_def children_def or_default_def creates_nothing_def creates_proxy_def toy_trace_env_def
      trace_node_from_typed_def to_address_def has_selector_def input_bytes_def strip_0x_def)

definition toy_proxy_call :: trace_node where
  "toy_proxy_call = the (trace_node_from_typed (toy_trace_env Map.empty) (toy_node ''ppp'' [] True [toy_node ''m'' ''0xx'' True []]))"

theorem failed_lookup_hides_proxy_witness:
  "fst (walk_trace_to_discovered toy_json (toy_trace_env toy_lookup) (False, [toy_trace False])
     (snd (walk_trace_to_discovered toy_json (toy_trace_env Map.empty) (True, [toy_trace True]) Map.empty 0 0)) 0 1) = [] \<and>
   length (fst (walk_trace_to_discovered toy_json (toy_trace_env toy_lookup) (False, [toy_trace False]) Map.empty 0 1)) = 1"
proof -
  have parse: "try_parse toy_json (e, [toy_trace b]) = Some (toy_trace b)" for e b by (simp add: toy_json_def)
  have node: "node_at (toy_trace True) [0] = Some (toy_node ''ppp'' [] True [toy_node ''m'' ''0xx'' True []])"
    by (simp add: toy_trace_def toy_node_def children_def or_default_def)
  have call: "is_proxy_call (toy_trace_env Map.empty) (toy_node ''ppp'' [] True [toy_node ''m'' ''0xx'' True []]) toy_proxy_call"
    by (simp add: is_proxy_call_def toy_proxy_call_def toy_trace_env_def toy_node_def trace_node_from_typed_def to_address_def
        sender_address_def or_default_def creates_proxy_def has_execute_cross_chain_call_child_def children_def
        input_bytes_def strip_0x_def has_selector_def)
  have same: "node_to p' = node_to toy_proxy_call"
    if "node_at (toy_trace False) q = Some m \<and> is_proxy_call (toy_trace_env toy_lookup) m p'" for q m p'
    using that toy_trace_nodes [of False q m]
    by (auto simp: toy_trace_def toy_node_def children_def or_default_def is_proxy_call_def toy_trace_env_def toy_proxy_call_def
      trace_node_from_typed_def to_address_def has_execute_cross_chain_call_child_def)
  have "fst (walk_trace_to_discovered toy_json (toy_trace_env toy_lookup) (False, [toy_trace False])
     (snd (walk_trace_to_discovered toy_json (toy_trace_env Map.empty) (True, [toy_trace True]) Map.empty 0 0)) 0 1) = []"
    by (rule failed_lookup_hides_proxy [OF parse node call _ _ _ prod.collapse [symmetric] parse])
      (use toy_creates_nothing same in \<open>auto simp: toy_trace_env_def\<close>)
  moreover have "length (fst (walk_trace_to_discovered toy_json (toy_trace_env toy_lookup) (False, [toy_trace False]) Map.empty 0 1)) = 1"
    by code_simp
  ultimately show ?thesis by blast
qed

end
