(* ===== verification/Driver_Tick.thy ===== *)
theory Driver_Tick
  imports Builder_Step
begin

text \<open>
  One tick of the driver (\<open>step\<close> and the loop of \<open>run\<close> in \<open>driver/mod.rs\<close>): deferred
  re-injection, the pending rewind, the anchor refresh, preconfirmed blocks, L1 reorgs and the
  dispatch to the mode's step; the switch between the two L1 providers and the back-off around
  it; the helpers of \<open>driver/step_builder.rs\<close> and \<open>driver/rewind.rs\<close> that these use. Times are
  milliseconds of a monotonic clock. What the tick reads from the chain database, the accounts
  and L1 is a parameter.
\<close>

section \<open>Messages, health and the task\<close>

datatype preconfirmed_message = Block_Arrived u64 b256 | Block_Invalidated u64 b256

record health_status =
  hs_mode :: driver_mode
  hs_l2_head :: u64
  hs_l1_derivation_head :: u64
  hs_pending_submissions :: nat
  hs_rewind_cycles :: u32
  hs_last_advance :: "nat option"

definition MAX_REWIND_CYCLES :: u32 where
  "MAX_REWIND_CYCLES = 10"

definition STALENESS_THRESHOLD :: nat where
  "STALENESS_THRESHOLD = 120000"

definition is_healthy :: "nat \<Rightarrow> health_status \<Rightarrow> bool" where
  "is_healthy now h \<longleftrightarrow> \<not> hs_rewind_cycles h > MAX_REWIND_CYCLES \<and>
     (case hs_last_advance h of None \<Rightarrow> True | Some t \<Rightarrow> \<not> now - t > STALENESS_THRESHOLD)"

text \<open>The fields of \<open>Driver\<close> around those of \<open>builder\<close>; \<open>dt_pool\<close> is what was added to the pool.\<close>

record 'tx driver_task =
  dt_builder :: "'tx builder"
  dt_using_fallback :: bool
  dt_counter :: u32
  dt_proposer_on_fallback :: bool
  dt_last_l1_call :: nat
  dt_last_new_l1_block :: nat
  dt_ws :: "(u64 \<times> b256) list"
  dt_messages :: "preconfirmed_message list"
  dt_pool :: "(address \<times> 'tx) list"
  dt_prev_head :: u64
  dt_last_advance :: nat
  dt_health :: "health_status option"

record ('s, 'tx, 'e, 'pl) tick_env =
  tk_world :: "('s, 'tx, 'e, 'pl) world"
  tk_builder_mode :: bool
  tk_has_fallback :: bool
  tk_has_proposer :: bool
  tk_switch_ok :: bool
  tk_now :: nat
  tk_db :: block_db
  tk_tip :: u64
  tk_block_txs :: "u64 \<Rightarrow> u64 \<Rightarrow> 'tx list list option"
  tk_recover :: "'tx \<Rightarrow> address option"
  tk_to_pool :: "address \<times> 'tx \<Rightarrow> bool"
  tk_account :: "b256 \<Rightarrow> unit + u64 option"
  tk_parent_hash :: "u64 \<Rightarrow> b256 option"
  tk_l1_head :: "u64 option"
  tk_anchor_l1 :: "(u64 \<times> b256) option"
  tk_sync_build :: "derived_block \<Rightarrow> u64 \<Rightarrow> (built_block \<times> 'pl) option"

datatype tick_error =
    Tick_Builder builder_error
  | Tick_Engine engine_error
  | Tick_Step step_error
  | Tick_Derive derive_error
  | Tick_L1
  | Tick_Anchor_Genesis
  | Tick_No_Parent
  | Tick_No_State
  | Tick_Timestamp u64
  | Tick_Protocol build_error
  | Tick_Exec exec_error
  | Tick_No_Contract

abbreviation task_driver :: "'tx driver_task \<Rightarrow> driver" where
  "task_driver t \<equiv> drv (dt_builder t)"

definition upd_task :: "(driver \<Rightarrow> driver) \<Rightarrow> 'tx driver_task \<Rightarrow> 'tx driver_task" where
  "upd_task f t = t\<lparr>dt_builder := set_drv (f (task_driver t)) (dt_builder t)\<rparr>"

definition with_nonce :: "u64 \<Rightarrow> 'tx driver_task \<Rightarrow> 'tx driver_task" where
  "with_nonce n t = t\<lparr>dt_builder := (dt_builder t)\<lparr>bl_nonce := n\<rparr>\<rparr>"

definition task_head :: "'tx driver_task \<Rightarrow> u64" where
  "task_head t = l2_head_number (drv_head (task_driver t))"

definition reinjection :: "'tx driver_task \<Rightarrow> (address \<times> 'tx) list" where
  "reinjection t = pending_reinjection (nd_journal (bl_node (dt_builder t)))"

definition set_reinjection :: "(address \<times> 'tx) list \<Rightarrow> 'tx driver_task \<Rightarrow> 'tx driver_task" where
  "set_reinjection txs t =
     (let b = dt_builder t; nd = bl_node b
      in t\<lparr>dt_builder := b\<lparr>bl_node := nd\<lparr>nd_journal := (nd_journal nd)\<lparr>pending_reinjection := txs\<rparr>\<rparr>\<rparr>\<rparr>)"

section \<open>The L1 providers\<close>

definition MAX_CONSECUTIVE_FAILURES :: u32 where
  "MAX_CONSECUTIVE_FAILURES = 3"

text \<open>\<open>switch_l1_url\<close> succeeds or leaves the proposer where it is.\<close>

definition sync_proposer_l1_url :: "bool \<Rightarrow> bool \<Rightarrow> 'tx driver_task \<Rightarrow> 'tx driver_task" where
  "sync_proposer_l1_url has_proposer switch_ok t =
     (if has_proposer \<and> switch_ok then t\<lparr>dt_proposer_on_fallback := dt_using_fallback t\<rparr> else t)"

definition record_l1_success :: "bool \<Rightarrow> bool \<Rightarrow> 'tx driver_task \<Rightarrow> 'tx driver_task" where
  "record_l1_success has_proposer switch_ok t =
     (if dt_using_fallback t then
        let n = saturating_add (dt_counter t) 1 in
        if n \<ge> MAX_CONSECUTIVE_FAILURES
        then sync_proposer_l1_url has_proposer switch_ok (t\<lparr>dt_using_fallback := False, dt_counter := 0\<rparr>)
        else t\<lparr>dt_counter := n\<rparr>
      else t\<lparr>dt_counter := 0\<rparr>)"

definition record_l1_failure :: "bool \<Rightarrow> bool \<Rightarrow> bool \<Rightarrow> 'tx driver_task \<Rightarrow> 'tx driver_task" where
  "record_l1_failure has_fallback has_proposer switch_ok t =
     (if dt_using_fallback t then t\<lparr>dt_counter := 0\<rparr>
      else
        let n = saturating_add (dt_counter t) 1 in
        if n \<ge> MAX_CONSECUTIVE_FAILURES \<and> has_fallback
        then sync_proposer_l1_url has_proposer switch_ok (t\<lparr>dt_using_fallback := True, dt_counter := 0\<rparr>)
        else t\<lparr>dt_counter := n\<rparr>)"

section \<open>Preconfirmed blocks\<close>

definition accept_preconfirmed :: "u64 \<Rightarrow> u64 \<times> b256 \<Rightarrow> (u64 \<rightharpoonup> b256) \<Rightarrow> (u64 \<rightharpoonup> b256)" where
  "accept_preconfirmed head nh hashes =
     (case nh of (n, h) \<Rightarrow> if n > saturating_add head 1000 then hashes else hashes(n \<mapsto> h))"

fun message_block :: "preconfirmed_message \<Rightarrow> u64 \<times> b256" where
  "message_block (Block_Arrived n h) = (n, h)"
| "message_block (Block_Invalidated n h) = (n, h)"

definition prune_preconfirmed :: "u64 \<Rightarrow> (u64 \<rightharpoonup> b256) \<Rightarrow> (u64 \<rightharpoonup> b256)" where
  "prune_preconfirmed head hashes =
     (if card (dom hashes) > 1000 then hashes |` {n. n \<ge> saturating_sub head 1000} else hashes)"

definition drain_preconfirmed_blocks :: "'tx driver_task \<Rightarrow> 'tx driver_task" where
  "drain_preconfirmed_blocks t =
     (let head = task_head t;
          drain = (\<lambda>hashes. prune_preconfirmed head
            (fold (accept_preconfirmed head) (dt_ws t @ map message_block (dt_messages t)) hashes))
      in (upd_task (\<lambda>d. d\<lparr>queues := (queues d)\<lparr>preconfirmed_hashes := drain (preconfirmed_hashes (queues d))\<rparr>\<rparr>) t)
           \<lparr>dt_ws := [], dt_messages := []\<rparr>)"

text \<open>The channel holds 64 messages; \<open>run\<close> wires it at start.\<close>

definition broadcast_sibling_reorg :: "u64 \<Rightarrow> b256 \<Rightarrow> 'tx driver_task \<Rightarrow> 'tx driver_task" where
  "broadcast_sibling_reorg n new_hash t =
     (if length (dt_messages t) < 64 then t\<lparr>dt_messages := dt_messages t @ [Block_Invalidated n new_hash]\<rparr> else t)"

section \<open>The builder's nonce and reverted transactions\<close>

definition recover_builder_l2_nonce :: "('s, 'tx, 'e, 'pl) tick_env \<Rightarrow> 'tx driver_task \<Rightarrow> 'tx driver_task" where
  "recover_builder_l2_nonce K t =
     (if builder_address (w_config (tk_world K)) = 0 then t
      else with_nonce (case tk_account K (head_hash (drv_head (task_driver t))) of Inr (Some n) \<Rightarrow> n | _ \<Rightarrow> 0) t)"

definition collect_reverted_user_transactions :: "('s, 'tx, 'e, 'pl) tick_env \<Rightarrow> u64 \<Rightarrow> u64 \<Rightarrow> (address \<times> 'tx) list" where
  "collect_reverted_user_transactions K from to =
     (if from > to then []
      else case tk_block_txs K from to of
          None \<Rightarrow> []
        | Some blocks \<Rightarrow> List.map_filter (\<lambda>tx. case tk_recover K tx of
              None \<Rightarrow> None
            | Some sender \<Rightarrow> if sender = builder_address (w_config (tk_world K)) then None else Some (sender, tx)) (concat blocks))"

text \<open>
  A transaction that does not convert to the pool's form (\<open>try_from_consensus\<close>, here \<open>tk_to_pool\<close>) is
  dropped. Adding to the pool may reject a transaction; what was handed to it is recorded.
\<close>

definition reinject_pending_transactions :: "('s, 'tx, 'e, 'pl) tick_env \<Rightarrow> 'tx driver_task \<Rightarrow> 'tx driver_task" where
  "reinject_pending_transactions K t =
     (if reinjection t = [] then t
      else (set_reinjection [] t)\<lparr>dt_pool := dt_pool t @ filter (tk_to_pool K) (reinjection t)\<rparr>)"

text \<open>Held transactions that decode, recover and convert are added; \<open>decode\<close> does all three.\<close>

definition inject_held_l2_txs :: "(bytes \<Rightarrow> (address \<times> 'tx) option) \<Rightarrow> bytes list \<Rightarrow> 'tx driver_task \<Rightarrow> 'tx driver_task" where
  "inject_held_l2_txs decode held_txs t = t\<lparr>dt_pool := dt_pool t @ List.map_filter decode held_txs\<rparr>"

section \<open>The pending rewind\<close>

definition after_rewind :: "u64 \<Rightarrow> (address \<times> 'tx) list \<Rightarrow> 'tx driver_task \<Rightarrow> 'tx driver_task" where
  "after_rewind target reverted t = (if task_head t \<le> target then set_reinjection (reinjection t @ reverted) t else t)"

definition take_rewind_target :: "('s, 'tx, 'e, 'pl) tick_env \<Rightarrow> 'tx driver_task \<Rightarrow> 'e
    \<Rightarrow> (tick_error + unit) \<times> 'tx driver_task \<times> 'e" where
  "take_rewind_target K t e =
     (case pending_rewind_target (task_driver t) of
        None \<Rightarrow> (Inr (), t, e)
      | Some target \<Rightarrow>
          let old_head = task_head t;
              reverted = collect_reverted_user_transactions K (target + 1) old_head
          in case consume_rewind_target (w_engine (tk_world K)) (tk_db K) (tk_tip K) (task_driver t) e of
               (Inl err, d, e') \<Rightarrow> (Inl (Tick_Engine err), upd_task (\<lambda>_. d) t, e')
             | (Inr _, d, e') \<Rightarrow>
                 let t' = upd_task (\<lambda>_. d) t
                 in (Inr (), if target < old_head then after_rewind target reverted (recover_builder_l2_nonce K t') else t', e'))"

section \<open>The anchor refresh\<close>

text \<open>The builder's nonce at the parent, set before anything else can fail.\<close>

definition nonce_at_parent :: "('s, 'tx, 'e, 'pl) tick_env \<Rightarrow> b256 \<Rightarrow> 'tx driver_task \<Rightarrow> (tick_error + unit) \<times> 'tx driver_task" where
  "nonce_at_parent K parent_hash t =
     (if builder_address (w_config (tk_world K)) = 0 then (Inr (), t)
      else case tk_account K parent_hash of
          Inl _ \<Rightarrow> (Inl Tick_No_State, t)
        | Inr x \<Rightarrow> (Inr (), with_nonce (case x of None \<Rightarrow> 0 | Some n \<Rightarrow> n) t))"

text \<open>The block on the parent with the fresh context, and the nonce after its transactions.\<close>

definition refreshed_block :: "('s, 'tx, 'e, 'pl) tick_env \<Rightarrow> u64 \<Rightarrow> b256 \<Rightarrow> l1_block_info \<Rightarrow> u64
    \<Rightarrow> (tick_error + built_block) \<times> u64" where
  "refreshed_block K target parent_hash info nonce =
     (let W = tk_world K in
      case l2_timestamp_checked (rollup_config.truncate (w_config W)) target of
        None \<Rightarrow> (Inl (Tick_Timestamp target), nonce)
      | Some ts \<Rightarrow>
          (case build_builder_protocol_txs (w_env W parent_hash []) (w_config W) target info [] (2 ^ 64 - 1) nonce of
             (Inl err, n) \<Rightarrow> (Inl (Tick_Protocol err), n)
           | (Inr txs, n) \<Rightarrow>
               (case build_derived_block (w_exec W parent_hash) (target - 1) ts info txs of
                  Inl err \<Rightarrow> (Inl (Tick_Exec err), n) | Inr built \<Rightarrow> (Inr built, n))))"

definition adopt_refreshed :: "('s, 'tx, 'e, 'pl) tick_env \<Rightarrow> u64 \<Rightarrow> l1_block_info \<Rightarrow> built_block \<Rightarrow> b256 list
    \<Rightarrow> 'tx driver_task \<Rightarrow> 'tx driver_task" where
  "adopt_refreshed K target info built new_hashes t =
     (let t1 = upd_task (\<lambda>d. clear_internal_state (d\<lparr>drv_head := (drv_head d)\<lparr>block_hashes := new_hashes,
            head_hash := built_hash built, l2_head_number := target\<rparr>\<rparr>)) t;
          t2 = upd_task (\<lambda>d. d\<lparr>derivation := set_last_derived_l2_block target (derivation d)\<rparr>) t1;
          t3 = recover_builder_l2_nonce K t2;
          t4 = upd_task (\<lambda>d. d\<lparr>queues := (queues d)\<lparr>pending_submissions := pending_submissions (queues d) @
            [\<lparr>pb_l2_block_number = target, pb_pre_state_root = pre_state_root built, pb_state_root = built_state_root built,
              pb_clean_state_root = CleanStateRoot (built_state_root built),
              pb_encoded_transactions = encoded_transactions built, pb_intermediate_roots = [],
              pb_l1_context_block = info_number info\<rparr>]\<rparr>\<rparr>) t3
      in broadcast_sibling_reorg target (built_hash built) t4)"

definition rebuild_with_fresh_l1_context :: "('s, 'tx, 'e, 'pl) tick_env \<Rightarrow> u64 \<Rightarrow> 'tx driver_task \<Rightarrow> 'e
    \<Rightarrow> (tick_error + unit) \<times> 'tx driver_task \<times> 'e" where
  "rebuild_with_fresh_l1_context K target t e =
     (if target = 0 then (Inl Tick_Anchor_Genesis, t, e)
      else case tk_parent_hash K (target - 1) of
          None \<Rightarrow> (Inl Tick_No_Parent, t, e)
        | Some parent_hash \<Rightarrow>
            (case nonce_at_parent K parent_hash t of
               (Inl err, t') \<Rightarrow> (Inl err, t', e)
             | (Inr _, t1) \<Rightarrow>
                 (case tk_anchor_l1 K of
                    None \<Rightarrow> (Inl Tick_L1, t1, e)
                  | Some (n, h) \<Rightarrow>
                      let info = \<lparr>info_number = n, info_hash = h\<rparr> in
                      (case refreshed_block K target parent_hash info (bl_nonce (dt_builder t1)) of
                         (Inl err, nonce) \<Rightarrow> (Inl err, with_nonce nonce t1, e)
                       | (Inr built, nonce) \<Rightarrow>
                           let t2 = with_nonce nonce t1 in
                           (case submit_sibling_payload (w_engine (tk_world K)) (w_payload (tk_world K) built)
                               (built_hash built) (hashes_from (tk_db K) (target - 1)) e of
                              (Inl err, e') \<Rightarrow> (Inl (Tick_Engine err), t2, e')
                            | (Inr new_hashes, e') \<Rightarrow> (Inr (), adopt_refreshed K target info built new_hashes t2, e'))))))"

text \<open>A refresh that fails is queued again; the tick goes on.\<close>

definition take_anchor_refresh :: "('s, 'tx, 'e, 'pl) tick_env \<Rightarrow> 'tx driver_task \<Rightarrow> 'e \<Rightarrow> 'tx driver_task \<times> 'e" where
  "take_anchor_refresh K t e =
     (case pending_anchor_refresh (task_driver t) of
        None \<Rightarrow> (t, e)
      | Some target \<Rightarrow>
          (case rebuild_with_fresh_l1_context K target (upd_task (\<lambda>d. d\<lparr>pending_anchor_refresh := None\<rparr>) t) e of
             (Inr _, t', e') \<Rightarrow> (t', e')
           | (Inl _, t', e') \<Rightarrow> (upd_task (\<lambda>d. d\<lparr>pending_anchor_refresh := Some target\<rparr>) t', e')))"

section \<open>L1 reorgs\<close>

definition saved_checkpoint :: "'tx driver_task \<Rightarrow> 'tx driver_task" where
  "saved_checkpoint t =
     (let b = dt_builder t; nd = bl_node b
      in t\<lparr>dt_builder := b\<lparr>bl_node := nd\<lparr>nd_stages := save_checkpoint (derivation (nd_driver nd)) (nd_stages nd),
          nd_driver := (nd_driver nd)\<lparr>last_checkpointed_l1_block := last_processed_l1_block (derivation (nd_driver nd))\<rparr>\<rparr>\<rparr>\<rparr>)"

definition handle_l1_reorg :: "('s, 'tx, 'e, 'pl) tick_env \<Rightarrow> u64 \<Rightarrow> 'tx driver_task \<Rightarrow> 'e
    \<Rightarrow> (tick_error + unit) \<times> 'tx driver_task \<times> 'e" where
  "handle_l1_reorg K fork_point t e =
     (let (last_valid_l2, p) = rollback_to fork_point (derivation (task_driver t));
          t1 = upd_task (\<lambda>d. d\<lparr>derivation := p\<rparr>) t
      in if \<not> w_db_ok (tk_world K) then (Inl (Tick_Step Checkpoint_Failed), t1, e)
         else
           let t2 = saved_checkpoint t1;
               rewind_target = (case last_valid_l2 of None \<Rightarrow> 0 | Some n \<Rightarrow> n);
               to_sync = upd_task (\<lambda>d. d\<lparr>drv_mode := Sync, synced := False\<rparr>)
           in if rewind_target < task_head t2 then
                let reverted = collect_reverted_user_transactions K (rewind_target + 1) (task_head t2);
                    t3 = upd_task clear_internal_state t2
                in case rewind_l2_chain (w_engine (tk_world K)) (tk_db K) (tk_tip K) rewind_target (drv_head (task_driver t3)) e of
                     (Inl err, h, e') \<Rightarrow> (Inl (Tick_Engine err), upd_task (\<lambda>d. d\<lparr>drv_head := h\<rparr>) t3, e')
                   | (Inr _, h, e') \<Rightarrow>
                       (Inr (), to_sync (after_rewind rewind_target reverted (upd_task (\<lambda>d. d\<lparr>drv_head := h\<rparr>) t3)), e')
              else (Inr (), to_sync (upd_task clear_internal_state t2), e))"

section \<open>The tick\<close>

definition MIN_L1_CALL_INTERVAL :: nat where
  "MIN_L1_CALL_INTERVAL = 100"

text \<open>Entering builder mode in \<open>step_sync\<close> recovers the nonce.\<close>

definition sync_mode_step :: "('s, 'tx, 'e, 'pl) tick_env \<Rightarrow> u64 \<Rightarrow> 'tx driver_task \<Rightarrow> 'e
    \<Rightarrow> (tick_error + unit) \<times> 'tx driver_task \<times> 'e" where
  "sync_mode_step K latest t e =
     (let W = tk_world K in
      case step_sync (w_abi W) (w_decoders W) (w_l1_node W) (w_engine W) (tk_db K) (tk_sync_build K) (tk_builder_mode K)
          (w_db_ok W) latest (task_driver t) e of
        (Inl err, d, e') \<Rightarrow> (Inl (Tick_Step err), upd_task (\<lambda>_. d) t, e')
      | (Inr _, d, e') \<Rightarrow>
          let t' = upd_task (\<lambda>_. d) t
          in (Inr (), if drv_mode d = Builder then recover_builder_l2_nonce K t' else t', e'))"

definition mode_step :: "('s, 'tx, 'e, 'pl) tick_env \<Rightarrow> u64 \<Rightarrow> 'tx driver_task \<Rightarrow> 'e
    \<Rightarrow> (tick_error + unit) \<times> 'tx driver_task \<times> 'e" where
  "mode_step K latest t e =
     (let lift = (\<lambda>(r, b, e'). (case r of Inl err \<Rightarrow> Inl (Tick_Builder err) | Inr u \<Rightarrow> Inr u, t\<lparr>dt_builder := b\<rparr>, e'))
      in case drv_mode (task_driver t) of
           Sync \<Rightarrow> sync_mode_step K latest t e
         | Builder \<Rightarrow> lift (step_builder (tk_world K) latest (dt_builder t) e)
         | Fullnode \<Rightarrow> lift (step_fullnode (tk_world K) latest (dt_builder t) e))"

definition see_l1_head :: "('s, 'tx, 'e, 'pl) tick_env \<Rightarrow> u64 \<Rightarrow> 'tx driver_task \<Rightarrow> 'tx driver_task" where
  "see_l1_head K latest t =
     (let t1 = t\<lparr>dt_last_l1_call := tk_now K\<rparr>
      in if latest > last_seen_l1_block (task_driver t1)
         then (upd_task (\<lambda>d. d\<lparr>last_seen_l1_block := latest\<rparr>) t1)\<lparr>dt_last_new_l1_block := tk_now K\<rparr>
         else t1)"

definition report_health :: "('s, 'tx, 'e, 'pl) tick_env \<Rightarrow> 'tx driver_task \<Rightarrow> 'tx driver_task" where
  "report_health K t =
     (let t1 = (if task_head t > dt_prev_head t then t\<lparr>dt_last_advance := tk_now K, dt_prev_head := task_head t\<rparr> else t)
      in t1\<lparr>dt_health := Some \<lparr>hs_mode = drv_mode (task_driver t1), hs_l2_head = task_head t1,
           hs_l1_derivation_head = last_processed_l1_block (derivation (task_driver t1)),
           hs_pending_submissions = length (pending_submissions (queues (task_driver t1))),
           hs_rewind_cycles = consecutive_rewind_cycles (task_driver t1), hs_last_advance = Some (dt_last_advance t1)\<rparr>\<rparr>)"

definition dispatch :: "('s, 'tx, 'e, 'pl) tick_env \<Rightarrow> u64 \<Rightarrow> 'tx driver_task \<Rightarrow> 'e
    \<Rightarrow> (tick_error + unit) \<times> 'tx driver_task \<times> 'e" where
  "dispatch K latest t e =
     (case detect_reorg (w_l1_node (tk_world K)) (derivation (task_driver t)) of
        Inl err \<Rightarrow> (Inl (Tick_Derive err), t, e)
      | Inr (Some fork_point) \<Rightarrow> handle_l1_reorg K fork_point t e
      | Inr None \<Rightarrow>
          (case mode_step K latest t e of
             (Inl err, t', e') \<Rightarrow> (Inl err, t', e')
           | (Inr _, t', e') \<Rightarrow> (Inr (), report_health K t', e')))"

definition step :: "('s, 'tx, 'e, 'pl) tick_env \<Rightarrow> 'tx driver_task \<Rightarrow> 'e \<Rightarrow> (tick_error + unit) \<times> 'tx driver_task \<times> 'e" where
  "step K t e =
     (if tk_now K - dt_last_l1_call t < MIN_L1_CALL_INTERVAL then (Inr (), t, e)
      else
        (case take_rewind_target K (if reinjection t \<noteq> [] then reinject_pending_transactions K t else t) e of
           (Inl err, t1, e1) \<Rightarrow> (Inl err, t1, e1)
         | (Inr _, t1, e1) \<Rightarrow>
             (case take_anchor_refresh K t1 e1 of
                (t2, e2) \<Rightarrow>
                  let t3 = drain_preconfirmed_blocks t2
                  in case tk_l1_head K of
                       None \<Rightarrow> (Inl Tick_L1, t3, e2)
                     | Some latest \<Rightarrow> dispatch K latest (see_l1_head K latest t3) e2)))"

section \<open>The loop\<close>

definition MAX_BACKOFF_SECS :: u64 where
  "MAX_BACKOFF_SECS = 60"

definition backoff_secs :: "u32 \<Rightarrow> u64" where
  "backoff_secs consecutive_errors = min (push_bit (unat (min consecutive_errors 6)) 1) MAX_BACKOFF_SECS"

text \<open>One round of the loop: the tick, the error count and the sleep after an error.\<close>

definition run_round :: "('s, 'tx, 'e, 'pl) tick_env \<Rightarrow> u32 \<Rightarrow> 'tx driver_task \<Rightarrow> 'e
    \<Rightarrow> u64 option \<times> u32 \<times> 'tx driver_task \<times> 'e" where
  "run_round K errors t e =
     (case step K t e of
        (Inr _, t', e') \<Rightarrow> (None, 0, record_l1_success (tk_has_proposer K) (tk_switch_ok K) t', e')
      | (Inl _, t', e') \<Rightarrow>
          let n = saturating_add errors 1
          in (Some (backoff_secs n), n, record_l1_failure (tk_has_fallback K) (tk_has_proposer K) (tk_switch_ok K) t', e'))"

section \<open>Start-up\<close>

text \<open>What \<open>run\<close> restores before its loop; the code of the contract is \<open>None\<close> when the query failed.\<close>

record 'tx startup_env =
  su_db :: block_db
  su_tip :: u64
  su_decode_txs :: "bytes \<Rightarrow> 'tx list option"
  su_recover :: "'tx \<Rightarrow> address option"
  su_headers :: "u64 \<Rightarrow> l2_header option"
  su_deployment_hash :: "b256 option"
  su_rollups_code :: "bytes option"
  su_db_ok :: bool

definition restore_derivation :: "'tx startup_env \<Rightarrow> stage_db \<Rightarrow> u64 \<Rightarrow> pipeline \<Rightarrow> pipeline" where
  "restore_derivation S stages l2_head p =
     (let p1 = set_last_derived_l2_block l2_head (snd (load_checkpoint stages p));
          p2 = rebuild_cursor_from_headers (su_headers S) l2_head p1
      in case su_deployment_hash S of None \<Rightarrow> p2 | Some h \<Rightarrow> set_deployment_l1_block_hash h p2)"

definition restore_builder :: "'tx startup_env \<Rightarrow> address \<Rightarrow> 'tx builder \<Rightarrow> 'tx builder" where
  "restore_builder S builder b =
     (let nd = bl_node b; d = nd_driver nd; head = l2_head_number (drv_head d);
          p = restore_derivation S (nd_stages nd) head (derivation d)
      in b\<lparr>bl_node := nd\<lparr>
        nd_driver := d\<lparr>drv_anchor := load_l1_confirmed_anchor (nd_stages nd) (drv_anchor d), derivation := p,
          last_checkpointed_l1_block := last_processed_l1_block p\<rparr>,
        nd_journal := load_tx_journal (su_decode_txs S) (su_recover S) builder head (su_db_ok S) (nd_journal nd)\<rparr>\<rparr>)"

definition start_driver :: "'tx startup_env \<Rightarrow> builder_config \<Rightarrow> 'tx builder \<Rightarrow> (tick_error + unit) \<times> 'tx builder" where
  "start_driver S c b =
     (case recover_chain_state (su_db S) (su_tip S) (drv_head (drv b)) of
        (Inl err, h) \<Rightarrow> (Inl (Tick_Engine err), set_drv ((drv b)\<lparr>drv_head := h\<rparr>) b)
      | (Inr _, h) \<Rightarrow>
          let b' = restore_builder S (builder_address c) (set_drv ((drv b)\<lparr>drv_head := h\<rparr>) b)
          in case su_rollups_code S of
               None \<Rightarrow> (Inl Tick_L1, b')
             | Some code \<Rightarrow> if code = [] \<and> rollups_address c \<noteq> 0 then (Inl Tick_No_Contract, b') else (Inr (), b'))"

end
