(* ===== verification/Tick_Results.thy ===== *)
theory Tick_Results
  imports Driver_Tick Builder_Tick
begin

text \<open>
  What a tick of the driver keeps and what it loses: the provider switch, failed anchor
  refreshes, reverted transactions, L1 reorgs whose rewind fails, and a restart.
\<close>

section \<open>Fields\<close>

lemma drv_set_drv [simp]: "drv (set_drv d b) = d" "bl_nonce (set_drv d b) = bl_nonce b"
  "set_drv d1 (set_drv d2 b) = set_drv d1 b"
  by (simp_all add: drv_def set_drv_def)

lemma upd_task_fields [simp]:
  "task_driver (upd_task f t) = f (task_driver t)" "bl_nonce (dt_builder (upd_task f t)) = bl_nonce (dt_builder t)"
  "reinjection (upd_task f t) = reinjection t" "dt_pool (upd_task f t) = dt_pool t"
  "dt_last_l1_call (upd_task f t) = dt_last_l1_call t"
  "nd_stages (bl_node (dt_builder (upd_task f t))) = nd_stages (bl_node (dt_builder t))"
  by (simp_all add: upd_task_def reinjection_def) (simp_all add: set_drv_def)

lemma set_reinjection_fields [simp]:
  "task_driver (set_reinjection txs t) = task_driver t" "reinjection (set_reinjection txs t) = txs"
  "dt_pool (set_reinjection txs t) = dt_pool t" "dt_last_l1_call (set_reinjection txs t) = dt_last_l1_call t"
  "bl_nonce (dt_builder (set_reinjection txs t)) = bl_nonce (dt_builder t)"
  by (simp_all add: set_reinjection_def reinjection_def Let_def drv_def)

lemma recover_nonce_fields [simp]:
  "task_driver (recover_builder_l2_nonce K t) = task_driver t" "reinjection (recover_builder_l2_nonce K t) = reinjection t"
  "dt_pool (recover_builder_l2_nonce K t) = dt_pool t" "dt_last_l1_call (recover_builder_l2_nonce K t) = dt_last_l1_call t"
  by (simp_all add: recover_builder_l2_nonce_def with_nonce_def reinjection_def drv_def)

section \<open>The switch between the providers\<close>

definition record_result :: "bool \<Rightarrow> bool \<Rightarrow> bool \<Rightarrow> 'tx driver_task \<Rightarrow> 'tx driver_task" where
  "record_result has_proposer switch_ok ok t =
     (if ok then record_l1_success has_proposer switch_ok t else record_l1_failure True has_proposer switch_ok t)"

abbreviation record_all :: "bool \<Rightarrow> bool \<Rightarrow> bool list \<Rightarrow> 'tx driver_task \<Rightarrow> 'tx driver_task" where
  "record_all P S rs t \<equiv> fold (record_result P S) rs t"

text \<open>The counter is the length of the streak that would flip the provider, below three.\<close>

definition streak :: "bool list \<Rightarrow> 'tx driver_task \<Rightarrow> bool" where
  "streak rs t \<longleftrightarrow> dt_counter t = 0 \<or> dt_counter t = 1 \<and> (\<exists>qs. rs = qs @ [dt_using_fallback t]) \<or>
     dt_counter t = 2 \<and> (\<exists>qs. rs = qs @ [dt_using_fallback t, dt_using_fallback t])"

lemmas record_defs = record_result_def record_l1_success_def record_l1_failure_def sync_proposer_l1_url_def
  MAX_CONSECUTIVE_FAILURES_def saturating_add_def

lemma record_flips:
  "dt_counter t = c \<Longrightarrow> c \<in> {0, 1, 2} \<Longrightarrow>
   dt_using_fallback (record_result P S r t) = (if r = dt_using_fallback t \<and> c = 2 then \<not> r else dt_using_fallback t) \<and>
   dt_counter (record_result P S r t) = (if r = dt_using_fallback t \<and> c \<noteq> 2 then c + 1 else 0)"
  by (cases r; cases "dt_using_fallback t") (auto simp: record_defs Let_def word_le_nat_alt)

lemma streak_counter: "streak rs t \<Longrightarrow> dt_counter t \<in> {0, 1, 2}"
  by (auto simp: streak_def)

lemma streak_step: "streak rs t \<Longrightarrow> streak (rs @ [r]) (record_result P S r t)"
  using record_flips [OF refl streak_counter, of rs t P S r] by (auto simp: streak_def)

lemma streak_all: "dt_counter t = 0 \<Longrightarrow> streak rs (record_all P S rs t)"
proof (induction rs rule: rev_induct)
  case Nil
  then show ?case by (simp add: streak_def)
next
  case (snoc r rs)
  then show ?case using streak_step [of rs "record_all P S rs t" r P S] by simp
qed

lemma flip_needs_three:
  assumes "streak rs t" "dt_using_fallback (record_result P S r t) \<noteq> dt_using_fallback t"
  shows "\<exists>qs. rs @ [r] = qs @ [r, r, r]"
  using assms record_flips [OF refl streak_counter [OF assms(1)], of P S r] by (auto simp: streak_def split: if_splits)

lemma three_settle:
  assumes "dt_counter t \<in> {0, 1, 2}"
  shows "dt_using_fallback (record_all P S [b, b, b] t) = (\<not> b)"
proof -
  let ?t1 = "record_result P S b t" and ?t2 = "record_result P S b (record_result P S b t)"
  note f = record_flips [OF refl assms, of P S b]
  then have 1: "dt_counter ?t1 \<in> {0, 1, 2}" using assms by auto
  note f1 = record_flips [OF refl 1, of P S b]
  then have 2: "dt_counter ?t2 \<in> {0, 1, 2}" using 1 by auto
  note f2 = record_flips [OF refl 2, of P S b]
  show ?thesis using f f1 f2 assms by (auto split: if_splits)
qed

text \<open>
  C19: the switch between the L1 providers. Started with a zero counter and with a
  fallback configured, the driver changes its provider only on the third equal result in a row (failures on the primary, successes on the
  fallback), and three equal results always leave it on the primary after successes and on the
  fallback after failures, whatever came before.
\<close>

theorem provider_follows_streaks:
  assumes "dt_counter t = 0"
  shows "(dt_using_fallback (record_all P S (rs @ [r]) t) \<noteq> dt_using_fallback (record_all P S rs t) \<longrightarrow>
      (\<exists>qs. rs @ [r] = qs @ [r, r, r])) \<and>
    dt_using_fallback (record_all P S (rs @ [b, b, b]) t) = (\<not> b)"
proof -
  note s = streak_all [OF assms, of rs P S]
  have "dt_using_fallback (record_all P S (rs @ [b, b, b]) t) = (\<not> b)"
    using three_settle [OF streak_counter [OF s], of P S b] by simp
  then show ?thesis using flip_needs_three [OF s, of P S r] by simp
qed

section \<open>The anchor refresh\<close>

lemma with_nonce_simps [simp]:
  "with_nonce n (with_nonce m t) = with_nonce n t" "with_nonce (bl_nonce (dt_builder t)) t = t"
  "task_driver (with_nonce n t) = task_driver t" "upd_task f (with_nonce n t) = with_nonce n (upd_task f t)"
  by (simp_all add: with_nonce_def upd_task_def set_drv_def drv_def)

lemma upd_task_upd_task [simp]: "upd_task f (upd_task g t) = upd_task (\<lambda>d. f (g d)) t"
  by (simp add: upd_task_def)

lemma upd_task_id: "f (task_driver t) = task_driver t \<Longrightarrow> upd_task f t = t"
  by (simp add: upd_task_def set_drv_def drv_def)

lemma unchanged_nonce: "\<exists>n. t = with_nonce n t"
  by (rule exI [of _ "bl_nonce (dt_builder t)"]) simp

lemma nonce_at_parent_keeps: "nonce_at_parent K h t = (r, t') \<Longrightarrow> \<exists>n. t' = with_nonce n t"
  using unchanged_nonce [of t] by (auto simp: nonce_at_parent_def split: if_splits sum.splits)

lemma failed_refresh:
  assumes "rebuild_with_fresh_l1_context K target t e = (Inl err, t', e')"
  shows "\<exists>n. t' = with_nonce n t"
proof (cases "target = 0 \<or> tk_parent_hash K (target - 1) = None")
  case True
  then have "t' = t" using assms by (auto simp: rebuild_with_fresh_l1_context_def split: if_splits)
  then show ?thesis using unchanged_nonce by simp
next
  case False
  then obtain h where h: "target \<noteq> 0" "tk_parent_hash K (target - 1) = Some h" by auto
  obtain r t1 where n: "nonce_at_parent K h t = (r, t1)" by fastforce
  have "\<exists>n. t' = with_nonce n t1"
    using assms h n unchanged_nonce [of t1]
    by (auto simp: rebuild_with_fresh_l1_context_def Let_def split: sum.splits option.splits prod.splits)
  then show ?thesis using nonce_at_parent_keeps [OF n] by auto
qed

text \<open>
  An anchor refresh that fails is queued again, the tick goes on, and the driver is as
  before it except for the builder's nonce, which may stay at the value of the parent block or
  after the transactions of the block that was not adopted.
\<close>

theorem failed_refresh_keeps_all_but_nonce:
  assumes "pending_anchor_refresh (task_driver t) = Some target"
    "rebuild_with_fresh_l1_context K target (upd_task (\<lambda>d. d\<lparr>pending_anchor_refresh := None\<rparr>) t) e = (Inl err, t', e')"
  shows "\<exists>n. take_anchor_refresh K t e = (with_nonce n t, e')"
proof -
  obtain n where "t' = with_nonce n (upd_task (\<lambda>d. d\<lparr>pending_anchor_refresh := None\<rparr>) t)"
    using failed_refresh [OF assms(2)] by blast
  moreover have "upd_task (\<lambda>d. d\<lparr>pending_anchor_refresh := Some target\<rparr>) t = t" using assms(1) by (intro upd_task_id) simp
  ultimately have "upd_task (\<lambda>d. d\<lparr>pending_anchor_refresh := Some target\<rparr>) t' = with_nonce n t" by simp
  then have "take_anchor_refresh K t e = (with_nonce n t, e')" using assms by (simp add: take_anchor_refresh_def)
  then show ?thesis by (rule exI)
qed

section \<open>Reverted transactions\<close>

lemma rewind_collects:
  assumes "take_rewind_target K t e = (Inr (), t', e')" "pending_rewind_target (task_driver t) = Some target"
    "target < task_head t" "task_head t' \<le> target"
  shows "reinjection t' = reinjection t @ collect_reverted_user_transactions K (target + 1) (task_head t) \<and> dt_pool t' = dt_pool t"
proof -
  obtain r d e1 where run: "consume_rewind_target (w_engine (tk_world K)) (tk_db K) (tk_tip K) (task_driver t) e = (r, d, e1)"
    by (rule prod_cases3)
  with assms(1,2) obtain u where "r = Inr u" by (cases r) (auto simp: take_rewind_target_def Let_def)
  then show ?thesis using assms run
    by (auto simp: take_rewind_target_def Let_def after_rewind_def task_head_def split: if_splits)
qed

lemma pool_kept:
  "take_rewind_target K t e = (r, t1, e1) \<Longrightarrow> dt_pool t1 = dt_pool t"
  by (auto simp: take_rewind_target_def Let_def after_rewind_def split: option.splits prod.splits sum.splits if_splits)

lemma pool_kept_refresh: "dt_pool (fst (take_anchor_refresh K t e)) = dt_pool t"
proof -
  have n: "dt_pool (with_nonce n t) = dt_pool t" for n t by (simp add: with_nonce_def)
  have a: "dt_pool (adopt_refreshed K tgt info built hs t) = dt_pool t" for tgt info built hs t
    by (simp add: adopt_refreshed_def Let_def broadcast_sibling_reorg_def)
  have r: "rebuild_with_fresh_l1_context K tgt t e = (x, t', e') \<Longrightarrow> dt_pool t' = dt_pool t" for tgt t x t' e'
    using n a by (auto simp: rebuild_with_fresh_l1_context_def nonce_at_parent_def Let_def
        split: if_splits sum.splits option.splits prod.splits)
  show ?thesis using r by (auto simp: take_anchor_refresh_def split: option.splits prod.splits sum.splits)
qed

lemma pool_kept_rest:
  "dt_pool (drain_preconfirmed_blocks t) = dt_pool t" "dt_pool (see_l1_head K n t) = dt_pool t"
  "dispatch K latest t e = (r, t', e') \<Longrightarrow> dt_pool t' = dt_pool t"
proof -
  show "dt_pool (drain_preconfirmed_blocks t) = dt_pool t" by (simp add: drain_preconfirmed_blocks_def Let_def)
  show "dt_pool (see_l1_head K n t) = dt_pool t" by (simp add: see_l1_head_def Let_def)
  have h: "dt_pool (report_health K t) = dt_pool t" for t by (simp add: report_health_def Let_def)
  have m: "mode_step K latest t e = (r, t', e') \<Longrightarrow> dt_pool t' = dt_pool t" for r t' e'
    by (auto simp: mode_step_def sync_mode_step_def Let_def split: driver_mode.splits prod.splits sum.splits if_splits)
  have s: "dt_pool (saved_checkpoint t) = dt_pool t" for t by (simp add: saved_checkpoint_def Let_def)
  have l: "handle_l1_reorg K f t e = (r, t', e') \<Longrightarrow> dt_pool t' = dt_pool t" for f
    by (auto simp: handle_l1_reorg_def Let_def after_rewind_def s split: prod.splits sum.splits if_splits)
  show "dispatch K latest t e = (r, t', e') \<Longrightarrow> dt_pool t' = dt_pool t"
    using h m l by (auto simp: dispatch_def split: sum.splits option.splits prod.splits)
qed

lemma step_fills_pool:
  assumes "step K t e = (r, t', e')" "tk_now K - dt_last_l1_call t \<ge> MIN_L1_CALL_INTERVAL"
  shows "dt_pool t' = dt_pool t @ filter (tk_to_pool K) (reinjection t)"
proof -
  let ?t0 = "if reinjection t \<noteq> [] then reinject_pending_transactions K t else t"
  have t0: "dt_pool ?t0 = dt_pool t @ filter (tk_to_pool K) (reinjection t)" by (simp add: reinject_pending_transactions_def)
  obtain x t1 e1 where 1: "take_rewind_target K ?t0 e = (x, t1, e1)" by (rule prod_cases3)
  obtain t2 e2 where 2: "take_anchor_refresh K t1 e1 = (t2, e2)" by fastforce
  have p: "dt_pool t1 = dt_pool ?t0" "dt_pool t2 = dt_pool t1" using pool_kept [OF 1] pool_kept_refresh [of K t1 e1] 2 by simp_all
  have "dt_pool t' = dt_pool t1"
    using assms 1 2 p(2) by (auto simp: step_def Let_def pool_kept_rest(1,2) dest!: pool_kept_rest(3) split: sum.splits option.splits)
  then show ?thesis using p(1) t0 by simp
qed

text \<open>What is collected: every transaction that recovers to a sender other than the builder, in block order.\<close>

lemma recovered_users:
  assumes "from \<le> to" and "tk_block_txs K from to = Some blocks"
  shows "map snd (collect_reverted_user_transactions K from to) =
      filter (\<lambda>tx. tk_recover K tx \<notin> {None, Some (builder_address (w_config (tk_world K)))}) (concat blocks)"
    and "(s, tx) \<in> set (collect_reverted_user_transactions K from to) \<Longrightarrow> tk_recover K tx = Some s"
proof -
  let ?b = "builder_address (w_config (tk_world K))"
  let ?f = "\<lambda>tx. case tk_recover K tx of None \<Rightarrow> None | Some sender \<Rightarrow> if sender = ?b then None else Some (sender, tx)"
  have "map snd (List.map_filter ?f txs) = filter (\<lambda>tx. tk_recover K tx \<notin> {None, Some ?b}) txs" for txs
    by (induction txs) (auto simp: List.map_filter_simps split: option.splits)
  moreover have "(s, tx) \<in> set (List.map_filter ?f txs) \<Longrightarrow> tk_recover K tx = Some s" for txs
    by (auto simp: List.map_filter_def split: option.splits if_splits)
  moreover have "collect_reverted_user_transactions K from to = List.map_filter ?f (concat blocks)"
    using assms by (simp add: collect_reverted_user_transactions_def not_less [symmetric])
  ultimately show "map snd (collect_reverted_user_transactions K from to) =
      filter (\<lambda>tx. tk_recover K tx \<notin> {None, Some ?b}) (concat blocks)"
    and "(s, tx) \<in> set (collect_reverted_user_transactions K from to) \<Longrightarrow> tk_recover K tx = Some s"
    by simp_all
qed

text \<open>
  C18: transactions of rewound blocks come back. When a rewind moves the head to its target and the
  blocks above the target could be read, exactly the transactions of these blocks that recover to a
  sender other than the builder are kept, in block order and each with its sender; the next
  tick that is not rate-limited hands those of them that convert to the pool's form to the
  pool, after the ones that were waiting already.
\<close>

theorem reverted_txs_return_to_pool:
  assumes "take_rewind_target K t e = (Inr (), t1, e1)" "pending_rewind_target (task_driver t) = Some target"
    "target < task_head t" "task_head t1 \<le> target" "tk_block_txs K (target + 1) (task_head t) = Some blocks"
    and "reinjection t2 = reinjection t1" "dt_pool t2 = dt_pool t1"
    "step K' t2 e2 = (r, t3, e3)" "tk_now K' - dt_last_l1_call t2 \<ge> MIN_L1_CALL_INTERVAL"
  shows "\<exists>users. map snd users =
        filter (\<lambda>tx. tk_recover K tx \<notin> {None, Some (builder_address (w_config (tk_world K)))}) (concat blocks) \<and>
      (\<forall>(s, tx) \<in> set users. tk_recover K tx = Some s) \<and>
      dt_pool t3 = dt_pool t @ filter (tk_to_pool K') (reinjection t @ users)"
proof -
  have "target + 1 \<le> task_head t" using assms(3) by (rule inc_le)
  note users = recovered_users [OF this assms(5)]
  have "dt_pool t3 = dt_pool t @ filter (tk_to_pool K')
      (reinjection t @ collect_reverted_user_transactions K (target + 1) (task_head t))"
    using rewind_collects [OF assms(1-4)] step_fills_pool [OF assms(8,9)] assms(6,7) by simp
  with users show ?thesis by blast
qed

section \<open>L1 reorgs\<close>

lemma saved_checkpoint_fields [simp]:
  "derivation (task_driver (saved_checkpoint t)) = derivation (task_driver t)"
  "drv_mode (task_driver (saved_checkpoint t)) = drv_mode (task_driver t)"
  "synced (task_driver (saved_checkpoint t)) = synced (task_driver t)"
  "drv_head (task_driver (saved_checkpoint t)) = drv_head (task_driver t)"
  "pending_rewind_target (task_driver (saved_checkpoint t)) = pending_rewind_target (task_driver t)"
  "reinjection (saved_checkpoint t) = reinjection t" "bl_nonce (dt_builder (saved_checkpoint t)) = bl_nonce (dt_builder t)"
  "nd_stages (bl_node (dt_builder (saved_checkpoint t))) =
     save_checkpoint (derivation (task_driver t)) (nd_stages (bl_node (dt_builder t)))"
  by (simp_all add: saved_checkpoint_def Let_def drv_def reinjection_def)

lemma task_heads [simp]: "task_head (upd_task f t) = l2_head_number (drv_head (f (task_driver t)))"
  "task_head (set_reinjection txs t) = task_head t" "task_head (recover_builder_l2_nonce K t) = task_head t"
  "task_head (saved_checkpoint t) = task_head t"
  by (simp_all add: task_head_def)

text \<open>
  C20: when the rewind after an L1 reorg fails, the reorg is forgotten. The derivation is rolled
  back and saved first, so the next check finds no reorg; no rewind is queued, the driver stays in
  its mode on the blocks of the old fork, and their transactions are not kept.
\<close>

theorem failed_reorg_rewind_is_forgotten:
  assumes "detect_reorg (w_l1_node (tk_world K)) (derivation (task_driver t)) = Inr (Some fork)"
    "dispatch K latest t e = (Inl (Tick_Engine err), t', e')"
    and "node_answers (w_l1_node (tk_world K)) (cursor (derivation (task_driver t)))" "l1_ordered (derivation (task_driver t))"
  shows "detect_reorg (w_l1_node (tk_world K)) (derivation (task_driver t')) = Inr None \<and>
    pending_rewind_target (task_driver t') = pending_rewind_target (task_driver t) \<and>
    drv_mode (task_driver t') = drv_mode (task_driver t) \<and> synced (task_driver t') = synced (task_driver t) \<and>
    nd_stages (bl_node (dt_builder t')) L1_DERIVATION_STAGE = Some fork \<and> reinjection t' = reinjection t"
proof -
  obtain l p where rb: "rollback_to fork (derivation (task_driver t)) = (l, p)" by fastforce
  have p: "detect_reorg (w_l1_node (tk_world K)) p = Inr None" "last_processed_l1_block p = fork"
    using rollback_resolves [OF assms(3,4,1)] rb by (auto simp: rollback_to_def Let_def)
  have run: "handle_l1_reorg K fork t e = (Inl (Tick_Engine err), t', e')" using assms(1,2) by (simp add: dispatch_def)
  then show ?thesis using p rb
    by (auto simp: handle_l1_reorg_def Let_def save_checkpoint_def
        clear_internal_state_def clear_recovery_state_def split: prod.splits sum.splits if_splits)
qed

text \<open>A successful rewind of a reorg leaves the builder's nonce where it was.\<close>

lemma reorg_keeps_nonce:
  "handle_l1_reorg K fork t e = (Inr (), t', e') \<Longrightarrow> bl_nonce (dt_builder t') = bl_nonce (dt_builder t)"
  by (auto simp: handle_l1_reorg_def Let_def after_rewind_def split: prod.splits sum.splits if_splits)

section \<open>A small task\<close>

definition task_env :: "(nat, 8 word, unit, unit) tick_env" where
  "task_env = \<lparr>tk_world = tick_world, tk_builder_mode = True, tk_has_fallback = True, tk_has_proposer = True,
     tk_switch_ok = True, tk_now = 1000, tk_db = (\<lambda>_. Inr None), tk_tip = 0, tk_block_txs = (\<lambda>_ _. Some [[7], [9, 8]]),
     tk_recover = (\<lambda>tx. if tx = 9 then Some 5 else Some (ucast tx)), tk_to_pool = (\<lambda>(s, tx). tx \<noteq> 8), tk_account = (\<lambda>_. Inr (Some 3)),
     tk_parent_hash = (\<lambda>_. Some 2), tk_l1_head = Some 12, tk_anchor_l1 = None, tk_sync_build = (\<lambda>_ _. None)\<rparr>"

definition toy_task :: "8 word driver_task" where
  "toy_task = \<lparr>dt_builder = upd_derivation (\<lambda>_. reorged_pipeline) tick_builder, dt_using_fallback = False, dt_counter = 0,
     dt_proposer_on_fallback = False, dt_last_l1_call = 0, dt_last_new_l1_block = 0, dt_ws = [], dt_messages = [], dt_pool = [],
     dt_prev_head = 4, dt_last_advance = 0, dt_health = None\<rparr>"

lemma toy_task_fields [simp]:
  "dt_counter toy_task = 0" "dt_using_fallback toy_task = False" "task_head toy_task = 4" "reinjection toy_task = []"
  "l2_head_number (drv_head (task_driver toy_task)) = 4" "dt_pool toy_task = []" "dt_last_l1_call toy_task = 0" "derivation (task_driver toy_task) = reorged_pipeline"
  "tk_world task_env = tick_world" "w_l1_node tick_world = toy_node []" "w_config tick_world = toy_builder"
  "w_engine tick_world = noop_engine" "w_db_ok tick_world" "builder_address toy_builder = 5"
  by (simp_all add: toy_task_def task_head_def reinjection_def tick_builder_def upd_derivation_def drv_def set_drv_def task_env_def
      tick_world_def toy_builder_def)

theorem provider_follows_streaks_witness:
  "dt_using_fallback (record_all True True ([True, False] @ [False, False, False]) toy_task) \<and>
    \<not> dt_using_fallback (record_all True True ([True, False] @ [True, True, True]) toy_task)"
  using provider_follows_streaks [of toy_task True True "[True, False]" True False]
    provider_follows_streaks [of toy_task True True "[True, False]" True True] by simp

theorem failed_refresh_keeps_all_but_nonce_witness:
  "\<exists>n. take_anchor_refresh task_env (upd_task (\<lambda>d. d\<lparr>pending_anchor_refresh := Some 4\<rparr>) toy_task) () =
     (with_nonce n (upd_task (\<lambda>d. d\<lparr>pending_anchor_refresh := Some 4\<rparr>) toy_task), ())"
  by (rule failed_refresh_keeps_all_but_nonce [where target = 4 and err = Tick_L1
        and t' = "with_nonce 3 (upd_task (\<lambda>d. d\<lparr>pending_anchor_refresh := None\<rparr>) toy_task)"])
     (simp_all add: rebuild_with_fresh_l1_context_def nonce_at_parent_def task_env_def tick_world_def)

theorem reverted_txs_return_to_pool_witness:
  "\<exists>t1 t3. take_rewind_target (task_env\<lparr>tk_db := \<lambda>n. Inr (Some (ucast n))\<rparr>)
        (upd_task (\<lambda>d. d\<lparr>pending_rewind_target := Some 2\<rparr>) toy_task) () = (Inr (), t1, ()) \<and>
     step task_env t1 () = (fst (step task_env t1 ()), t3, ()) \<and> dt_pool t3 = [(7, 7)]"
proof -
  let ?K = "task_env\<lparr>tk_db := \<lambda>n. Inr (Some (ucast n))\<rparr>" and ?t = "upd_task (\<lambda>d. d\<lparr>pending_rewind_target := Some 2\<rparr>) toy_task"
  have "\<exists>h. rewind_l2_chain noop_engine (\<lambda>n. Inr (Some (ucast n))) 0 2 h0 () = (Inr (), h, ()) \<and> l2_head_number h = 2" for h0
    by (simp add: rewind_l2_chain_def required_hash_def noop_engine_accepts Let_def)
  then obtain h where h: "rewind_l2_chain noop_engine (\<lambda>n. Inr (Some (ucast n))) 0 2 (drv_head (task_driver toy_task)) () = (Inr (), h, ())"
      "l2_head_number h = 2" by blast
  have k: "tk_db ?K = (\<lambda>n. Inr (Some (ucast n)))" "tk_tip ?K = 0" "tk_world ?K = tick_world" by (simp_all add: task_env_def)
  define t1 where "t1 = fst (snd (take_rewind_target ?K ?t ()))"
  have 1: "take_rewind_target ?K ?t () = (Inr (), t1, ())" "task_head t1 \<le> 2" "dt_last_l1_call t1 = 0"
    unfolding t1_def by (simp_all add: take_rewind_target_def consume_rewind_target_def Let_def after_rewind_def k h)
  obtain r t3 e where 3: "step task_env t1 () = (r, t3, e)" by (rule prod_cases3)
  have "\<exists>users. map snd users = filter (\<lambda>tx. tk_recover ?K tx \<notin> {None, Some (builder_address (w_config (tk_world ?K)))})
        (concat [[7], [9, 8]]) \<and> (\<forall>(s, tx) \<in> set users. tk_recover ?K tx = Some s) \<and>
      dt_pool t3 = dt_pool ?t @ filter (tk_to_pool task_env) (reinjection ?t @ users)"
    by (rule reverted_txs_return_to_pool [OF 1(1) _ _ 1(2) _ refl refl 3])
      (simp_all add: 1 task_env_def MIN_L1_CALL_INTERVAL_def)
  then obtain users where "map snd users = [7, 8]" "\<forall>(s, tx) \<in> set users. tk_recover ?K tx = Some s"
    "dt_pool t3 = filter (tk_to_pool task_env) users"
    by (auto simp: k, simp add: task_env_def)
  then have "dt_pool t3 = [(7, 7)]"
    by (auto simp: map_eq_Cons_conv task_env_def)
  then show ?thesis using 1(1) 3 by auto
qed

theorem failed_reorg_rewind_is_forgotten_witness:
  "\<exists>t'. dispatch task_env 12 toy_task () = (Inl (Tick_Engine Missing_Block_Hash), t', ()) \<and>
    detect_reorg (toy_node []) (derivation (task_driver t')) = Inr None \<and> reinjection t' = []"
proof -
  have d: "detect_reorg (toy_node []) reorged_pipeline = Inr (Some 10)" by (simp add: reorg_simps)
  obtain l p where rb: "rollback_to 10 reorged_pipeline = (l, p)" by fastforce
  then have "l = Some 1" by (auto simp: rollback_to_def Let_def reorged_pipeline_def last_option_def)
  then obtain t' where t': "dispatch task_env 12 toy_task () = (Inl (Tick_Engine Missing_Block_Hash), t', ())"
    using d rb by (atomize_elim, simp add: dispatch_def handle_l1_reorg_def Let_def rewind_l2_chain_def required_hash_def task_env_def)
  show ?thesis
    using failed_reorg_rewind_is_forgotten [of task_env toy_task 10 12 "()" Missing_Block_Hash t' "()"] d t'
    by (simp add: reorg_simps l1_ordered_def)
qed

end
