(* ===== verification/Hex_Codec.thy ===== *)
theory Hex_Codec
  imports Prelude
begin

text \<open>
  The hexadecimal codec of the L1 composer (\<open>hex_decode\<close> and the module \<open>hex\<close> of
  \<open>composer_rpc/l1_to_l2/mod.rs\<close>). A string is its UTF-8 bytes; slicing it inside a character
  panics, which is \<open>None\<close>.
\<close>

section \<open>Encoding\<close>

definition HEX_CHARS :: string where
  "HEX_CHARS = ''0123456789abcdef''"

definition hex_encode :: "bytes \<Rightarrow> string" where
  "hex_encode bs = concat (map (\<lambda>b. [HEX_CHARS ! (unat b div 16), HEX_CHARS ! (unat b mod 16)]) bs)"

section \<open>Decoding\<close>

definition hex_digit :: "char \<Rightarrow> nat option" where
  "hex_digit c = (let n = of_char c :: nat in
     if 48 \<le> n \<and> n \<le> 57 then Some (n - 48)
     else if 97 \<le> n \<and> n \<le> 102 then Some (n - 87)
     else if 65 \<le> n \<and> n \<le> 70 then Some (n - 55)
     else None)"

text \<open>\<open>u8::from_str_radix\<close> of two bytes; a leading plus sign is allowed.\<close>

definition from_str_radix_16 :: "char \<Rightarrow> char \<Rightarrow> u8 option" where
  "from_str_radix_16 a b =
     (if a = CHR ''+'' then map_option of_nat (hex_digit b)
      else case (hex_digit a, hex_digit b) of (Some x, Some y) \<Rightarrow> Some (of_nat (16 * x + y)) | _ \<Rightarrow> None)"

definition inside_char :: "char \<Rightarrow> bool" where
  "inside_char c \<longleftrightarrow> (let n = of_char c :: nat in 128 \<le> n \<and> n < 192)"

text \<open>\<open>hex[i..i + 2]\<close> for every even \<open>i\<close>; the string has even length.\<close>

fun hex_pairs :: "string \<Rightarrow> bytes option option" where
  "hex_pairs (a # b # rest) =
     (if rest \<noteq> [] \<and> inside_char (hd rest) then None
      else case from_str_radix_16 a b of
          None \<Rightarrow> Some None
        | Some byte \<Rightarrow> map_option (map_option (\<lambda>bs. byte # bs)) (hex_pairs rest))"
| "hex_pairs _ = Some (Some [])"

definition hex_decode :: "string \<Rightarrow> bytes option option" where
  "hex_decode hex = (if odd (length hex) then Some None else hex_pairs hex)"

section \<open>Properties\<close>

lemma hex_chars_digit: "n < 16 \<Longrightarrow> hex_digit (HEX_CHARS ! n) = Some n"
proof -
  assume "n < 16"
  then have "n \<in> set [0..<16]" by simp
  moreover have "list_all (\<lambda>n. hex_digit (HEX_CHARS ! n) = Some n) [0..<16]" by code_simp
  ultimately show ?thesis by (simp add: list_all_iff)
qed

lemma hex_chars_ascii: "n < 16 \<Longrightarrow> HEX_CHARS ! n \<noteq> CHR ''+'' \<and> \<not> inside_char (HEX_CHARS ! n)"
proof -
  assume "n < 16"
  then have "n \<in> set [0..<16]" by simp
  moreover have "list_all (\<lambda>n. HEX_CHARS ! n \<noteq> CHR ''+'' \<and> \<not> inside_char (HEX_CHARS ! n)) [0..<16]" by code_simp
  ultimately show ?thesis by (simp add: list_all_iff)
qed

lemma hex_encode_simps [simp]:
  "hex_encode [] = []"
  "hex_encode (b # bs) = HEX_CHARS ! (unat b div 16) # HEX_CHARS ! (unat b mod 16) # hex_encode bs"
  by (simp_all add: hex_encode_def)

lemma nibbles [simp]: "unat (b :: u8) div 16 < 16" "unat (b :: u8) mod 16 < 16"
proof -
  have "unat b < 2 ^ LENGTH(8)" by (rule unsigned_less)
  then show "unat b div 16 < 16" by (simp add: less_mult_imp_div_less)
qed simp

lemma hex_encode_even [simp]: "even (length (hex_encode bs))"
  by (induction bs) simp_all

lemma hex_encode_head: "hex_encode bs \<noteq> [] \<Longrightarrow> \<not> inside_char (hd (hex_encode bs))"
  by (cases bs) (simp_all add: hex_chars_ascii)

lemma hex_encode_pairs: "hex_pairs (hex_encode bs) = Some (Some bs)"
proof (induction bs)
  case (Cons b bs)
  have "from_str_radix_16 (HEX_CHARS ! (unat b div 16)) (HEX_CHARS ! (unat b mod 16)) = Some b"
    by (simp add: from_str_radix_16_def hex_chars_digit hex_chars_ascii flip: div_mult_mod_eq)
  then show ?case using Cons.IH hex_encode_head [of bs] by auto
qed simp

text \<open>What the composer encodes it decodes.\<close>

theorem hex_round_trip: "hex_decode (hex_encode bs) = Some (Some bs)"
  by (simp add: hex_decode_def hex_encode_pairs)

text \<open>ASCII text never panics.\<close>

lemma hex_pairs_ascii: "list_all (\<lambda>c. of_char c < (128 :: nat)) hex \<Longrightarrow> hex_pairs hex \<noteq> None"
  by (induction hex rule: hex_pairs.induct)
    (auto simp: inside_char_def Let_def neq_Nil_conv split: option.split)

theorem ascii_hex_returns: "list_all (\<lambda>c. of_char c < (128 :: nat)) hex \<Longrightarrow> hex_decode hex \<noteq> None"
  using hex_pairs_ascii by (simp add: hex_decode_def)

text \<open>A letter, a two-byte character and another letter: an even number of bytes, and a panic.\<close>

lemma hex_decode_panics: "hex_decode [CHR ''a'', CHR 0xC3, CHR 0xA9, CHR ''b''] = None"
  by code_simp

text \<open>The decoder is not injective: a plus sign reads as a zero digit.\<close>

lemma hex_decode_plus: "hex_decode ''+f'' = Some (Some [15])" "hex_decode ''0f'' = Some (Some [15])"
  by code_simp+

end
