(* ===== verification/Json_Traces.thy ===== *)
theory Json_Traces
  imports Directions Hex_Codec
begin

text \<open>
  Reading a \<open>callTracer\<close> trace as JSON (\<open>composer_rpc/l1_to_l2/process.rs\<close>): what the destination
  of a call returned and whether it succeeded. Objects have unique keys, so a list of pairs
  stands for them. 
\<close>

section \<open>JSON values\<close>

datatype json =
    JNull
  | JBool bool
  | JNumber int
  | JText string
  | JList "json list"
  | JObject "(string \<times> json) list"

fun json_field :: "string \<Rightarrow> json \<Rightarrow> json option" where
  "json_field k (JObject kvs) = map_of kvs k"
| "json_field k _ = None"

fun json_elems :: "json \<Rightarrow> json list option" where
  "json_elems (JList js) = Some js"
| "json_elems _ = None"

fun json_text :: "json \<Rightarrow> string option" where
  "json_text (JText s) = Some s"
| "json_text _ = None"

definition json_item :: "nat \<Rightarrow> json \<Rightarrow> json option" where
  "json_item i j = (case json_elems j of None \<Rightarrow> None | Some js \<Rightarrow> if i < length js then Some (js ! i) else None)"

definition text_field :: "string \<Rightarrow> json \<Rightarrow> string option" where
  "text_field k j = Option.bind (json_field k j) json_text"

definition no_error :: "json \<Rightarrow> bool" where
  "no_error n \<longleftrightarrow> json_field ''error'' n = None"

definition sub_calls :: "json \<Rightarrow> json list" where
  "sub_calls n = or_default [] (Option.bind (json_field ''calls'' n) json_elems)"

lemma map_of_size: "map_of kvs k = Some v \<Longrightarrow> size v \<le> size_list (size_prod (\<lambda>_. 0) size) kvs"
  by (induction kvs) (auto split: if_splits)

lemma sub_calls_size [simp]: "size_list size (sub_calls n) \<le> size n"
proof (cases "json_field ''calls'' n")
  case (Some v)
  then obtain kvs where "n = JObject kvs" "map_of kvs ''calls'' = Some v" by (cases n) auto
  then have "size v < size n" by (auto dest: map_of_size)
  then show ?thesis using Some by (cases v) (auto simp: sub_calls_def or_default_def)
qed (simp add: sub_calls_def or_default_def)

lemma sub_call_size: "c \<in> set (sub_calls n) \<Longrightarrow> size c < size n"
  using sub_calls_size [of n] by (induction "sub_calls n") (auto dest: split_list simp del: sub_calls_size)

section \<open>Typed nodes\<close>

text \<open>
  The derived \<open>Deserialize\<close> of \<open>CallTraceNode\<close>: an object whose fields may be missing or null but
  have no other type; fields it does not know are ignored.
\<close>

definition typed_text :: "string \<Rightarrow> json \<Rightarrow> string option option" where
  "typed_text k j = (case json_field k j of
     None \<Rightarrow> Some None | Some v \<Rightarrow> (case v of JNull \<Rightarrow> Some None | JText s \<Rightarrow> Some (Some s) | _ \<Rightarrow> None))"

definition typed_calls :: "json \<Rightarrow> json list option option" where
  "typed_calls j = (case json_field ''calls'' j of
     None \<Rightarrow> Some None | Some v \<Rightarrow> (case v of JNull \<Rightarrow> Some None | JList cs \<Rightarrow> Some (Some cs) | _ \<Rightarrow> None))"

fun is_object :: "json \<Rightarrow> bool" where
  "is_object (JObject kvs) = True"
| "is_object _ = False"

definition typed_node :: "json \<Rightarrow> call_trace_node list option \<Rightarrow> call_trace_node option" where
  "typed_node j calls =
     (if \<not> is_object j then None
      else case map (\<lambda>k. typed_text k j) [''to'', ''from'', ''input'', ''value'', ''output'', ''error'', ''revertReason''] of
        [Some to, Some sender, Some input, Some v, Some output, Some err, Some reason] \<Rightarrow>
          Some (Call_Trace_Node to sender input v output err reason calls)
      | _ \<Rightarrow> None)"

lemma typed_call_size: "typed_calls j = Some (Some cs) \<Longrightarrow> c \<in> set cs \<Longrightarrow> size c < size j"
  using sub_call_size [of c j] by (auto simp: typed_calls_def sub_calls_def or_default_def split: option.splits json.splits)

function node_of_json :: "json \<Rightarrow> call_trace_node option" where
  "node_of_json j = (case typed_calls j of
     None \<Rightarrow> None
   | Some None \<Rightarrow> typed_node j None
   | Some (Some cs) \<Rightarrow> Option.bind (those (map node_of_json cs)) (\<lambda>ns. typed_node j (Some ns)))"
  by pat_completeness auto
termination
  by (relation "measure size") (auto intro: typed_call_size)

declare node_of_json.simps [simp del]

definition json_ops :: "json json_api" where
  "json_ops = \<lparr>json_get = json_field, json_index = json_item, json_array = json_elems, json_str = json_text, try_parse = node_of_json\<rparr>"

text \<open>A null error is an error to the readers of raw JSON and none to the typed node.\<close>

lemma null_error_read_differently:
  "no_error (JObject [(''error'', JNull)]) = False" "map_option has_error (node_of_json (JObject [(''error'', JNull)])) = Some False"
  by code_simp+

section \<open>Addresses and hex text\<close>

definition ascii_lower :: "char \<Rightarrow> char" where
  "ascii_lower c = (let n = of_char c :: nat in if 65 \<le> n \<and> n \<le> 90 then char_of (n + 32) else c)"

definition to_lowercase :: "string \<Rightarrow> string" where
  "to_lowercase s = map ascii_lower s"

definition lower_address :: "formats \<Rightarrow> address \<Rightarrow> string" where
  "lower_address F a = to_lowercase (show_address F a)"

definition calls_to :: "string \<Rightarrow> json \<Rightarrow> bool" where
  "calls_to target n \<longleftrightarrow> (case text_field ''to'' n of None \<Rightarrow> False | Some to \<Rightarrow> to_lowercase to = target)"

text \<open>The decoder on text from a node, which is ASCII.\<close>

definition hex_text :: "string \<Rightarrow> bytes option" where
  "hex_text s = (case hex_decode s of None \<Rightarrow> None | Some decoded \<Rightarrow> decoded)"

text \<open>The output of a node, \<open>0x\<close> when it has none, empty when it is not hex.\<close>

definition output_of :: "json \<Rightarrow> bytes" where
  "output_of n = or_default [] (hex_text (strip_0x (or_default ''0x'' (text_field ''output'' n))))"

definition extract_return_data_from_trace :: "json \<Rightarrow> bytes" where
  "extract_return_data_from_trace trace =
     or_default [] (Option.bind (text_field ''output'' trace) (\<lambda>s. hex_text (strip_0x s)))"

section \<open>The three searches\<close>

function dfs_call :: "string \<Rightarrow> json \<Rightarrow> bool option" and dfs_calls :: "string \<Rightarrow> json list \<Rightarrow> bool option" where
  "dfs_call target n = (if calls_to target n then Some (no_error n) else dfs_calls target (sub_calls n))"
| "dfs_calls target [] = None"
| "dfs_calls target (c # cs) = (case dfs_call target c of Some r \<Rightarrow> Some r | None \<Rightarrow> dfs_calls target cs)"
  by pat_completeness auto
termination
  by (relation "measure (case_sum (\<lambda>(_, n). 2 * size n + 1) (\<lambda>(_, cs). 2 * size_list size cs))")
    (auto simp: less_Suc_eq_le)

definition destination_call_succeeded_in_trace :: "formats \<Rightarrow> json \<Rightarrow> address \<Rightarrow> bool" where
  "destination_call_succeeded_in_trace F trace dest = or_default False (dfs_call (lower_address F dest) trace)"

function bfs_output :: "string \<Rightarrow> json list \<Rightarrow> bytes option" where
  "bfs_output target [] = None"
| "bfs_output target (n # queue) =
     (if calls_to target n \<and> no_error n then Some (output_of n)
      else bfs_output target (queue @ sub_calls n))"
  by pat_completeness auto
termination
  by (relation "measure (\<lambda>(_, queue). size_list size queue)") (auto simp: less_Suc_eq_le size_list_append)

definition extract_inner_destination_return_data ::
    "formats \<Rightarrow> json \<Rightarrow> address \<Rightarrow> bytes option" where
  "extract_inner_destination_return_data F trace dest = bfs_output (lower_address F dest) (sub_calls trace)"

definition input_matches :: "string option \<Rightarrow> json \<Rightarrow> bool" where
  "input_matches calldata n \<longleftrightarrow> (case calldata of None \<Rightarrow> True
     | Some cd \<Rightarrow> take (length cd) (to_lowercase (or_default ''0x'' (text_field ''input'' n))) = cd)"

function find_delivery_output :: "string \<Rightarrow> string option \<Rightarrow> json list \<Rightarrow> bytes option" where
  "find_delivery_output target calldata [] = None"
| "find_delivery_output target calldata (c # cs) =
     (if calls_to target c \<and> no_error c \<and> input_matches calldata c then Some (output_of c)
      else (case find_delivery_output target calldata (sub_calls c) of
          Some r \<Rightarrow> Some r | None \<Rightarrow> find_delivery_output target calldata cs))"
  by pat_completeness auto
termination
  by (relation "measure (\<lambda>(_, _, cs). size_list size cs)") (auto simp: less_Suc_eq_le trans_le_add1)

definition extract_delivery_return_from_l1_trace_with_calldata ::
    "formats \<Rightarrow> json \<Rightarrow> address \<Rightarrow> bytes option \<Rightarrow> bytes" where
  "extract_delivery_return_from_l1_trace_with_calldata F trace dest calldata =
     or_default [] (find_delivery_output (lower_address F dest)
       (map_option (\<lambda>cd. to_lowercase (''0x'' @ hex_encode cd)) calldata) (sub_calls trace))"

section \<open>The searches by the shape of the trace\<close>

text \<open>The calls of a forest in the order in which they were made, and the calls at a depth.\<close>

function call_order :: "json list \<Rightarrow> json list" where
  "call_order [] = []"
| "call_order (c # cs) = c # call_order (sub_calls c) @ call_order cs"
  by pat_completeness auto
termination
  by (relation "measure (size_list size)") (auto simp: less_Suc_eq_le trans_le_add1)

fun at_depth :: "nat \<Rightarrow> json list \<Rightarrow> json list" where
  "at_depth 0 cs = cs"
| "at_depth (Suc k) cs = at_depth k (concat (map sub_calls cs))"

lemma find_append: "find P (xs @ ys) = (case find P xs of None \<Rightarrow> find P ys | Some x \<Rightarrow> Some x)"
  by (induction xs) auto

lemma dfs_is_find:
  "dfs_call target n = map_option no_error (find (calls_to target) (n # call_order (sub_calls n)))"
  "dfs_calls target cs = map_option no_error (find (calls_to target) (call_order cs))"
  by (induction target n and target cs rule: dfs_call_dfs_calls.induct) (auto simp: find_append split: option.splits)

lemma delivery_is_find:
  "find_delivery_output target calldata cs =
     map_option (output_of) (find (\<lambda>c. calls_to target c \<and> no_error c \<and> input_matches calldata c) (call_order cs))"
  by (induction target calldata cs rule: find_delivery_output.induct) (auto simp: find_append split: option.splits)

text \<open>The queue holds the rest of a level and the calls below the visited part.\<close>

lemma bfs_found:
  "find (\<lambda>c. calls_to target c \<and> no_error c) xs = Some m \<Longrightarrow> bfs_output target (xs @ ys) = Some (output_of m)"
  by (induction xs arbitrary: ys) (auto split: if_splits)

lemma bfs_level:
  "find (\<lambda>c. calls_to target c \<and> no_error c) xs = None \<Longrightarrow>
   bfs_output target (xs @ ys) = bfs_output target (ys @ concat (map sub_calls xs))"
  by (induction xs arbitrary: ys) (auto split: if_splits)

lemma level_le: "size_list size (concat (map sub_calls cs)) \<le> size_list size cs"
  by (induction cs) (auto simp: size_list_append intro!: le_SucI add_le_mono)

lemma level_smaller: "cs \<noteq> [] \<Longrightarrow> size_list size (concat (map sub_calls cs)) < size_list size cs"
  by (cases cs) (auto simp: size_list_append less_Suc_eq_le intro: add_le_mono level_le)

lemma bfs_shallowest:
  "(case bfs_output target cs of
      None \<Rightarrow> \<forall>k. find (\<lambda>c. calls_to target c \<and> no_error c) (at_depth k cs) = None
    | Some d \<Rightarrow> \<exists>k m. find (\<lambda>c. calls_to target c \<and> no_error c) (at_depth k cs) = Some m \<and> d = output_of m \<and>
        (\<forall>j < k. find (\<lambda>c. calls_to target c \<and> no_error c) (at_depth j cs) = None))"
proof (induction cs rule: measure_induct_rule [where f = "size_list size"])
  case (less cs)
  let ?P = "\<lambda>c. calls_to target c \<and> no_error c"
  let ?next = "concat (map sub_calls cs)"
  show ?case
  proof (cases "find ?P cs")
    case (Some m)
    then show ?thesis using bfs_found [OF Some, of "[]"] by (auto intro!: exI [of _ 0])
  next
    case None
    show ?thesis
    proof (cases "cs = []")
      case True
      have "at_depth k [] = []" for k by (induction k) auto
      then show ?thesis using True by simp
    next
      case False
      have step: "bfs_output target cs = bfs_output target ?next" using bfs_level [OF None, of "[]"] by simp
      show ?thesis
      proof (cases "bfs_output target ?next")
        case none: None
        then have "\<forall>k. find ?P (at_depth k ?next) = None" using less.IH [OF level_smaller [OF False]] by simp
        then have "find ?P (at_depth k cs) = None" for k using None by (cases k) auto
        then show ?thesis using step none by simp
      next
        case (Some d)
        then obtain k m where "find ?P (at_depth k ?next) = Some m" "d = output_of m" "\<forall>j < k. find ?P (at_depth j ?next) = None"
          using less.IH [OF level_smaller [OF False]] by auto
        then have found: "find ?P (at_depth (Suc k) cs) = Some m \<and> d = output_of m \<and> (\<forall>j < Suc k. find ?P (at_depth j cs) = None)"
          using None by (auto simp: less_Suc_eq_0_disj)
        have "\<exists>k m. find ?P (at_depth k cs) = Some m \<and> d = output_of m \<and> (\<forall>j < k. find ?P (at_depth j cs) = None)"
            by (intro exI) (rule found)
          then show ?thesis using step Some by simp
      qed
    qed
  qed
qed

lemma in_levels: "c \<in> set (call_order cs) \<longleftrightarrow> (\<exists>k. c \<in> set (at_depth k cs))"
proof (induction cs rule: call_order.induct)
  case 1
  have "at_depth k [] = []" for k by (induction k) auto
  then show ?case by simp
next
  case (2 d cs)
  have split: "at_depth k (xs @ ys) = at_depth k xs @ at_depth k ys" for k and xs ys :: "json list"
    by (induction k arbitrary: xs ys) auto
  have "(\<exists>k. c \<in> set (at_depth k [d])) \<longleftrightarrow> c = d \<or> (\<exists>k. c \<in> set (at_depth k (sub_calls d)))"
  proof
    assume "\<exists>k. c \<in> set (at_depth k [d])"
    then obtain k where "c \<in> set (at_depth k [d])" ..
    then show "c = d \<or> (\<exists>k. c \<in> set (at_depth k (sub_calls d)))" by (cases k) auto
  next
    assume "c = d \<or> (\<exists>k. c \<in> set (at_depth k (sub_calls d)))"
    then show "\<exists>k. c \<in> set (at_depth k [d])"
    proof
      assume "c = d"
      then show ?thesis by (intro exI [of _ 0]) simp
    next
      assume "\<exists>k. c \<in> set (at_depth k (sub_calls d))"
      then obtain k where "c \<in> set (at_depth k (sub_calls d))" ..
      then show ?thesis by (intro exI [of _ "Suc k"]) simp
    qed
  qed
  then show ?case using 2 split [of _ "[d]" cs] by auto
qed

text \<open>
  A call to the destination that succeeded is found by both searches when no call to it failed.
\<close>

lemma searches_agree:
  assumes "\<not> calls_to (lower_address F dest) trace"
    "\<And>c. c \<in> set (call_order (sub_calls trace)) \<Longrightarrow> calls_to (lower_address F dest) c \<Longrightarrow> no_error c"
  shows "destination_call_succeeded_in_trace F trace dest \<longleftrightarrow> extract_inner_destination_return_data F trace dest \<noteq> None"
proof -
  let ?t = "lower_address F dest" and ?cs = "sub_calls trace"
  have "destination_call_succeeded_in_trace F trace dest \<longleftrightarrow> (\<exists>c \<in> set (call_order ?cs). calls_to ?t c)"
    using assms by (auto simp: destination_call_succeeded_in_trace_def dfs_is_find or_default_def find_None_iff find_Some_iff
        split: option.split dest!: nth_mem)
  also have "\<dots> \<longleftrightarrow> (\<exists>k. find (\<lambda>c. calls_to ?t c \<and> no_error c) (at_depth k ?cs) \<noteq> None)"
  proof -
    have "calls_to ?t c \<Longrightarrow> c \<in> set (at_depth k ?cs) \<Longrightarrow> no_error c" for c k using assms(2) [of c] by (auto simp: in_levels)
    then show ?thesis unfolding find_None_iff not_not by (metis in_levels)
  qed
  also have "\<dots> \<longleftrightarrow> extract_inner_destination_return_data F trace dest \<noteq> None"
    using bfs_shallowest [of ?t ?cs] by (auto simp: extract_inner_destination_return_data_def split: option.splits)
  finally show ?thesis .
qed

end
