(* ===== verification/L2_Simulation.thy ===== *)
theory L2_Simulation
  imports Json_Traces
begin

text \<open>
  Simulating an L1-to-L2 call on L2 (\<open>composer_rpc/l1_to_l2/simulation.rs\<close> and
  \<open>walk_l2_simulation_trace\<close> of \<open>process.rs\<close>): the bundles, the retries with a loaded table and
  the call that runs after its predecessors. The node is a parameter; requests are numbered
  and may be answered differently each time. A panic is \<open>None\<close>.
\<close>

section \<open>The walk of a simulation trace\<close>

record discovered_proxy_call =
  pc_original_address :: address
  pc_original_rollup_id :: u64
  pc_source_address :: address
  pc_data :: bytes
  pc_value :: u256
  pc_reverted :: bool

text \<open>
  \<open>l2_traces\<close> answers \<open>debug_traceCallMany\<close>, \<open>system_address\<close> the view call of that name.
  \<open>hash_order\<close> is the order in which a \<open>HashMap\<close> or \<open>HashSet\<close> with these keys is visited.
\<close>

record sim_env =
  sim_abi :: abi
  sim_encoders :: tx_encoders
  sim_formats :: formats
  sim_hex :: "string \<Rightarrow> bytes option"
  sim_walker :: "nat \<Rightarrow> trace_env"
  hash_order :: "address set \<Rightarrow> address list"
  authorized_proxies_calldata :: "address \<Rightarrow> string"
  system_address :: "nat \<Rightarrow> json json_rpc_response option"
  l2_traces :: "nat \<Rightarrow> trace_bundle \<Rightarrow> json json_rpc_response option"

fun find_map :: "('a \<Rightarrow> 'b option) \<Rightarrow> 'a list \<Rightarrow> 'b option" where
  "find_map f [] = None"
| "find_map f (x # xs) = (case f x of Some y \<Rightarrow> Some y | None \<Rightarrow> find_map f xs)"

definition walker_for :: "sim_env \<Rightarrow> nat \<Rightarrow> address \<Rightarrow> trace_env" where
  "walker_for S n ccm = (sim_walker S n)\<lparr>manager_addresses := [ccm]\<rparr>"

definition identity_of :: "address \<Rightarrow> proxy_info option \<Rightarrow> proxy_info option" where
  "identity_of dest x = (case x of None \<Rightarrow> None | Some info \<Rightarrow> if original_address info = dest then Some info else None)"

definition recovered_identity :: "sim_env \<Rightarrow> walk_state \<Rightarrow> address \<Rightarrow> proxy_info option" where
  "recovered_identity S s dest =
     (case find_map (\<lambda>a. Option.bind (proxy_cache s a) (identity_of dest)) (hash_order S (dom (proxy_cache s))) of
        Some info \<Rightarrow> Some info
      | None \<Rightarrow> find_map (\<lambda>a. identity_of dest (ephemeral_proxies s a)) (hash_order S (dom (ephemeral_proxies s))))"

definition proxy_call_of :: "sim_env \<Rightarrow> json \<Rightarrow> u64 \<Rightarrow> walk_state \<Rightarrow> traced_call \<Rightarrow> discovered_proxy_call option" where
  "proxy_call_of S trace rid s c =
     (case recovered_identity S s (tc_destination c) of
        None \<Rightarrow> None
      | Some info \<Rightarrow>
          if original_rollup_id info \<noteq> rid then
            Some \<lparr>pc_original_address = tc_destination c, pc_original_rollup_id = original_rollup_id info,
              pc_source_address = tc_source_address c, pc_data = tc_calldata c, pc_value = tc_value c,
              pc_reverted = (\<not> no_error trace)\<rparr>
          else None)"

definition simulation_walk :: "sim_env \<Rightarrow> nat \<Rightarrow> address \<Rightarrow> json \<Rightarrow> (address \<rightharpoonup> proxy_info) option \<Rightarrow> walk_state" where
  "simulation_walk S n ccm trace pre =
     walk_trace_tree (walker_for S n ccm) node_of_json (raw_calls json_ops) trace
       \<lparr>proxy_cache = Map.empty, ephemeral_proxies = or_default Map.empty pre, detected_calls = [], unresolved_proxies = {}\<rparr>"

definition walk_l2_simulation_trace ::
    "sim_env \<Rightarrow> nat \<Rightarrow> address \<Rightarrow> json \<Rightarrow> u64 \<Rightarrow> (address \<rightharpoonup> proxy_info) option \<Rightarrow> discovered_proxy_call list \<times> address set" where
  "walk_l2_simulation_trace S n ccm trace rid pre =
     (let s = simulation_walk S n ccm trace pre
      in (List.map_filter (proxy_call_of S trace rid s) (detected_calls s), unresolved_proxies s))"

section \<open>One bundle\<close>

definition sim_tx :: "sim_env \<Rightarrow> address \<Rightarrow> address \<Rightarrow> bytes \<Rightarrow> u256 option \<Rightarrow> string \<Rightarrow> bundle_tx" where
  "sim_tx S sender to cd v gas =
     \<lparr>bt_from = show_address (sim_formats S) sender, bt_to = show_address (sim_formats S) to,
      bt_data = ''0x'' @ hex_encode cd, bt_value = map_option (\<lambda>v. ''0x'' @ hex_u256 (sim_formats S) v) v,
      bt_gas = gas\<rparr>"

definition load_tx :: "sim_env \<Rightarrow> address \<Rightarrow> address \<Rightarrow> cross_chain_execution_entry list \<Rightarrow> bundle_tx" where
  "load_tx S sys ccm entries = sim_tx S sys ccm (encode_load_table (sim_encoders S) entries) None ''0x1c9c380''"

definition exec_tx :: "sim_env \<Rightarrow> address \<Rightarrow> address \<Rightarrow> bytes \<times> u256 \<Rightarrow> bundle_tx" where
  "exec_tx S sys ccm c = sim_tx S sys ccm (fst c) (Some (snd c)) ''0x2faf080''"

definition first_bundle :: "json \<Rightarrow> json list option" where
  "first_bundle v = Option.bind (json_item 0 v) json_elems"

definition no_top_error :: "json \<Rightarrow> bool" where
  "no_top_error t \<longleftrightarrow> no_error t \<and> json_field ''revertReason'' t = None"

definition run_l2_sim_bundle ::
    "sim_env \<Rightarrow> nat \<Rightarrow> address \<Rightarrow> address \<Rightarrow> cross_chain_execution_entry list \<Rightarrow> bytes \<Rightarrow> u256 \<Rightarrow> (json \<times> bool) option" where
  "run_l2_sim_bundle S n sys ccm load_entries exec_calldata v =
     (let bundle = \<lparr>transactions = [load_tx S sys ccm load_entries, exec_tx S sys ccm (exec_calldata, v)], block_override = None\<rparr>
      in Option.bind (l2_traces S n bundle) (\<lambda>rpc_body.
         Option.bind (into_result rpc_body) (\<lambda>result_val.
         Option.bind (first_bundle result_val) (\<lambda>traces.
           case traces of
             [] \<Rightarrow> None
           | [t] \<Rightarrow> Some (t, no_top_error t)
           | _ # t # _ \<Rightarrow> Some (t, no_top_error t)))))"

section \<open>The call alone\<close>

type_synonym sim_outcome = "bytes \<times> bool \<times> discovered_proxy_call list"

definition sim_action :: "u64 \<Rightarrow> address \<Rightarrow> bytes \<Rightarrow> u256 \<Rightarrow> address \<Rightarrow> scope_path \<Rightarrow> cross_chain_action" where
  "sim_action rid dest data v src sc =
     \<lparr>action_type = Call, rollup_id = RollupId (ucast rid), destination = dest, call_value = v, call_data = data,
      failed = False, source_address = src, source_rollup = MAINNET, scope = sc\<rparr>"

definition sim_result_entry :: "abi \<Rightarrow> u64 \<Rightarrow> bytes \<Rightarrow> bool \<Rightarrow> cross_chain_execution_entry" where
  "sim_result_entry A rid data has_failed =
     (let r = result_action (RollupId (ucast rid)) data has_failed
      in \<lparr>state_deltas = [], action_hash = hash_of A r, next_action = r\<rparr>)"

definition query_system_address :: "sim_env \<Rightarrow> nat \<Rightarrow> address option" where
  "query_system_address S n =
     Option.bind (eth_call_view json_ops (system_address S n)) (parse_address_from_abi_return (sim_hex S))"

definition placeholder_entries :: "abi \<Rightarrow> u64 \<Rightarrow> discovered_proxy_call list \<Rightarrow> cross_chain_execution_entry list" where
  "placeholder_entries A rid kids = concat (map (\<lambda>c. l2_table_entries
     (build_l2_to_l1_entries A (pc_original_address c) (pc_data c) (pc_value c) (pc_source_address c) rid [0xc0] [] False []
        Outcome_Success)) kids)"

text \<open>Step 6: the destination calls back to L1; load placeholders for its calls and run again.\<close>

definition retry_with_placeholders ::
    "sim_env \<Rightarrow> nat \<Rightarrow> address \<Rightarrow> address \<Rightarrow> address \<Rightarrow> u64 \<Rightarrow> bytes \<Rightarrow> u256 \<Rightarrow> bytes \<Rightarrow> discovered_proxy_call list \<Rightarrow> sim_outcome" where
  "retry_with_placeholders S n sys ccm dest rid exec_calldata v return_data kids =
     (case run_l2_sim_bundle S n sys ccm (placeholder_entries (sim_abi S) rid kids) exec_calldata v of
        Some (retry_trace, True) \<Rightarrow>
          (or_default (extract_return_data_from_trace retry_trace)
             (extract_inner_destination_return_data (sim_formats S) retry_trace dest),
           True, fst (walk_l2_simulation_trace S n ccm retry_trace rid None))
      | _ \<Rightarrow> (return_data, False, kids))"

definition direct_revert_data :: "sim_env \<Rightarrow> nat \<Rightarrow> address \<Rightarrow> address \<Rightarrow> bytes \<Rightarrow> bytes option" where
  "direct_revert_data S n src dest data =
     Option.bind (l2_traces S n \<lparr>transactions = [sim_tx S src dest data None ''0x2faf080''], block_override = None\<rparr>) (\<lambda>body.
     Option.bind (Option.bind (rpc_result body) first_bundle) (\<lambda>arr. case arr of
         [] \<Rightarrow> None
       | trace # _ \<Rightarrow>
           Option.bind (hex_text (strip_0x (or_default ''0x'' (text_field ''output'' trace)))) (\<lambda>revert_data.
             if \<not> no_error trace \<and> revert_data \<noteq> [] then Some revert_data else None)))"

text \<open>What the first run says of the destination's own call.\<close>

definition inner_outcome :: "sim_env \<Rightarrow> address \<Rightarrow> json \<Rightarrow> bool \<Rightarrow> bytes \<times> bool" where
  "inner_outcome S dest trace success =
     (if success then (extract_return_data_from_trace trace, True)
      else (or_default [] (extract_inner_destination_return_data (sim_formats S) trace dest),
            destination_call_succeeded_in_trace (sim_formats S) trace dest))"

text \<open>Run 2: load the RESULT entry that the first run suggests.\<close>

definition retry_with_result ::
    "sim_env \<Rightarrow> nat \<Rightarrow> address \<Rightarrow> address \<Rightarrow> address \<Rightarrow> bytes \<Rightarrow> address \<Rightarrow> u64 \<Rightarrow> bytes \<Rightarrow> u256 \<Rightarrow> bytes \<Rightarrow> bool \<Rightarrow> sim_outcome" where
  "retry_with_result S n sys ccm dest data src rid exec_calldata v inner inner_success =
     (case run_l2_sim_bundle S n sys ccm [sim_result_entry (sim_abi S) rid inner (\<not> inner_success)] exec_calldata v of
        None \<Rightarrow> (inner, inner_success, [])
      | Some (retry_trace, retry_success) \<Rightarrow>
          let retry_children = fst (walk_l2_simulation_trace S n ccm retry_trace rid None);
              retry_inner = extract_inner_destination_return_data (sim_formats S) retry_trace dest
          in if retry_success then
               (or_default (extract_return_data_from_trace retry_trace) retry_inner, True, retry_children)
             else if or_default [] retry_inner \<noteq> [] then (or_default [] retry_inner, False, retry_children)
             else (case direct_revert_data S (n + 1) src dest data of
                 Some revert_data \<Rightarrow> (revert_data, False, retry_children)
               | None \<Rightarrow> (inner, inner_success, [])))"

definition simulate_l1_to_l2_call_on_l2 ::
    "sim_env \<Rightarrow> nat \<Rightarrow> address \<Rightarrow> address \<Rightarrow> bytes \<Rightarrow> u256 \<Rightarrow> address \<Rightarrow> u64 \<Rightarrow> u256 list \<Rightarrow> sim_outcome" where
  "simulate_l1_to_l2_call_on_l2 S n ccm dest data v src rid l2_scope =
     (case query_system_address S n of
        None \<Rightarrow> ([], False, [])
      | Some sys \<Rightarrow>
          let exec_calldata = encode_execute_incoming_call_calldata (sim_encoders S)
                (sim_action rid dest data v src (from_parts l2_scope))
          in case run_l2_sim_bundle S n sys ccm [] exec_calldata v of
               None \<Rightarrow> ([], False, [])
             | Some (trace, success) \<Rightarrow>
                 let kids = (if ccm \<noteq> 0 then fst (walk_l2_simulation_trace S n ccm trace rid None) else [])
                 in if kids \<noteq> [] then
                      retry_with_placeholders S (n + 1) sys ccm dest rid exec_calldata v
                        (extract_return_data_from_trace trace) kids
                    else (case inner_outcome S dest trace success of (inner, inner_success) \<Rightarrow>
                        retry_with_result S (n + 1) sys ccm dest data src rid exec_calldata v inner inner_success))"

section \<open>The call after its predecessors\<close>

definition chained_transactions ::
    "sim_env \<Rightarrow> address \<Rightarrow> address \<Rightarrow> u64 \<Rightarrow> cross_chain_execution_entry list \<Rightarrow> (bytes \<times> u256) list \<Rightarrow> bytes \<times> u256 \<Rightarrow> bundle_tx list" where
  "chained_transactions S sys ccm rid prior_result_entries prior_exec_calldatas current =
     load_tx S sys ccm (prior_result_entries @ [sim_result_entry (sim_abi S) rid [] False])
       # map (exec_tx S sys ccm) prior_exec_calldatas @ [exec_tx S sys ccm current]"

text \<open>Pass 2: the identity of a proxy as the simulated state knows it.\<close>

definition resolved_identity :: "sim_env \<Rightarrow> json \<Rightarrow> proxy_info option" where
  "resolved_identity S t =
     (let output_clean = strip_0x (or_default ''0x'' (text_field ''output'' t))
      in if length output_clean < 128 then None
         else Option.bind (hex_text (hex_word 0 output_clean)) (\<lambda>addr_bytes.
           if length addr_bytes < 32 then None
           else let a = be_word (take 20 (drop 12 addr_bytes)) :: address
             in if a = 0 then None
                else Option.bind (hex_text (hex_word 1 output_clean)) (\<lambda>rid_bytes.
                  if length rid_bytes < 32 then None
                  else Some \<lparr>original_address = a, original_rollup_id = last_u64 rid_bytes\<rparr>)))"

text \<open>The answers to the queries follow the \<open>start\<close> transactions of the bundle.\<close>

definition resolve_all :: "sim_env \<Rightarrow> json list \<Rightarrow> nat \<Rightarrow> address list \<Rightarrow> (address \<rightharpoonup> proxy_info) \<Rightarrow> (address \<rightharpoonup> proxy_info)" where
  "resolve_all S traces2 start addrs pre =
     fold (\<lambda>(i, a) m. if start + i \<ge> length traces2 then m
           else (case resolved_identity S (traces2 ! (start + i)) of None \<Rightarrow> m | Some info \<Rightarrow> m(a \<mapsto> info)))
       (enumerate 0 addrs) pre"

definition second_pass ::
    "sim_env \<Rightarrow> nat \<Rightarrow> address \<Rightarrow> address \<Rightarrow> u64 \<Rightarrow> bundle_tx list \<Rightarrow> (address \<rightharpoonup> proxy_info) \<Rightarrow> discovered_proxy_call list \<Rightarrow> address set
     \<Rightarrow> discovered_proxy_call list option" where
  "second_pass S n sys ccm rid txs pre pass1_children unresolved =
     (let addrs = hash_order S unresolved;
          queries = map (\<lambda>a. \<lparr>bt_from = show_address (sim_formats S) sys, bt_to = show_address (sim_formats S) ccm,
            bt_data = authorized_proxies_calldata S a, bt_value = None, bt_gas = ''0x100000''\<rparr>) addrs
      in case Option.bind (l2_traces S n \<lparr>transactions = txs @ queries, block_override = None\<rparr>)
                (\<lambda>body2. Option.bind (rpc_result body2) first_bundle) of
           None \<Rightarrow> Some pass1_children
         | Some traces2 \<Rightarrow>
             let resolved_proxies = resolve_all S traces2 (length txs) addrs pre
             in if dom resolved_proxies = {} then Some pass1_children
                else if length traces2 < 1 + length addrs then None
                else Some (fst (walk_l2_simulation_trace S n ccm (traces2 ! (length traces2 - 1 - length addrs)) rid
                  (Some resolved_proxies))))"

definition bundle_proxies :: "sim_env \<Rightarrow> nat \<Rightarrow> address \<Rightarrow> json list \<Rightarrow> (address \<rightharpoonup> proxy_info)" where
  "bundle_proxies S n ccm prior_traces =
     fold (extract_ephemeral_proxies_from_trace (walker_for S n ccm) node_of_json) prior_traces Map.empty"

definition chained_children ::
    "sim_env \<Rightarrow> nat \<Rightarrow> address \<Rightarrow> address \<Rightarrow> u64 \<Rightarrow> bundle_tx list \<Rightarrow> json list \<Rightarrow> discovered_proxy_call list option" where
  "chained_children S n sys ccm rid txs traces =
     (if ccm = 0 then Some []
      else
        let pre = bundle_proxies S n ccm (butlast traces)
        in case walk_l2_simulation_trace S n ccm (last traces) rid (if dom pre = {} then None else Some pre) of
             (pass1_children, unresolved) \<Rightarrow>
               if unresolved = {} then Some pass1_children
               else second_pass S (n + 1) sys ccm rid txs pre pass1_children unresolved)"

definition current_outcome :: "sim_env \<Rightarrow> address \<Rightarrow> bytes \<Rightarrow> json \<Rightarrow> bytes \<times> bool" where
  "current_outcome S dest data t =
     (let inner = extract_inner_destination_return_data (sim_formats S) t dest;
          return_data = (if no_top_error t then or_default (extract_return_data_from_trace t) inner else or_default [] inner)
      in (return_data, no_top_error t \<or> return_data \<noteq> [] \<or> data = []))"

definition simulate_l1_to_l2_call_chained_on_l2 ::
    "sim_env \<Rightarrow> nat \<Rightarrow> address \<Rightarrow> address \<Rightarrow> bytes \<Rightarrow> u256 \<Rightarrow> address \<Rightarrow> u64 \<Rightarrow> cross_chain_execution_entry list
     \<Rightarrow> (bytes \<times> u256) list \<Rightarrow> address option \<Rightarrow> u256 list \<Rightarrow> sim_outcome option" where
  "simulate_l1_to_l2_call_chained_on_l2 S n ccm dest data v src rid prior_result_entries prior_exec_calldatas sys_addr l2_scope =
     (let alone = Some (simulate_l1_to_l2_call_on_l2 S (n + 2) ccm dest data v src rid l2_scope)
      in case sys_addr of
           None \<Rightarrow> alone
         | Some sys \<Rightarrow>
             let exec_calldata = encode_execute_incoming_call_calldata (sim_encoders S)
                   (sim_action rid dest data v src (from_parts l2_scope));
                 txs = chained_transactions S sys ccm rid prior_result_entries prior_exec_calldatas (exec_calldata, v)
             in case Option.bind (l2_traces S n \<lparr>transactions = txs, block_override = None\<rparr>)
                       (\<lambda>rpc_body. Option.bind (into_result rpc_body) first_bundle) of
                  None \<Rightarrow> alone
                | Some traces \<Rightarrow>
                    if length traces < 1 + length prior_exec_calldatas + 1 then alone
                    else map_option (\<lambda>kids. case current_outcome S dest data (last traces) of
                        (return_data, success) \<Rightarrow> (return_data, success, kids))
                      (chained_children S n sys ccm rid txs traces))"

section \<open>The children of a simulation\<close>

lemma find_map_None: "find_map f xs = None \<longleftrightarrow> (\<forall>x \<in> set xs. f x = None)"
  by (induction xs) (auto split: option.split)

lemma find_map_Some: "find_map f xs = Some y \<Longrightarrow> \<exists>x \<in> set xs. f x = Some y"
  by (induction xs) (auto split: option.splits)

definition known_infos :: "walk_state \<Rightarrow> proxy_info set" where
  "known_infos s = {info. \<exists>a. proxy_cache s a = Some (Some info)}"

text \<open>The cache is finite and holds the identity behind every detected call.\<close>

definition walk_resolved :: "walk_state \<Rightarrow> bool" where
  "walk_resolved s \<longleftrightarrow> finite (dom (proxy_cache s)) \<and>
     (\<forall>c \<in> set (detected_calls s). tc_destination c \<in> original_address ` known_infos s)"

lemma resolution_keeps:
  assumes "resolve_proxy_info E a s = (x, s')"
  shows "known_infos s \<subseteq> known_infos s'" "finite (dom (proxy_cache s)) \<longrightarrow> finite (dom (proxy_cache s'))"
    "detected_calls s' = detected_calls s" "x = Some info \<longrightarrow> info \<in> known_infos s'"
proof -
  have keep: "proxy_cache s b = Some y \<Longrightarrow> proxy_cache s' b = Some y" for b y
    using assms by (auto simp: resolve_proxy_info_def split: option.splits)
  then show "known_infos s \<subseteq> known_infos s'" by (auto simp: known_infos_def)
  have "proxy_cache s' a = Some x" using assms by (auto simp: resolve_proxy_info_def split: option.splits)
  then show "x = Some info \<longrightarrow> info \<in> known_infos s'" by (auto simp: known_infos_def)
qed (use assms in \<open>auto simp: resolve_proxy_info_def split: option.splits\<close>)

lemma known_infos_simps [simp]:
  "known_infos (s\<lparr>detected_calls := ds\<rparr>) = known_infos s"
  "known_infos (s\<lparr>unresolved_proxies := us\<rparr>) = known_infos s"
  "known_infos (s\<lparr>ephemeral_proxies := es\<rparr>) = known_infos s"
  by (simp_all add: known_infos_def)

lemma detect_resolved:
  assumes "walk_resolved s"
  shows "walk_resolved (detect_call E depth reverted n p s)"
proof (cases "resolve_proxy_info E (node_to p) s")
  case (Pair x s')
  note keeps = resolution_keeps [OF Pair]
  show ?thesis
  proof (cases x)
    case None
    then show ?thesis using assms keeps(1-3) Pair by (fastforce simp: detect_call_def walk_resolved_def)
  next
    case (Some info)
    then show ?thesis using assms keeps(1-3) keeps(4) [of info] Pair by (fastforce simp: detect_call_def walk_resolved_def)
  qed
qed

lemma visit_resolved: "walk_resolved s \<Longrightarrow> walk_resolved (visit E v s)"
  by (auto simp: visit_def visit_node_def record_proxy_def walk_resolved_def detect_resolved [unfolded walk_resolved_def]
      split: prod.splits option.splits)

lemma fold_resolved: "walk_resolved s \<Longrightarrow> walk_resolved (fold (visit E) vs s)"
  by (induction vs arbitrary: s) (auto simp: visit_resolved)

lemma walk_inner_resolved: "walk_resolved s \<Longrightarrow> walk_resolved (walk_trace_tree_inner E d r c s)"
  by (simp add: walk_is_fold(1) fold_resolved del: walk_trace_tree_inner.simps depth_first.simps fold_simps)

lemma walk_list_resolved: "walk_resolved s \<Longrightarrow> walk_resolved (fold (\<lambda>c. walk_trace_tree_inner E d r c) cs s)"
  by (induction cs arbitrary: s) (auto simp: walk_inner_resolved simp del: walk_trace_tree_inner.simps)

lemma simulation_resolved: "walk_resolved (simulation_walk S n ccm trace pre)"
proof -
  have "walk_resolved \<lparr>proxy_cache = Map.empty, ephemeral_proxies = m, detected_calls = [], unresolved_proxies = {}\<rparr>" for m
    by (simp add: walk_resolved_def)
  then show ?thesis unfolding simulation_walk_def walk_trace_tree_def
    by (simp only: walk_inner_resolved walk_list_resolved split: option.split) simp
qed

definition ordered_by_hash :: "sim_env \<Rightarrow> bool" where
  "ordered_by_hash S \<longleftrightarrow> (\<forall>D. finite D \<longrightarrow> set (hash_order S D) = D)"

lemma recovered:
  assumes "ordered_by_hash S" "walk_resolved s" "c \<in> set (detected_calls s)"
  shows "\<exists>info \<in> known_infos s. recovered_identity S s (tc_destination c) = Some info \<and> original_address info = tc_destination c"
proof -
  let ?f = "\<lambda>a. Option.bind (proxy_cache s a) (identity_of (tc_destination c))"
  have order: "set (hash_order S (dom (proxy_cache s))) = dom (proxy_cache s)" using assms(1,2) by (simp add: ordered_by_hash_def walk_resolved_def)
  obtain info a where a: "proxy_cache s a = Some (Some info)" "original_address info = tc_destination c"
    using assms(2,3) by (auto simp: walk_resolved_def known_infos_def)
  then have "?f a \<noteq> None" "a \<in> set (hash_order S (dom (proxy_cache s)))" using order by (auto simp: identity_of_def)
  then obtain y where y: "find_map ?f (hash_order S (dom (proxy_cache s))) = Some y"
    by (cases "find_map ?f (hash_order S (dom (proxy_cache s)))") (auto simp: find_map_None)
  then obtain b where "?f b = Some y" using find_map_Some by fast
  then have "y \<in> known_infos s" "original_address y = tc_destination c"
    by (auto simp: identity_of_def known_infos_def bind_eq_Some_conv split: option.splits if_splits)
  then show ?thesis using y by (auto simp: recovered_identity_def)
qed

definition proxy_call_key :: "discovered_proxy_call \<Rightarrow> call_key" where
  "proxy_call_key k = (pc_original_address k, pc_data k, pc_value k, pc_source_address k)"

definition traced_key :: "traced_call \<Rightarrow> call_key" where
  "traced_key c = (tc_destination c, tc_calldata c, tc_value c, tc_source_address c)"

definition calls_home :: "walk_state \<Rightarrow> u64 \<Rightarrow> traced_call \<Rightarrow> bool" where
  "calls_home s rid c \<longleftrightarrow> (\<exists>info \<in> known_infos s. original_address info = tc_destination c \<and> original_rollup_id info = rid)"

lemma map_filter_as_filter:
  assumes "\<And>x. x \<in> set xs \<Longrightarrow> (case f x of None \<Rightarrow> \<not> P x | Some y \<Rightarrow> P x \<and> g y = h x)"
  shows "map g (List.map_filter f xs) = map h (filter P xs)"
  using assms by (induction xs) (fastforce simp: List.map_filter_simps split: option.splits)+

text \<open>
  C33: when no address has proxies on two rollups, the children found in a simulation are exactly
  the detected calls to other rollups, in their order, whatever the order of the hash maps.
\<close>

theorem children_of_simulation:
  assumes "ordered_by_hash S"
    "inj_on original_address (known_infos (simulation_walk S n ccm trace pre))"
  shows "map proxy_call_key (fst (walk_l2_simulation_trace S n ccm trace rid pre)) =
    map traced_key (filter (\<lambda>c. \<not> calls_home (simulation_walk S n ccm trace pre) rid c)
      (detected_calls (simulation_walk S n ccm trace pre)))"
proof -
  let ?s = "simulation_walk S n ccm trace pre"
  have "case proxy_call_of S trace rid ?s c of None \<Rightarrow> \<not> \<not> calls_home ?s rid c
      | Some k \<Rightarrow> \<not> calls_home ?s rid c \<and> proxy_call_key k = traced_key c" if c: "c \<in> set (detected_calls ?s)" for c
  proof -
    obtain info where info: "info \<in> known_infos ?s" "recovered_identity S ?s (tc_destination c) = Some info" "original_address info = tc_destination c"
      using recovered [OF assms(1) simulation_resolved c] by auto
    have "calls_home ?s rid c \<longleftrightarrow> original_rollup_id info = rid"
      using info(1,3) inj_onD [OF assms(2)] unfolding calls_home_def by metis
    then show ?thesis using info(2) by (simp add: proxy_call_of_def proxy_call_key_def traced_key_def)
  qed
  then show ?thesis by (simp add: walk_l2_simulation_trace_def Let_def map_filter_as_filter)
qed

section \<open>The chained simulation\<close>

text \<open>The answer to a query in the simulated state is read like the answer of the lookup on chain.\<close>

lemma resolved_like_lookup:
  "text_field ''output'' t = Some out \<Longrightarrow>
   resolved_identity S t = l1_lookup_proxy json_ops hex_text (Some \<lparr>rpc_result = Some (JText out), rpc_error = None\<rparr>)"
  by (auto simp: resolved_identity_def l1_lookup_proxy_def eth_call_view_def result_str_def json_ops_def or_default_def
      parse_address_from_abi_return_def Let_def split: option.splits Option.bind_splits)

definition answers_in_full :: "sim_env \<Rightarrow> nat \<Rightarrow> bool" where
  "answers_in_full S n \<longleftrightarrow> (\<forall>b. case l2_traces S n b of None \<Rightarrow> True
     | Some r \<Rightarrow> (case Option.bind (rpc_result r) first_bundle of None \<Rightarrow> True | Some ts \<Rightarrow> length (transactions b) \<le> length ts))"

lemma second_pass_total:
  assumes "answers_in_full S n" "txs \<noteq> []"
  shows "second_pass S n sys ccm rid txs pre kids unresolved \<noteq> None"
proof -
  define addrs where "addrs = hash_order S unresolved"
  define b where "b = \<lparr>transactions = txs @ map (\<lambda>a. \<lparr>bt_from = show_address (sim_formats S) sys, bt_to = show_address (sim_formats S) ccm,
            bt_data = authorized_proxies_calldata S a, bt_value = None, bt_gas = ''0x100000''\<rparr>) addrs, block_override = None\<rparr>"
  have len: "length (transactions b) \<ge> 1 + length addrs" using assms(2) by (cases txs) (auto simp: b_def)
  have "length ts \<ge> 1 + length addrs" if "Option.bind (l2_traces S n b) (\<lambda>body2. Option.bind (rpc_result body2) first_bundle) = Some ts" for ts
  proof -
    obtain r where "l2_traces S n b = Some r" "Option.bind (rpc_result r) first_bundle = Some ts"
      using \<open>_ = Some ts\<close> by (auto simp: bind_eq_Some_conv)
    then have "length (transactions b) \<le> length ts" using assms(1) by (auto simp: answers_in_full_def dest!: spec [where x = b])
    then show ?thesis using len by simp
  qed
  then show ?thesis by (auto simp: second_pass_def Let_def addrs_def [symmetric] b_def [symmetric] not_less split: option.split)
qed

theorem chained_simulation_returns:
  assumes "answers_in_full S (n + 1)"
  shows "simulate_l1_to_l2_call_chained_on_l2 S n ccm dest data v src rid pe px sys l2_scope \<noteq> None"
proof -
  have "chained_children S n sys ccm rid (chained_transactions S sys ccm rid pe px c) ts \<noteq> None" for sys c ts
  proof -
    have "chained_transactions S sys ccm rid pe px c \<noteq> []" by (simp add: chained_transactions_def)
    from second_pass_total [OF assms this] show ?thesis
      by (auto simp: chained_children_def Let_def split: prod.split simp del: not_None_eq)
  qed
  then show ?thesis
    by (auto simp: simulate_l1_to_l2_call_chained_on_l2_def Let_def simp del: not_None_eq split: option.split)
qed

text \<open>
  A void function that succeeds inside a reverting call counts as failed when it is chained and
  its calldata is not empty; the search of the other simulation finds the call succeeded.
\<close>

lemma chained_void_call_fails:
  assumes "\<not> no_top_error t" "data \<noteq> []"
    "extract_inner_destination_return_data (sim_formats S) t dest = Some []"
  shows "current_outcome S dest data t = ([], False)"
  using assms by (simp add: current_outcome_def or_default_def)

end
