(* ===== verification/L1_Enrichment.thy ===== *)
theory L1_Enrichment
  imports L2_Simulation
begin

text \<open>
  Enriching the calls of an L1 transaction (\<open>composer_rpc/l1_to_l2/process.rs\<close> and
  \<open>build_and_run_l1_postbatch_trace\<close> of \<open>delivery.rs\<close>): each call is simulated on L2 after its
  predecessors, the calls it makes back to L1 are simulated there, the transaction is traced
  again with the entries loaded until nothing new shows up, and the revert flags come from the
  last trace. Answers of the nodes are indexed by the round and the call. A panic is \<open>None\<close>.
\<close>

section \<open>The surroundings\<close>

record process_env =
  px_base :: sim_env
  px_services :: l1_services
  px_direction :: l1_to_l2
  px_user :: user_tx_context
  px_has_builder_key :: bool
  px_l2_traces :: "nat \<Rightarrow> nat \<Rightarrow> nat \<Rightarrow> trace_bundle \<Rightarrow> json json_rpc_response option"
  px_l2_walker :: "nat \<Rightarrow> nat \<Rightarrow> nat \<Rightarrow> trace_env"
  px_system_address :: "nat \<Rightarrow> nat \<Rightarrow> nat \<Rightarrow> json json_rpc_response option"
  px_l1_traces :: "nat \<Rightarrow> trace_bundle \<Rightarrow> json json_rpc_response option"
  px_child_traces :: "nat \<Rightarrow> nat \<Rightarrow> trace_bundle \<Rightarrow> json json_rpc_response option"
  px_l1_walker :: "nat \<Rightarrow> trace_env"

definition sim_at :: "process_env \<Rightarrow> nat \<Rightarrow> nat \<Rightarrow> sim_env" where
  "sim_at E r i = (px_base E)\<lparr>l2_traces := px_l2_traces E r i, sim_walker := px_l2_walker E r i,
     system_address := px_system_address E r i\<rparr>"

definition px_abi :: "process_env \<Rightarrow> abi" where
  "px_abi E = sim_abi (px_base E)"

definition px_rollup :: "process_env \<Rightarrow> u64" where
  "px_rollup E = l12_rollup_id (px_direction E)"

definition px_ccm :: "process_env \<Rightarrow> address" where
  "px_ccm E = l12_l2_ccm (px_direction E)"

text \<open>Queried once in a round, before its calls are simulated.\<close>

definition round_system_address :: "process_env \<Rightarrow> nat \<Rightarrow> address option" where
  "round_system_address E r = query_system_address (sim_at E r 0) 0"

section \<open>Simulating the calls in order\<close>

definition scope_for_call :: "discovered_call \<Rightarrow> u256 list" where
  "scope_for_call c = (if dsc_trace_depth c \<le> 1 then [] else replicate (dsc_trace_depth c) 0)"

definition simulate_detected ::
    "process_env \<Rightarrow> nat \<Rightarrow> nat \<Rightarrow> bool \<Rightarrow> address option \<Rightarrow> discovered_call \<Rightarrow> cross_chain_execution_entry list
     \<Rightarrow> (bytes \<times> u256) list \<Rightarrow> sim_outcome option" where
  "simulate_detected E r i alone sys c pe px =
     (if alone then
        Some (simulate_l1_to_l2_call_on_l2 (sim_at E r i) 1 (px_ccm E) (dsc_destination c) (dsc_calldata c) (dsc_value c)
          (dsc_source_address c) (px_rollup E) (scope_for_call c))
      else
        simulate_l1_to_l2_call_chained_on_l2 (sim_at E r i) 1 (px_ccm E) (dsc_destination c) (dsc_calldata c) (dsc_value c)
          (dsc_source_address c) (px_rollup E) pe px sys (scope_for_call c))"

text \<open>A failure of a call that calls back is put down to the missing entry of its child.\<close>

fun final_outcome :: "sim_outcome \<Rightarrow> bytes \<times> bool" where
  "final_outcome (ret, success, kids) = (if \<not> success \<and> kids \<noteq> [] then ([], True) else (ret, success))"

definition with_outcome :: "bytes \<times> bool \<Rightarrow> discovered_call \<Rightarrow> discovered_call" where
  "with_outcome oc c = c\<lparr>dsc_delivery_return_data := fst oc, dsc_delivery_failed := \<not> snd oc\<rparr>"

definition prior_entry :: "process_env \<Rightarrow> discovered_call \<Rightarrow> cross_chain_execution_entry" where
  "prior_entry E c = sim_result_entry (px_abi E) (px_rollup E) (dsc_delivery_return_data c) (dsc_delivery_failed c)"

definition prior_exec :: "process_env \<Rightarrow> discovered_call \<Rightarrow> bytes \<times> u256" where
  "prior_exec E c = (encode_execute_incoming_call_calldata (sim_encoders (px_base E))
     (sim_action (px_rollup E) (dsc_destination c) (dsc_calldata c) (dsc_value c) (dsc_source_address c) scope_root), dsc_value c)"

definition child_call :: "parent_link \<Rightarrow> nat \<Rightarrow> bytes \<Rightarrow> bool \<Rightarrow> discovered_proxy_call \<Rightarrow> discovered_call" where
  "child_call parent iteration ret has_failed k =
     \<lparr>dsc_destination = pc_original_address k, dsc_calldata = pc_data k, dsc_value = pc_value k,
      dsc_source_address = pc_source_address k, dsc_parent = parent, dsc_trace_depth = 0, dsc_iteration = iteration,
      dsc_in_reverted_frame = False, dsc_delivery_return_data = ret, dsc_delivery_failed = has_failed, dsc_target_rollup_id = 0\<rparr>"

definition enrichment_has_partial_revert :: "discovered_call list \<Rightarrow> bool" where
  "enrichment_has_partial_revert calls \<longleftrightarrow>
     (\<exists>c \<in> set calls. dsc_in_reverted_frame c) \<and> (\<exists>c \<in> set calls. \<not> dsc_in_reverted_frame c)"

text \<open>The first loop. \<open>pe\<close> and \<open>px\<close> are the entries and calldatas of the calls already simulated.\<close>

fun enrich_initial ::
    "process_env \<Rightarrow> bool \<Rightarrow> address option \<Rightarrow> nat \<Rightarrow> cross_chain_execution_entry list \<Rightarrow> (bytes \<times> u256) list
     \<Rightarrow> discovered_call list \<Rightarrow> (discovered_call list \<times> discovered_call list) option" where
  "enrich_initial E partial sys i pe px [] = Some ([], [])"
| "enrich_initial E partial sys i pe px (c # cs) =
     Option.bind (simulate_detected E 0 i (i = 0 \<or> pe = []) sys c pe px) (\<lambda>oc.
       let c' = with_outcome (final_outcome oc) c;
           kept = (\<not> partial \<or> \<not> dsc_in_reverted_frame c);
           kids = map (child_call (Child (AbsoluteCallIndex i)) 0 [] False) (snd (snd oc))
       in map_option (\<lambda>(cs', ks). (c' # cs', kids @ ks))
            (enrich_initial E partial sys (Suc i) (if kept then pe @ [prior_entry E c'] else pe)
              (if kept then px @ [prior_exec E c'] else px) cs))"

section \<open>The calls back to L1\<close>

definition child_tx :: "process_env \<Rightarrow> discovered_call \<Rightarrow> bundle_tx" where
  "child_tx E c = sim_tx (px_base E) (dsc_source_address c) (dsc_destination c) (dsc_calldata c) (Some (dsc_value c)) ''0x2faf080''"

definition result_traces :: "json json_rpc_response option \<Rightarrow> json list option" where
  "result_traces answer = Option.bind answer (\<lambda>body. Option.bind (rpc_result body) first_bundle)"

definition deliver_child :: "process_env \<Rightarrow> json option \<Rightarrow> discovered_call \<Rightarrow> discovered_call" where
  "deliver_child E trace c =
     (case trace of
        None \<Rightarrow> c
      | Some t \<Rightarrow>
          let has_err = \<not> no_error t
          in (case text_field ''output'' t of
               Some out \<Rightarrow>
                 (case hex_text (strip_0x out) of
                    None \<Rightarrow> c
                  | Some bs \<Rightarrow> c\<lparr>dsc_delivery_return_data := bs, dsc_delivery_failed := (if has_err then True else dsc_delivery_failed c)\<rparr>)
             | None \<Rightarrow> if has_err then c\<lparr>dsc_delivery_failed := True\<rparr> else c))"

text \<open>All children run in one bundle, each after its elder siblings; \<open>offset\<close> is how many ran before.\<close>

definition deliver_children :: "process_env \<Rightarrow> json list option \<Rightarrow> nat \<Rightarrow> discovered_call list \<Rightarrow> discovered_call list" where
  "deliver_children E traces offset kids =
     map (\<lambda>(i, k). deliver_child E (Option.bind traces (\<lambda>ts. nth_opt ts (offset + i))) k) (enumerate 0 kids)"

definition initial_enrichment :: "process_env \<Rightarrow> discovered_call list \<Rightarrow> discovered_call list option" where
  "initial_enrichment E detected =
     (if px_ccm E = 0 then Some detected
      else map_option (\<lambda>(calls, kids).
          calls @ (if kids = [] then []
            else deliver_children E (result_traces (px_child_traces E 0 0 \<lparr>transactions = map (child_tx E) kids, block_override = None\<rparr>)) 0 kids))
        (enrich_initial E (enrichment_has_partial_revert detected) (round_system_address E 0) 0 [] [] detected))"

section \<open>Tracing again with the entries loaded (\<open>delivery.rs\<close>)\<close>

definition postbatch_entries :: "process_env \<Rightarrow> nat \<Rightarrow> discovered_call list \<Rightarrow> cross_chain_execution_entry list" where
  "postbatch_entries E r detected =
     (let l1_detected = map l1_detected detected;
          analyzed = analyze_l1_to_l2_continuations l1_detected (px_rollup E);
          rid = RollupId (ucast (px_rollup E));
          entries = (if analyzed = [] then
              pairs_to_l1_format (concat (map (\<lambda>c. case build_simple_pair (px_abi E) rid (lc_destination c) (lc_data c) (lc_value c)
                  (lc_source_address c) MAINNET (lc_call_success c) (lc_l2_return_data c) of (call, result) \<Rightarrow> [call, result]) l1_detected))
            else ce_l1 (build_continuations (px_abi E) analyzed rid));
          root = or_default 0 (rollup_state_root (px_services E) r)
      in map (\<lambda>e. e\<lparr>state_deltas := map (\<lambda>d. d\<lparr>current_state := root, new_state := root\<rparr>) (state_deltas e)\<rparr>) entries)"

definition postbatch_bundle :: "process_env \<Rightarrow> nat \<Rightarrow> discovered_call list \<Rightarrow> trace_bundle option" where
  "postbatch_bundle E r detected =
     (let V = px_services E; F = sim_formats (px_base E); entries = postbatch_entries E r detected
      in if entries = [] then None
         else Option.bind (l1_block_context V r) (\<lambda>(block_number, block_hash, _).
           Option.bind (verification_key V r) (\<lambda>vk.
             let now = unix_time V r;
                 public_inputs_hash = compute_public_inputs_hash (px_abi E) (compute_entry_hashes (px_abi E) entries vk) [] block_hash now
             in Option.bind (sign_hash V public_inputs_hash) (\<lambda>sig.
               let proof_bytes = (if length sig = 65 \<and> sig ! 64 < 27 then sig[64 := sig ! 64 + 27] else sig)
               in Some \<lparr>transactions =
                    [\<lparr>bt_from = show_address F (builder_key_address V), bt_to = show_address F (l12_l1_ccm (px_direction E)),
                      bt_data = ''0x'' @ hex_digits F (encode_post_batch_calldata V entries [] proof_bytes), bt_value = None,
                      bt_gas = ''0x1c9c380''\<rparr>,
                     \<lparr>bt_from = ut_from (px_user E), bt_to = ut_to (px_user E), bt_data = ut_data (px_user E),
                      bt_value = Some (ut_value (px_user E)), bt_gas = ''0x2faf080''\<rparr>],
                  block_override = Some (hex_u64 F (block_number + 1), hex_u64 F now)\<rparr>))))"

definition build_and_run_l1_postbatch_trace :: "process_env \<Rightarrow> nat \<Rightarrow> discovered_call list \<Rightarrow> (json \<times> json) option" where
  "build_and_run_l1_postbatch_trace E r detected =
     Option.bind (postbatch_bundle E r detected) (\<lambda>b.
     Option.bind (Option.bind (px_l1_traces E r b) into_result) (\<lambda>result_val.
     Option.bind (first_bundle result_val) (\<lambda>traces.
       if length traces \<ge> 2 then Some (traces ! 1, result_val) else None)))"

section \<open>New calls in a round\<close>

definition walk_l1_trace_generic ::
    "process_env \<Rightarrow> nat \<Rightarrow> json \<Rightarrow> proxy_cache \<Rightarrow> discovered_call list \<times> proxy_cache" where
  "walk_l1_trace_generic E r trace cache =
     (case walk_trace_to_discovered json_ops ((px_l1_walker E r)\<lparr>manager_addresses := [l12_l1_ccm (px_direction E)]\<rparr>)
             trace cache 0 0 of
        (found, cache') \<Rightarrow> (map (\<lambda>c. c\<lparr>dsc_delivery_failed := False, dsc_delivery_return_data := []\<rparr>) found, cache'))"

definition is_link_child :: "discovered_call \<Rightarrow> bool" where
  "is_link_child c \<longleftrightarrow> child_index (dsc_parent c) \<noteq> None"

text \<open>The elder children: those of earlier rounds, then those of earlier calls of this round.\<close>

fun enrich_new ::
    "process_env \<Rightarrow> nat \<Rightarrow> discovered_call list \<Rightarrow> address option \<Rightarrow> nat \<Rightarrow> cross_chain_execution_entry list \<Rightarrow> (bytes \<times> u256) list
     \<Rightarrow> discovered_call list \<Rightarrow> discovered_call list \<Rightarrow> (discovered_call list \<times> discovered_call list) option" where
  "enrich_new E r known sys i pe px kids [] = Some ([], kids)"
| "enrich_new E r known sys i pe px kids (c # cs) =
     Option.bind (simulate_detected E r i (pe = []) sys c pe px) (\<lambda>oc.
       let c' = with_outcome (final_outcome oc) c;
           elder = filter (\<lambda>p. is_link_child p \<and> dsc_target_rollup_id p = 0) known @ kids;
           found = map (child_call Root r [] False) (snd (snd oc));
           traces = result_traces (px_child_traces E r i \<lparr>transactions = map (child_tx E) (elder @ found), block_override = None\<rparr>);
           kids' = (if found = [] then kids else kids @ deliver_children E traces (length elder) found)
       in map_option (\<lambda>(cs', ks). (c' # cs', ks))
            (enrich_new E r known sys (Suc i) (pe @ [prior_entry E c']) (px @ [prior_exec E c']) kids' cs))"

text \<open>The links of the children, set by going through the new calls.\<close>

fun assign_parents :: "nat \<Rightarrow> discovered_call list \<Rightarrow> discovered_call list \<Rightarrow> discovered_call list" where
  "assign_parents parent_idx [] kids = kids"
| "assign_parents parent_idx (c # cs) kids =
     map (\<lambda>k. k\<lparr>dsc_parent := Child (AbsoluteCallIndex parent_idx)\<rparr>) (takeWhile (\<lambda>k. \<not> is_link_child k) kids) @
     assign_parents (Suc parent_idx) cs (dropWhile (\<lambda>k. \<not> is_link_child k) kids)"

definition enrich_round ::
    "process_env \<Rightarrow> nat \<Rightarrow> discovered_call list \<Rightarrow> discovered_call list \<Rightarrow> (discovered_call list \<times> discovered_call list) option" where
  "enrich_round E r known new_calls =
     (if px_ccm E = 0 then Some (new_calls, [])
      else
        let roots = filter (\<lambda>p. \<not> is_link_child p) known
        in enrich_new E r known (round_system_address E r) 0 (map (prior_entry E) roots) (map (prior_exec E) roots) [] new_calls)"

section \<open>The rounds\<close>

record process_state =
  ps_calls :: "discovered_call list"
  ps_cache :: proxy_cache
  ps_last_walk :: "discovered_call list"
  ps_last_trace :: "json option"

text \<open>The flag says that the loop ends.\<close>

definition process_round :: "process_env \<Rightarrow> nat \<Rightarrow> process_state \<Rightarrow> (bool \<times> process_state) option" where
  "process_round E r s =
     (case build_and_run_l1_postbatch_trace E r (ps_calls s) of
        None \<Rightarrow> Some (True, s)
      | Some (user_trace, _) \<Rightarrow>
          (case walk_l1_trace_generic E r user_trace (ps_cache s) of
             (new_detected, cache) \<Rightarrow>
               let s = s\<lparr>ps_last_trace := Some user_trace, ps_cache := cache, ps_last_walk := new_detected\<rparr>;
                   new_calls = filter_new_by_count new_detected (ps_calls s) (\<lambda>a b. identity a = identity b)
               in if new_calls = [] then Some (True, s)
                  else map_option (\<lambda>(enriched, kids). (False, s\<lparr>ps_calls :=
                      ps_calls s @ enriched @ assign_parents (length (ps_calls s)) enriched kids\<rparr>))
                    (enrich_round E r (ps_calls s) (map (\<lambda>c. c\<lparr>dsc_iteration := r\<rparr>) new_calls))))"

fun process_rounds :: "process_env \<Rightarrow> nat list \<Rightarrow> process_state \<Rightarrow> process_state option" where
  "process_rounds E [] s = Some s"
| "process_rounds E (r # rs) s =
     Option.bind (process_round E r s) (\<lambda>(finished, s'). if finished then Some s' else process_rounds E rs s')"

section \<open>The final correction of the revert flags\<close>

type_synonym frame_id = "call_key \<times> nat"

definition frame_key :: "discovered_call \<Rightarrow> frame_id" where
  "frame_key c = (identity c, dsc_trace_depth c)"

text \<open>\<open>consumed\<close> counts the calls already passed, by key.\<close>

fun correct_frames :: "discovered_call list \<Rightarrow> (frame_id \<Rightarrow> nat) \<Rightarrow> discovered_call list \<Rightarrow> discovered_call list" where
  "correct_frames walk consumed [] = []"
| "correct_frames walk consumed (c # cs) =
     (let k = frame_key c
      in (case nth_opt (filter (\<lambda>retrace. frame_key retrace = k) walk) (consumed k) of
            Some retrace \<Rightarrow> c\<lparr>dsc_in_reverted_frame := dsc_in_reverted_frame retrace\<rparr>
          | None \<Rightarrow> c) # correct_frames walk (consumed(k := consumed k + 1)) cs)"

definition final_correction :: "discovered_call list \<Rightarrow> discovered_call list \<Rightarrow> discovered_call list" where
  "final_correction walk calls = (if walk = [] then calls else correct_frames walk (\<lambda>_. 0) calls)"

section \<open>The bundle is that of the discovery engine\<close>

text \<open>The traced entries are those of the calls with the current root of the rollup put into every delta.\<close>

lemma postbatch_entries_rerooted:
  "postbatch_entries E r detected =
     map (with_root (or_default 0 (rollup_state_root (px_services E) r))) (retrace_entries (px_abi E) (px_rollup E) detected)"
  by (simp add: postbatch_entries_def retrace_entries_def retrace_pairs_def with_root_def Let_def cong: map_cong)

theorem postbatch_bundle_is_retrace:
  "postbatch_bundle E r detected =
     l1_retrace_bundle (px_abi E) (sim_formats (px_base E)) (px_services E) (px_direction E) (px_user E) r detected"
  by (simp add: postbatch_bundle_def postbatch_entries_rerooted l1_retrace_bundle_def px_rollup_def adjust_recovery_id_def
      user_bundle_tx_def Let_def)

section \<open>The first enrichment\<close>

definition kept_calls :: "bool \<Rightarrow> discovered_call list \<Rightarrow> discovered_call list" where
  "kept_calls partial calls = filter (\<lambda>c. \<not> partial \<or> \<not> dsc_in_reverted_frame c) calls"

lemma kept_calls_Cons: "kept_calls partial (c # cs) = (if \<not> partial \<or> \<not> dsc_in_reverted_frame c then [c] else []) @ kept_calls partial cs"
  by (simp add: kept_calls_def)

lemma with_outcome_simps [simp]:
  "dsc_in_reverted_frame (with_outcome oc c) = dsc_in_reverted_frame c" "dsc_parent (with_outcome oc c) = dsc_parent c"
  "identity (with_outcome oc c) = identity c"
  by (simp_all add: with_outcome_def identity_def)

text \<open>The outcome of a call is that of its simulation after the kept calls before it.\<close>

definition enriched_after ::
    "process_env \<Rightarrow> bool \<Rightarrow> address option \<Rightarrow> nat \<Rightarrow> cross_chain_execution_entry list \<Rightarrow> (bytes \<times> u256) list
     \<Rightarrow> discovered_call list \<Rightarrow> discovered_call \<Rightarrow> discovered_call \<Rightarrow> bool" where
  "enriched_after E partial sys i pe px before c c' \<longleftrightarrow>
     (let pe' = pe @ map (prior_entry E) (kept_calls partial before); px' = px @ map (prior_exec E) (kept_calls partial before)
      in case simulate_detected E 0 i (i = 0 \<or> pe' = []) sys c pe' px' of
           None \<Rightarrow> False | Some oc \<Rightarrow> c' = with_outcome (final_outcome oc) c)"

lemma enrich_initial_calls:
  "enrich_initial E partial sys i pe px cs = Some (cs', kids) \<Longrightarrow>
   length cs' = length cs \<and> (\<forall>j < length cs. enriched_after E partial sys (i + j) pe px (take j cs') (cs ! j) (cs' ! j)) \<and>
   (\<forall>k \<in> set kids. \<exists>j < length cs. dsc_parent k = Child (AbsoluteCallIndex (i + j)))"
proof (induction cs arbitrary: i pe px cs' kids)
  case (Cons c cs)
  obtain oc where oc: "simulate_detected E 0 i (i = 0 \<or> pe = []) sys c pe px = Some oc"
    using Cons.prems by (auto simp: bind_eq_Some_conv)
  define c' where "c' = with_outcome (final_outcome oc) c"
  define kept where "kept = kept_calls partial [c']"
  let ?pe = "pe @ map (prior_entry E) kept" and ?px = "px @ map (prior_exec E) kept"
  obtain ds ks where rest: "enrich_initial E partial sys (Suc i) ?pe ?px cs = Some (ds, ks)"
    and out: "cs' = c' # ds" "kids = map (child_call (Child (AbsoluteCallIndex i)) 0 [] False) (snd (snd oc)) @ ks"
    using Cons.prems oc by (auto simp: Let_def c'_def kept_def kept_calls_def split: if_splits)
  note IH = Cons.IH [OF rest]
  have "enriched_after E partial sys (i + j) pe px (take j cs') ((c # cs) ! j) (cs' ! j)" if "j < length (c # cs)" for j
  proof (cases j)
    case 0
    then show ?thesis using oc out(1) by (simp add: enriched_after_def kept_calls_def c'_def)
  next
    case (Suc m)
    then have "enriched_after E partial sys (Suc i + m) ?pe ?px (take m ds) (cs ! m) (ds ! m)" using IH that by simp
    moreover have "kept_calls partial (take j cs') = kept @ kept_calls partial (take m ds)"
      using Suc out(1) by (simp add: kept_def kept_calls_def)
    ultimately show ?thesis using Suc out(1) by (simp add: enriched_after_def Let_def)
  qed
  moreover have "\<exists>j < length (c # cs). dsc_parent k = Child (AbsoluteCallIndex (i + j))" if "k \<in> set kids" for k
  proof -
    consider "dsc_parent k = Child (AbsoluteCallIndex i)" | "k \<in> set ks" using \<open>k \<in> set kids\<close> out(2) by (auto simp: child_call_def)
    then show ?thesis
    proof cases
      case 1
      then show ?thesis by (intro exI [of _ 0]) simp
    next
      case 2
      then obtain j where "j < length cs" "dsc_parent k = Child (AbsoluteCallIndex (Suc i + j))" using IH by blast
      then show ?thesis by (intro exI [of _ "Suc j"]) simp
    qed
  qed
  moreover have "length cs' = length (c # cs)" using IH out(1) by simp
  ultimately show ?case by (intro conjI allI impI ballI)
qed simp

lemma deliver_child_parent [simp]: "dsc_parent (deliver_child E t k) = dsc_parent k"
  by (simp add: deliver_child_def Let_def split: option.split)

lemma deliver_children_parents [simp]: "map dsc_parent (deliver_children E ts off kids) = map dsc_parent kids"
  by (rule nth_equalityI) (simp_all add: deliver_children_def nth_enumerate_eq)

text \<open>
  C31: Each detected call gets the outcome of its simulation after exactly the kept earlier calls,
  with their recorded results loaded and their calls executed; the calls of a reverted frame
  are kept unless only some calls are reverted.
\<close>

theorem calls_enriched_in_order:
  assumes "initial_enrichment E calls = Some res" "px_ccm E \<noteq> 0" "j < length calls"
  shows "enriched_after E (enrichment_has_partial_revert calls) (round_system_address E 0) j [] [] (take j res) (calls ! j) (res ! j)"
proof -
  obtain cs' kids ds where run: "enrich_initial E (enrichment_has_partial_revert calls) (round_system_address E 0) 0 [] [] calls = Some (cs', kids)"
    and res: "res = cs' @ ds"
    using assms(1,2) by (auto simp: initial_enrichment_def)
  from enrich_initial_calls [OF run] assms(3) show ?thesis unfolding res by (simp add: nth_append)
qed

section \<open>Links stay valid\<close>

definition well_linked :: "discovered_call list \<Rightarrow> bool" where
  "well_linked calls \<longleftrightarrow> (\<forall>c \<in> set calls. case dsc_parent c of Root \<Rightarrow> True
     | Child idx \<Rightarrow> index_as_usize idx < length calls \<and> dsc_parent (calls ! index_as_usize idx) = Root)"

lemma well_linked_append:
  assumes "well_linked known" "\<forall>c \<in> set new. dsc_parent c = Root"
    "\<forall>k \<in> set kids. \<exists>i < length (known @ new). dsc_parent k = Child (AbsoluteCallIndex i) \<and> dsc_parent ((known @ new) ! i) = Root"
  shows "well_linked (known @ new @ kids)"
proof -
  have old: "(known @ new @ kids) ! i = (known @ new) ! i" if "i < length (known @ new)" for i
    using that by (simp add: nth_append)
  show ?thesis unfolding well_linked_def
  proof
    fix c assume "c \<in> set (known @ new @ kids)"
    then consider "c \<in> set known" | "c \<in> set new" | "c \<in> set kids" by auto
    then show "case dsc_parent c of Root \<Rightarrow> True | Child idx \<Rightarrow> index_as_usize idx < length (known @ new @ kids) \<and>
        dsc_parent ((known @ new @ kids) ! index_as_usize idx) = Root"
    proof cases
      case 1
      then show ?thesis using assms(1) by (auto simp: well_linked_def nth_append split: parent_link.splits)
    next
      case 2
      then show ?thesis using assms(2) by simp
    next
      case 3
      then obtain i where "i < length (known @ new)" "dsc_parent c = Child (AbsoluteCallIndex i)" "dsc_parent ((known @ new) ! i) = Root"
        using assms(3) by blast
      moreover from this have "i < length (known @ new @ kids)" by simp
      ultimately show ?thesis using old [of i] by simp
    qed
  qed
qed

lemma assign_parents_Nil [simp]: "assign_parents i cs [] = []"
  by (induction cs arbitrary: i) simp_all

text \<open>Every child found in a round is linked to the first new call of the round.\<close>

lemma assign_parents_first:
  assumes "\<forall>k \<in> set kids. dsc_parent k = Root"
  shows "assign_parents i (c # cs) kids = map (\<lambda>k. k\<lparr>dsc_parent := Child (AbsoluteCallIndex i)\<rparr>) kids"
proof -
  have "takeWhile (\<lambda>k. \<not> is_link_child k) kids = kids" "dropWhile (\<lambda>k. \<not> is_link_child k) kids = []"
    using assms by (auto simp: is_link_child_def takeWhile_eq_all_conv dropWhile_eq_Nil_conv)
  then show ?thesis by (simp only: assign_parents.simps assign_parents_Nil append_Nil2)
qed

lemma delivered_roots: "\<forall>k \<in> set (deliver_children E ts off (map (child_call Root r [] False) ks)). dsc_parent k = Root"
proof
  fix k assume "k \<in> set (deliver_children E ts off (map (child_call Root r [] False) ks))"
  then have "dsc_parent k \<in> set (map dsc_parent (map (child_call Root r [] False) ks))"
    using deliver_children_parents by (metis imageI list.set_map)
  then show "dsc_parent k = Root" by (auto simp: child_call_def)
qed

lemma enrich_new_calls:
  "enrich_new E r known sys i pe px kids cs = Some (cs', kids') \<Longrightarrow> \<forall>k \<in> set kids. dsc_parent k = Root \<Longrightarrow>
   map dsc_parent cs' = map dsc_parent cs \<and> map identity cs' = map identity cs \<and> (\<forall>k \<in> set kids'. dsc_parent k = Root)"
proof (induction cs arbitrary: i pe px kids cs')
  case (Cons c cs)
  obtain oc where oc: "simulate_detected E r i (pe = []) sys c pe px = Some oc" using Cons.prems(1) by (auto simp: bind_eq_Some_conv)
  obtain pe' px' kids1 ds where rest: "enrich_new E r known sys (Suc i) pe' px' kids1 cs = Some (ds, kids')"
    and out: "cs' = with_outcome (final_outcome oc) c # ds" and roots: "\<forall>k \<in> set kids1. dsc_parent k = Root"
    using Cons.prems oc delivered_roots by (fastforce simp: Let_def split: if_splits)
  show ?case using Cons.IH [OF rest roots] out by simp
qed auto

lemma initial_links:
  assumes "initial_enrichment E calls = Some res" "\<forall>c \<in> set calls. dsc_parent c = Root"
  shows "well_linked res"
proof (cases "px_ccm E = 0")
  case True
  then show ?thesis using assms by (auto simp: initial_enrichment_def well_linked_def)
next
  case False
  obtain cs' kids ds where run: "enrich_initial E (enrichment_has_partial_revert calls) (round_system_address E 0) 0 [] [] calls = Some (cs', kids)"
    and res: "res = cs' @ ds" and ds: "map dsc_parent ds = map dsc_parent kids"
    using assms(1) False by (fastforce simp: initial_enrichment_def split: if_splits)
  note calls = enrich_initial_calls [OF run]
  have roots: "dsc_parent (cs' ! j) = Root" if "j < length cs'" for j
  proof -
    have "enriched_after E (enrichment_has_partial_revert calls) (round_system_address E 0) j [] [] (take j cs') (calls ! j) (cs' ! j)"
      "dsc_parent (calls ! j) = Root" using calls assms(2) that by auto
    then show ?thesis by (auto simp: enriched_after_def Let_def split: option.splits)
  qed
  have "\<exists>i < length ([] @ cs'). dsc_parent k = Child (AbsoluteCallIndex i) \<and> dsc_parent (([] @ cs') ! i) = Root" if "k \<in> set ds" for k
  proof -
    have "dsc_parent k \<in> set (map dsc_parent kids)" using that ds by (metis imageI list.set_map)
    then show ?thesis using calls roots by auto
  qed
  moreover have "\<forall>c \<in> set cs'. dsc_parent c = Root" using roots by (auto simp: in_set_conv_nth)
  ultimately have "well_linked ([] @ cs' @ ds)" by (intro well_linked_append) (auto simp: well_linked_def)
  then show ?thesis by (simp add: res)
qed

lemma walked_roots:
  "walk_l1_trace_generic E r t cache = (found, cache') \<Longrightarrow> \<forall>c \<in> set found. dsc_parent c = Root"
  by (auto simp: walk_l1_trace_generic_def walk_trace_to_discovered_def from_trace_detected_def Let_def)

lemma new_calls_subseq: "subseq (filter_new_by_count new known (\<lambda>a b. identity a = identity b)) new"
  using filter_new_loop_result [of "replicate (length known) False" known identity "[]" new] by (auto simp: filter_new_by_count_def)

text \<open>A round only appends, and keeps the links valid.\<close>

theorem round_keeps_links:
  assumes "process_round E r s = Some (finished, s')" "well_linked (ps_calls s)"
  shows "well_linked (ps_calls s')" "prefix (ps_calls s) (ps_calls s')"
proof -
  have "well_linked (ps_calls s') \<and> prefix (ps_calls s) (ps_calls s')"
  proof (cases "ps_calls s' = ps_calls s")
    case True
    then show ?thesis using assms(2) by simp
  next
    case False
    then obtain t u new cache where t: "build_and_run_l1_postbatch_trace E r (ps_calls s) = Some (t, u)"
      and walk: "walk_l1_trace_generic E r t (ps_cache s) = (new, cache)"
      using assms(1) by (auto simp: process_round_def split: option.splits prod.splits if_splits)
    define found where "found = map (\<lambda>c. c\<lparr>dsc_iteration := r\<rparr>) (filter_new_by_count new (ps_calls s) (\<lambda>a b. identity a = identity b))"
    have roots: "\<forall>c \<in> set found. dsc_parent c = Root"
      using walked_roots [OF walk] new_calls_subseq [of new "ps_calls s"] by (auto simp: found_def dest: list_emb_set)
    obtain enriched kids where enrich: "enrich_round E r (ps_calls s) found = Some (enriched, kids)"
      and out: "ps_calls s' = ps_calls s @ enriched @ assign_parents (length (ps_calls s)) enriched kids"
      using assms(1) False t walk by (auto simp: process_round_def found_def Let_def split: if_splits)
    have "map dsc_parent enriched = map dsc_parent found" and kids: "\<forall>k \<in> set kids. dsc_parent k = Root"
      using enrich by (auto simp: enrich_round_def Let_def split: if_splits dest: enrich_new_calls)
    then have new: "\<forall>c \<in> set enriched. dsc_parent c = Root" using roots by (metis imageE imageI list.set_map)
    have "\<exists>i < length (ps_calls s @ enriched). dsc_parent k = Child (AbsoluteCallIndex i) \<and> dsc_parent ((ps_calls s @ enriched) ! i) = Root"
      if k: "k \<in> set (assign_parents (length (ps_calls s)) enriched kids)" for k
    proof (cases enriched)
      case Nil
      then have "kids = []" using enrich \<open>map dsc_parent enriched = _\<close> by (auto simp: enrich_round_def split: if_splits)
      then show ?thesis using k by simp
    next
      case (Cons c cs)
      then show ?thesis using k new unfolding Cons assign_parents_first [OF kids] by (intro exI [of _ "length (ps_calls s)"]) auto
    qed
    then show ?thesis using well_linked_append [OF assms(2) new] out by auto
  qed
  then show "well_linked (ps_calls s')" "prefix (ps_calls s) (ps_calls s')" by auto
qed

lemma rounds_keep_links:
  "process_rounds E rs s = Some s' \<Longrightarrow> well_linked (ps_calls s) \<Longrightarrow> well_linked (ps_calls s') \<and> prefix (ps_calls s) (ps_calls s')"
proof (induction rs arbitrary: s)
  case (Cons r rs)
  then obtain b s1 where step: "process_round E r s = Some (b, s1)" by (auto simp: bind_eq_Some_conv)
  show ?case using Cons step round_keeps_links [OF step] by (auto split: if_splits intro: prefix_order.trans)
qed simp

section \<open>The revert flags\<close>

definition frames_of :: "frame_id \<Rightarrow> discovered_call list \<Rightarrow> bool list" where
  "frames_of k cs = map dsc_in_reverted_frame (filter (\<lambda>c. frame_key c = k) cs)"

lemma frame_key_flag [simp]: "frame_key (c\<lparr>dsc_in_reverted_frame := b\<rparr>) = frame_key c"
  by (simp add: frame_key_def)

lemma frames_of_simps [simp]:
  "frames_of k [] = []"
  "frames_of k (c # cs) = (if frame_key c = k then dsc_in_reverted_frame c # frames_of k cs else frames_of k cs)"
  by (simp_all add: frames_of_def)

lemma drop_frames:
  "drop n (frames_of k walk) =
     (case nth_opt (filter (\<lambda>retrace. frame_key retrace = k) walk) n of
        None \<Rightarrow> [] | Some w \<Rightarrow> dsc_in_reverted_frame w # drop (Suc n) (frames_of k walk))"
proof (cases "n < length (frames_of k walk)")
  case True
  then show ?thesis by (auto simp: nth_opt_def frames_of_def Cons_nth_drop_Suc [symmetric])
qed (auto simp: nth_opt_def frames_of_def)

lemma correct_frames_flags:
  "frames_of k (correct_frames walk consumed cs) =
     take (length (frames_of k cs)) (drop (consumed k) (frames_of k walk)) @
     drop (length (drop (consumed k) (frames_of k walk))) (frames_of k cs)"
proof (induction cs arbitrary: consumed)
  case (Cons c cs)
  have IH: "frames_of k (correct_frames walk (consumed(frame_key c := consumed (frame_key c) + 1)) cs) =
      (let n = (consumed(frame_key c := consumed (frame_key c) + 1)) k
       in take (length (frames_of k cs)) (drop n (frames_of k walk)) @ drop (length (drop n (frames_of k walk))) (frames_of k cs))"
    using Cons.IH by (simp add: Let_def)
  show ?case
  proof (cases "frame_key c = k")
    case False
    then show ?thesis using IH by (simp add: Let_def split: option.split)
  next
    case True
    show ?thesis
    proof (cases "nth_opt (filter (\<lambda>retrace. frame_key retrace = k) walk) (consumed k)")
      case None
      then have none: "drop (consumed k) (frames_of k walk) = []" using drop_frames [of "consumed k" k walk] by (simp del: nth_opt_eq_None)
      then have "drop (Suc (consumed k)) (frames_of k walk) = []" by simp
      then show ?thesis using IH True None none by (simp add: Let_def del: nth_opt_eq_None)
    next
      case (Some w)
      then have "drop (consumed k) (frames_of k walk) = dsc_in_reverted_frame w # drop (Suc (consumed k)) (frames_of k walk)"
        using drop_frames [of "consumed k" k walk] by simp
      then show ?thesis using IH True Some by (simp add: Let_def)
    qed
  qed
qed simp

theorem final_flags_from_last_walk:
  "frames_of k (final_correction walk calls) =
     take (length (frames_of k calls)) (frames_of k walk) @ drop (length (frames_of k walk)) (frames_of k calls)"
  using correct_frames_flags [of k walk "\<lambda>_. 0" calls] by (simp add: final_correction_def frames_of_def)

lemma final_correction_core: "map without_flag (final_correction walk calls) = map without_flag calls"
proof -
  have "map without_flag (correct_frames walk consumed calls) = map without_flag calls" for consumed
    by (induction calls arbitrary: consumed) (auto simp: Let_def split: option.split)
  then show ?thesis by (simp add: final_correction_def)
qed

end
