(* ===== verification/L1_Process.thy ===== *)
theory L1_Process
  imports L1_Enrichment Hex_Codec
begin

text \<open>
  From the detected calls of an L1 transaction to its execution table
  (\<open>process_l1_to_l2_calls\<close> and \<open>queue_execution_table\<close> of \<open>composer_rpc/l1_to_l2/process.rs\<close>):
  the rounds, the enrichment of the intermediate calls after they converged, and the request to
  the L2 node. A panic is \<open>None\<close>.
\<close>

section \<open>After convergence\<close>

definition has_child :: "discovered_call list \<Rightarrow> nat \<Rightarrow> bool" where
  "has_child calls i \<longleftrightarrow> (\<exists>c \<in> set calls. dsc_parent c = Child (AbsoluteCallIndex i))"

definition needs_enrichment :: "discovered_call list \<Rightarrow> bool" where
  "needs_enrichment calls \<longleftrightarrow> (\<exists>(i, c) \<in> set (enumerate 0 calls).
     \<not> is_link_child c \<and> dsc_delivery_return_data c = [] \<and> has_child calls i)"

text \<open>Each root call strictly deeper than the one before it.\<close>

definition is_reentrant_pattern :: "discovered_call list \<Rightarrow> bool" where
  "is_reentrant_pattern calls \<longleftrightarrow>
     (let root_depths = map dsc_trace_depth (filter (\<lambda>c. \<not> is_link_child c) calls)
      in length root_depths > 1 \<and> successively (<) root_depths)"

definition stale :: "discovered_call \<Rightarrow> bool" where
  "stale c \<longleftrightarrow> length (dsc_delivery_return_data c) \<le> 4 \<or> dsc_delivery_failed c"

definition l1_child :: "discovered_call \<Rightarrow> bool" where
  "l1_child c \<longleftrightarrow> is_link_child c \<and> dsc_target_rollup_id c = 0"

definition delivered_in :: "process_env \<Rightarrow> json \<Rightarrow> discovered_call \<Rightarrow> bytes" where
  "delivered_in E trace c = extract_delivery_return_from_l1_trace_with_calldata (sim_formats (px_base E)) trace
     (dsc_destination c) (Some (dsc_calldata c))"

text \<open>A stale result is replaced by what the trace shows, when it shows something.\<close>

definition refresh :: "process_env \<Rightarrow> json \<Rightarrow> discovered_call \<Rightarrow> discovered_call" where
  "refresh E trace c =
     (let delivery = delivered_in E trace c
      in if delivery \<noteq> [] \<and> stale c then c\<lparr>dsc_delivery_return_data := delivery, dsc_delivery_failed := False\<rparr> else c)"

definition default_to_void :: "discovered_call \<Rightarrow> discovered_call" where
  "default_to_void c =
     (if length (dsc_delivery_return_data c) \<le> 4 \<and> dsc_delivery_failed c
      then c\<lparr>dsc_delivery_return_data := [], dsc_delivery_failed := False\<rparr> else c)"

definition pre_enrich :: "process_env \<Rightarrow> json option \<Rightarrow> bool \<Rightarrow> discovered_call list \<Rightarrow> discovered_call list" where
  "pre_enrich E saved_trace reentrant calls =
     (case saved_trace of
        None \<Rightarrow> calls
      | Some t \<Rightarrow>
          let calls = map (\<lambda>c. if l1_child c then refresh E t c else c) calls
          in if reentrant then calls else map (\<lambda>c. if l1_child c then default_to_void c else c) calls)"

definition root_indices :: "discovered_call list \<Rightarrow> nat list" where
  "root_indices calls = rev (map fst (filter (\<lambda>(i, c). \<not> is_link_child c) (enumerate 0 calls)))"

text \<open>Step A: the delivery of the child of this level, from a fresh trace.\<close>

definition level_delivery :: "process_env \<Rightarrow> nat \<Rightarrow> nat \<Rightarrow> discovered_call list \<Rightarrow> discovered_call list" where
  "level_delivery E r ci calls =
     (case build_and_run_l1_postbatch_trace E r calls of
        None \<Rightarrow> calls
      | Some (user_trace, _) \<Rightarrow> calls[ci := refresh E user_trace (calls ! ci)])"

text \<open>
  The return data behind the ABI encoding of the outer call. \<open>to::<usize>()\<close> panics on a length
  word that does not fit.
\<close>

definition decode_outer :: "bytes \<Rightarrow> bytes option" where
  "decode_outer raw =
     (if length raw \<ge> 64 then
        let dlen = be_word (take 32 (drop 32 raw)) :: u256
        in if unat dlen \<ge> 2 ^ 64 then None else Some (take (min (unat dlen) (length raw - 64)) (drop 64 raw))
      else Some raw)"

definition level_result :: "process_env \<Rightarrow> json \<times> bool \<Rightarrow> address \<Rightarrow> (bytes \<times> bool \<times> bool) option" where
  "level_result E run dest =
     (let S = px_base E; (trace, success) = run;
          inner = or_default [] (extract_inner_destination_return_data (sim_formats S) trace dest)
      in if inner = [] \<and> success
         then map_option (\<lambda>decoded. (decoded, True, True)) (decode_outer (extract_return_data_from_trace trace))
         else Some (inner, inner \<noteq> [] \<or> destination_call_succeeded_in_trace (sim_formats S) trace dest, False))"

text \<open>Step B: the whole table for L2, and the outermost call (or this one) run against it.\<close>

definition level_simulation :: "process_env \<Rightarrow> nat \<Rightarrow> bool \<Rightarrow> address \<Rightarrow> nat \<Rightarrow> nat list \<Rightarrow> discovered_call list \<Rightarrow> discovered_call list option" where
  "level_simulation E r reentrant sys idx roots calls =
     (let entry_call = calls ! (if reentrant then idx else if roots = [] then idx else last roots);
          analyzed = analyze_l1_to_l2_continuations (map l1_detected calls) (px_rollup E);
          entries = map (\<lambda>e. e\<lparr>state_deltas := []\<rparr>) (ce_l2 (build_continuations (px_abi E) analyzed (RollupId (ucast (px_rollup E)))));
          dest = dsc_destination (calls ! idx)
      in if analyzed = [] then Some calls
         else case run_l2_sim_bundle (sim_at E r 0) 0 sys (px_ccm E) entries
                (fst (prior_exec E entry_call)) (dsc_value entry_call) of
             None \<Rightarrow> Some calls
           | Some run \<Rightarrow> map_option (\<lambda>(ret_data, inner_success, used_fallback).
               if used_fallback \<and> has_child calls idx \<and> \<not> reentrant then calls
               else if inner_success \<or> ret_data \<noteq> [] then
                 calls[idx := (calls ! idx)\<lparr>dsc_delivery_return_data := ret_data, dsc_delivery_failed := \<not> inner_success\<rparr>]
               else calls) (level_result E run dest))"

definition enrich_level :: "process_env \<Rightarrow> nat \<Rightarrow> bool \<Rightarrow> address \<Rightarrow> nat list \<Rightarrow> nat \<Rightarrow> discovered_call list \<Rightarrow> discovered_call list option" where
  "enrich_level E r reentrant sys roots idx calls =
     (if \<not> has_child calls idx \<or> dsc_delivery_return_data (calls ! idx) \<noteq> [] then Some calls
      else case position (\<lambda>c. dsc_parent c = Child (AbsoluteCallIndex idx)) calls of
          None \<Rightarrow> Some calls
        | Some ci \<Rightarrow> level_simulation E r reentrant sys idx roots (level_delivery E r ci calls))"

fun enrich_levels :: "process_env \<Rightarrow> bool \<Rightarrow> address \<Rightarrow> nat list \<Rightarrow> nat list \<Rightarrow> discovered_call list \<Rightarrow> discovered_call list option" where
  "enrich_levels E reentrant sys roots [] calls = Some calls"
| "enrich_levels E reentrant sys roots (idx # rest) calls =
     Option.bind (enrich_level E (12 + idx) reentrant sys roots idx calls) (enrich_levels E reentrant sys roots rest)"

definition post_convergence :: "process_env \<Rightarrow> json option \<Rightarrow> discovered_call list \<Rightarrow> discovered_call list option" where
  "post_convergence E saved_trace detected =
     (if \<not> needs_enrichment detected then Some detected
      else
        let reentrant = is_reentrant_pattern detected;
            calls = pre_enrich E saved_trace reentrant detected;
            roots = root_indices calls
        in case round_system_address E 11 of
             None \<Rightarrow> Some calls
           | Some sys \<Rightarrow> enrich_levels E reentrant sys roots roots calls)"

section \<open>The request for the table\<close>

text \<open>How the values of a request are written (\<open>show_u256\<close>) and read back by the server.\<close>

record wire =
  show_u256 :: "u256 \<Rightarrow> string"
  read_address :: "string \<Rightarrow> address option"
  read_bytes :: "string \<Rightarrow> bytes option"
  read_u256 :: "string \<Rightarrow> u256 option"

definition call_json :: "formats \<Rightarrow> wire \<Rightarrow> discovered_call \<Rightarrow> json" where
  "call_json F W c =
     (let child = child_index (dsc_parent c) in JObject (
       [(''destination'', JText (show_address F (dsc_destination c))),
        (''data'', JText (''0x'' @ hex_encode (dsc_calldata c))),
        (''value'', JText (show_u256 W (dsc_value c))),
        (''sourceAddress'', JText (show_address F (dsc_source_address c)))] @
       (if dsc_delivery_return_data c \<noteq> [] \<or> dsc_delivery_failed c then
          [(''l2ReturnData'', JText (''0x'' @ hex_encode (dsc_delivery_return_data c))),
           (''callSuccess'', JBool (\<not> dsc_delivery_failed c))] else []) @
       (case child of None \<Rightarrow> [] | Some i \<Rightarrow> [(''parentCallIndex'', JNumber (int (index_as_usize i)))]) @
       (if dsc_target_rollup_id c = 0 \<and> child \<noteq> None then [(''targetRollupId'', JNumber 0)] else []) @
       (if dsc_in_reverted_frame c then [(''inRevertedFrame'', JBool True)] else []) @
       (if dsc_iteration c > 0 then [(''discoveryIteration'', JNumber (int (dsc_iteration c)))] else []) @
       (if dsc_trace_depth c > 0 then [(''l1TraceDepth'', JNumber (int (dsc_trace_depth c)))] else []) @
       (if dsc_trace_depth c > 1 then [(''scope'', JList (replicate (dsc_trace_depth c) (JText ''0x0'')))] else [])))"

text \<open>The gas price is a JSON number, so it has to fit into 64 bits; otherwise \<open>json!\<close> panics.\<close>

definition table_request :: "formats \<Rightarrow> wire \<Rightarrow> string \<Rightarrow> discovered_call list \<Rightarrow> u128 \<Rightarrow> json option" where
  "table_request F W raw_tx calls price =
     (if unat price < 2 ^ 64 then
        Some (JObject [(''calls'', JList (map (call_json F W) calls)), (''gasPrice'', JNumber (uint price)), (''rawL1Tx'', JText raw_tx)])
      else None)"

datatype process_error = Bad_Transaction | Request_Failed | Rpc_Refused

text \<open>What the transaction codec reads from a raw transaction.\<close>

record tx_fields =
  txf_from :: "address option"
  txf_to :: "address option"
  txf_value :: u256
  txf_input :: bytes
  txf_max_fee :: u128
  txf_hash :: b256

record table_env =
  te_process :: process_env
  te_wire :: wire
  te_decode_tx :: "bytes \<Rightarrow> tx_fields option"
  te_decode_hex :: "string \<Rightarrow> bytes option"
  te_show_hash :: "b256 \<Rightarrow> string"
  te_answer :: "json \<Rightarrow> json json_rpc_response option"

text \<open>\<open>compute_tx_hash\<close> of \<open>common.rs\<close>; its hex decoder is alloy's.\<close>

definition compute_tx_hash :: "table_env \<Rightarrow> string \<Rightarrow> string option" where
  "compute_tx_hash T raw_tx =
     Option.bind (te_decode_hex T (strip_0x raw_tx)) (\<lambda>bs. map_option (\<lambda>t. te_show_hash T (txf_hash t)) (te_decode_tx T bs))"

definition queue_execution_table ::
    "table_env \<Rightarrow> string \<Rightarrow> discovered_call list \<Rightarrow> u128 \<Rightarrow> (process_error + string option) option" where
  "queue_execution_table T raw_tx calls effective_gas_price =
     map_option (\<lambda>req. case te_answer T req of
         None \<Rightarrow> Inl Request_Failed
       | Some r \<Rightarrow> (case into_result r of
             None \<Rightarrow> Inl Rpc_Refused
           | Some result_val \<Rightarrow>
               Inr (Some (or_default (or_default ''0x'' (text_field ''callId'' result_val)) (compute_tx_hash T raw_tx)))))
       (table_request (sim_formats (px_base (te_process T))) (te_wire T) raw_tx calls effective_gas_price)"

definition extract_gas_price_from_raw_tx :: "table_env \<Rightarrow> string \<Rightarrow> u128 option option" where
  "extract_gas_price_from_raw_tx T raw_tx =
     map_option (\<lambda>decoded. Option.bind decoded (\<lambda>bs. map_option txf_max_fee (te_decode_tx T bs))) (hex_decode (strip_0x raw_tx))"

section \<open>The whole of it\<close>

definition discovery_rounds :: "process_env \<Rightarrow> proxy_cache \<Rightarrow> discovered_call list \<Rightarrow> (discovered_call list \<times> discovered_call list) option" where
  "discovery_rounds E cache detected =
     Option.bind (process_rounds E [1..<11] \<lparr>ps_calls = detected, ps_cache = cache, ps_last_walk = [], ps_last_trace = None\<rparr>) (\<lambda>s.
       map_option (\<lambda>calls. (calls, ps_last_walk s))
         (post_convergence E (ps_last_trace s) (if length (ps_calls s) > length detected then ps_calls s else detected)))"

definition processed_calls :: "process_env \<Rightarrow> bool \<Rightarrow> discovered_call list \<Rightarrow> proxy_cache \<Rightarrow> discovered_call list option" where
  "processed_calls E top_err detected cache =
     Option.bind (initial_enrichment E detected) (\<lambda>calls.
       map_option (\<lambda>(calls, last_converged_walk). final_correction last_converged_walk calls)
         (if top_err \<and> calls \<noteq> [] \<and> px_has_builder_key E then discovery_rounds E cache calls else Some (calls, [])))"

definition process_l1_to_l2_calls ::
    "table_env \<Rightarrow> string \<Rightarrow> bool \<Rightarrow> discovered_call list \<Rightarrow> proxy_cache \<Rightarrow> (process_error + string option) option" where
  "process_l1_to_l2_calls T raw_tx top_err detected cache =
     Option.bind (processed_calls (te_process T) top_err detected cache) (\<lambda>calls.
       if calls = [] then Some (Inr None)
       else Option.bind (extract_gas_price_from_raw_tx T raw_tx) (\<lambda>price.
         queue_execution_table T raw_tx calls (or_default 0 price)))"

section \<open>What the processing keeps\<close>

lemma frame_with_outcome [simp]: "frame (with_outcome oc c) = frame c"
  by (simp add: with_outcome_def)

lemma refreshed_frame [simp]: "frame (refresh E t c) = frame c"
  by (simp add: refresh_def Let_def)

lemma default_frame [simp]: "frame (default_to_void c) = frame c"
  by (simp add: default_to_void_def)

lemma pre_enrich_frame: "map frame (pre_enrich E t reentrant calls) = map frame calls"
  by (simp add: pre_enrich_def Let_def split: option.split)

lemma map_frame_update: "frame x = frame (calls ! i) \<Longrightarrow> map frame (calls[i := x]) = map frame calls"
  by (metis map_update list_update_id list_update_beyond not_le nth_map)

lemma level_delivery_frame: "map frame (level_delivery E r ci calls) = map frame calls"
  by (simp add: level_delivery_def map_frame_update split: option.split prod.split)

lemma level_simulation_frame: "level_simulation E r reentrant sys idx roots calls = Some calls' \<Longrightarrow> map frame calls' = map frame calls"
  by (auto simp: level_simulation_def Let_def map_frame_update split: if_splits option.splits prod.splits)

lemma enrich_level_frame: "enrich_level E r reentrant sys roots idx calls = Some calls' \<Longrightarrow> map frame calls' = map frame calls"
  by (auto simp: enrich_level_def level_delivery_frame dest!: level_simulation_frame split: if_splits option.splits)

lemma enrich_levels_frame: "enrich_levels E reentrant sys roots idxs calls = Some calls' \<Longrightarrow> map frame calls' = map frame calls"
  by (induction idxs arbitrary: calls) (auto simp: bind_eq_Some_conv dest!: enrich_level_frame)

text \<open>Only delivery results change after convergence.\<close>

lemma post_convergence_frame: "post_convergence E t calls = Some calls' \<Longrightarrow> map frame calls' = map frame calls"
  by (auto simp: post_convergence_def Let_def pre_enrich_frame dest!: enrich_levels_frame split: if_splits option.splits)

lemma map_core_frame: "map frame xs = map frame ys \<Longrightarrow> map core xs = map core ys"
  by (simp add: core_def list_eq_iff_nth_eq)

lemma core_parents: "map core xs = map core ys \<Longrightarrow> map dsc_parent xs = map dsc_parent ys"
proof -
  have "dsc_parent c = dsc_parent (core c)" for c by (simp add: core_def without_flag_def frame_def)
  then show "map core xs = map core ys \<Longrightarrow> map dsc_parent xs = map dsc_parent ys" by (metis (no_types, lifting) list.map_comp map_eq_conv comp_apply)
qed

lemma well_linked_parents:
  assumes "map dsc_parent xs = map dsc_parent ys"
  shows "well_linked xs \<longleftrightarrow> well_linked ys"
proof -
  have len: "length xs = length ys" using assms map_eq_imp_length_eq by blast
  have same: "dsc_parent (xs ! i) = dsc_parent (ys ! i)" if "i < length ys" for i using assms that len by (metis nth_map)
  have "(case dsc_parent (xs ! i) of Root \<Rightarrow> True | Child idx \<Rightarrow> index_as_usize idx < length xs \<and> dsc_parent (xs ! index_as_usize idx) = Root) \<longleftrightarrow>
      (case dsc_parent (ys ! i) of Root \<Rightarrow> True | Child idx \<Rightarrow> index_as_usize idx < length ys \<and> dsc_parent (ys ! index_as_usize idx) = Root)"
    if "i < length ys" for i
    using same [OF that] same len by (auto split: parent_link.split)
  then show ?thesis using len unfolding well_linked_def all_set_conv_all_nth by auto
qed

lemma initial_cores: "initial_enrichment E calls = Some res \<Longrightarrow> prefix (map core calls) (map core res)"
proof (cases "px_ccm E = 0")
  case False
  assume run: "initial_enrichment E calls = Some res"
  obtain cs' kids ds where initial: "enrich_initial E (enrichment_has_partial_revert calls) (round_system_address E 0) 0 [] [] calls = Some (cs', kids)"
    and res: "res = cs' @ ds"
    using run False by (fastforce simp: initial_enrichment_def split: if_splits)
  note calls = enrich_initial_calls [OF initial]
  have "map core cs' = map core calls"
  proof (rule nth_equalityI)
    fix j assume j: "j < length (map core cs')"
    then have "enriched_after E (enrichment_has_partial_revert calls) (round_system_address E 0) j [] [] (take j cs') (calls ! j) (cs' ! j)"
      using calls by simp
    then show "map core cs' ! j = map core calls ! j" using j calls by (auto simp: enriched_after_def Let_def core_def split: option.splits)
  qed (use calls in simp)
  then show ?thesis by (simp add: res)
qed (simp add: initial_enrichment_def)

text \<open>
  C32: the processed calls contain the detected ones, in place and with their destination, calldata,
  value, source and depth, and every link leads to a call from L1.
\<close>

theorem processed_calls_linked:
  assumes "processed_calls E top_err detected cache = Some calls" "\<forall>c \<in> set detected. dsc_parent c = Root"
  shows "well_linked calls \<and> prefix (map core detected) (map core calls)"
proof -
  obtain enriched where enriched: "initial_enrichment E detected = Some enriched"
    using assms(1) by (auto simp: processed_calls_def bind_eq_Some_conv)
  note first = initial_links [OF enriched assms(2)] initial_cores [OF enriched]
  obtain cs walk where out: "calls = final_correction walk cs"
    and linked: "well_linked cs" and pre: "prefix (map core enriched) (map core cs)"
  proof (cases "top_err \<and> enriched \<noteq> [] \<and> px_has_builder_key E")
    case False
    then show thesis using assms(1) enriched first that [of "[]" enriched] by (auto simp: processed_calls_def)
  next
    case True
    let ?s0 = "\<lparr>ps_calls = enriched, ps_cache = cache, ps_last_walk = [], ps_last_trace = None\<rparr>"
    obtain s cs where s: "process_rounds E [1..<11] ?s0 = Some s"
      and post: "post_convergence E (ps_last_trace s) (if length (ps_calls s) > length enriched then ps_calls s else enriched) = Some cs"
      and calls: "calls = final_correction (ps_last_walk s) cs"
      using assms(1) enriched True by (fastforce simp: processed_calls_def discovery_rounds_def bind_eq_Some_conv)
    have kept: "well_linked (ps_calls s)" "prefix enriched (ps_calls s)" using rounds_keep_links [OF s] first(1) by auto
    let ?cs0 = "if length (ps_calls s) > length enriched then ps_calls s else enriched"
    have "well_linked ?cs0" "prefix enriched ?cs0" using kept first(1) by auto
    moreover have same: "map core cs = map core ?cs0" using map_core_frame [OF post_convergence_frame [OF post]] by simp
    ultimately have "well_linked cs" "prefix (map core enriched) (map core cs)"
      using well_linked_parents [OF core_parents [OF same]] map_mono_prefix [of enriched ?cs0 core] by (simp_all only:)
    then show thesis using that [OF calls] by blast
  qed
  have "map core (final_correction walk cs) = map core cs"
  proof -
    have "core c = frame (without_flag c)" for c by (simp add: core_def without_flag_def frame_def)
    then show ?thesis using final_correction_core [of walk cs] by (metis (no_types, lifting) list.map_comp map_eq_conv comp_apply)
  qed
  then show ?thesis using out linked pre first(2) well_linked_parents core_parents by (metis prefix_order.trans)
qed

end
