(* ===== verification/Rpc_Server.thy ===== *)
theory Rpc_Server
  imports Protocol_Txs Queue_Drain Withdrawal_Chains
begin

text \<open>
  The \<open>syncrollups\<close> RPC namespace (\<open>rpc.rs\<close>) and the execution planner it calls
  (\<open>execution_planner.rs\<close>): simulation, action hashes, and the requests that queue calls for the
  builder. The L2 database, the block builder, the EVM and the transaction codec are the fields
  of \<open>planner_env\<close>. A handler returns its answer and the queues after it. Action types are
  ASCII strings.
\<close>

section \<open>Types of the answers\<close>

record serializable_state_delta =
  sd_rollup_id :: u256
  sd_current_state :: b256
  sd_new_state :: b256
  sd_ether_delta :: i256

record serializable_action =
  sa_action_type :: string
  sa_rollup_id :: u256
  sa_destination :: address
  sa_value :: u256
  sa_data :: bytes
  sa_failed :: bool
  sa_source_address :: address
  sa_source_rollup :: u256
  sa_scope :: "u256 list"

record serializable_execution_entry =
  se_state_deltas :: "serializable_state_delta list"
  se_action_hash :: b256
  se_next_action :: serializable_action

record simulation_result =
  sr_success :: bool
  sr_gas_used :: u64
  sr_return_data :: bytes
  sr_pre_state_root :: b256
  sr_post_state_root :: b256
  sr_action_hash :: b256
  sr_execution_entry :: serializable_execution_entry

record action_params =
  ap_action_type :: string
  ap_rollup_id :: u256
  ap_destination :: address
  ap_value :: u256
  ap_data :: bytes
  ap_failed :: bool
  ap_source_address :: address
  ap_source_rollup :: u256
  ap_scope :: "u256 list"

fun action_type_name :: "cross_chain_action_type \<Rightarrow> string" where
  "action_type_name Call = ''CALL''"
| "action_type_name Result = ''RESULT''"
| "action_type_name L2Tx = ''L2TX''"
| "action_type_name Revert = ''REVERT''"
| "action_type_name RevertContinue = ''REVERT_CONTINUE''"

definition action_to_serializable :: "cross_chain_action \<Rightarrow> serializable_action" where
  "action_to_serializable a =
     \<lparr>sa_action_type = action_type_name (action_type a), sa_rollup_id = as_u256 (rollup_id a), sa_destination = destination a,
      sa_value = call_value a, sa_data = call_data a, sa_failed = failed a, sa_source_address = source_address a,
      sa_source_rollup = as_u256 (source_rollup a), sa_scope = as_slice (scope a)\<rparr>"

definition entry_to_serializable :: "cross_chain_execution_entry \<Rightarrow> serializable_execution_entry" where
  "entry_to_serializable e =
     \<lparr>se_state_deltas = map (\<lambda>d. \<lparr>sd_rollup_id = as_u256 (delta_rollup_id d), sd_current_state = current_state d,
        sd_new_state = new_state d, sd_ether_delta = ether_delta d\<rparr>) (state_deltas e),
      se_action_hash = hash_as_b256 (action_hash e), se_next_action = action_to_serializable (next_action e)\<rparr>"

definition ascii_upper :: "char \<Rightarrow> char" where
  "ascii_upper c = (let n = of_char c :: nat in if 97 \<le> n \<and> n \<le> 122 then char_of (n - 32) else c)"

definition to_uppercase :: "string \<Rightarrow> string" where
  "to_uppercase s = map ascii_upper s"

definition parse_action_type :: "string \<Rightarrow> string + sol_action_type" where
  "parse_action_type s =
     (let t = to_uppercase s in
      if t = ''CALL'' then Inr CALL else if t = ''RESULT'' then Inr RESULT else if t = ''L2TX'' then Inr L2TX
      else if t = ''REVERT'' then Inr REVERT else if t = ''REVERT_CONTINUE'' then Inr REVERT_CONTINUE else Inl t)"

definition compute_action_hash_from_params :: "abi \<Rightarrow> action_params \<Rightarrow> string + b256" where
  "compute_action_hash_from_params A p =
     (case parse_action_type (ap_action_type p) of
        Inl other \<Rightarrow> Inl other
      | Inr t \<Rightarrow> Inr (keccak A (enc_action A
          \<lparr>sol_actionType = t, sol_rollupId = ap_rollup_id p, sol_destination = ap_destination p, sol_value = ap_value p,
           sol_data = ap_data p, sol_failed = ap_failed p, sol_sourceAddress = ap_source_address p,
           sol_sourceRollup = ap_source_rollup p, sol_scope = ap_scope p\<rparr>)))"

section \<open>The planner\<close>

record planner_header =
  ph_hash :: b256
  ph_state_root :: b256
  ph_timestamp :: u64
  ph_gas_limit :: u64

record block_attributes =
  at_timestamp :: u64
  at_fee_recipient :: address
  at_prev_randao :: b256
  at_gas_limit :: u64
  at_beacon_root :: "b256 option"

datatype evm_output = Out_Call bytes | Out_Create bytes

datatype evm_outcome = Evm_Success evm_output | Evm_Revert bytes | Evm_Halt

text \<open>
  \<open>pe_execute\<close> answers with the gas used, or with the text of an error; a transaction that
  reverts in the EVM is executed and has used its gas. Reads of the database are \<open>None\<close> when
  they fail; a header that is read may be missing.
\<close>

record ('tx, 'blk) planner_env =
  pe_decode :: "bytes \<Rightarrow> 'tx option"
  pe_recovers :: "'tx \<Rightarrow> bool"
  pe_best :: "u64 option"
  pe_header :: "u64 \<Rightarrow> planner_header option option"
  pe_state :: "b256 \<Rightarrow> bool"
  pe_open :: "planner_header \<Rightarrow> block_attributes \<Rightarrow> 'blk option"
  pe_pre_changes :: "'blk \<Rightarrow> 'blk option"
  pe_execute :: "'tx \<Rightarrow> 'blk \<Rightarrow> (bytes + u64) \<times> 'blk"
  pe_finish :: "'blk \<Rightarrow> b256 option"
  pe_encode_list :: "'tx list \<Rightarrow> bytes"
  pe_evm_ready :: "planner_header \<Rightarrow> bool"
  pe_system_call :: "planner_header \<Rightarrow> address \<Rightarrow> address \<Rightarrow> bytes \<Rightarrow> evm_outcome option"

datatype planner_error =
    Bad_Rlp | No_Signer | Read_Failed | Header_Missing | No_State | Builder_Failed | Pre_Changes_Failed
  | Finish_Failed | Evm_Failed

definition latest_header :: "('tx, 'blk) planner_env \<Rightarrow> planner_error + planner_header" where
  "latest_header E =
     (case pe_best E of
        None \<Rightarrow> Inl Read_Failed
      | Some n \<Rightarrow> (case pe_header E n of None \<Rightarrow> Inl Read_Failed | Some None \<Rightarrow> Inl Header_Missing | Some (Some h) \<Rightarrow> Inr h))"

definition compute_l2tx_action_hash :: "abi \<Rightarrow> u64 \<Rightarrow> bytes \<Rightarrow> action_hash" where
  "compute_l2tx_action_hash A rid rlp =
     ActionHash (keccak A (enc_action A
       \<lparr>sol_actionType = L2TX, sol_rollupId = ucast rid, sol_destination = 0, sol_value = 0, sol_data = rlp, sol_failed = False,
        sol_sourceAddress = 0, sol_sourceRollup = 0, sol_scope = []\<rparr>))"

definition own_delta :: "u64 \<Rightarrow> b256 \<Rightarrow> b256 \<Rightarrow> cross_chain_state_delta" where
  "own_delta rid pre post =
     \<lparr>delta_rollup_id = RollupId (ucast rid), current_state = pre, new_state = post, ether_delta = 0\<rparr>"

definition planner_entry :: "u64 \<Rightarrow> b256 \<Rightarrow> b256 \<Rightarrow> action_hash \<Rightarrow> bytes \<Rightarrow> bool \<Rightarrow> cross_chain_execution_entry" where
  "planner_entry rid pre post h data flag =
     \<lparr>state_deltas = [own_delta rid pre post], action_hash = h, next_action = result_action (RollupId (ucast rid)) data flag\<rparr>"

definition simulate_transaction :: "('tx, 'blk) planner_env \<Rightarrow> abi \<Rightarrow> builder_config \<Rightarrow> bytes \<Rightarrow> planner_error + simulation_result" where
  "simulate_transaction E A c rlp =
     (case pe_decode E rlp of
        None \<Rightarrow> Inl Bad_Rlp
      | Some tx \<Rightarrow>
          if \<not> pe_recovers E tx then Inl No_Signer
          else (case latest_header E of
              Inl err \<Rightarrow> Inl err
            | Inr parent \<Rightarrow>
                if \<not> pe_state E (ph_hash parent) then Inl No_State
                else (case pe_open E parent
                    \<lparr>at_timestamp = saturating_add (ph_timestamp parent) (block_time c), at_fee_recipient = builder_address c,
                     at_prev_randao = 0, at_gas_limit = ph_gas_limit parent, at_beacon_root = Some 0\<rparr> of
                    None \<Rightarrow> Inl Builder_Failed
                  | Some blk \<Rightarrow> (case pe_pre_changes E blk of
                        None \<Rightarrow> Inl Pre_Changes_Failed
                      | Some blk1 \<Rightarrow>
                          let (r, blk2) = pe_execute E tx blk1;
                              success = (case r of Inl _ \<Rightarrow> False | Inr _ \<Rightarrow> True);
                              gas = (case r of Inl _ \<Rightarrow> 0 | Inr g \<Rightarrow> g);
                              data = (case r of Inl msg \<Rightarrow> msg | Inr _ \<Rightarrow> [])
                          in (case pe_finish E blk2 of
                              None \<Rightarrow> Inl Finish_Failed
                            | Some post \<Rightarrow>
                                let h = compute_l2tx_action_hash A (cfg_rollup_id c) (pe_encode_list E [tx]);
                                    e = planner_entry (cfg_rollup_id c) (ph_state_root parent) post h data (\<not> success)
                                in Inr \<lparr>sr_success = success, sr_gas_used = gas, sr_return_data = data,
                                     sr_pre_state_root = ph_state_root parent, sr_post_state_root = post,
                                     sr_action_hash = hash_as_b256 h, sr_execution_entry = entry_to_serializable e\<rparr>)))))"

fun evm_output_bytes :: "evm_output \<Rightarrow> bytes" where
  "evm_output_bytes (Out_Call d) = d"
| "evm_output_bytes (Out_Create d) = d"

fun call_answer :: "evm_outcome \<Rightarrow> bool \<times> bytes" where
  "call_answer (Evm_Success out) = (True, evm_output_bytes out)"
| "call_answer (Evm_Revert out) = (False, out)"
| "call_answer Evm_Halt = (False, [])"

definition simulate_call :: "('tx, 'blk) planner_env \<Rightarrow> address \<Rightarrow> bytes \<Rightarrow> planner_error + bool \<times> bytes" where
  "simulate_call E dest data =
     (case latest_header E of
        Inl err \<Rightarrow> Inl err
      | Inr h \<Rightarrow>
          if \<not> pe_state E (ph_hash h) then Inl No_State
          else if \<not> pe_evm_ready E h then Inl Builder_Failed
          else (case pe_system_call E h 0 dest data of None \<Rightarrow> Inl Evm_Failed | Some r \<Rightarrow> Inr (call_answer r)))"

definition build_entries_from_encoded :: "abi \<Rightarrow> u64 \<Rightarrow> b256 \<Rightarrow> b256 \<Rightarrow> bytes \<Rightarrow> cross_chain_execution_entry list" where
  "build_entries_from_encoded A rid pre post encoded =
     (if encoded = [] then [] else [planner_entry rid pre post (compute_l2tx_action_hash A rid encoded) [] False])"

definition build_entries_for_block :: "('tx list \<Rightarrow> bytes) \<Rightarrow> abi \<Rightarrow> u64 \<Rightarrow> b256 \<Rightarrow> b256 \<Rightarrow> 'tx list \<Rightarrow> cross_chain_execution_entry list" where
  "build_entries_for_block encode_list A rid pre post txs =
     (if txs = [] then [] else [planner_entry rid pre post (compute_l2tx_action_hash A rid (encode_list txs)) [] False])"

definition build_state_only_entry :: "u64 \<Rightarrow> b256 \<Rightarrow> b256 \<Rightarrow> cross_chain_execution_entry list" where
  "build_state_only_entry rid pre post = (if pre = post then [] else [planner_entry rid pre post ZERO_HASH [] False])"

section \<open>Requests\<close>

record cross_chain_call_params =
  cp_destination :: address
  cp_data :: bytes
  cp_value :: u256
  cp_source_address :: address
  cp_source_rollup :: u256
  cp_gas_price :: u128
  cp_raw_l1_tx :: bytes
  cp_l2_return_data :: "bytes option"
  cp_l2_call_success :: "bool option"

text \<open>\<open>gas_price\<close> and the two precomputed L2 results of this request are never read.\<close>

record l2_cross_chain_call_params =
  wp_destination :: address
  wp_data :: bytes
  wp_value :: u256
  wp_source_address :: address
  wp_delivery_return_data :: bytes
  wp_delivery_failed :: bool
  wp_raw_l2_tx :: bytes
  wp_l2_return_data :: "bytes option"
  wp_l2_call_success :: "bool option"
  wp_l1_delivery_scope :: "u256 list"
  wp_tx_reverts :: tx_outcome

record execution_table_call =
  tp_destination :: address
  tp_data :: bytes
  tp_value :: u256
  tp_source_address :: address
  tp_l2_return_data :: bytes
  tp_call_success :: bool
  tp_parent_call_index :: parent_link
  tp_target_rollup_id :: "u64 option"
  tp_scope :: "u256 list"
  tp_discovery_iteration :: nat
  tp_l1_trace_depth :: nat
  tp_in_reverted_frame :: bool

record execution_table_params =
  tp_calls :: "execution_table_call list"
  tp_gas_price :: u128
  tp_raw_l1_tx :: bytes

record l2_table_call =
  vp_destination :: address
  vp_data :: bytes
  vp_value :: u256
  vp_source_address :: address
  vp_delivery_return_data :: bytes
  vp_delivery_failed :: bool
  vp_scope :: "u256 list"
  vp_in_reverted_frame :: bool

record l2_table_return_call =
  up_destination :: address
  up_data :: bytes
  up_value :: u256
  up_source_address :: address
  up_parent_call_index :: parent_link
  up_l2_return_data :: "bytes option"
  up_l2_delivery_failed :: bool
  up_scope :: "u256 list"

record l2_table_params =
  vp_l2_calls :: "l2_table_call list"
  vp_return_calls :: "l2_table_return_call list"
  vp_gas_price :: u128
  vp_raw_l2_tx :: bytes
  vp_tx_reverts :: tx_outcome

record table_result =
  tr_l2_entry_count :: nat
  tr_l1_entry_count :: nat
  tr_call_id :: b256

datatype rpc_error =
    Not_Configured | No_Calls | No_Pattern | No_Entries | Queue_Full | Simulation_Failed planner_error
  | Bad_Envelope | Unknown_Action_Type string | Table_Panic

definition rpc_code :: "rpc_error \<Rightarrow> int" where
  "rpc_code err = (case err of No_Calls \<Rightarrow> - 32602 | Unknown_Action_Type _ \<Rightarrow> - 32602 | _ \<Rightarrow> - 32000)"

text \<open>The queues that the handlers share with the driver; the L1 transactions to forward are the legacy queue.\<close>

record rpc_state =
  st_queues :: rpc_queues
  st_forward_txs :: "bytes list"
  st_synced :: bool

record ('tx, 'blk) rpc_env =
  re_planner :: "('tx, 'blk) planner_env"
  re_abi :: abi
  re_config :: builder_config
  re_envelope_hash :: "bytes \<Rightarrow> b256 option"

definition our_rollup :: "('tx, 'blk) rpc_env \<Rightarrow> rollup_id" where
  "our_rollup R = RollupId (ucast (cfg_rollup_id (re_config R)))"

section \<open>The handlers\<close>

definition rpc_simulate_transaction :: "('tx, 'blk) rpc_env \<Rightarrow> bytes \<Rightarrow> rpc_error + simulation_result" where
  "rpc_simulate_transaction R tx =
     (case simulate_transaction (re_planner R) (re_abi R) (re_config R) tx of
        Inl err \<Rightarrow> Inl (Simulation_Failed err) | Inr r \<Rightarrow> Inr r)"

definition get_state_root :: "('tx, 'blk) rpc_env \<Rightarrow> rpc_error + b256" where
  "get_state_root R = (case latest_header (re_planner R) of Inl err \<Rightarrow> Inl (Simulation_Failed err) | Inr h \<Rightarrow> Inr (ph_state_root h))"

definition is_synced :: "rpc_state \<Rightarrow> bool" where
  "is_synced s = st_synced s"

definition compute_action_hash :: "('tx, 'blk) rpc_env \<Rightarrow> action_params \<Rightarrow> rpc_error + b256" where
  "compute_action_hash R p =
     (case compute_action_hash_from_params (re_abi R) p of Inl t \<Rightarrow> Inl (Unknown_Action_Type t) | Inr h \<Rightarrow> Inr h)"

definition rpc_simulate_call :: "('tx, 'blk) rpc_env \<Rightarrow> address \<Rightarrow> bytes \<Rightarrow> rpc_error + bool \<times> bytes" where
  "rpc_simulate_call R dest data =
     (case simulate_call (re_planner R) dest data of Inl err \<Rightarrow> Inl (Simulation_Failed err) | Inr r \<Rightarrow> Inr r)"

definition MAX_QUEUED_CALLS :: nat where
  "MAX_QUEUED_CALLS = 500"

definition MAX_QUEUED_L2_CALLS :: nat where
  "MAX_QUEUED_L2_CALLS = 100"

definition MAX_FORWARD_TXS :: nat where
  "MAX_FORWARD_TXS = 1000"

definition push_call :: "queued_cross_chain_call \<Rightarrow> 'r \<Rightarrow> rpc_state \<Rightarrow> (rpc_error + 'r) \<times> rpc_state" where
  "push_call c r s =
     (let q = queued_cross_chain_calls (st_queues s) in
      if length q \<ge> MAX_QUEUED_CALLS then (Inl Queue_Full, s)
      else (Inr r, s\<lparr>st_queues := (st_queues s)\<lparr>queued_cross_chain_calls := q @ [c]\<rparr>\<rparr>))"

definition push_l2_call :: "queued_l2_to_l1_call \<Rightarrow> 'r \<Rightarrow> rpc_state \<Rightarrow> (rpc_error + 'r) \<times> rpc_state" where
  "push_l2_call c r s =
     (let q = queued_l2_to_l1_calls (st_queues s) in
      if length q \<ge> MAX_QUEUED_L2_CALLS then (Inl Queue_Full, s)
      else (Inr r, s\<lparr>st_queues := (st_queues s)\<lparr>queued_l2_to_l1_calls := q @ [c]\<rparr>\<rparr>))"

definition queue_l1_forward_tx :: "('tx, 'blk) rpc_env \<Rightarrow> bytes \<Rightarrow> rpc_state \<Rightarrow> (rpc_error + b256) \<times> rpc_state" where
  "queue_l1_forward_tx R raw s =
     (case re_envelope_hash R raw of
        None \<Rightarrow> (Inl Bad_Envelope, s)
      | Some h \<Rightarrow>
          if length (st_forward_txs s) \<ge> MAX_FORWARD_TXS then (Inl Queue_Full, s)
          else (Inr h, s\<lparr>st_forward_txs := st_forward_txs s @ [raw]\<rparr>))"

definition RECEIVE_TOKENS_SELECTOR :: bytes where
  "RECEIVE_TOKENS_SELECTOR = [0x6b, 0x39, 0x96, 0xb0]"

definition is_bridge_receive_tokens :: "builder_config \<Rightarrow> cross_chain_call_params \<Rightarrow> bool" where
  "is_bridge_receive_tokens c p \<longleftrightarrow> length (cp_data p) \<ge> 4 \<and> take 4 (cp_data p) = RECEIVE_TOKENS_SELECTOR \<and>
     cp_destination p = bridge_l2_address c"

definition call_result :: "('tx, 'blk) rpc_env \<Rightarrow> cross_chain_call_params \<Rightarrow> planner_error + bool \<times> bytes" where
  "call_result R p =
     (case (cp_l2_return_data p, cp_l2_call_success p) of
        (Some data, Some ok) \<Rightarrow> Inr (ok, data)
      | _ \<Rightarrow> if is_bridge_receive_tokens (re_config R) p then Inr (True, [])
             else simulate_call (re_planner R) (cp_destination p) (cp_data p))"

definition initiate_cross_chain_call :: "('tx, 'blk) rpc_env \<Rightarrow> cross_chain_call_params \<Rightarrow> rpc_state
    \<Rightarrow> (rpc_error + b256) \<times> rpc_state" where
  "initiate_cross_chain_call R p s =
     (if rollups_address (re_config R) = 0 then (Inl Not_Configured, s)
      else case call_result R p of
          Inl err \<Rightarrow> (Inl (Simulation_Failed err), s)
        | Inr (ok, data) \<Rightarrow>
            let (c, r) = build_cross_chain_call_entries (re_abi R) (our_rollup R) (cp_destination p) (cp_data p) (cp_value p)
                (cp_source_address p) (from_abi_boundary (cp_source_rollup p)) ok data
            in push_call (Simple_Call c r (cp_gas_price p) (cp_raw_l1_tx p) Outcome_Success Chained)
                 (hash_as_b256 (action_hash c)) s)"

definition initiate_l2_cross_chain_call :: "('tx, 'blk) rpc_env \<Rightarrow> l2_cross_chain_call_params \<Rightarrow> rpc_state
    \<Rightarrow> (rpc_error + b256) \<times> rpc_state" where
  "initiate_l2_cross_chain_call R p s =
     (if rollups_address (re_config R) = 0 then (Inl Not_Configured, s)
      else
        let w = build_l2_to_l1_call_entries (re_abi R) (wp_destination p) (wp_data p) (wp_value p) (wp_source_address p)
              (cfg_rollup_id (re_config R)) (wp_raw_l2_tx p) (wp_delivery_return_data p) (wp_delivery_failed p)
              (wp_l1_delivery_scope p) (wp_tx_reverts p)
        in push_l2_call
             \<lparr>q_l2_table_entries = l2_table_entries w, q_l1_deferred_entries = l1_deferred_entries w, q_user = w_user w,
              q_amount = w_amount w, q_raw_l2_tx = wp_raw_l2_tx p, q_rlp_encoded_tx = wp_raw_l2_tx p, q_trigger_count = 1,
              q_tx_reverts = wp_tx_reverts p\<rparr>
             (hash_as_b256 (action_hash (hd (l2_table_entries w)))) s)"

definition to_l1_detected :: "execution_table_call \<Rightarrow> l1_detected_call" where
  "to_l1_detected c =
     \<lparr>lc_destination = tp_destination c, lc_data = tp_data c, lc_value = tp_value c, lc_source_address = tp_source_address c,
      lc_l2_return_data = tp_l2_return_data c, lc_call_success = tp_call_success c, lc_parent = tp_parent_call_index c,
      lc_target_rollup_id = tp_target_rollup_id c, lc_scope = from_parts (tp_scope c), lc_iteration = tp_discovery_iteration c,
      lc_l1_trace_depth = tp_l1_trace_depth c, lc_in_reverted_frame = tp_in_reverted_frame c\<rparr>"

definition first_call_result :: "('tx, 'blk) rpc_env \<Rightarrow> execution_table_call \<Rightarrow> bool \<times> bytes" where
  "first_call_result R c =
     (if tp_l2_return_data c \<noteq> [] \<or> \<not> tp_call_success c then (tp_call_success c, tp_l2_return_data c)
      else (case simulate_call (re_planner R) (tp_destination c) (tp_data c) of Inl _ \<Rightarrow> (True, []) | Inr r \<Rightarrow> r))"

definition build_execution_table :: "('tx, 'blk) rpc_env \<Rightarrow> execution_table_params \<Rightarrow> rpc_state
    \<Rightarrow> (rpc_error + table_result) \<times> rpc_state" where
  "build_execution_table R p s =
     (if rollups_address (re_config R) = 0 then (Inl Not_Configured, s)
      else case tp_calls p of
          [] \<Rightarrow> (Inl No_Calls, s)
        | first # _ \<Rightarrow>
            let detected = analyze_continuation_calls (map to_l1_detected (tp_calls p)) (cfg_rollup_id (re_config R));
                t = build_continuation_entries (re_abi R) detected (our_rollup R)
            in if detected = [] then (Inl No_Pattern, s)
               else if ce_l2 t = [] \<or> ce_l1 t = [] then (Inl No_Entries, s)
               else
                 let (ok, data) = first_call_result R first;
                     (c, _) = build_cross_chain_call_entries (re_abi R) (our_rollup R) (tp_destination first) (tp_data first)
                       (tp_value first) (tp_source_address first) MAINNET ok data
                 in push_call (With_Continuations (c # ce_l2 t) (ce_l1 t) (tp_gas_price p) (tp_raw_l1_tx p) Outcome_Success (ce_mode t))
                      \<lparr>tr_l2_entry_count = length (ce_l2 t), tr_l1_entry_count = length (ce_l1 t),
                       tr_call_id = hash_as_b256 (action_hash c)\<rparr> s)"

definition to_l2_detected :: "l2_table_call \<Rightarrow> l2_detected_call" where
  "to_l2_detected c =
     \<lparr>ld_destination = vp_destination c, ld_data = vp_data c, ld_value = vp_value c, ld_source_address = vp_source_address c,
      ld_delivery_return_data = vp_delivery_return_data c, ld_delivery_failed = vp_delivery_failed c,
      ld_scope = from_parts (vp_scope c), ld_in_reverted_frame = vp_in_reverted_frame c\<rparr>"

definition to_l2_return :: "l2_table_return_call \<Rightarrow> l2_return_call" where
  "to_l2_return c =
     \<lparr>rc_destination = up_destination c, rc_data = up_data c, rc_value = up_value c, rc_source_address = up_source_address c,
      rc_parent = up_parent_call_index c, rc_l2_return_data = (case up_l2_return_data c of None \<Rightarrow> [] | Some d \<Rightarrow> d),
      rc_l2_delivery_failed = up_l2_delivery_failed c, rc_scope = from_parts (up_scope c)\<rparr>"

text \<open>The builder's recursion is total, so \<open>Table_Panic\<close> stands for its fuel running out and is never returned.\<close>

definition build_l2_to_l1_execution_table :: "('tx, 'blk) rpc_env \<Rightarrow> l2_table_params \<Rightarrow> rpc_state
    \<Rightarrow> (rpc_error + table_result) \<times> rpc_state" where
  "build_l2_to_l1_execution_table R p s =
     (if rollups_address (re_config R) = 0 then (Inl Not_Configured, s)
      else if vp_l2_calls p = [] then (Inl No_Calls, s)
      else
        let detected = analyze_l2_to_l1_continuation_calls (map to_l2_detected (vp_l2_calls p))
              (map to_l2_return (vp_return_calls p)) (cfg_rollup_id (re_config R))
        in if detected = [] then (Inl No_Pattern, s)
           else (case build_l2_to_l1_continuation_entries (re_abi R) detected (our_rollup R) (vp_raw_l2_tx p) (vp_tx_reverts p) of
               None \<Rightarrow> (Inl Table_Panic, s)
             | Some t \<Rightarrow>
                 if wt_l2 t = [] \<or> wt_l1 t = [] then (Inl No_Entries, s)
                 else push_l2_call
                   \<lparr>q_l2_table_entries = wt_l2 t, q_l1_deferred_entries = wt_l1 t, q_user = vp_source_address (hd (vp_l2_calls p)),
                    q_amount = fold (\<lambda>c a. a + vp_value c) (vp_l2_calls p) 0, q_raw_l2_tx = vp_raw_l2_tx p,
                    q_rlp_encoded_tx = vp_raw_l2_tx p, q_trigger_count = 1, q_tx_reverts = vp_tx_reverts p\<rparr>
                   \<lparr>tr_l2_entry_count = length (wt_l2 t), tr_l1_entry_count = length (wt_l1 t),
                    tr_call_id = hash_as_b256 (action_hash (hd (wt_l2 t)))\<rparr> s))"

end
