(* ===== verification/Rpc_Requests.thy ===== *)
theory Rpc_Requests
  imports Rpc_Server Builder_Tick
begin

text \<open>
  What the RPC server promises: the hash it computes for an action is the one the entries
  carry, its queues of calls are bounded as long as builds succeed, an accepted call is taken by the
  next build of the driver, and a table for a single call is the plain pair of entries.
\<close>

section \<open>Action hashes\<close>

definition params_of :: "string \<Rightarrow> serializable_action \<Rightarrow> action_params" where
  "params_of t a =
     \<lparr>ap_action_type = t, ap_rollup_id = sa_rollup_id a, ap_destination = sa_destination a, ap_value = sa_value a,
      ap_data = sa_data a, ap_failed = sa_failed a, ap_source_address = sa_source_address a,
      ap_source_rollup = sa_source_rollup a, ap_scope = sa_scope a\<rparr>"

lemma parse_type_name: "to_uppercase t = action_type_name ty \<Longrightarrow> parse_action_type t = Inr (action_type_to_sol ty)"
  by (cases ty) (simp_all add: parse_action_type_def Let_def)

lemma upper_type_name: "to_uppercase (action_type_name ty) = action_type_name ty"
  by (cases ty) (simp_all add: to_uppercase_def ascii_upper_def Let_def of_char_def)

text \<open>
  The action hash that the server computes for the JSON form of an action is the hash its entries
  carry, with the type in upper, lower or mixed case.
\<close>

theorem action_hash_of_answer:
  assumes "to_uppercase t = sa_action_type (action_to_serializable a)"
  shows "compute_action_hash R (params_of t (action_to_serializable a)) = Inr (hash_as_b256 (hash_of (re_abi R) a))"
proof -
  have "parse_action_type t = Inr (action_type_to_sol (action_type a))"
    using assms by (intro parse_type_name) (simp add: action_to_serializable_def)
  then show ?thesis
    by (simp add: compute_action_hash_def compute_action_hash_from_params_def params_of_def action_to_serializable_def
        hash_of_def to_sol_action_def)
qed

section \<open>Requests and the bounds of the queues\<close>

datatype request =
    Req_Call cross_chain_call_params
  | Req_Table execution_table_params
  | Req_L2_Call l2_cross_chain_call_params
  | Req_L2_Table l2_table_params
  | Req_Forward bytes

definition call_id_of :: "(rpc_error + table_result) \<times> rpc_state \<Rightarrow> (rpc_error + b256) \<times> rpc_state" where
  "call_id_of rs = (case fst rs of Inl err \<Rightarrow> Inl err | Inr r \<Rightarrow> Inr (tr_call_id r), snd rs)"

fun serve :: "('tx, 'blk) rpc_env \<Rightarrow> request \<Rightarrow> rpc_state \<Rightarrow> (rpc_error + b256) \<times> rpc_state" where
  "serve R (Req_Call p) s = initiate_cross_chain_call R p s"
| "serve R (Req_Table p) s = call_id_of (build_execution_table R p s)"
| "serve R (Req_L2_Call p) s = initiate_l2_cross_chain_call R p s"
| "serve R (Req_L2_Table p) s = call_id_of (build_l2_to_l1_execution_table R p s)"
| "serve R (Req_Forward tx) s = queue_l1_forward_tx R tx s"

abbreviation serve_all :: "('tx, 'blk) rpc_env \<Rightarrow> request list \<Rightarrow> rpc_state \<Rightarrow> rpc_state" where
  "serve_all R reqs s \<equiv> fold (\<lambda>q s. snd (serve R q s)) reqs s"

definition within :: "rpc_state \<Rightarrow> bool" where
  "within s \<longleftrightarrow> length (queued_cross_chain_calls (st_queues s)) \<le> 500 \<and> length (queued_l2_to_l1_calls (st_queues s)) \<le> 100"

text \<open>Every request appends at most one element to one queue, and none when that queue is full.\<close>

inductive appended :: "rpc_state \<Rightarrow> rpc_state \<Rightarrow> bool" where
  same: "appended s s"
| call: "length (queued_cross_chain_calls (st_queues s)) < 500 \<Longrightarrow>
     appended s (s\<lparr>st_queues := (st_queues s)\<lparr>queued_cross_chain_calls := queued_cross_chain_calls (st_queues s) @ [c]\<rparr>\<rparr>)"
| l2_call: "length (queued_l2_to_l1_calls (st_queues s)) < 100 \<Longrightarrow>
     appended s (s\<lparr>st_queues := (st_queues s)\<lparr>queued_l2_to_l1_calls := queued_l2_to_l1_calls (st_queues s) @ [w]\<rparr>\<rparr>)"
| forward: "length (st_forward_txs s) < 1000 \<Longrightarrow> appended s (s\<lparr>st_forward_txs := st_forward_txs s @ [tx]\<rparr>)"

lemma push_appends: "appended s (snd (push_call c r s))" "appended s (snd (push_l2_call w r s))"
  by (auto simp: push_call_def push_l2_call_def Let_def MAX_QUEUED_CALLS_def MAX_QUEUED_L2_CALLS_def intro: appended.intros)

lemma push_error: "fst (push_call c r s) = Inl err \<Longrightarrow> snd (push_call c r s) = s"
  "fst (push_l2_call w r s) = Inl err \<Longrightarrow> snd (push_l2_call w r s) = s"
  by (auto simp: push_call_def push_l2_call_def Let_def split: if_splits)

lemmas handler_defs = initiate_cross_chain_call_def initiate_l2_cross_chain_call_def build_execution_table_def
  build_l2_to_l1_execution_table_def queue_l1_forward_tx_def call_id_of_def

lemma serve_appends: "appended s (snd (serve R q s))"
  by (cases q) (auto simp: handler_defs Let_def MAX_FORWARD_TXS_def split: sum.splits prod.splits list.splits option.splits
      intro: appended.intros push_appends)

lemma serve_error: "fst (serve R q s) = Inl err \<Longrightarrow> snd (serve R q s) = s"
  by (cases q) (auto simp: handler_defs Let_def split: sum.splits prod.splits list.splits option.splits if_splits
      dest: push_error)

lemma appended_within: "appended s s' \<Longrightarrow> within s \<Longrightarrow> within s'"
  by (induction rule: appended.induct) (auto simp: within_def)

lemma serve_all_within: "within s \<Longrightarrow> within (serve_all R reqs s)"
  by (induction reqs arbitrary: s) (auto intro: appended_within serve_appends)

lemma serve_forward: "length (st_forward_txs (snd (serve R q s))) \<le> max 1000 (length (st_forward_txs s))"
proof -
  have "appended s s' \<Longrightarrow> length (st_forward_txs s') \<le> max 1000 (length (st_forward_txs s))" for s'
    by (induction rule: appended.induct) auto
  then show ?thesis using serve_appends by blast
qed

text \<open>
  The driver's side, with requests at any point. A drain takes calls out; a build that completes
  extends the forward queue with their transactions, one that a recovery stops early does not, and a
  failed one puts the calls back. The flush empties the forward queue. No request reads the pending
  L1 entries.
\<close>

inductive server_run :: "('tx, 'blk) rpc_env \<Rightarrow> bool \<Rightarrow> bytes list \<Rightarrow> bool \<Rightarrow> rpc_state \<Rightarrow> rpc_state \<Rightarrow> bool"
  for R :: "('tx, 'blk) rpc_env" and oc :: bool and sels :: "bytes list" and may_fail :: bool where
  start: "server_run R oc sels may_fail s s"
| request: "server_run R oc sels may_fail s s' \<Longrightarrow> server_run R oc sels may_fail s (snd (serve R q s'))"
| built: "server_run R oc sels may_fail s s' \<Longrightarrow> drain_rpc_queues oc sels fetched (st_queues s') = Inr (r, q) \<Longrightarrow>
     s'' = serve_all R reqs (s'\<lparr>st_queues := q\<rparr>) \<Longrightarrow>
     server_run R oc sels may_fail s (s''\<lparr>st_forward_txs := st_forward_txs s'' @ queued_l1_txs r\<rparr>)"
| stopped: "server_run R oc sels may_fail s s' \<Longrightarrow> drain_rpc_queues oc sels fetched (st_queues s') = Inr (r, q) \<Longrightarrow>
     server_run R oc sels may_fail s (serve_all R reqs (s'\<lparr>st_queues := q\<rparr>))"
| failed: "server_run R oc sels may_fail s s' \<Longrightarrow> may_fail \<Longrightarrow> drain_rpc_queues oc sels fetched (st_queues s') = Inr (r, q) \<Longrightarrow>
     s'' = serve_all R reqs (s'\<lparr>st_queues := q\<rparr>) \<Longrightarrow>
     server_run R oc sels may_fail s (s''\<lparr>st_queues := rollback_queue_drain r (st_queues s'')\<rparr>)"
| forwarded: "server_run R oc sels may_fail s s' \<Longrightarrow> server_run R oc sels may_fail s (s'\<lparr>st_forward_txs := []\<rparr>)"

lemma drain_within:
  assumes "drain_rpc_queues oc sels fetched (st_queues s) = Inr (r, q)" "within s"
  shows "within (s\<lparr>st_queues := q\<rparr>)"
  using assms(1)
proof (rule drain_rpc_queuesE)
  fix d
  assume q: "queued_cross_chain_calls q = left False (sort_by_gas_price (queued_cross_chain_calls (st_queues s)))"
    "queued_l2_to_l1_calls q = []"
  have "size (mset (left False (sort_by_gas_price (queued_cross_chain_calls (st_queues s))))) \<le>
      size (mset (queued_cross_chain_calls (st_queues s)))"
    using taken_left_mset [of False "sort_by_gas_price (queued_cross_chain_calls (st_queues s))"]
    by (metis mset_sort mset_subset_eq_add_right size_mset_mono sort_by_gas_price_def)
  then show ?thesis using assms(2) q by (simp add: within_def)
qed

lemma taken_length: "length (taken had cs) \<le> length cs"
  by (induction cs arbitrary: had) (auto simp: le_SucI)

lemma drain_forwards:
  assumes "drain_rpc_queues oc sels fetched s = Inr (r, q)"
  shows "length (queued_l1_txs r) \<le> length (queued_cross_chain_calls s)"
  using assms
proof (rule drain_rpc_queuesE)
  fix d
  assume "calls_for_repush r = taken False (sort_by_gas_price (queued_cross_chain_calls s))"
    "queued_l1_txs r = filter (\<lambda>tx. tx \<noteq> []) (map raw_l1_tx (calls_for_repush r))"
  then have "length (queued_l1_txs r) \<le> length (taken False (sort_by_gas_price (queued_cross_chain_calls s)))"
    by (metis length_filter_le length_map)
  also have "\<dots> \<le> length (queued_cross_chain_calls s)" using taken_length [of False "sort_by_gas_price (queued_cross_chain_calls s)"]
    by (simp add: sort_by_gas_price_def)
  finally show ?thesis .
qed

text \<open>
  C22: while no build fails, the queues of calls stay bounded: at most 500 calls to L2 and 100 calls
  to L1 wait, whatever requests arrive and however the driver drains, builds, stops and
  forwards, so that a build adds at most 500 transactions to the forward queue. No request
  raises that queue above 1000, whatever the builds have added to it, and a rejected request
  changes nothing.
\<close>

theorem requests_bounded:
  assumes "server_run R oc sels False s s'" "within s"
  shows "within s' \<and> (fst (serve R q s') = Inl err \<longrightarrow> snd (serve R q s') = s') \<and>
    length (st_forward_txs (snd (serve R q s'))) \<le> max 1000 (length (st_forward_txs s')) \<and>
    (drain_rpc_queues oc sels fetched (st_queues s') = Inr (r, qs) \<longrightarrow> length (queued_l1_txs r) \<le> 500)"
proof -
  have upd: "within (s\<lparr>st_forward_txs := txs\<rparr>) = within s" for s txs by (simp add: within_def)
  have "server_run R oc sels mf s s' \<Longrightarrow> \<not> mf \<Longrightarrow> within s \<Longrightarrow> within s'" for mf
  proof (induction rule: server_run.induct)
    case (request s s' q)
    then show ?case using appended_within [OF serve_appends] by blast
  next
    case (built s s' fetched r q s'' reqs)
    then show ?case unfolding upd using serve_all_within [OF drain_within [OF built.hyps(2)]] by blast
  next
    case (stopped s s' fetched r q reqs)
    then show ?case using serve_all_within [OF drain_within [OF stopped.hyps(2)]] by blast
  qed (simp_all add: upd)
  then have w: "within s'" using assms by blast
  then have "length (queued_l1_txs r) \<le> 500" if "drain_rpc_queues oc sels fetched (st_queues s') = Inr (r, qs)"
    using drain_forwards [OF that] by (simp add: within_def)
  with w show ?thesis using serve_error [of R q s' err] serve_forward by blast
qed

section \<open>Failed builds\<close>

definition simple_of :: "('tx, 'blk) rpc_env \<Rightarrow> cross_chain_call_params \<Rightarrow> bool \<Rightarrow> bytes \<Rightarrow> queued_cross_chain_call" where
  "simple_of R p ok data =
     (case build_cross_chain_call_entries (re_abi R) (our_rollup R) (cp_destination p) (cp_data p) (cp_value p)
        (cp_source_address p) (from_abi_boundary (cp_source_rollup p)) ok data of
        (c, r) \<Rightarrow> Simple_Call c r (cp_gas_price p) (cp_raw_l1_tx p) Outcome_Success Chained)"

lemma simple_of_simps [simp]: "\<not> is_continuation (simple_of R p ok data)" "raw_l1_tx (simple_of R p ok data) = cp_raw_l1_tx p"
  "gas_price (simple_of R p ok data) = cp_gas_price p"
  by (simp_all add: simple_of_def split: prod.split)

lemma initiate_accepts:
  assumes "rollups_address (re_config R) \<noteq> 0" "call_result R p = Inr (ok, data)"
  shows "initiate_cross_chain_call R p s =
    push_call (simple_of R p ok data) (hash_as_b256 (tracking_action_hash (simple_of R p ok data))) s"
  using assms by (simp add: initiate_cross_chain_call_def simple_of_def split: prod.split)

definition ready :: "('tx, 'blk) rpc_env \<Rightarrow> cross_chain_call_params \<Rightarrow> bool" where
  "ready R p \<longleftrightarrow> rollups_address (re_config R) \<noteq> 0 \<and> cp_l2_call_success p = Some True \<and> cp_l2_return_data p = Some []"

lemma ready_contributes: "\<exists>x. call_contribution oc sels (simple_of R p True data) = Inr x"
  by (simp add: simple_of_def build_cross_chain_call_entries_def Let_def result_action_def)

definition upd_calls :: "queued_cross_chain_call list \<Rightarrow> rpc_state \<Rightarrow> rpc_state" where
  "upd_calls cs s = s\<lparr>st_queues := (st_queues s)\<lparr>queued_cross_chain_calls := cs\<rparr>\<rparr>"

lemma upd_calls_simps [simp]: "queued_cross_chain_calls (st_queues (upd_calls cs s)) = cs" "upd_calls cs (upd_calls ds s) = upd_calls cs s"
  "queued_l2_to_l1_calls (st_queues (upd_calls cs s)) = queued_l2_to_l1_calls (st_queues s)"
  "pending_l1 (st_queues (upd_calls cs s)) = pending_l1 (st_queues s)"
  by (simp_all add: upd_calls_def)

lemma serve_many:
  assumes "ready R p" "k \<le> 500"
  shows "serve_all R (replicate k (Req_Call p)) (upd_calls [] s) = upd_calls (replicate k (simple_of R p True [])) s"
  using assms(2)
proof (induction k)
  case 0
  then show ?case by simp
next
  case (Suc k)
  then have "serve_all R (replicate (Suc k) (Req_Call p)) (upd_calls [] s) =
      snd (serve R (Req_Call p) (upd_calls (replicate k (simple_of R p True [])) s))"
    by (simp add: replicate_append_same [symmetric] del: replicate.simps)
  then show ?case using assms(1) Suc.prems
    by (simp add: ready_def initiate_accepts call_result_def push_call_def MAX_QUEUED_CALLS_def replicate_append_same upd_calls_def)
qed

lemma drain_loop_total: "\<forall>c \<in> set cs. \<exists>x. call_contribution oc sels c = Inr x \<Longrightarrow> \<exists>d. drain_loop oc sels cs s = Inr d"
proof (induction cs arbitrary: s)
  case (Cons c cs)
  then obtain l2 l1 where "call_contribution oc sels c = Inr (l2, l1)" by fastforce
  then show ?case using Cons by simp
qed simp

lemma insort_replicate: "insort_key f x (replicate n x) = replicate (Suc n) x"
  by (cases n) auto

lemma sort_replicate: "sort_by_gas_price (replicate n x) = replicate n x"
proof (induction n)
  case (Suc n)
  then show ?case using insort_replicate [of "\<lambda>c. - uint (gas_price c)" x n] by (simp add: sort_by_gas_price_def)
qed (simp add: sort_by_gas_price_def)

lemma left_simple: "\<forall>c \<in> set cs. \<not> is_continuation c \<Longrightarrow> left had cs = [] \<and> taken had cs = cs"
  by (induction cs arbitrary: had) auto

lemma failed_build_adds:
  assumes "ready R p" "queued_l2_to_l1_calls (st_queues s) = []"
  shows "\<exists>r q. drain_rpc_queues oc sels [] (st_queues (upd_calls (replicate m (simple_of R p True [])) s)) = Inr (r, q) \<and>
    (let s'' = serve_all R (replicate 500 (Req_Call p)) ((upd_calls (replicate m (simple_of R p True [])) s)\<lparr>st_queues := q\<rparr>)
     in s''\<lparr>st_queues := rollback_queue_drain r (st_queues s'')\<rparr> = upd_calls (replicate (500 + m) (simple_of R p True [])) s)"
proof -
  let ?C = "simple_of R p True []" and ?s = "upd_calls (replicate m (simple_of R p True [])) s"
  obtain d where "drain_loop oc sels (sort_by_gas_price (replicate m ?C)) \<lparr>dr_queue = [], dr_had_continuation = False,
      dr_rpc_entries = [], dr_l1_txs = [], dr_pending = pending_l1 (st_queues s), dr_repush = []\<rparr> = Inr d"
    using drain_loop_total [of "replicate m ?C"] ready_contributes by (metis in_set_replicate sort_replicate)
  then obtain r q where rq: "drain_rpc_queues oc sels [] (st_queues ?s) = Inr (r, q)"
    by (simp add: drain_rpc_queues_def Let_def)
  then have q: "queued_cross_chain_calls q = []" "queued_l2_to_l1_calls q = []" "calls_for_repush r = replicate m ?C"
    "l2_to_l1_for_repush r = []"
    by (rule drain_rpc_queuesE, simp add: sort_replicate left_simple assms(2))+
  have pend: "pending_l1 (rollback_queue_drain r (q\<lparr>queued_cross_chain_calls := replicate 500 ?C\<rparr>)) = pending_l1 (st_queues s)"
    using drain_rollback_lossless [OF rq, where cs = "replicate 500 ?C" and ws = "[]"] q(1,2)
    by (simp add: rollback_queue_drain_def)
  have "?s\<lparr>st_queues := q\<rparr> = upd_calls [] (?s\<lparr>st_queues := q\<rparr>)" using q(1) by (simp add: upd_calls_def)
  then have "serve_all R (replicate 500 (Req_Call p)) (?s\<lparr>st_queues := q\<rparr>) = upd_calls (replicate 500 ?C) (?s\<lparr>st_queues := q\<rparr>)"
    using serve_many [OF assms(1), of 500] by (metis order_refl)
  then show ?thesis using rq q pend assms(2)
    by (intro exI [of _ r] exI [of _ q])
       (auto simp: Let_def upd_calls_def rollback_queue_drain_def replicate_add intro!: rpc_state.equality rpc_queues.equality)
qed

text \<open>
  C23: failed builds make the queue unbounded. The limit of 500 is checked only when a request is
  accepted; a failed build puts back the calls it had drained, so requests that arrive during failing
  builds raise the number of waiting calls beyond every bound.
\<close>

theorem failed_builds_grow_queue:
  assumes "ready R p" "queued_l2_to_l1_calls (st_queues s) = []" "queued_cross_chain_calls (st_queues s) = []"
  shows "\<exists>s'. server_run R oc sels True s s' \<and> length (queued_cross_chain_calls (st_queues s')) \<ge> n"
proof -
  have "server_run R oc sels True s (upd_calls (replicate (500 * k) (simple_of R p True [])) s)" for k
  proof (induction k)
    case 0
    have "upd_calls [] s = s" using assms(3) by (simp add: upd_calls_def)
    then show ?case using server_run.start [of R oc sels True s] by simp
  next
    case (Suc k)
    obtain r q where "drain_rpc_queues oc sels [] (st_queues (upd_calls (replicate (500 * k) (simple_of R p True [])) s)) = Inr (r, q)"
      "let s'' = serve_all R (replicate 500 (Req_Call p)) ((upd_calls (replicate (500 * k) (simple_of R p True [])) s)\<lparr>st_queues := q\<rparr>)
       in s''\<lparr>st_queues := rollback_queue_drain r (st_queues s'')\<rparr> = upd_calls (replicate (500 + 500 * k) (simple_of R p True [])) s"
      using failed_build_adds [OF assms(1,2)] by blast
    from server_run.failed [OF Suc _ this(1) refl, of "replicate 500 (Req_Call p)"] this(2) show ?case
      by (simp add: Let_def)
  qed
  from this [of n] show ?thesis by (intro exI conjI) auto
qed

text \<open>
  Successful builds make the forward queue unbounded. The limit of 1000 is checked only when a
  client queues a transaction; a completed build extends the same queue without one, so builds whose
  flush sends nothing raise it beyond every bound.
\<close>

lemma build_forwards:
  assumes "ready R p" "cp_raw_l1_tx p \<noteq> []" "queued_cross_chain_calls (st_queues s) = []" "queued_l2_to_l1_calls (st_queues s) = []"
  shows "\<exists>s'. server_run R oc sels False s s' \<and> queued_cross_chain_calls (st_queues s') = [] \<and>
    queued_l2_to_l1_calls (st_queues s') = [] \<and> length (st_forward_txs s') = Suc (length (st_forward_txs s))"
proof -
  let ?C = "simple_of R p True []" and ?s = "snd (serve R (Req_Call p) s)"
  have s1: "?s = upd_calls [?C] s"
    using assms(1,3) by (simp add: ready_def initiate_accepts call_result_def push_call_def MAX_QUEUED_CALLS_def Let_def upd_calls_def)
  obtain r q where rq: "drain_rpc_queues oc sels [] (st_queues ?s) = Inr (r, q)"
    using failed_build_adds [OF assms(1,4), of oc sels 1] s1 by auto
  have calls: "left False (sort_by_gas_price (queued_cross_chain_calls (st_queues ?s))) = []"
    "taken False (sort_by_gas_price (queued_cross_chain_calls (st_queues ?s))) = [?C]"
    unfolding s1 by (simp_all add: sort_by_gas_price_def)
  from rq have q: "queued_cross_chain_calls q = [] \<and> queued_l2_to_l1_calls q = [] \<and> queued_l1_txs r = [cp_raw_l1_tx p]"
    by (rule drain_rpc_queuesE) (simp only: calls, simp add: assms(2))
  have "server_run R oc sels False s (?s\<lparr>st_queues := q\<rparr>\<lparr>st_forward_txs := st_forward_txs (?s\<lparr>st_queues := q\<rparr>) @ queued_l1_txs r\<rparr>)"
    by (rule server_run.built [OF server_run.request [OF server_run.start] rq, where reqs = "[]"]) simp
  moreover have "st_forward_txs ?s = st_forward_txs s" unfolding s1 by (simp add: upd_calls_def)
  ultimately show ?thesis using q by (intro exI conjI) (assumption, simp_all)
qed

lemma server_run_trans: "server_run R oc sels mf s' s'' \<Longrightarrow> server_run R oc sels mf s s' \<Longrightarrow> server_run R oc sels mf s s''"
  by (induction rule: server_run.induct) (auto intro: server_run.intros)

theorem builds_grow_forward_queue:
  assumes "ready R p" "cp_raw_l1_tx p \<noteq> []" "queued_cross_chain_calls (st_queues s) = []" "queued_l2_to_l1_calls (st_queues s) = []"
  shows "\<exists>s'. server_run R oc sels False s s' \<and> queued_cross_chain_calls (st_queues s') = [] \<and>
    queued_l2_to_l1_calls (st_queues s') = [] \<and> length (st_forward_txs s') \<ge> n"
proof (induction n)
  case 0
  then show ?case using server_run.start [of R oc sels False s] assms(3,4) by auto
next
  case (Suc n)
  then obtain s' where s': "server_run R oc sels False s s'" "queued_cross_chain_calls (st_queues s') = []"
    "queued_l2_to_l1_calls (st_queues s') = []" "length (st_forward_txs s') \<ge> n" by blast
  from build_forwards [OF assms(1,2) s'(2,3), of oc sels] s'(1,4) show ?case
    by (metis Suc_le_mono server_run_trans)
qed

section \<open>Accepted calls reach the next block\<close>

lemma serve_keeps_calls: "set (queued_cross_chain_calls (st_queues s)) \<subseteq> set (queued_cross_chain_calls (st_queues (serve_all R reqs s)))"
proof (induction reqs arbitrary: s)
  case (Cons q reqs)
  have "appended s s' \<Longrightarrow> set (queued_cross_chain_calls (st_queues s)) \<subseteq> set (queued_cross_chain_calls (st_queues s'))" for s'
    by (induction rule: appended.induct) auto
  then show ?case using Cons [of "snd (serve R q s)"] serve_appends [of s R q] by auto
qed simp

lemma accepted_call:
  assumes "initiate_cross_chain_call R p s = (Inr call_id, s')"
  shows "\<exists>c \<in> set (queued_cross_chain_calls (st_queues s')). \<not> is_continuation c \<and> hash_as_b256 (tracking_action_hash c) = call_id \<and>
    raw_l1_tx c = cp_raw_l1_tx p \<and> gas_price c = cp_gas_price p"
proof -
  have conf: "rollups_address (re_config R) \<noteq> 0" using assms by (auto simp: initiate_cross_chain_call_def)
  then obtain ok data where r: "call_result R p = Inr (ok, data)"
    using assms by (cases "call_result R p") (auto simp: initiate_cross_chain_call_def)
  then show ?thesis using assms conf
    by (auto simp: initiate_accepts push_call_def Let_def split: if_splits)
qed

lemma left_continuation: "c \<in> set (left had cs) \<Longrightarrow> is_continuation c"
  by (induction cs arbitrary: had) (auto split: if_splits)

lemma drained_simple:
  assumes "drain_rpc_queues oc sels fetched s = Inr (r, q)" "c \<in> set (queued_cross_chain_calls s)" "\<not> is_continuation c"
  shows "c \<in> set (calls_for_repush r) \<and> (raw_l1_tx c \<noteq> [] \<longrightarrow> raw_l1_tx c \<in> set (queued_l1_txs r)) \<and>
    c \<notin> set (queued_cross_chain_calls q)"
  using assms(1)
proof (rule drain_rpc_queuesE)
  fix d
  let ?q = "queued_cross_chain_calls s"
  assume r: "calls_for_repush r = taken False (sort_by_gas_price ?q)"
    "queued_l1_txs r = filter (\<lambda>tx. tx \<noteq> []) (map raw_l1_tx (calls_for_repush r))"
    "queued_cross_chain_calls q = left False (sort_by_gas_price ?q)"
  have "c \<in> set (filter (\<lambda>c. \<not> is_continuation c) (taken False (sort_by_gas_price ?q)))"
    using assms(2,3) unfolding taken_simple by (simp add: sort_by_gas_price_def)
  then have taken: "c \<in> set (calls_for_repush r)" unfolding r(1) by simp
  have "c \<notin> set (queued_cross_chain_calls q)" using left_continuation [of c False] assms(3) by (auto simp: r(3))
  moreover have "raw_l1_tx c \<noteq> [] \<longrightarrow> raw_l1_tx c \<in> set (queued_l1_txs r)" using taken unfolding r(2) by simp
  ultimately show ?thesis using taken by blast
qed

text \<open>The transactions of a completed build are in the forward queue when the tick's last flush starts.\<close>

lemma forward_has: "tx \<in> set txs \<Longrightarrow> tx \<in> set (pending_l1_forward_txs (queues (drv (forward_l1_txs txs b))))"
  by (simp add: forward_l1_txs_def Let_def)


section \<open>Tables for a single call\<close>

text \<open>The request for the same call without a table, with the result that the table request carries.\<close>

definition as_plain_call :: "execution_table_params \<Rightarrow> execution_table_call \<Rightarrow> cross_chain_call_params" where
  "as_plain_call p c =
     \<lparr>cp_destination = tp_destination c, cp_data = tp_data c, cp_value = tp_value c, cp_source_address = tp_source_address c,
      cp_source_rollup = 0, cp_gas_price = tp_gas_price p, cp_raw_l1_tx = tp_raw_l1_tx p,
      cp_l2_return_data = Some (tp_l2_return_data c), cp_l2_call_success = Some (tp_call_success c)\<rparr>"

lemma reorder_one: "reorder_for_swap_and_pop [e] = [e]"
  by (simp add: reorder_for_swap_and_pop_def same_hash_def)

lemma single_call_tables:
  assumes "\<not> is_l2_to_l1_child c"
  shows "build_continuation_entries A (analyze_continuation_calls [c] rid) (RollupId (ucast rid)) =
    (let our = RollupId (ucast rid); res = result_action our (lc_l2_return_data c) (\<not> lc_call_success c);
         call = raw_action our MAINNET (lc_destination c) (lc_value c) (lc_data c) (lc_source_address c)
     in \<lparr>ce_l2 = [plain_entry (hash_of A res) res],
         ce_l1 = [\<lparr>state_deltas = [zero_delta our (call_ether_delta (lc_value c))], action_hash = hash_of A call, next_action = res\<rparr>],
         ce_mode = Chained\<rparr>)"
  using assms
  by (auto simp: build_continuation_entries_def analyze_continuation_calls_def Let_def l1_to_l2_calls_def l1_children_def
      indexed_def is_reentrant_def has_partial_revert_def reorder_one call_entry_def resolution_entries_def l2_result_def result_of_def
      result_void_def result_action_def mode_from_bool_def raw_action_def)

text \<open>
  A table request for a single call to L2 is the plain request. For a call whose result is given,
  both are accepted alike, return the same identifier, and load the same CALL and RESULT on L2; the
  L1 entry is the same but for the ether, which the table records already.
\<close>

theorem single_call_table:
  assumes "tp_calls p = [c]" "\<not> is_l2_to_l1_child (to_l1_detected c)" "rollups_address (re_config R) \<noteq> 0"
    and "length (queued_cross_chain_calls (st_queues s)) < 500"
  shows "\<exists>call res. let call_id = hash_as_b256 (action_hash call); q = queued_cross_chain_calls (st_queues s) in
    initiate_cross_chain_call R (as_plain_call p c) s =
      (Inr call_id, upd_calls (q @ [Simple_Call call res (tp_gas_price p) (tp_raw_l1_tx p) Outcome_Success Chained]) s) \<and>
    build_execution_table R p s =
      (Inr \<lparr>tr_l2_entry_count = 1, tr_l1_entry_count = 1, tr_call_id = call_id\<rparr>,
       upd_calls (q @ [With_Continuations [call, res]
         [(hd (convert_pairs_to_l1_entries [call, res]))\<lparr>state_deltas :=
            [zero_delta (our_rollup R) (call_ether_delta (tp_value c))]\<rparr>]
         (tp_gas_price p) (tp_raw_l1_tx p) Outcome_Success Chained]) s)"
proof -
  let ?call = "raw_action (our_rollup R) MAINNET (tp_destination c) (tp_value c) (tp_data c) (tp_source_address c)"
  let ?res = "result_action (our_rollup R) (tp_l2_return_data c) (\<not> tp_call_success c)"
  let ?c = "plain_entry (hash_of (re_abi R) ?call) ?call" and ?r = "plain_entry (hash_of (re_abi R) ?res) ?res"
  obtain ok data where f: "first_call_result R c = (ok, data)" by fastforce
  obtain r where pair: "build_cross_chain_call_entries (re_abi R) (our_rollup R) (tp_destination c) (tp_data c) (tp_value c)
      (tp_source_address c) MAINNET ok data = (?c, r)"
    by (simp add: build_cross_chain_call_entries_def Let_def raw_action_def)
  have plain: "simple_of R (as_plain_call p c) (tp_call_success c) (tp_l2_return_data c) =
      Simple_Call ?c ?r (tp_gas_price p) (tp_raw_l1_tx p) Outcome_Success Chained"
    by (simp add: simple_of_def as_plain_call_def build_cross_chain_call_entries_def Let_def raw_action_def from_abi_boundary_def MAINNET_def)
  have res: "call_result R (as_plain_call p c) = Inr (tp_call_success c, tp_l2_return_data c)"
    by (simp add: call_result_def as_plain_call_def)
  let ?det = "analyze_continuation_calls [to_l1_detected c] (cfg_rollup_id (re_config R))"
  have det: "?det \<noteq> []" by (simp add: analyze_continuation_calls_def)
  have t: "build_continuation_entries (re_abi R) ?det (our_rollup R) = \<lparr>ce_l2 = [?r],
      ce_l1 = [\<lparr>state_deltas = [zero_delta (our_rollup R) (call_ether_delta (tp_value c))], action_hash = action_hash ?c, next_action = ?res\<rparr>],
      ce_mode = Chained\<rparr>"
    using single_call_tables [OF assms(2), of "re_abi R" "cfg_rollup_id (re_config R)"]
    by (simp add: Let_def our_rollup_def to_l1_detected_def)
  have table: "build_execution_table R p s = push_call (With_Continuations [?c, ?r]
       [\<lparr>state_deltas = [zero_delta (our_rollup R) (call_ether_delta (tp_value c))], action_hash = action_hash ?c, next_action = ?res\<rparr>]
       (tp_gas_price p) (tp_raw_l1_tx p) Outcome_Success Chained)
      \<lparr>tr_l2_entry_count = 1, tr_l1_entry_count = 1, tr_call_id = hash_as_b256 (action_hash ?c)\<rparr> s"
    unfolding build_execution_table_def using assms(1,3) det t f pair by (simp add: Let_def)
  show ?thesis
    by (rule exI [of _ ?c], rule exI [of _ ?r])
      (use assms(3,4) in \<open>simp add: initiate_accepts [OF assms(3) res] plain table push_call_def MAX_QUEUED_CALLS_def Let_def upd_calls_def\<close>)
qed

definition as_plain_withdrawal :: "l2_table_params \<Rightarrow> l2_table_call \<Rightarrow> l2_cross_chain_call_params" where
  "as_plain_withdrawal p c =
     \<lparr>wp_destination = vp_destination c, wp_data = vp_data c, wp_value = vp_value c, wp_source_address = vp_source_address c,
      wp_delivery_return_data = vp_delivery_return_data c, wp_delivery_failed = vp_delivery_failed c,
      wp_raw_l2_tx = vp_raw_l2_tx p, wp_l2_return_data = None, wp_l2_call_success = None,
      wp_l1_delivery_scope = vp_scope c, wp_tx_reverts = vp_tx_reverts p\<rparr>"

text \<open>The same towards L1: the queued calls differ in the second entry for L2 only, which the table leaves out.\<close>

lemma single_withdrawal_request:
  assumes "vp_l2_calls p = [c]" "vp_return_calls p = []" "vp_tx_reverts p = Outcome_Revert \<longrightarrow> vp_scope c \<noteq> []"
    and "rollups_address (re_config R) \<noteq> 0"
    and "hash_of (re_abi R) (l2tx_trigger (our_rollup R) (vp_raw_l2_tx p)) \<noteq> compute_revert_continue_hash (re_abi R) (our_rollup R)"
  shows "\<exists>w e1 e2 h n. q_l2_table_entries w = [e1, e2] \<and>
    initiate_l2_cross_chain_call R (as_plain_withdrawal p c) s = push_l2_call w h s \<and>
    call_id_of (build_l2_to_l1_execution_table R p s) = push_l2_call (w\<lparr>q_l2_table_entries := [e1]\<rparr>) h s"
proof -
  let ?w = "build_l2_to_l1_call_entries (re_abi R) (vp_destination c) (vp_data c) (vp_value c) (vp_source_address c)
      (cfg_rollup_id (re_config R)) (vp_raw_l2_tx p) (vp_delivery_return_data c) (vp_delivery_failed c) (vp_scope c) (vp_tx_reverts p)"
  let ?q = "\<lparr>q_l2_table_entries = l2_table_entries ?w, q_l1_deferred_entries = l1_deferred_entries ?w, q_user = vp_source_address c,
      q_amount = vp_value c, q_raw_l2_tx = vp_raw_l2_tx p, q_rlp_encoded_tx = vp_raw_l2_tx p, q_trigger_count = 1,
      q_tx_reverts = vp_tx_reverts p\<rparr>"
  obtain e1 e2 where es: "l2_table_entries ?w = [e1, e2]" by (simp add: build_l2_to_l1_call_entries_def Let_def)
  have l1: "l1_deferred_entries ?w \<noteq> []" "w_user ?w = vp_source_address c" "w_amount ?w = vp_value c"
    by (simp_all add: build_l2_to_l1_call_entries_def Let_def)
  have sc: "as_slice (ld_scope (to_l2_detected c)) = vp_scope c" by (simp add: to_l2_detected_def from_parts_def)
  have det: "analyze_l2_to_l1_continuation_calls [to_l2_detected c] [] (cfg_rollup_id (re_config R)) \<noteq> []"
    by (simp add: analyze_l2_to_l1_continuation_calls_def)
  obtain t where t: "build_l2_to_l1_continuation_entries (re_abi R)
      (analyze_l2_to_l1_continuation_calls [to_l2_detected c] [] (cfg_rollup_id (re_config R))) (our_rollup R) (vp_raw_l2_tx p)
      (vp_tx_reverts p) = Some t" "wt_l1 t = l1_deferred_entries ?w" "wt_l2 t = [e1]"
    using single_withdrawal_matches [OF refl our_rollup_def [of R] _ assms(5) refl, of "vp_tx_reverts p" "to_l2_detected c"] assms(3) sc es
    by (auto simp: to_l2_detected_def)
  have "initiate_l2_cross_chain_call R (as_plain_withdrawal p c) s = push_l2_call ?q (hash_as_b256 (action_hash e1)) s"
    using assms(4) es l1 by (simp add: initiate_l2_cross_chain_call_def as_plain_withdrawal_def Let_def)
  moreover have "call_id_of (build_l2_to_l1_execution_table R p s) = push_l2_call (?q\<lparr>q_l2_table_entries := [e1]\<rparr>) (hash_as_b256 (action_hash e1)) s"
    using assms(1,2,4) det t l1 by (simp add: build_l2_to_l1_execution_table_def call_id_of_def push_l2_call_def Let_def)
  ultimately show ?thesis using es
    by (intro exI [of _ ?q] exI [of _ e1] exI [of _ e2] exI [of _ "hash_as_b256 (action_hash e1)"] exI) simp
qed

section \<open>A small server\<close>

definition toy_planner :: "(nat, unit) planner_env" where
  "toy_planner = \<lparr>pe_decode = (\<lambda>_. None), pe_recovers = (\<lambda>_. True), pe_best = None, pe_header = (\<lambda>_. None), pe_state = (\<lambda>_. True),
     pe_open = (\<lambda>_ _. None), pe_pre_changes = Some, pe_execute = (\<lambda>_ b. (Inr 1, b)), pe_finish = (\<lambda>_. Some 1),
     pe_encode_list = (\<lambda>_. [1]), pe_evm_ready = (\<lambda>_. True), pe_system_call = (\<lambda>_ _ _ _. None)\<rparr>"

definition toy_server :: "(nat, unit) rpc_env" where
  "toy_server = \<lparr>re_planner = toy_planner, re_abi = toy_abi, re_config = toy_builder, re_envelope_hash = (\<lambda>_. Some 1)\<rparr>"

definition idle :: rpc_state where
  "idle = \<lparr>st_queues = \<lparr>queued_cross_chain_calls = [], queued_l2_to_l1_calls = [], pending_l1 = empty_pending\<rparr>, st_forward_txs = [],
     st_synced = True\<rparr>"

definition toy_request :: cross_chain_call_params where
  "toy_request = \<lparr>cp_destination = 7, cp_data = [1], cp_value = 2, cp_source_address = 3, cp_source_rollup = 0, cp_gas_price = 5,
     cp_raw_l1_tx = [9], cp_l2_return_data = Some [], cp_l2_call_success = Some True\<rparr>"

definition toy_table_call :: execution_table_call where
  "toy_table_call = \<lparr>tp_destination = 7, tp_data = [1], tp_value = 2, tp_source_address = 3, tp_l2_return_data = [4], tp_call_success = True,
     tp_parent_call_index = Root, tp_target_rollup_id = None, tp_scope = [], tp_discovery_iteration = 0, tp_l1_trace_depth = 1,
     tp_in_reverted_frame = False\<rparr>"

lemma toy_ready: "ready toy_server toy_request"
  by (simp add: ready_def toy_server_def toy_builder_def toy_request_def)

lemma idle_queues [simp]: "queued_cross_chain_calls (st_queues idle) = []" "queued_l2_to_l1_calls (st_queues idle) = []" "st_forward_txs idle = []"
  by (simp_all add: idle_def)

theorem action_hash_of_answer_witness:
  "compute_action_hash toy_server (params_of ''Revert_Continue'' (action_to_serializable (revert_continue_action MAINNET))) =
    Inr (hash_as_b256 (hash_of toy_abi (revert_continue_action MAINNET)))"
proof -
  have "to_uppercase ''Revert_Continue'' = ''REVERT_CONTINUE''" by code_simp
  then show ?thesis
    using action_hash_of_answer [of "''Revert_Continue''" "revert_continue_action MAINNET" toy_server]
    by (simp add: action_to_serializable_def revert_continue_action_def toy_server_def)
qed

theorem requests_bounded_witness:
  "within (snd (serve toy_server (Req_Call toy_request) idle))"
  using requests_bounded [OF server_run.request [OF server_run.start], of idle toy_server "Req_Call toy_request"]
  by (simp add: within_def)

theorem failed_builds_grow_queue_witness:
  "\<exists>s'. server_run toy_server True [] True idle s' \<and> length (queued_cross_chain_calls (st_queues s')) \<ge> 100000"
  by (rule failed_builds_grow_queue [OF toy_ready]) simp_all

theorem builds_grow_forward_queue_witness:
  "\<exists>s'. server_run toy_server True [] False idle s' \<and> length (st_forward_txs s') \<ge> 100000"
  using builds_grow_forward_queue [OF toy_ready, of idle True "[]" 100000] by (auto simp: toy_request_def)

text \<open>A builder that shares its queue with the toy server; blocks do not build, as no state can be opened.\<close>

definition stateless_world :: "(nat, 8 word, unit, unit) world" where
  "stateless_world = tick_world\<lparr>w_exec := \<lambda>_. toy_executor\<lparr>ex_snapshot := \<lambda>_ _ _. None\<rparr>\<rparr>"

definition serving_builder :: "queued_cross_chain_call list \<Rightarrow> 8 word builder" where
  "serving_builder cs = of_queues \<lparr>queued_cross_chain_calls = cs, queued_l2_to_l1_calls = [], pending_l1 = empty_pending\<rparr> tick_builder"

lemma stateless_insert: "\<exists>err b2. insert_block stateless_world n ts info txs b () = (Inl err, b2, ())"
  by (simp add: insert_block_def build_and_insert_block_def build_derived_block_def execute_block_def stateless_world_def Let_def)

lemma stateless_block: "\<exists>ls' b'. build_block stateless_world n ts dr es rpc ls b () = (Inr False, ls', b', ())"
proof -
  obtain r k where r: "build_builder_protocol_txs (w_env stateless_world (head_hash (drv_head (drv b))) (held_l2_txs dr))
      (w_config stateless_world) n (lp_l1 ls) es (2 ^ 64 - 1) (bl_nonce b) = (r, k)" by fastforce
  show ?thesis
  proof (cases r)
    case (Inr txs)
    obtain err b2 where "insert_block stateless_world n ts (lp_l1 ls) txs (b\<lparr>bl_nonce := k\<rparr>) () = (Inl err, b2, ())"
      using stateless_insert by blast
    then show ?thesis using r Inr by (simp add: build_block_def Let_def)
  qed (use r in \<open>simp add: build_block_def Let_def\<close>)
qed

lemma stateless_loop:
  assumes "l2_head_number (drv_head (drv b)) = 4" "lp_since_refresh ls = 0"
  shows "\<exists>ls' b'. builder_loop stateless_world 5 dr ls b () = (Inr False, ls', b', ())"
proof -
  have ts: "l2_timestamp_checked (rollup_config.truncate (w_config stateless_world)) 5 = Some 6"
    by (simp add: stateless_world_def tick_world_def l2_timestamp_checked_def toy_builder_def rollup_config.truncate_def
        checked_add_def checked_mul_def)
  have r: "refresh_l1 stateless_world ls b = (ls\<lparr>lp_since_refresh := 1\<rparr>, b)"
    using assms(2) by (simp add: refresh_l1_def saturating_add_def L1_REFRESH_INTERVAL_def)
  obtain es rpc ls2 where t: "take_entries 5 5 (ls\<lparr>lp_since_refresh := 1\<rparr>) = (es, rpc, ls2)" by (metis prod_cases3)
  obtain ls' b' where "build_block stateless_world 5 6 dr es rpc ls2 b () = (Inr False, ls', b', ())"
    using stateless_block by blast
  then have "build_one stateless_world 5 dr ls b () = (Inr False, ls', b', ())"
    using assms(1) ts r t by (simp add: build_one_def saturating_add_def)
  then show ?thesis using assms(1) by (simp add: builder_loop.simps [of _ _ _ _ b])
qed


theorem single_call_table_witness:
  "\<exists>r s'. build_execution_table toy_server \<lparr>tp_calls = [toy_table_call], tp_gas_price = 1, tp_raw_l1_tx = [9]\<rparr> idle = (Inr r, s') \<and>
    fst (initiate_cross_chain_call toy_server (as_plain_call \<lparr>tp_calls = [toy_table_call], tp_gas_price = 1, tp_raw_l1_tx = [9]\<rparr> toy_table_call)
      idle) = Inr (tr_call_id r)"
  using single_call_table [of "\<lparr>tp_calls = [toy_table_call], tp_gas_price = 1, tp_raw_l1_tx = [9]\<rparr>" toy_table_call toy_server idle]
  by (auto simp: Let_def is_l2_to_l1_child_def to_l1_detected_def toy_table_call_def toy_server_def toy_builder_def)

end
