(* ===== verification/Table_Requests.thy ===== *)
theory Table_Requests
  imports L1_Process Rpc_Requests "HOL-Library.Monad_Syntax"
begin

text \<open>
  How the L2 node reads the composer's request for a table: the \<open>Deserialize\<close> instances of
  \<open>BuildExecutionTableParams\<close> and \<open>BuildExecutionTableCall\<close> (\<open>rpc.rs\<close>) with their defaults, and
  the agreement of both sides on what the table is.
\<close>

section \<open>Fields\<close>

definition required :: "string \<Rightarrow> (json \<Rightarrow> 'a option) \<Rightarrow> json \<Rightarrow> 'a option" where
  "required k read j = Option.bind (json_field k j) read"

definition defaulted :: "string \<Rightarrow> 'a \<Rightarrow> (json \<Rightarrow> 'a option) \<Rightarrow> json \<Rightarrow> 'a option" where
  "defaulted k d read j = (case json_field k j of None \<Rightarrow> Some d | Some v \<Rightarrow> read v)"

definition read_text :: "(string \<Rightarrow> 'a option) \<Rightarrow> json \<Rightarrow> 'a option" where
  "read_text f v = Option.bind (json_text v) f"

fun read_bool :: "json \<Rightarrow> bool option" where
  "read_bool (JBool b) = Some b"
| "read_bool _ = None"

text \<open>A number below \<open>2 ^ w\<close>; JSON text holds no larger ones than the reader takes.\<close>

fun read_number :: "nat \<Rightarrow> json \<Rightarrow> int option" where
  "read_number w (JNumber n) = (if 0 \<le> n \<and> n < 2 ^ w then Some n else None)"
| "read_number w _ = None"

definition read_usize :: "json \<Rightarrow> nat option" where
  "read_usize v = map_option nat (read_number 64 v)"

definition read_option :: "(json \<Rightarrow> 'a option) \<Rightarrow> json \<Rightarrow> 'a option option" where
  "read_option read v = (if v = JNull then Some None else map_option Some (read v))"

definition read_list :: "(json \<Rightarrow> 'a option) \<Rightarrow> json \<Rightarrow> 'a list option" where
  "read_list read v = Option.bind (json_elems v) (\<lambda>vs. those (map read vs))"

section \<open>The parameters\<close>

definition table_call_of_json :: "wire \<Rightarrow> json \<Rightarrow> execution_table_call option" where
  "table_call_of_json W j = do {
     dest \<leftarrow> required ''destination'' (read_text (read_address W)) j;
     data \<leftarrow> required ''data'' (read_text (read_bytes W)) j;
     val \<leftarrow> defaulted ''value'' 0 (read_text (read_u256 W)) j;
     src \<leftarrow> required ''sourceAddress'' (read_text (read_address W)) j;
     ret \<leftarrow> defaulted ''l2ReturnData'' [] (read_text (read_bytes W)) j;
     ok \<leftarrow> defaulted ''callSuccess'' True read_bool j;
     parent \<leftarrow> defaulted ''parentCallIndex'' None (read_option read_usize) j;
     target \<leftarrow> defaulted ''targetRollupId'' None (read_option (\<lambda>v. map_option of_int (read_number 64 v))) j;
     sc \<leftarrow> defaulted ''scope'' [] (read_list (read_text (read_u256 W))) j;
     iteration \<leftarrow> defaulted ''discoveryIteration'' 0 read_usize j;
     depth \<leftarrow> defaulted ''l1TraceDepth'' 0 read_usize j;
     rev \<leftarrow> defaulted ''inRevertedFrame'' False read_bool j;
     Some \<lparr>tp_destination = dest, tp_data = data, tp_value = val, tp_source_address = src, tp_l2_return_data = ret,
       tp_call_success = ok, tp_parent_call_index = parent_from_option parent, tp_target_rollup_id = target, tp_scope = sc,
       tp_discovery_iteration = iteration, tp_l1_trace_depth = depth, tp_in_reverted_frame = rev\<rparr> }"

definition table_params_of_json :: "wire \<Rightarrow> json \<Rightarrow> execution_table_params option" where
  "table_params_of_json W j = do {
     calls \<leftarrow> required ''calls'' (read_list (table_call_of_json W)) j;
     price \<leftarrow> defaulted ''gasPrice'' 0 (\<lambda>v. map_option of_int (read_number 128 v)) j;
     raw \<leftarrow> defaulted ''rawL1Tx'' [] (read_text (read_bytes W)) j;
     Some \<lparr>tp_calls = calls, tp_gas_price = price, tp_raw_l1_tx = raw\<rparr> }"

section \<open>The request is read as it was meant\<close>

definition wire_agrees :: "formats \<Rightarrow> wire \<Rightarrow> bool" where
  "wire_agrees F W \<longleftrightarrow> (\<forall>a. read_address W (show_address F a) = Some a) \<and> (\<forall>b. read_bytes W (''0x'' @ hex_encode b) = Some b) \<and>
     (\<forall>v. read_u256 W (show_u256 W v) = Some v) \<and> read_u256 W ''0x0'' = Some 0"

text \<open>The indices and depths fit into \<open>usize\<close>.\<close>

definition indices_fit :: "discovered_call \<Rightarrow> bool" where
  "indices_fit c \<longleftrightarrow> dsc_iteration c < 2 ^ 64 \<and> dsc_trace_depth c < 2 ^ 64 \<and>
     (case dsc_parent c of Root \<Rightarrow> True | Child i \<Rightarrow> index_as_usize i < 2 ^ 64)"

definition table_call :: "discovered_call \<Rightarrow> execution_table_call" where
  "table_call c =
     \<lparr>tp_destination = dsc_destination c, tp_data = dsc_calldata c, tp_value = dsc_value c, tp_source_address = dsc_source_address c,
      tp_l2_return_data = dsc_delivery_return_data c, tp_call_success = (\<not> dsc_delivery_failed c), tp_parent_call_index = dsc_parent c,
      tp_target_rollup_id = (if child_index (dsc_parent c) \<noteq> None \<and> dsc_target_rollup_id c = 0 then Some 0 else None),
      tp_scope = (if dsc_trace_depth c > 1 then replicate (dsc_trace_depth c) 0 else []), tp_discovery_iteration = dsc_iteration c,
      tp_l1_trace_depth = dsc_trace_depth c, tp_in_reverted_frame = dsc_in_reverted_frame c\<rparr>"

lemma map_of_if: "map_of (if P then xs else ys) k = (if P then map_of xs k else map_of ys k)"
  by simp

lemma call_fields:
  "json_field ''destination'' (call_json F W c) = Some (JText (show_address F (dsc_destination c)))"
  "json_field ''data'' (call_json F W c) = Some (JText (''0x'' @ hex_encode (dsc_calldata c)))"
  "json_field ''value'' (call_json F W c) = Some (JText (show_u256 W (dsc_value c)))"
  "json_field ''sourceAddress'' (call_json F W c) = Some (JText (show_address F (dsc_source_address c)))"
  "json_field ''l2ReturnData'' (call_json F W c) = (if dsc_delivery_return_data c \<noteq> [] \<or> dsc_delivery_failed c
     then Some (JText (''0x'' @ hex_encode (dsc_delivery_return_data c))) else None)"
  "json_field ''callSuccess'' (call_json F W c) = (if dsc_delivery_return_data c \<noteq> [] \<or> dsc_delivery_failed c
     then Some (JBool (\<not> dsc_delivery_failed c)) else None)"
  "json_field ''parentCallIndex'' (call_json F W c) = map_option (\<lambda>i. JNumber (int (index_as_usize i))) (child_index (dsc_parent c))"
  "json_field ''targetRollupId'' (call_json F W c) = (if dsc_target_rollup_id c = 0 \<and> child_index (dsc_parent c) \<noteq> None then Some (JNumber 0) else None)"
  "json_field ''inRevertedFrame'' (call_json F W c) = (if dsc_in_reverted_frame c then Some (JBool True) else None)"
  "json_field ''discoveryIteration'' (call_json F W c) = (if dsc_iteration c > 0 then Some (JNumber (int (dsc_iteration c))) else None)"
  "json_field ''l1TraceDepth'' (call_json F W c) = (if dsc_trace_depth c > 0 then Some (JNumber (int (dsc_trace_depth c))) else None)"
  "json_field ''scope'' (call_json F W c) =
     (if dsc_trace_depth c > 1 then Some (JList (replicate (dsc_trace_depth c) (JText ''0x0''))) else None)"
  by (simp_all add: call_json_def Let_def map_add_def map_of_if split: option.split)

lemma those_replicate: "those (replicate n (Some x)) = Some (replicate n x)"
  by (induction n) auto

lemma those_Some_map: "those (map (\<lambda>x. Some (f x)) xs) = Some (map f xs)"
  by (induction xs) auto

lemma read_int [simp]:
  "n < 2 ^ 64 \<Longrightarrow> read_number 64 (JNumber (int n)) = Some (int n)"
  by (simp flip: of_nat_less_iff)

theorem call_json_read:
  assumes "wire_agrees F W" "indices_fit c"
  shows "table_call_of_json W (call_json F W c) = Some (table_call c)"
proof -
  have "defaulted ''parentCallIndex'' None (read_option read_usize) (call_json F W c) = Some (map_option index_as_usize (child_index (dsc_parent c)))"
    using assms(2) by (cases "dsc_parent c") (auto simp: defaulted_def call_fields read_option_def read_usize_def indices_fit_def simp del: read_number.simps)
  moreover have "parent_from_option (map_option index_as_usize (child_index (dsc_parent c))) = dsc_parent c"
  proof (cases "dsc_parent c")
    case (Child i)
    then show ?thesis by (cases i) simp
  qed simp
  moreover have "defaulted ''discoveryIteration'' 0 read_usize (call_json F W c) = Some (dsc_iteration c)"
    "defaulted ''l1TraceDepth'' 0 read_usize (call_json F W c) = Some (dsc_trace_depth c)"
    using assms(2) by (auto simp: defaulted_def call_fields read_usize_def indices_fit_def simp del: read_number.simps)
  ultimately show ?thesis using assms(1)
    by (auto simp: table_call_of_json_def required_def defaulted_def call_fields read_text_def read_option_def read_list_def
        wire_agrees_def table_call_def those_replicate)
qed

text \<open>Both sides mean the same detected call.\<close>

lemma same_detected_call: "to_l1_detected (table_call c) = l1_detected c"
  by (simp add: to_l1_detected_def table_call_def l1_detected_def scope_root_def from_parts_def)

lemma same_detected_calls [simp]: "to_l1_detected \<circ> table_call = l1_detected"
  by (simp add: fun_eq_iff same_detected_call)

lemma request_read:
  assumes "wire_agrees F W" "table_request F W raw_tx calls price = Some req" "read_bytes W raw_tx = Some raw" "\<forall>c \<in> set calls. indices_fit c"
  shows "table_params_of_json W req = Some \<lparr>tp_calls = map table_call calls, tp_gas_price = price, tp_raw_l1_tx = raw\<rparr>"
proof -
  have req: "req = JObject [(''calls'', JList (map (call_json F W) calls)), (''gasPrice'', JNumber (uint price)), (''rawL1Tx'', JText raw_tx)]"
    using assms(2) by (simp add: table_request_def split: if_splits)
  have calls: "those (map (\<lambda>c. table_call_of_json W (call_json F W c)) calls) = Some (map table_call calls)"
    using assms(1,4) call_json_read by (simp add: those_Some_map cong: map_cong)
  have "uint price < 2 ^ 128" using uint_bounded [of price] by simp
  then show ?thesis using assms(3) calls
    by (simp add: req table_params_of_json_def required_def defaulted_def read_list_def read_text_def o_def)
qed

text \<open>
  C30: node and composer agree on the table. The node reads the composer's request back; when it
  queues a table for it, the L1 entries that it queues are exactly the entries of the same calls that the
  composer simulates when it traces its post-batch transaction, before either side puts state roots into
  them: the composer's trace has the rollup's current root in every delta and agrees in everything
  else. The roots that the node attaches before posting are not part of this.
\<close>

theorem queued_table_is_traced_table:
  assumes "wire_agrees F W" "table_request F W raw_tx calls price = Some req" "read_bytes W raw_tx = Some raw" "\<forall>c \<in> set calls. indices_fit c"
  shows "\<exists>p. table_params_of_json W req = Some p \<and>
    (\<forall>r s'. build_execution_table R p s = (Inr r, s') \<longrightarrow>
      (\<exists>l2 l1 mode. queued_cross_chain_calls (st_queues s') = queued_cross_chain_calls (st_queues s) @
          [With_Continuations l2 l1 price raw Outcome_Success mode] \<and>
        l1 = retrace_entries (re_abi R) (cfg_rollup_id (re_config R)) calls \<and>
        (\<forall>E k. px_abi E = re_abi R \<and> px_rollup E = cfg_rollup_id (re_config R) \<longrightarrow>
          postbatch_entries E k calls = map (with_root (or_default 0 (rollup_state_root (px_services E) k))) l1)))"
proof -
  let ?p = "\<lparr>tp_calls = map table_call calls, tp_gas_price = price, tp_raw_l1_tx = raw\<rparr>"
  have "\<exists>l2 mode. queued_cross_chain_calls (st_queues s') = queued_cross_chain_calls (st_queues s) @
      [With_Continuations l2 (retrace_entries (re_abi R) (cfg_rollup_id (re_config R)) calls) price raw Outcome_Success mode]"
    if "build_execution_table R ?p s = (Inr r, s')" for r s'
    using that by (auto simp: same_detected_call build_execution_table_def retrace_entries_analyzed our_rollup_def push_call_def Let_def
        split: list.splits if_splits prod.splits)
  then show ?thesis using request_read [OF assms] postbatch_entries_rerooted by metis
qed

end
