(* ===== verification/L1_Proxy.thy ===== *)
theory L1_Proxy
  imports L1_Process
begin

text \<open>
  The L1 composer proxy (\<open>composer_rpc/l1_to_l2/mod.rs\<close> and the gas estimate of \<open>process.rs\<close>): a
  request is answered by the proxy when it sends a cross-chain transaction or estimates the gas
  of a proxy call, and is forwarded to L1 otherwise. HTTP, the transaction codec and the nodes
  are parameters. A panic is \<open>None\<close>.
\<close>

section \<open>The gas of a call to a proxy\<close>

text \<open>EIP-2028: 4 for a zero byte, 16 for another one; a trailing single digit is ignored.\<close>

fun calldata_gas :: "string \<Rightarrow> u64 option" where
  "calldata_gas (a # b # rest) =
     (if rest \<noteq> [] \<and> inside_char (hd rest) then None
      else map_option (\<lambda>g. (if [a, b] = ''00'' then 4 else 16) + g) (calldata_gas rest))"
| "calldata_gas _ = Some 0"

definition TX_BASE_GAS :: u64 where
  "TX_BASE_GAS = 21000"

definition CROSS_CHAIN_OVERHEAD :: u64 where
  "CROSS_CHAIN_OVERHEAD = 160000"

definition gas_limit :: "u64 \<Rightarrow> u64" where
  "gas_limit g = (TX_BASE_GAS + g + CROSS_CHAIN_OVERHEAD) * 130 div 100"

section \<open>The proxy's surroundings\<close>

record proxy_env =
  pp_table :: table_env
  pp_discovery :: "(trace_bundle, json) discovery_env"
  pp_parse_address :: "string \<Rightarrow> address option"
  pp_trace_call :: "bundle_tx \<Rightarrow> json json_rpc_response option"
  pp_authorized_proxies :: "address \<Rightarrow> json json_rpc_response option"
  pp_parse_body :: "bytes \<Rightarrow> json option"
  pp_upstream :: "bytes \<Rightarrow> (nat \<times> bytes) option"

definition pp_process :: "proxy_env \<Rightarrow> process_env" where
  "pp_process P = te_process (pp_table P)"

definition is_cross_chain_proxy_on_l1 :: "proxy_env \<Rightarrow> address \<Rightarrow> bool" where
  "is_cross_chain_proxy_on_l1 P a =
     (case eth_call_view json_ops (pp_authorized_proxies P a) of
        None \<Rightarrow> False
      | Some hex_data \<Rightarrow> parse_address_from_abi_return (sim_hex (px_base (pp_process P))) hex_data \<noteq> None)"

text \<open>The gas limit when the proxy answers an estimate itself.\<close>

definition handle_estimate_gas_for_proxy :: "proxy_env \<Rightarrow> json list option \<Rightarrow> u64 option option" where
  "handle_estimate_gas_for_proxy P params =
     (case Option.bind params (\<lambda>ps. nth_opt ps 0) of
        None \<Rightarrow> Some None
      | Some tx_obj \<Rightarrow>
          (case Option.bind (text_field ''to'' tx_obj) (pp_parse_address P) of
             None \<Rightarrow> Some None
           | Some to_addr \<Rightarrow>
               if \<not> is_cross_chain_proxy_on_l1 P to_addr then Some None
               else map_option (\<lambda>g. Some (gas_limit g)) (calldata_gas (strip_0x (or_default ''0x'' (text_field ''data'' tx_obj))))))"

section \<open>A transaction\<close>

text \<open>The fields that the tracer needs; \<open>None\<close> inside is an error.\<close>

definition decode_raw_tx_for_trace :: "proxy_env \<Rightarrow> string \<Rightarrow> json option option" where
  "decode_raw_tx_for_trace P raw_tx =
     map_option (\<lambda>decoded. Option.bind decoded (\<lambda>raw_bytes. Option.bind (te_decode_tx (pp_table P) raw_bytes) (\<lambda>t.
         map_option (\<lambda>sender. let F = sim_formats (px_base (pp_process P)) in JObject (
             [(''from'', JText (show_address F sender)), (''value'', JText (''0x'' @ hex_u256 F (txf_value t))),
              (''data'', JText (''0x'' @ hex_encode (txf_input t)))] @
             (case txf_to t of None \<Rightarrow> [] | Some to \<Rightarrow> [(''to'', JText (show_address F to))]))) (txf_from t))))
       (hex_decode (strip_0x raw_tx))"

definition ERROR_STRING_SELECTOR :: string where
  "ERROR_STRING_SELECTOR = ''0x08c379a0''"

definition first_trace_reverts :: "json \<Rightarrow> bool" where
  "first_trace_reverts t \<longleftrightarrow> \<not> no_top_error t \<or>
     (case text_field ''output'' t of None \<Rightarrow> False | Some s \<Rightarrow> take (length ERROR_STRING_SELECTOR) s = ERROR_STRING_SELECTOR)"

definition user_context :: "json \<Rightarrow> string \<Rightarrow> user_tx_context" where
  "user_context tx_obj to = \<lparr>ut_from = or_default ''0x0000000000000000000000000000000000000000'' (text_field ''from'' tx_obj),
     ut_to = to, ut_data = or_default ''0x'' (text_field ''data'' tx_obj), raw_tx_bytes = [],
     ut_value = or_default ''0x0'' (text_field ''value'' tx_obj)\<rparr>"

definition with_user :: "user_tx_context \<Rightarrow> proxy_env \<Rightarrow> proxy_env" where
  "with_user u P = P\<lparr>pp_table := (pp_table P)\<lparr>te_process := (pp_process P)\<lparr>px_user := u\<rparr>\<rparr>\<rparr>"

text \<open>The walk of the first trace and, when it reverts, the discovery engine.\<close>

definition discovered_calls :: "proxy_env \<Rightarrow> json \<Rightarrow> discovered_call list \<times> proxy_cache" where
  "discovered_calls P trace =
     (let E = pp_process P
      in case walk_l1_trace_generic E 0 trace Map.empty of
        (detected, cache) \<Rightarrow>
          if first_trace_reverts trace \<and> detected \<noteq> [] then
            (case discover_until_stable ((pp_discovery P)\<lparr>json := json_ops\<rparr>)
                    (l1_to_l2_hooks (px_abi E) (sim_formats (px_base E)) (px_services E) (px_direction E) (px_user E))
                    trace cache (Some detected) of
               (found, cache') \<Rightarrow> (ds_calls found, cache'))
          else (detected, cache))"

definition trace_and_detect_internal_calls :: "proxy_env \<Rightarrow> string \<Rightarrow> json \<Rightarrow> (process_error + string option) option" where
  "trace_and_detect_internal_calls P raw_tx tx_obj =
     (case text_field ''to'' tx_obj of
        None \<Rightarrow> Some (Inr None)
      | Some to \<Rightarrow>
          let P = with_user (user_context tx_obj to) P; u = px_user (pp_process P)
          in (case pp_trace_call P (user_bundle_tx u) of
               None \<Rightarrow> Some (Inl Request_Failed)
             | Some r \<Rightarrow>
                 (case into_result r of
                    None \<Rightarrow> Some (Inr None)
                  | Some trace \<Rightarrow>
                      (case discovered_calls P trace of
                         (detected, cache) \<Rightarrow> process_l1_to_l2_calls (pp_table P) raw_tx (first_trace_reverts trace) detected cache))))"

definition handle_cross_chain_tx :: "proxy_env \<Rightarrow> string \<Rightarrow> (process_error + string option) option" where
  "handle_cross_chain_tx P raw_tx =
     Option.bind (decode_raw_tx_for_trace P raw_tx) (\<lambda>decoded. case decoded of
         None \<Rightarrow> Some (Inl Bad_Transaction)
       | Some tx_obj \<Rightarrow>
           if text_field ''to'' tx_obj = None then Some (Inr None) else trace_and_detect_internal_calls P raw_tx tx_obj)"

section \<open>A request\<close>

datatype http_method = OPTIONS | POST | Other_Method

datatype proxy_body = Empty_Body | Message string | Tx_Result json string | Gas_Result json u64 | Upstream_Body bytes

type_synonym http_response = "nat \<times> proxy_body"

definition json_id :: "json \<Rightarrow> json" where
  "json_id j = or_default JNull (json_field ''id'' j)"

text \<open>The methods of the body in their order; \<open>Some None\<close> falls through to the upstream.\<close>

fun intercept :: "proxy_env \<Rightarrow> json \<Rightarrow> (string \<times> json list option) list \<Rightarrow> http_response option option" where
  "intercept P j [] = Some None"
| "intercept P j ((name, params) # ms) =
     (if name = ''eth_sendRawTransaction'' then
        (case Option.bind (Option.bind params (\<lambda>ps. nth_opt ps 0)) json_text of
           None \<Rightarrow> intercept P j ms
         | Some raw_tx \<Rightarrow>
             Option.bind (handle_cross_chain_tx P raw_tx) (\<lambda>outcome. case outcome of
                 Inr (Some tx_hash) \<Rightarrow> Some (Some (200, Tx_Result (json_id j) tx_hash))
               | _ \<Rightarrow> intercept P j ms))
      else if name = ''eth_estimateGas'' then
        Option.bind (handle_estimate_gas_for_proxy P params) (\<lambda>estimate. case estimate of
            Some g \<Rightarrow> Some (Some (200, Gas_Result (json_id j) g))
          | None \<Rightarrow> intercept P j ms)
      else intercept P j ms)"

definition MAX_BODY_SIZE :: nat where
  "MAX_BODY_SIZE = 10 * 1024 * 1024"

definition forward_request :: "proxy_env \<Rightarrow> bytes \<Rightarrow> http_response" where
  "forward_request P body = (case pp_upstream P body of
     None \<Rightarrow> (502, Message ''L1 upstream error'') | Some (status, resp_bytes) \<Rightarrow> (status, Upstream_Body resp_bytes))"

text \<open>\<open>body\<close> is what was read from the connection, if it could be.\<close>

definition handle_request :: "proxy_env \<Rightarrow> http_method \<Rightarrow> bytes option \<Rightarrow> http_response option" where
  "handle_request P method body =
     (case method of
        OPTIONS \<Rightarrow> Some (204, Empty_Body)
      | Other_Method \<Rightarrow> Some (405, Message ''Method Not Allowed'')
      | POST \<Rightarrow>
          (case body of
             None \<Rightarrow> Some (400, Message ''bad request body'')
           | Some body_bytes \<Rightarrow>
               if length body_bytes > MAX_BODY_SIZE then Some (413, Message ''request body too large'')
               else (case pp_parse_body P body_bytes of
                   None \<Rightarrow> Some (forward_request P body_bytes)
                 | Some j \<Rightarrow> map_option (\<lambda>answer. case answer of Some r \<Rightarrow> r | None \<Rightarrow> forward_request P body_bytes)
                     (intercept P j (extract_methods json_ops j)))))"

section \<open>The estimate\<close>

fun byte_pairs :: "string \<Rightarrow> string list" where
  "byte_pairs (a # b # rest) = [a, b] # byte_pairs rest"
| "byte_pairs _ = []"

lemma length_byte_pairs: "length (byte_pairs s) = length s div 2"
  by (induction s rule: byte_pairs.induct) auto

definition gas_of_pairs :: "string list \<Rightarrow> nat" where
  "gas_of_pairs ps = sum_list (map (\<lambda>p. if p = ''00'' then 4 else 16) ps)"

lemma gas_of_pairs_le: "gas_of_pairs ps \<le> 16 * length ps"
  unfolding gas_of_pairs_def by (induction ps) auto

lemma calldata_gas_value:
  "calldata_gas s = Some g \<Longrightarrow> length s < 2 ^ 40 \<Longrightarrow> unat g = gas_of_pairs (byte_pairs s)"
proof (induction s arbitrary: g rule: calldata_gas.induct)
  case (1 a b rest)
  then obtain h where h: "calldata_gas rest = Some h" "g = (if [a, b] = ''00'' then 4 else 16) + h" by (auto split: if_splits)
  then have "unat h = gas_of_pairs (byte_pairs rest)" using 1 by (auto split: if_splits)
  moreover have "gas_of_pairs (byte_pairs rest) \<le> 8 * length rest"
    using gas_of_pairs_le [of "byte_pairs rest"] length_byte_pairs [of rest] by simp
  ultimately have "unat ((if [a, b] = ''00'' then 4 else 16) + h) = (if [a, b] = ''00'' then 4 else 16) + unat h"
    using 1(3) by (subst unat_plus_if_size) (auto simp: word_size)
  then show ?case using h \<open>unat h = _\<close> by (simp add: gas_of_pairs_def)
qed (auto simp: gas_of_pairs_def)

theorem estimate_exact:
  assumes "calldata_gas s = Some g" "length s < 2 ^ 40"
  shows "unat (gas_limit g) = (181000 + gas_of_pairs (byte_pairs s)) * 130 div 100"
proof -
  have g: "unat g = gas_of_pairs (byte_pairs s)" using assms calldata_gas_value by blast
  have "gas_of_pairs (byte_pairs s) \<le> 8 * length s"
    using gas_of_pairs_le [of "byte_pairs s"] length_byte_pairs [of s] by simp
  then have small: "unat g < 2 ^ 43" using assms(2) g by simp
  have total: "unat (TX_BASE_GAS + g + CROSS_CHAIN_OVERHEAD) = 181000 + unat g"
    using small by (simp add: TX_BASE_GAS_def CROSS_CHAIN_OVERHEAD_def unat_word_ariths)
  have "unat (t * 130) = unat t * 130" if "unat t < 2 ^ 44" for t :: u64
    using that by (simp add: unat_word_ariths)
  from this [of "TX_BASE_GAS + g + CROSS_CHAIN_OVERHEAD"] show ?thesis using small g total
    by (simp add: gas_limit_def unat_div)
qed

text \<open>Every string of a body within the limit qualifies.\<close>

lemma body_within: "MAX_BODY_SIZE < 2 ^ 40"
  by (simp add: MAX_BODY_SIZE_def)

section \<open>Batches\<close>

text \<open>
  A batch with one cross-chain transaction gets that transaction's answer alone; what comes
  before and after it in the batch is neither forwarded nor answered.
\<close>

lemma batch_drops_other_requests:
  assumes "handle_cross_chain_tx P plain = Some (Inr None)" "handle_cross_chain_tx P raw = Some (Inr (Some h))"
    "pp_parse_body P body = Some j" "length body \<le> MAX_BODY_SIZE"
    "extract_methods json_ops j = [(''eth_sendRawTransaction'', Some [JText plain]), (''eth_sendRawTransaction'', Some [JText raw])] @ ms"
  shows "handle_request P POST (Some body) = Some (200, Tx_Result (json_id j) h)"
  using assms by (simp add: handle_request_def nth_opt_def)

text \<open>A failure of the composer is not an answer: the transaction is forwarded like any other.\<close>

lemma failed_handling_forwards:
  assumes "handle_cross_chain_tx P raw = Some (Inl err)" "pp_parse_body P body = Some j" "length body \<le> MAX_BODY_SIZE"
    "extract_methods json_ops j = [(''eth_sendRawTransaction'', Some [JText raw])]"
  shows "handle_request P POST (Some body) = Some (forward_request P body)"
  using assms by (simp add: handle_request_def nth_opt_def)

end
