(* ===== verification/L1_Runs.thy ===== *)
theory L1_Runs
  imports Table_Requests L1_Proxy Discovery_Runs
begin

text \<open>
  Concrete runs of the L1 composer: the hypotheses of its theorems hold for small nodes, and
  the behaviours worth knowing occur. An address is the length of its text; the L2 manager is
  at 1, and the proxy of address 9 on L1 at 3.
\<close>

section \<open>A simulation with a call back to L1\<close>

definition toy_call_node :: "string \<Rightarrow> string \<Rightarrow> string \<Rightarrow> json list \<Rightarrow> json" where
  "toy_call_node to sender input kids =
     JObject [(''to'', JText to), (''from'', JText sender), (''input'', JText input), (''calls'', JList kids)]"

definition toy_callback :: json where
  "toy_callback = toy_call_node ''rrrrr'' ''ssssss'' ''0x''
     [toy_call_node ''ppp'' ''aaaa'' ''0x07'' [toy_call_node ''m'' ''ppp'' ''0x01020304'' []]]"

definition toy_walker :: "(address \<Rightarrow> proxy_info option) \<Rightarrow> trace_env" where
  "toy_walker lookup = \<lparr>parse_address = (\<lambda>s. Some (of_nat (length s))), hex_decode = hex_text, parse_u256_hex = (\<lambda>_. None),
     execute_cross_chain_call_selector = [1, 2, 3, 4], create_cross_chain_proxy_selector = [5, 6, 7, 8],
     manager_addresses = [], lookup_proxy = lookup\<rparr>"

definition toy_l1_proxy :: "address \<Rightarrow> proxy_info option" where
  "toy_l1_proxy a = (if a = 3 then Some \<lparr>original_address = 9, original_rollup_id = 0\<rparr> else None)"

definition text_formats :: formats where
  "text_formats = \<lparr>show_address = (\<lambda>a. replicate (unat a) CHR ''a''), hex_digits = hex_encode, hex_u64 = (\<lambda>_. []), hex_u256 = (\<lambda>_. [])\<rparr>"

definition toy_sim :: sim_env where
  "toy_sim = \<lparr>sim_abi = hash_by_value, sim_encoders = toy_encoders, sim_formats = text_formats, sim_hex = hex_text,
     sim_walker = (\<lambda>_. toy_walker toy_l1_proxy), hash_order = sorted_list_of_set, authorized_proxies_calldata = (\<lambda>_. []),
     system_address = (\<lambda>_. None), l2_traces = (\<lambda>_ _. None)\<rparr>"


abbreviation toy_typed :: "string \<Rightarrow> string \<Rightarrow> string \<Rightarrow> call_trace_node list \<Rightarrow> call_trace_node" where
  "toy_typed to sender input ns \<equiv> Call_Trace_Node (Some to) (Some sender) (Some input) None None None None (Some ns)"

lemma toy_node_of_json: "node_of_json toy_callback = Some (toy_typed ''rrrrr'' ''ssssss'' ''0x''
     [toy_typed ''ppp'' ''aaaa'' ''0x07'' [toy_typed ''m'' ''ppp'' ''0x01020304'' []]])"
 by code_simp

lemma toy_hex: "hex_text ''01020304'' = Some [1, 2, 3, 4]" "hex_text [] = Some []" "hex_text ''07'' = Some [7]"
  by code_simp+

lemmas walk_values = walk_trace_tree_def visit_node_def children_def or_default_def trace_node_from_typed_def to_address_def
  sender_address_def input_bytes_def value_u256_def strip_0x_def toy_hex creates_proxy_def has_selector_def
  has_execute_cross_chain_call_child_def detect_call_def resolve_proxy_info_def output_bytes_def has_error_def toy_walker_def walker_for_def

definition toy_walked :: walk_state where
  "toy_walked = \<lparr>proxy_cache = [3 \<mapsto> Some \<lparr>original_address = 9, original_rollup_id = 0\<rparr>], ephemeral_proxies = Map.empty,
     detected_calls = [\<lparr>tc_destination = 9, tc_calldata = [7], tc_value = 0, tc_source_address = 4, tc_trace_depth = 1,
       tc_output = [], tc_in_reverted_frame = False\<rparr>], unresolved_proxies = {}\<rparr>"

lemma toy_callback_walk: "sim_walker S n = toy_walker toy_l1_proxy \<Longrightarrow> simulation_walk S n 1 toy_callback None = toy_walked"
  by (simp add: simulation_walk_def toy_node_of_json toy_l1_proxy_def toy_walked_def walk_values)

lemma toy_known: "known_infos toy_walked = {\<lparr>original_address = 9, original_rollup_id = 0\<rparr>}"
  by (auto simp: known_infos_def toy_walked_def split: if_splits)

theorem children_of_simulation_witness:
  "map proxy_call_key (fst (walk_l2_simulation_trace toy_sim 0 1 toy_callback 1 None)) = [(9, [7], 0, 4)]"
proof -
  have walk: "simulation_walk toy_sim 0 1 toy_callback None = toy_walked" by (rule toy_callback_walk) (simp add: toy_sim_def)
  have "ordered_by_hash toy_sim" by (simp add: ordered_by_hash_def toy_sim_def)
  moreover have "inj_on original_address (known_infos (simulation_walk toy_sim 0 1 toy_callback None))" by (simp add: walk toy_known)
  moreover have "filter (\<lambda>c. \<not> calls_home toy_walked 1 c) cs = cs" for cs by (simp add: calls_home_def toy_known)
  ultimately show ?thesis using children_of_simulation [of toy_sim 0 1 toy_callback None 1] walk by (simp add: toy_walked_def traced_key_def)
qed

text \<open>
  With proxies of one address on both rollups, the order in which a hash map is visited decides
  whether the call counts as a call back to L1.
\<close>

definition toy_two_proxies :: "address \<Rightarrow> proxy_info option" where
  "toy_two_proxies a = (if a = 3 then Some \<lparr>original_address = 9, original_rollup_id = 0\<rparr>
     else if a = 2 then Some \<lparr>original_address = 9, original_rollup_id = 1\<rparr> else None)"

definition toy_two_calls :: json where
  "toy_two_calls = toy_call_node ''rrrrr'' ''ssssss'' ''0x''
     [toy_call_node ''ppp'' ''aaaa'' ''0x07'' [toy_call_node ''m'' ''ppp'' ''0x01020304'' []],
      toy_call_node ''qq'' ''aaaa'' ''0x08'' [toy_call_node ''m'' ''qq'' ''0x01020304'' []]]"

lemma hash_order_decides:
  "map pc_data (fst (walk_l2_simulation_trace (toy_sim\<lparr>sim_walker := \<lambda>_. toy_walker toy_two_proxies, hash_order := \<lambda>_. [2, 3]\<rparr>) 0 1 toy_two_calls 1 None)) = []"
  "map pc_data (fst (walk_l2_simulation_trace (toy_sim\<lparr>sim_walker := \<lambda>_. toy_walker toy_two_proxies, hash_order := \<lambda>_. [3, 2]\<rparr>) 0 1 toy_two_calls 1 None)) = [[7], [8]]"
proof -
  have node: "node_of_json toy_two_calls = Some (toy_typed ''rrrrr'' ''ssssss'' ''0x''
     [toy_typed ''ppp'' ''aaaa'' ''0x07'' [toy_typed ''m'' ''ppp'' ''0x01020304'' []],
      toy_typed ''qq'' ''aaaa'' ''0x08'' [toy_typed ''m'' ''qq'' ''0x01020304'' []]])" by code_simp
  have "hex_text ''08'' = Some [8]" by code_simp
  then show "map pc_data (fst (walk_l2_simulation_trace (toy_sim\<lparr>sim_walker := \<lambda>_. toy_walker toy_two_proxies, hash_order := \<lambda>_. [2, 3]\<rparr>) 0 1 toy_two_calls 1 None)) = []"
    "map pc_data (fst (walk_l2_simulation_trace (toy_sim\<lparr>sim_walker := \<lambda>_. toy_walker toy_two_proxies, hash_order := \<lambda>_. [3, 2]\<rparr>) 0 1 toy_two_calls 1 None)) = [[7], [8]]"
    by (simp_all add: walk_l2_simulation_trace_def simulation_walk_def node toy_two_proxies_def walk_values toy_sim_def List.map_filter_simps
        proxy_call_of_def recovered_identity_def identity_of_def)
qed

section \<open>Enriching two calls\<close>

definition toy_answer :: "string \<Rightarrow> json" where
  "toy_answer out = JObject [(''output'', JText out)]"

text \<open>The node runs every bundle and answers 7 in the second transaction and 8 in the third.\<close>

definition toy_l2_answer :: "json json_rpc_response" where
  "toy_l2_answer = \<lparr>rpc_result = Some (JList [JList [toy_answer ''0x'', toy_answer ''0x07'', toy_answer ''0x08'']]), rpc_error = None\<rparr>"

definition toy_callback_answer :: "json json_rpc_response" where
  "toy_callback_answer = \<lparr>rpc_result = Some (JList [JList [toy_answer ''0x'', toy_callback]]), rpc_error = None\<rparr>"

definition toy_word :: string where
  "toy_word = ''0x'' @ replicate 63 CHR ''0'' @ ''6''"

definition toy_system :: "json json_rpc_response" where
  "toy_system = \<lparr>rpc_result = Some (JText toy_word), rpc_error = None\<rparr>"

definition toy_process :: "json json_rpc_response \<Rightarrow> process_env" where
  "toy_process answer = \<lparr>px_base = toy_sim, px_services = toy_l1_services,
     px_direction = \<lparr>l12_l2_ccm = 1, l12_l1_ccm = 8, l12_rollup_id = 1\<rparr>, px_user = toy_user, px_has_builder_key = False,
     px_l2_traces = (\<lambda>_ _ _ _. Some answer), px_l2_walker = (\<lambda>_ _ _. toy_walker toy_l1_proxy),
     px_system_address = (\<lambda>_ _ _. Some toy_system), px_l1_traces = (\<lambda>_ _. None), px_child_traces = (\<lambda>_ _ _. None),
     px_l1_walker = (\<lambda>_. toy_walker toy_l1_proxy)\<rparr>"

definition toy_l1_call :: "u8 \<Rightarrow> discovered_call" where
  "toy_l1_call b = \<lparr>dsc_destination = 7, dsc_calldata = [b], dsc_value = 2, dsc_source_address = 5, dsc_parent = Root, dsc_trace_depth = 1,
     dsc_iteration = 0, dsc_in_reverted_frame = False, dsc_delivery_return_data = [], dsc_delivery_failed = False, dsc_target_rollup_id = 0\<rparr>"

definition toy_enriched :: "discovered_call list" where
  "toy_enriched = or_default [] (initial_enrichment (toy_process toy_l2_answer) [toy_l1_call 1, toy_l1_call 2])"

lemma toy_env [simp]:
  "sim_walker (sim_at (toy_process a) r i) n = toy_walker toy_l1_proxy" "l2_traces (sim_at (toy_process a) r i) n b = Some a"
  "hash_order (sim_at (toy_process a) r i) = sorted_list_of_set" "sim_formats (sim_at (toy_process a) r i) = text_formats"
  "px_ccm (toy_process a) = 1" "px_rollup (toy_process a) = 1" "px_child_traces (toy_process a) r i b = None"
  by (simp_all add: sim_at_def toy_process_def toy_sim_def px_ccm_def px_rollup_def)

lemma toy_query [simp]: "query_system_address (sim_at (toy_process a) r i) n = Some 6"
proof -
  have "parse_address_from_abi_return hex_text toy_word = Some 6" by code_simp
  then show ?thesis
    by (simp add: query_system_address_def sim_at_def toy_process_def toy_sim_def toy_system_def eth_call_view_def result_str_def json_ops_def)
qed

lemma toy_answer_fields [simp]:
  "text_field ''output'' (toy_answer out) = Some out" "no_top_error (toy_answer out)" "sub_calls (toy_answer out) = []" "no_error (toy_answer out)"
  by (simp_all add: toy_answer_def text_field_def no_top_error_def no_error_def sub_calls_def or_default_def)

lemma toy_answer_walk [simp]: "walk_l2_simulation_trace (sim_at (toy_process a) r i) n 1 (toy_answer out) rid None = ([], {})"
proof -
  have "node_of_json (toy_answer out) = Some (Call_Trace_Node None None None None (Some out) None None None)"
    by (simp add: node_of_json.simps toy_answer_def typed_calls_def typed_node_def typed_text_def)
  then show ?thesis
    by (simp add: walk_l2_simulation_trace_def simulation_walk_def walk_values List.map_filter_simps)
qed

lemma toy_out [simp]: "extract_return_data_from_trace (toy_answer ''0x07'') = [7]" "extract_return_data_from_trace (toy_answer ''0x08'') = [8]"
  by code_simp+

lemma toy_inner [simp]: "extract_inner_destination_return_data F (toy_answer out) dest = None"
  by (simp add: extract_inner_destination_return_data_def)

lemma toy_bundle [simp]:
  "run_l2_sim_bundle (sim_at (toy_process toy_l2_answer) r i) n sys ccm es cd v = Some (toy_answer ''0x07'', True)"
  by (simp add: run_l2_sim_bundle_def toy_l2_answer_def into_result_def first_bundle_def json_item_def Let_def)

lemma toy_alone [simp]:
  "simulate_l1_to_l2_call_on_l2 (sim_at (toy_process toy_l2_answer) r i) n 1 dest data v src rid sc = ([7], True, [])"
  by (simp add: simulate_l1_to_l2_call_on_l2_def Let_def inner_outcome_def retry_with_result_def or_default_def)

lemma toy_chained [simp]:
  "simulate_l1_to_l2_call_chained_on_l2 (sim_at (toy_process toy_l2_answer) r i) n 1 dest data v src rid [e] [p] (Some 6) sc = Some ([8], True, [])"
proof -
  have "node_of_json (toy_answer out) = Some (Call_Trace_Node None None None None (Some out) None None None)" for out
    by (simp add: node_of_json.simps toy_answer_def typed_calls_def typed_node_def typed_text_def)
  then have "bundle_proxies (sim_at (toy_process toy_l2_answer) r i) n 1 [toy_answer ''0x'', toy_answer ''0x07''] = Map.empty"
    by (simp add: bundle_proxies_def extract_ephemeral_proxies_from_trace_def walk_values)
  then show ?thesis
    by (simp add: simulate_l1_to_l2_call_chained_on_l2_def Let_def toy_l2_answer_def into_result_def first_bundle_def json_item_def
        chained_children_def current_outcome_def or_default_def)
qed

lemma toy_enrichment:
  "map_option (map dsc_delivery_return_data) (initial_enrichment (toy_process toy_l2_answer) [toy_l1_call 1, toy_l1_call 2]) = Some [[7], [8]]"
  by (simp add: initial_enrichment_def simulate_detected_def toy_l1_call_def enrichment_has_partial_revert_def with_outcome_def
      round_system_address_def Let_def)

theorem calls_enriched_in_order_witness:
  "enriched_after (toy_process toy_l2_answer) False (Some 6) 1 [] [] (take 1 toy_enriched) (toy_l1_call 2) (toy_enriched ! 1) \<and>
   map dsc_delivery_return_data toy_enriched = [[7], [8]]"
proof -
  have run: "initial_enrichment (toy_process toy_l2_answer) [toy_l1_call 1, toy_l1_call 2] = Some toy_enriched"
    using toy_enrichment by (auto simp: toy_enriched_def or_default_def)
  have "\<not> enrichment_has_partial_revert [toy_l1_call 1, toy_l1_call 2]" "round_system_address (toy_process toy_l2_answer) 0 = Some 6"
    "px_ccm (toy_process toy_l2_answer) \<noteq> 0" by (simp_all add: enrichment_has_partial_revert_def toy_l1_call_def round_system_address_def)
  then show ?thesis using calls_enriched_in_order [OF run, of 1] toy_enrichment run by simp
qed

section \<open>A call back\<close>

definition toy_processed :: "discovered_call list" where
  "toy_processed = or_default [] (processed_calls (toy_process toy_callback_answer) False [toy_l1_call 1] Map.empty)"

lemma toy_callback_children:
  "map dsc_parent (map (child_call l 0 [] False) (fst (walk_l2_simulation_trace (sim_at (toy_process a) r i) n 1 toy_callback 1 None))) = [l]"
  by (simp add: walk_l2_simulation_trace_def toy_callback_walk toy_walked_def List.map_filter_simps proxy_call_of_def recovered_identity_def
      identity_of_def child_call_def)

lemma toy_callback_alone:
  "snd (simulate_l1_to_l2_call_on_l2 (sim_at (toy_process toy_callback_answer) r i) n 1 dest data v src 1 sc) =
     (True, fst (walk_l2_simulation_trace (sim_at (toy_process toy_callback_answer) r i) (Suc n) 1 toy_callback 1 None))"
proof -
  have "no_top_error toy_callback" by code_simp
  then have "run_l2_sim_bundle (sim_at (toy_process toy_callback_answer) r i) n sys ccm es cd v = Some (toy_callback, True)" for n sys ccm es cd v
    by (simp add: run_l2_sim_bundle_def toy_callback_answer_def into_result_def first_bundle_def json_item_def Let_def)
  moreover have "fst (walk_l2_simulation_trace (sim_at (toy_process toy_callback_answer) r i) n 1 toy_callback 1 None) \<noteq> []"
    using toy_callback_children [of Root toy_callback_answer r i n] by auto
  ultimately show ?thesis by (simp add: simulate_l1_to_l2_call_on_l2_def Let_def retry_with_placeholders_def)
qed

lemma toy_processing:
  "map_option (map dsc_parent) (processed_calls (toy_process toy_callback_answer) False [toy_l1_call 1] Map.empty) = Some [Root, Child (AbsoluteCallIndex 0)]"
proof -
  obtain ret where "simulate_detected (toy_process toy_callback_answer) 0 0 True sys (toy_l1_call 1) [] [] =
      Some (ret, True, fst (walk_l2_simulation_trace (sim_at (toy_process toy_callback_answer) 0 0) (Suc 1) 1 toy_callback 1 None))" for sys
    using toy_callback_alone [of 0 0 1 7 "[1]" 2 5 "[]"]
    by (cases "simulate_l1_to_l2_call_on_l2 (sim_at (toy_process toy_callback_answer) 0 0) 1 1 7 [1] 2 5 1 []")
      (auto simp: simulate_detected_def toy_l1_call_def scope_for_call_def)
  moreover have "fst (walk_l2_simulation_trace (sim_at (toy_process toy_callback_answer) 0 0) (Suc 1) 1 toy_callback 1 None) \<noteq> []"
    using toy_callback_children [of Root toy_callback_answer 0 0 "Suc 1"] by auto
  ultimately show ?thesis using toy_callback_children [of "Child (AbsoluteCallIndex 0)" toy_callback_answer 0 0 "Suc 1"]
    by (simp add: processed_calls_def initial_enrichment_def final_correction_def Let_def toy_l1_call_def o_def)
qed

theorem processed_calls_linked_witness:
  "well_linked toy_processed \<and> prefix [core (toy_l1_call 1)] (map core toy_processed) \<and> map dsc_parent toy_processed = [Root, Child (AbsoluteCallIndex 0)]"
proof -
  have run: "processed_calls (toy_process toy_callback_answer) False [toy_l1_call 1] Map.empty = Some toy_processed"
    using toy_processing by (auto simp: toy_processed_def or_default_def)
  have "\<forall>c \<in> set [toy_l1_call 1]. dsc_parent c = Root" by (simp add: toy_l1_call_def)
  from processed_calls_linked [OF run this] show ?thesis using toy_processing run by simp
qed

section \<open>A request for a table\<close>

definition toy_wire :: wire where
  "toy_wire = \<lparr>show_u256 = (\<lambda>v. replicate (unat v) CHR ''b''), read_address = (\<lambda>s. Some (of_nat (length s))),
     read_bytes = (\<lambda>s. hex_text (strip_0x s)), read_u256 = (\<lambda>s. Some (if s = ''0x0'' then 0 else of_nat (length s)))\<rparr>"

lemma toy_wire_agrees: "wire_agrees text_formats toy_wire"
proof -
  have "hex_text (hex_encode b) = Some b" for b by (simp add: hex_text_def hex_decode_def hex_encode_pairs)
  moreover have "replicate n CHR ''b'' \<noteq> ''0x0''" for n by (cases n) auto
  ultimately show ?thesis by (simp add: wire_agrees_def text_formats_def toy_wire_def strip_0x_def)
qed

definition toy_table_request :: json where
  "toy_table_request = or_default JNull (table_request text_formats toy_wire ''0x09'' [toy_l1_call 1] 5)"

theorem queued_table_is_traced_table_witness:
  "\<exists>p r s' l2 l1 mode. table_params_of_json toy_wire toy_table_request = Some p \<and> build_execution_table toy_server p idle = (Inr r, s') \<and>
     queued_cross_chain_calls (st_queues s') =
       [With_Continuations l2 l1 5 [9] Outcome_Success mode] \<and>
     (\<forall>E k. px_abi E = toy_abi \<and> px_rollup E = 1 \<longrightarrow>
        postbatch_entries E k [toy_l1_call 1] = map (with_root (or_default 0 (rollup_state_root (px_services E) k))) l1)"
proof -
  have conf: "re_abi toy_server = toy_abi" "cfg_rollup_id (re_config toy_server) = 1" by (simp_all add: toy_server_def toy_builder_def)
  have req: "table_request text_formats toy_wire ''0x09'' [toy_l1_call 1] 5 = Some toy_table_request"
    by (simp add: toy_table_request_def table_request_def or_default_def)
  have "read_bytes toy_wire ''0x09'' = Some [9]" "\<forall>c \<in> set [toy_l1_call 1]. indices_fit c"
    by (code_simp, simp add: toy_l1_call_def indices_fit_def)
  from queued_table_is_traced_table [where R = toy_server and s = idle, OF toy_wire_agrees req this]
  obtain p where p: "table_params_of_json toy_wire toy_table_request = Some p"
    "\<And>r s'. build_execution_table toy_server p idle = (Inr r, s') \<Longrightarrow> \<exists>l2 l1 mode. queued_cross_chain_calls (st_queues s') =
        [With_Continuations l2 l1 5 [9] Outcome_Success mode] \<and>
      (\<forall>E k. px_abi E = toy_abi \<and> px_rollup E = 1 \<longrightarrow>
        postbatch_entries E k [toy_l1_call 1] = map (with_root (or_default 0 (rollup_state_root (px_services E) k))) l1)"
    by (simp only: conf idle_queues append_Nil) metis
  have "tp_calls p = [table_call (toy_l1_call 1)]"
    using p(1) request_read [OF toy_wire_agrees req \<open>read_bytes toy_wire _ = _\<close> \<open>\<forall>c \<in> set _. indices_fit c\<close>] by auto
  from single_call_table [OF this, of toy_server idle]
  obtain r s' where "build_execution_table toy_server p idle = (Inr r, s')"
    by (auto simp: Let_def same_detected_call is_l2_to_l1_child_def l1_detected_def toy_l1_call_def toy_server_def toy_builder_def)
  then show ?thesis using p by meson
qed

end
