(* ===== verification/Spec2Isabelle.thy ===== *)
theory Spec2Isabelle
  imports Entry_Queue Sim_Artifact Call_Discovery Entry_Reconstruction Block_Filtering
    Queue_Drain Builder_Tick Withdrawal_Chains Discovery_Runs Tick_Results L1_Runs
begin

text \<open>
  The driver and the derivation pipeline of a based rollup (\<open>src/crates/based-rollup/src\<close>).

  The program. A builder executes L2 blocks, queues them for L1 and submits them in batches
  together with cross-chain execution entries; L1 says which entries were consumed. Every
  node derives the chain from L1 (\<open>derivation.rs\<close>), filters the blocks whose entries were
  not all consumed (\<open>driver/verify.rs\<close>), builds or verifies them and moves the fork choice of
  its engine (\<open>driver/types.rs\<close>, \<open>driver/build.rs\<close>, \<open>driver/rewind.rs\<close>). Where the derived
  chain and the local one differ, the driver rewinds or rebuilds a block as a sibling.

  Theories, from the leaves to the root, with the code they model:
    \<^item> Prelude: machine words, saturating arithmetic, panics as values, list slices.
    \<^item> \<open>Cross_Chain_Types\<close>: the types of \<open>cross_chain.rs\<close> and their ABI counterparts;
      \<open>Sim_Artifact\<close>, \<open>Call_Discovery\<close>: helpers of call discovery there; \<open>Call_Entries\<close>:
      the entries of calls, withdrawals and blocks, their split into table and triggers;
      \<open>Entry_Reconstruction\<close>: rebuilding L2 entries from L1 logs; \<open>State_Deltas\<close>: the
      chained roots on entries; \<open>Trigger_Filter\<close>: triggers, the consumed prefix, log parsers.
    \<^item> \<open>Derivation\<close>, \<open>Derivation_Cursor\<close>: \<open>derivation.rs\<close>, first the pure part of
      \<open>derive_next_batch\<close>, then the stateful pipeline: commit, reorg detection, rollback,
      checkpoints. A pipeline is the record \<open>pipeline\<close>; a derived batch is committed only
      by the caller.
    \<^item> \<open>Entry_Queue\<close>: \<open>entry_queue.rs\<close> with its waiters as interleaved steps; \<open>Hold\<close>:
      \<open>driver/hold.rs\<close>; \<open>Pending_Queue\<close>: \<open>driver/pending_queue.rs\<close>; \<open>Queue_Drain\<close>: the RPC
      queues of \<open>driver/step_builder.rs\<close>.
    \<^item> \<open>Fork_Choice\<close>: the engine calls with their retry, the head and its tracked hashes;
      \<open>Recovery\<close>: the driver's record and its recovery decisions; \<open>Driver_Steps\<close>: the
      verification of a block, the checks before a submission and the sync tick.
    \<^item> \<open>Tx_Journal\<close>: the crash journal (\<open>driver/journal.rs\<close>); \<open>Flush\<close>: the submission of a
      batch (\<open>driver/flush.rs\<close>, \<open>driver/flush_plan.rs\<close>): the batch, the root check, the hold, the
      send, the triggers, the receipt and the consumption check.
    \<^item> \<open>Protocol_Txs\<close>: the builder's transactions of a block; \<open>Block_Filtering\<close>: trial
      execution, filtering and intermediate roots.
    \<^item> \<open>Builder_Step\<close>, \<open>Builder_Tick\<close>: a tick of the builder (\<open>driver/step_builder.rs\<close>) and
      of a fullnode, first the steps, then what they promise; \<open>Driver_Tick\<close>,
      \<open>Tick_Results\<close>: the tick around them (\<open>step\<close> and \<open>run\<close> of \<open>driver/mod.rs\<close>): pending
      rewinds, anchor refreshes, L1 reorgs, the switch of the L1 provider, start-up.
    \<^item> \<open>Table_Builder\<close>, \<open>Withdrawal_Tables\<close>: \<open>table_builder.rs\<close>, the entries of the calls
      that a composer detected, to L2 and to L1; \<open>Table_Consumption\<close>, \<open>Withdrawal_Chains\<close>:
      their order on chain, their chains and their ether.
    \<^item> \<open>Rpc_Common\<close>, \<open>Trace_Walker\<close>, \<open>Discovery\<close>, \<open>Directions\<close> (\<open>composer_rpc\<close>): reading
      JSON-RPC answers and traces, the walk that finds cross-chain calls, the discovery loop
      and the two directions as interpretations of one locale; \<open>Discovery_Runs\<close>: what a
      discovery finds and how it ends.
    \<^item> \<open>Rpc_Server\<close>, \<open>Rpc_Requests\<close>: the RPC namespace that fills the queues (\<open>rpc.rs\<close>) with the
      planner it calls (\<open>execution_planner.rs\<close>), and its requests interleaved with drains.
    \<^item> \<open>Json_Traces\<close>, \<open>Hex_Codec\<close>, \<open>L2_Simulation\<close>, \<open>L1_Enrichment\<close>, \<open>L1_Process\<close>, \<open>L1_Proxy\<close>
      (\<open>composer_rpc/l1_to_l2\<close>): the composer for L1 transactions. Searches in raw traces and the
      hex codec; the simulation of a call on L2 alone and after others; the rounds that enrich
      the calls with their results and find new ones; the last corrections and the request for
      the table; the answers to HTTP requests. \<open>Table_Requests\<close>: how the L2 node reads that
      request; \<open>L1_Runs\<close>: runs against small nodes.
    \<^item> This theory ties block building to derivation.

  State and effects. Rust structs are records, enums datatypes, \<open>u64\<close>, \<open>u128\<close> and \<open>U256\<close>
  words that wrap where the release build wraps; \<open>saturating_\<close> and \<open>checked_\<close> operations are
  written out. A method that takes \<open>&mut self\<close> returns the new record, also on its error
  paths. A fallible function returns a sum, the error on the left; a panic is a value of the
  type \<open>panic\<close>. Async functions run to completion between two steps of a driver; only the
  entry queue, which tasks share, is an interleaving of atomic steps.

  Parameters. The L1 node, the engine, the database, the EVM, the transaction pool, hashing,
  signing and the ABI and RLP codecs are not in this repository. They are function arguments,
  collected in records (\<open>abi\<close>, \<open>engine_client\<close>, \<open>executor\<close>, \<open>tx_encoders\<close>, \<open>block_env\<close>,
  the L1 node of \<open>Derivation\<close>); theorems that rely on their behaviour say so in a premise.

  What the lemmas show. Derivation: blocks are contiguous, consumption is first in first out
  and what is left over decides which blocks are filtered, the cursor stays sorted and bounded, a
  detected reorg is resolved by one rollback, a restart restores the positions and rebuilds
  exactly the cursor that the headers give. Entries: the L1 and L2 forms of pairs are inverse, deltas form one
  chain of roots, the filter keeps exactly the consumed triggers. Queues: no call is lost, the
  lifecycle of receipts, where wake-ups get lost. Driver: the head moves only after the engine
  accepted, a sync tick commits a batch with all its new blocks built or leaves the pipeline alone (blocks at
  heights already held are skipped), a match needs equal context and root while a gap block is accepted on
  its context alone, a submission passes all its gates, mismatching entry blocks are deferred
  twice and then rewound, several recoveries leave the lowest of their targets. Submission: one
  batch of one L1 context is sent under an armed hold; a failed send or a missing receipt restores
  everything, a reverted batch is dropped and derived again; the events of a confirmed one decide
  about the hold; the journal survives a crash. Ticks: the backlog of the bundle path is bounded,
  the entries that wait go to blocks in order and none is left. Block building: nonces are
  consecutive, limiting the triggers is filtering the full block, the user transactions fit,
  and the root of what a fullnode builds is the root L1 holds.
  Tables: the construction ends for every input, void calls and plain withdrawals form one
  chain, ether is accounted once, single calls get the entries of the simple builders; some
  lemmas show inputs on which a table does not do what its documentation says. Ticks: the L1
  provider follows streaks of results, the user transactions of reverted blocks are handed
  to the pool again, a failed rewind after a reorg is forgotten. RPC: the queues of calls are bounded while
  builds succeed (the queue of transactions to forward is not), an accepted call is drained by
  the next build and forwarded, put back or, when a recovery stops the tick, lost. Composer: a walk finds exactly the
  proxy calls, discoveries converge, every call is simulated after its predecessors, links
  stay valid, and the L1 entries that the node queues are those that the composer traced, state roots apart.

  Bounds. The fork-choice retry stops after 6 attempts (\<open>FCU_SYNCING_MAX_RETRIES\<close>), so its
  recursion is on that number. The builder's loop ends because its target minus its head
  decreases; every other loop is structural or has a decreasing length. Fuel is used only for
  the two recursions of \<open>Withdrawal_Tables\<close> along parent links; it is the number of detected
  calls, and the totality theorem of \<open>Withdrawal_Chains\<close> shows that it is enough.

  Not modelled. The composer for L2 transactions (\<open>composer_rpc/l2_to_l1\<close> and the delivery
  simulations of \<open>delivery.rs\<close>) beyond its discovery: it is the same scheme in the other
  direction, driven by the traces of a remote L1. HTTP, JSON-RPC, the L1 transactions of \<open>proposer.rs\<close> and the reth node
  wiring are input and output. The contracts are not in this repository: swap-and-pop
  consumption is taken from the comments and tests of \<open>table_builder.rs\<close>. Logging and metrics
  are left out everywhere.
\<close>

section \<open>Builder, L1 and fullnode\<close>

text \<open>
  C1: the builder's roots, the deltas on L1 and the fullnode's block agree. A builder computes
  the root for every number of consumed triggers of its block and attaches them, one group of
  entries per trigger, to what it submits. Whatever number of triggers L1 consumed, the
  effective root that derivation walks over the entries of the consumed groups is the state
  root of the block that a fullnode builds from the filtered transactions.
\<close>

theorem fullnode_follows_consumed_groups:
  assumes "build_derived_block X (saturating_sub (l2_block_number b) 1) (l2_timestamp b) (l1_info b) (db_transactions b) = Inr full"
    and "compute_intermediate_roots X sig ccm (saturating_sub (l2_block_number b) 1) (l2_timestamp b) (l1_info b)
      (built_state_root full) (db_transactions b) = Inr roots"
    and "attach_generic_state_deltas A (concat gs) roots rollup (starts_of 0 gs) = Inr es"
    and "\<forall>g \<in> set gs. g \<noteq> []" and "length roots = length gs + 1"
    and "filtering b = Some f" and "apply_deferred_filtering X sig ccm V c False b nonce = (Inr txs, nonce')"
    and "build_derived_block X (saturating_sub (l2_block_number b) 1) (l2_timestamp b) (l1_info b) txs = Inr built"
    and "trial_execute_for_receipts X (saturating_sub (l2_block_number b) 1) (l2_timestamp b) (l1_info b)
      (db_transactions b) = Inr receipts"
    and "k = prefix_as_usize (fst (compute_consumed_trigger_prefix sig receipts ccm (l1_consumed_remaining f)
      (identify_trigger_tx_indices sig receipts ccm)))"
  shows "effective_state_root (RollupId (ucast rollup)) {} (hd roots) (take (length (concat (take k gs))) es) =
    built_state_root built"
proof -
  have "apply_generic_filtering X sig ccm b f = Inr txs"
    using assms(6,7) by (simp add: apply_deferred_filtering_def)
  from filtered_root [OF assms(1,2) this assms(8-10)] have k: "k \<le> length gs" "built_state_root built = roots ! k"
    using assms(5) by simp_all
  show ?thesis unfolding k(2) by (rule effective_root_of_groups [OF assms(3-5) k(1)])
qed

theorem fullnode_follows_consumed_groups_witness:
  "\<exists>es. attach_generic_state_deltas hash_by_value (concat [[sample_entry], [sample_entry, sample_entry], [sample_entry]])
      [1, 11, 31, 61] 1 [0, 1, 3] = Inr es \<and>
    effective_state_root (RollupId (ucast (1 :: u64))) {} 1 (take 1 es) = 11"
proof -
  let ?gs = "[[sample_entry], [sample_entry, sample_entry], [sample_entry]]"
  have attach: "attach_generic_state_deltas hash_by_value (concat ?gs) [1, 11, 31, 61] 1 (starts_of 0 ?gs) =
      Inr (groups_result hash_by_value 1 [1, 11, 31, 61] ?gs)"
    using attach_groups_result [of "[1, 11, 31, 61]" ?gs hash_by_value 1 "[]"] by (simp add: attach_generic_state_deltas_def)
  have "effective_state_root (RollupId (ucast (1 :: u64))) {} (hd [1, 11, 31, 61])
      (take (length (concat (take 1 ?gs))) (groups_result hash_by_value 1 [1, 11, 31, 61] ?gs)) =
    built_state_root \<lparr>built_hash = 0, pre_state_root = 0, built_state_root = 11, tx_count = 0, encoded_transactions = []\<rparr>"
    by (rule fullnode_follows_consumed_groups [where X = toy_executor and sig = 1 and ccm = 2 and txs = "[1, 10]" and
          b = "toy_derived [1, 10, 20, 30]\<lparr>filtering := Some toy_filtering\<rparr>" and f = toy_filtering and V = toy_env and
          c = toy_builder and nonce = 0 and nonce' = 0 and
          full = "\<lparr>built_hash = 0, pre_state_root = 0, built_state_root = 61, tx_count = 0, encoded_transactions = []\<rparr>" and
          receipts = "[[], [\<lparr>log_address = 2, topics = [1, 10], log_data = []\<rparr>], [\<lparr>log_address = 2, topics = [1, 20], log_data = []\<rparr>],
            [\<lparr>log_address = 2, topics = [1, 30], log_data = []\<rparr>]]", OF _ _ attach])
      (simp_all add: toy_executor_def toy_derived_def toy_filtering_def build_derived_block_def execute_block_def
        compute_intermediate_roots_def trial_execute_for_receipts_def identify_trigger_tx_indices_def emits_consumed_def
        filter_block_by_trigger_prefix_def filter_txs_def compute_state_root_with_entries_def apply_generic_filtering_def
        apply_deferred_filtering_def compute_consumed_trigger_prefix_def consumed_hashes_def available_def decrement_def)
  with attach show ?thesis by (simp add: numeral_3_eq_3)
qed

end
